(* ===== verification/Prelude.thy ===== *)
theory Prelude
  imports Main "HOL-Library.Word" "HOL-Library.Monad_Syntax"
begin

text \<open>
  Shared vocabulary of the development: the C integer types of \<open>dbvm/vmm/common.h\<close>
  as words, the collections of simplification rules the component theories extend, and
  generic lemmas on lists, loops over arrays and words.
\<close>

unbundle bit_operations_syntax

section \<open>The C types\<close>

type_synonym u8 = "8 word"
type_synonym u16 = "16 word"
type_synonym u32 = "32 word"
type_synonym u64 = "64 word"

named_theorems array_simps "element-wise facts of the array loops"
named_theorems mask_simps "conjunctions with constant masks as bit fields"

section \<open>Bounded quantifiers\<close>

lemma all_less_add: "(\<forall>k < m + n. P k) \<longleftrightarrow> (\<forall>k<n. P (m + k)) \<and> (\<forall>k<m. P k)" for m n :: nat
proof
  assume "\<forall>k < m + n. P k"
  then show "(\<forall>k<n. P (m + k)) \<and> (\<forall>k<m. P k)" by auto
next
  assume *: "(\<forall>k<n. P (m + k)) \<and> (\<forall>k<m. P k)"
  show "\<forall>k < m + n. P k"
  proof (intro allI impI)
    fix k assume "k < m + n"
    then show "P k" using * by (cases "k < m") (auto dest!: spec [of _ "k - m"])
  qed
qed

section \<open>Array loops\<close>

text \<open>
  The C code moves array elements by one place with two idioms,
  \<open>for (i=n; i>s; i--) a[i]=a[i-1];\<close> and \<open>for (j=i; j<n-1; j++) a[j]=a[j+1];\<close>.
  Both are kept as loops over \<open>list_update\<close>; the lemmas give their effect.
\<close>

fun shift_up :: "'a list \<Rightarrow> nat \<Rightarrow> nat \<Rightarrow> 'a list" where
  "shift_up xs i s = (if i > s then shift_up (xs[i := xs ! (i - 1)]) (i - 1) s else xs)"

declare shift_up.simps [simp del]

function shift_down :: "'a list \<Rightarrow> nat \<Rightarrow> nat \<Rightarrow> 'a list" where
  "shift_down xs j n =
     (if j + 1 < n then shift_down (xs[j := xs ! (j + 1)]) (j + 1) n else xs)"
  by pat_completeness auto
termination
  by (relation "measure (\<lambda>(xs, j, n). n - j)") auto

declare shift_down.simps [simp del]

lemma length_shift_up [simp]: "length (shift_up xs i s) = length xs"
  by (induction xs i s rule: shift_up.induct) (subst shift_up.simps, simp)

lemma length_shift_down [simp]: "length (shift_down xs j n) = length xs"
  by (induction xs j n rule: shift_down.induct) (subst shift_down.simps, simp)

lemma nth_shift_up:
  "i < length xs \<Longrightarrow> k < length xs \<Longrightarrow> s \<le> i \<Longrightarrow>
   shift_up xs i s ! k = (if s < k \<and> k \<le> i then xs ! (k - 1) else xs ! k)"
proof (induction xs i s rule: shift_up.induct)
  case (1 xs i s)
  show ?case
  proof (cases "i > s")
    case True
    have "shift_up xs i s ! k = shift_up (xs[i := xs ! (i - 1)]) (i - 1) s ! k"
      using True by (subst shift_up.simps) simp
    also have "\<dots> = (if s < k \<and> k \<le> i - 1 then xs[i := xs ! (i - 1)] ! (k - 1)
                     else xs[i := xs ! (i - 1)] ! k)"
      using "1.IH" [OF True] "1.prems" True by auto
    also have "\<dots> = (if s < k \<and> k \<le> i then xs ! (k - 1) else xs ! k)"
      using "1.prems" True by (auto simp: nth_list_update)
    finally show ?thesis .
  next
    case False
    then show ?thesis using "1.prems" by (subst shift_up.simps) auto
  qed
qed

lemma nth_shift_down:
  "n \<le> length xs \<Longrightarrow> k < length xs \<Longrightarrow>
   shift_down xs j n ! k = (if j \<le> k \<and> k + 1 < n then xs ! (k + 1) else xs ! k)"
proof (induction xs j n rule: shift_down.induct)
  case (1 xs j n)
  show ?case
  proof (cases "j + 1 < n")
    case True
    have "shift_down xs j n ! k = shift_down (xs[j := xs ! (j + 1)]) (j + 1) n ! k"
      using True by (subst shift_down.simps) simp
    also have "\<dots> = (if j + 1 \<le> k \<and> k + 1 < n then xs[j := xs ! (j + 1)] ! (k + 1)
                     else xs[j := xs ! (j + 1)] ! k)"
      using "1.IH" [OF True] "1.prems" by auto
    also have "\<dots> = (if j \<le> k \<and> k + 1 < n then xs ! (k + 1) else xs ! k)"
      using "1.prems" True by (auto simp: nth_list_update)
    finally show ?thesis .
  next
    case False
    then show ?thesis by (subst shift_down.simps) auto
  qed
qed

lemma shift_up_insert [array_simps]:
  assumes "s \<le> length xs"
  shows "(shift_up (xs @ [y]) (length xs) s)[s := x] = take s xs @ x # drop s xs"
proof (rule nth_equalityI)
  show "length ((shift_up (xs @ [y]) (length xs) s)[s := x]) = length (take s xs @ x # drop s xs)"
    using assms by simp
next
  fix k assume "k < length ((shift_up (xs @ [y]) (length xs) s)[s := x])"
  then have k: "k < Suc (length xs)" by simp
  show "(shift_up (xs @ [y]) (length xs) s)[s := x] ! k = (take s xs @ x # drop s xs) ! k"
    using assms k
    by (cases "k = s")
       (auto simp: nth_list_update nth_shift_up nth_append nth_Cons' min_def)
qed

lemma shift_down_remove [array_simps]:
  assumes "i < length xs"
  shows "take (length xs - 1) (shift_down xs i (length xs)) = take i xs @ drop (Suc i) xs"
proof (rule nth_equalityI)
  show "length (take (length xs - 1) (shift_down xs i (length xs)))
        = length (take i xs @ drop (Suc i) xs)"
    using assms by simp
next
  fix k assume "k < length (take (length xs - 1) (shift_down xs i (length xs)))"
  then have k: "k + 1 < length xs" by simp
  show "take (length xs - 1) (shift_down xs i (length xs)) ! k
        = (take i xs @ drop (Suc i) xs) ! k"
    using assms k by (auto simp: nth_shift_down nth_append min_def)
qed

section \<open>Strictly sorted keys\<close>

lemma sorted_wrt_map_insert:
  fixes f :: "'a \<Rightarrow> 'b::linorder"
  assumes "sorted_wrt (<) (map f xs)" and "s \<le> length xs"
    and lt: "\<And>i. i < s \<Longrightarrow> f (xs ! i) < f x"
    and gt: "\<And>i. i < length xs \<Longrightarrow> s \<le> i \<Longrightarrow> f x < f (xs ! i)"
  shows "sorted_wrt (<) (map f (take s xs @ x # drop s xs))"
proof -
  have split: "sorted_wrt (<) (map f (take s xs) @ map f (drop s xs))"
    using assms(1) by (simp flip: map_append)
  have lo: "\<forall>y\<in>set (take s xs). f y < f x"
    using assms(2) lt by (auto simp: in_set_conv_nth)
  have hi: "\<forall>y\<in>set (drop s xs). f x < f y"
    using assms(2) gt by (auto simp: in_set_conv_nth)
  show ?thesis
    using split lo hi by (auto simp: sorted_wrt_append intro: less_trans)
qed

lemma set_drop_Suc_subset: "y \<in> set (drop (Suc i) xs) \<Longrightarrow> y \<in> set (drop i xs)"
  by (metis in_set_dropD drop_drop plus_1_eq_Suc)

lemma sorted_wrt_map_remove:
  assumes "sorted_wrt P (map f xs)"
  shows "sorted_wrt P (map f (take i xs @ drop (Suc i) xs))"
proof -
  have "sorted_wrt P (map f (take i xs) @ map f (drop i xs))"
    using assms by (simp flip: map_append)
  moreover have "sorted_wrt P (map f (drop (Suc i) xs))"
    using assms by (metis drop_map sorted_wrt_drop)
  ultimately show ?thesis
    by (auto simp: sorted_wrt_append dest: set_drop_Suc_subset)
qed

section \<open>Constant masks\<close>

lemma and_low_mask [mask_simps]:
  fixes a :: u64
  shows "a AND 0xff = take_bit 8 a" "a AND 0x1ff = take_bit 9 a" "a AND 0x3ff = take_bit 10 a"
    "a AND 0xfff = take_bit 12 a" "a AND 0xffff = take_bit 16 a" "a AND 0x1FFFFF = take_bit 21 a"
    "a AND 0x3FFFFF = take_bit 22 a" "a AND 0xFFFFFFFF = take_bit 32 a"
  by (simp_all add: take_bit_eq_mask mask_eq_exp_minus_1)

lemma and_high_mask:
  fixes a :: u64
  assumes "m = - (2 ^ n)"
  shows "a AND m = push_bit n (drop_bit n a)"
proof -
  have "m = NOT (mask n)"
    using assms by (simp add: mask_eq_exp_minus_1 not_eq_complement)
  then show ?thesis
    by (auto intro!: bit_eqI simp: bit_and_iff bit_not_iff bit_mask_iff bit_push_bit_iff bit_drop_bit_eq
        dest: bit_imp_le_length)
qed

lemma and_page_mask [mask_simps]:
  fixes a :: u64
  shows "a AND 0xfffffffffffff000 = push_bit 12 (drop_bit 12 a)"
    "a AND 0xffffffffffff0000 = push_bit 16 (drop_bit 16 a)"
    "a AND 0xffffffffffffff00 = push_bit 8 (drop_bit 8 a)"
    "a AND 0xffffffff00000000 = push_bit 32 (drop_bit 32 a)"
  by (rule and_high_mask, simp)+

lemma unat_take_bit_less: "unat (take_bit n a) < 2 ^ n" for a :: "'a::len word"
  by (simp add: unsigned_take_bit_eq take_bit_nat_less_exp)

section \<open>Page number and offset\<close>

lemma bit_push_add:
  fixes w p :: u64
  assumes "take_bit n p = p"
  shows "bit (push_bit n w + p) k = (if k < n then bit p k else k < 64 \<and> bit w (k - n))"
proof -
  have p: "\<not> bit p j" if "n \<le> j" for j
    using assms that by (metis bit_take_bit_iff not_le)
  have "push_bit n w + p = push_bit n w OR p"
    by (rule disjunctive_add) (auto simp: bit_push_bit_iff p)
  then show ?thesis
    using p by (auto simp: bit_or_iff bit_push_bit_iff not_less dest: bit_imp_le_length)
qed

lemma take_bit_push_add:
  fixes w p :: u64
  assumes "take_bit n p = p"
  shows "take_bit n (push_bit n w + p) = p"
    and "push_bit n (drop_bit n (push_bit n w + p)) = push_bit n w"
proof -
  have p: "bit p k \<Longrightarrow> k < n" for k
    using assms by (metis bit_take_bit_iff)
  show "take_bit n (push_bit n w + p) = p"
    by (rule bit_eqI) (auto simp: bit_take_bit_iff bit_push_add [OF assms] dest: p)
  show "push_bit n (drop_bit n (push_bit n w + p)) = push_bit n w"
    by (rule bit_eqI) (auto simp: bit_push_bit_iff bit_drop_bit_eq bit_push_add [OF assms])
qed

text \<open>Stepping inside a page moves the offset only.\<close>

lemma page_step:
  fixes a :: u64
  assumes "unat (take_bit 12 a) + i < 4096"
  shows "take_bit 12 (a + of_nat i) = take_bit 12 a + of_nat i"
    and "push_bit 12 (drop_bit 12 (a + of_nat i)) = push_bit 12 (drop_bit 12 a)"
proof -
  let ?t = "take_bit 12 a + of_nat i"
  have "unat ?t = unat (take_bit 12 a) + i"
    using assms by (simp add: unat_word_ariths unsigned_of_nat take_bit_nat_eq_self)
  then have "take_bit 12 ?t = ?t"
    using assms by (simp add: word_unat_eq_iff unsigned_take_bit_eq take_bit_nat_eq_self)
  then show "take_bit 12 (a + of_nat i) = take_bit 12 a + of_nat i"
    and "push_bit 12 (drop_bit 12 (a + of_nat i)) = push_bit 12 (drop_bit 12 a)"
    using take_bit_push_add [of 12 ?t "drop_bit 12 a"] bits_ident [of 12 a]
    by (simp_all flip: add.assoc)
qed

lemma mod_add_left_inj:
  fixes u i j m :: nat
  assumes "(u + i) mod m = (u + j) mod m" and "i < m" and "j < m"
  shows "i = j"
proof -
  have *: "i = j" if "(u + i) mod m = (u + j) mod m" "j < m" "i \<le> j" for i j
  proof -
    have "m dvd (u + j) - (u + i)"
      using that mod_eq_dvd_iff_nat [of "u + i" "u + j" m] by simp
    then have "m dvd j - i" by simp
    moreover have "j - i < m" using that by simp
    ultimately show "i = j" using that(3) by (auto dest: dvd_imp_le)
  qed
  show ?thesis
    using * [of i j] * [of j i] assms by (cases "i \<le> j") auto
qed

lemma take_bit_add_left: "take_bit n (take_bit n a + b) = take_bit n (a + b)" for a b :: "u64"
proof -
  let ?c = "take_bit n a + b"
  have "a + b = push_bit n (drop_bit n a) + ?c"
    using bits_ident [of n a] by (simp flip: add.assoc)
  also have "\<dots> = push_bit n (drop_bit n a) + (push_bit n (drop_bit n ?c) + take_bit n ?c)"
    by (simp only: bits_ident)
  also have "\<dots> = push_bit n (drop_bit n a + drop_bit n ?c) + take_bit n ?c"
    by (simp add: push_bit_add add.assoc)
  finally show ?thesis
    using take_bit_push_add(1) [of n "take_bit n ?c" "drop_bit n a + drop_bit n ?c"] by simp
qed

text \<open>Replacing the low bits of a word, as the updates of a partial register do.\<close>

lemma low_bits_update:
  fixes x v :: u64
  assumes "take_bit n v = v"
  shows "take_bit n (push_bit n (drop_bit n x) + v) = v"
    and "push_bit n (drop_bit n (push_bit n (drop_bit n x) + v)) = push_bit n (drop_bit n x)"
  using take_bit_push_add [OF assms, of "drop_bit n x"] by auto

text \<open>A symmetric relation that holds of no element with itself does not depend on the order.\<close>

lemma sorted_wrt_symmetric:
  assumes "\<And>a b. R a b \<Longrightarrow> R b a" and "\<And>a. a \<in> set xs \<Longrightarrow> \<not> R a a"
  shows "sorted_wrt R xs \<longleftrightarrow> distinct xs \<and> (\<forall>a \<in> set xs. \<forall>b \<in> set xs. a \<noteq> b \<longrightarrow> R a b)"
  using assms(2)
proof (induction xs)
  case (Cons x xs)
  have "\<not> R x x" by (rule Cons.prems) simp
  then show ?case using Cons assms(1) by auto
qed simp

end
