(* ===== verification/PageIndex.thy ===== *)
theory PageIndex
  imports Prelude
begin

text \<open>
  The interface that \<open>epthandler.c\<close> uses for its two indexes of cloaked pages, the sorted
  array of \<open>list.c\<close> and the radix tree of \<open>maps.c\<close>: a keyed store of pointers, a pointer
  being \<open>Some\<close> of a non-null one and \<open>None\<close> for \<open>NULL\<close>. An address selects an entry
  through its key: the whole address for the list, the page number for the map.
\<close>

locale page_index =
  fixes lookup :: "'s \<Rightarrow> u64 \<Rightarrow> 'd option"
    and insert_at :: "'s \<Rightarrow> u64 \<Rightarrow> 'd \<Rightarrow> 's option"
    and remove_at :: "'s \<Rightarrow> u64 \<Rightarrow> 's"
    and key_of :: "'s \<Rightarrow> u64 \<Rightarrow> u64"
    and invar :: "'s \<Rightarrow> bool"
  assumes invar_insert: "invar s \<Longrightarrow> insert_at s a d = Some t \<Longrightarrow> invar t"
    and invar_remove: "invar s \<Longrightarrow> invar (remove_at s a)"
    and key_insert: "invar s \<Longrightarrow> insert_at s a d = Some t \<Longrightarrow> key_of t = key_of s"
    and key_remove: "key_of (remove_at s a) = key_of s"
    and lookup_key: "invar s \<Longrightarrow> key_of s a = key_of s b \<Longrightarrow> lookup s a = lookup s b"
    and lookup_insert: "invar s \<Longrightarrow> insert_at s a d = Some t \<Longrightarrow>
          lookup t b = (if key_of s b = key_of s a then Some d else lookup s b)"
    and lookup_remove: "invar s \<Longrightarrow>
          lookup (remove_at s a) b = (if key_of s b = key_of s a then None else lookup s b)"
begin

text \<open>Inserting a run of entries, as the conversion of the list into the map does.\<close>

fun insert_all :: "'s \<Rightarrow> (u64 \<times> 'd) list \<Rightarrow> 's option" where
  "insert_all s [] = Some s"
| "insert_all s ((a, d) # es) =
     (case insert_at s a d of None \<Rightarrow> None | Some t \<Rightarrow> insert_all t es)"

lemma invar_insert_all:
  "insert_all s es = Some t \<Longrightarrow> invar s \<Longrightarrow> invar t \<and> key_of t = key_of s"
proof (induction s es rule: insert_all.induct)
  case (2 s a d es)
  then obtain u where u: "insert_at s a d = Some u" "insert_all u es = Some t"
    by (auto split: option.splits)
  with 2 have "invar u" "key_of u = key_of s" by (auto intro: invar_insert key_insert)
  with 2 u show ?case by auto
qed auto

lemma lookup_insert_all:
  assumes "insert_all s es = Some t" and "invar s" and "distinct (map (\<lambda>e. key_of s (fst e)) es)"
  shows "lookup t b = (case map_of (map (\<lambda>e. (key_of s (fst e), snd e)) es) (key_of s b) of
           Some d \<Rightarrow> Some d | None \<Rightarrow> lookup s b)"
  using assms
proof (induction s es rule: insert_all.induct)
  case (2 s a d es)
  from "2.prems"(1) obtain u where u: "insert_at s a d = Some u" "insert_all u es = Some t"
    by (auto split: option.splits)
  have iu: "invar u" and ku: "key_of u = key_of s"
    using "2.prems"(2) u(1) by (auto intro: invar_insert key_insert)
  have "lookup t b = (case map_of (map (\<lambda>e. (key_of s (fst e), snd e)) es) (key_of s b) of
           Some d \<Rightarrow> Some d | None \<Rightarrow> lookup u b)"
    using "2.IH" [OF u(1) u(2) iu] "2.prems"(3) by (simp add: ku)
  moreover have "map_of (map (\<lambda>e. (key_of s (fst e), snd e)) es) (key_of s a) = None"
    using "2.prems"(3) by (auto simp: map_of_eq_None_iff image_iff)
  ultimately show ?case
    using lookup_insert [OF "2.prems"(2) u(1), of b] by (auto split: option.split)
qed auto

text \<open>A later removal undoes an insertion of a fresh key, as far as lookups can tell.\<close>

lemma insert_remove:
  assumes "invar s" and "insert_at s a d = Some t" and "lookup s a = None"
  shows "lookup (remove_at t a) b = lookup s b"
proof -
  have "invar t" "key_of t = key_of s"
    using assms by (auto intro: invar_insert key_insert)
  then show ?thesis
    using assms lookup_key [OF assms(1), of b a]
    by (auto simp: lookup_remove lookup_insert [OF assms(1,2)])
qed

end

end
