(* ===== verification/AddrList.thy ===== *)
theory AddrList
  imports PageIndex
begin

text \<open>
  \<open>dbvm/vmm/list.c\<close>: the array of (address, pointer) pairs sorted by address that indexes
  the cloaked pages. \<open>al_entries\<close> are the first \<open>size\<close> cells of the array, \<open>al_bytes\<close> is
  the size in bytes of the block \<open>l->list\<close> points to (\<open>malloc\<close> and \<open>realloc\<close> give it),
  and a store outside the block is \<open>BufferOverflow\<close>. An \<open>AddressListEntry\<close> has 16 bytes.
  The endless loop that \<open>addresslist_add\<close> enters for a duplicate is \<open>AlreadyInList\<close>.
\<close>

record 'd address_list_entry =
  address :: u64
  entry_data :: 'd

record 'd address_list =
  al_entries :: "'d address_list_entry list"
  al_capacity :: nat
  al_bytes :: nat

datatype list_error = AlreadyInList | BufferOverflow

definition entry_bytes :: nat where
  "entry_bytes = 16"

definition al_size :: "'d address_list \<Rightarrow> nat" where
  "al_size l = length (al_entries l)"

section \<open>The operations\<close>

function closest_loop :: "'d address_list_entry list \<Rightarrow> u64 \<Rightarrow> nat \<Rightarrow> nat \<Rightarrow> nat" where
  "closest_loop xs a b e =
     (if b < e then
        let d = (e - b) div 2; i = b + d; v = address (xs ! i) in
        if v = a then i
        else if a < v then closest_loop xs a b i
        else closest_loop xs a (i + 1) e
      else b)"
  by pat_completeness auto
termination
  by (relation "measure (\<lambda>(xs, a, b, e). e - b)") auto

declare closest_loop.simps [simp del]

definition addresslist_findclosestIndex :: "'d address_list \<Rightarrow> u64 \<Rightarrow> int" where
  "addresslist_findclosestIndex l a =
     (if al_size l \<noteq> 0 then int (closest_loop (al_entries l) a 0 (al_size l - 1)) else -1)"

function skip_smaller :: "'d address_list_entry list \<Rightarrow> u64 \<Rightarrow> nat \<Rightarrow> nat" where
  "skip_smaller xs a s =
     (if s < length xs \<and> address (xs ! s) < a then skip_smaller xs a (s + 1) else s)"
  by pat_completeness auto
termination
  by (relation "measure (\<lambda>(xs, a, s). length xs - s)") auto

declare skip_smaller.simps [simp del]

definition addresslist_add ::
  "'d address_list \<Rightarrow> u64 \<Rightarrow> 'd \<Rightarrow> list_error + 'd address_list" where
  "addresslist_add l a d =
     (let s = addresslist_findclosestIndex l a;
          size = al_size l;
          l = (if size \<ge> al_capacity l
               then l\<lparr>al_bytes := size + 32, al_capacity := size + 32\<rparr> else l);
          room = al_bytes l div entry_bytes;
          new = \<lparr>address = a, entry_data = d\<rparr>
      in if s < 0 then
           (if room = 0 then Inl BufferOverflow else Inr (l\<lparr>al_entries := [new]\<rparr>))
         else if room \<le> nat s then Inl BufferOverflow
         else if address (al_entries l ! nat s) = a then Inl AlreadyInList
         else if room \<le> size then Inl BufferOverflow
         else let k = skip_smaller (al_entries l) a (nat s);
                  cells = shift_up (al_entries l @ [new]) size k
              in Inr (l\<lparr>al_entries := cells[k := new]\<rparr>))"

function search_loop :: "'d address_list_entry list \<Rightarrow> u64 \<Rightarrow> nat \<Rightarrow> nat \<Rightarrow> nat option" where
  "search_loop xs a b e =
     (if b < e then
        let d = e - b; i = b + d div 2; v = address (xs ! i) in
        if v = a then Some i
        else if a < v then search_loop xs a b i
        else search_loop xs a (i + 1) e
      else None)"
  by pat_completeness auto
termination
  by (relation "measure (\<lambda>(xs, a, b, e). e - b)") auto

declare search_loop.simps [simp del]

definition addresslist_find :: "'d address_list \<Rightarrow> u64 \<Rightarrow> 'd option" where
  "addresslist_find l a =
     (if al_size l \<noteq> 0
      then map_option (\<lambda>i. entry_data (al_entries l ! i))
             (search_loop (al_entries l) a 0 (al_size l))
      else None)"

definition addresslist_remove :: "'d address_list \<Rightarrow> u64 \<Rightarrow> 'd address_list" where
  "addresslist_remove l a =
     (if al_size l \<noteq> 0
      then (case search_loop (al_entries l) a 0 (al_size l) of
              None \<Rightarrow> l
            | Some i \<Rightarrow> l\<lparr>al_entries :=
                take (al_size l - 1) (shift_down (al_entries l) i (al_size l))\<rparr>)
      else l)"

definition addresslist_create :: "'d address_list" where
  "addresslist_create = \<lparr>al_entries = [], al_capacity = 32, al_bytes = entry_bytes * 32\<rparr>"

section \<open>The binary searches\<close>

definition sorted_entries :: "'d address_list_entry list \<Rightarrow> bool" where
  "sorted_entries xs \<longleftrightarrow> sorted_wrt (<) (map address xs)"

definition al_invar :: "'d address_list \<Rightarrow> bool" where
  "al_invar l \<longleftrightarrow> sorted_entries (al_entries l) \<and> al_size l \<le> al_capacity l \<and>
     32 \<le> al_capacity l \<and> al_capacity l * entry_bytes = al_bytes l"

lemma sorted_entries_less:
  "sorted_entries xs \<Longrightarrow> i < j \<Longrightarrow> j < length xs \<Longrightarrow> address (xs ! i) < address (xs ! j)"
  by (simp add: sorted_entries_def sorted_wrt_iff_nth_less)

lemma sorted_entries_le:
  "sorted_entries xs \<Longrightarrow> i \<le> j \<Longrightarrow> j < length xs \<Longrightarrow> address (xs ! i) \<le> address (xs ! j)"
  using sorted_entries_less [of xs i j] by (cases "i = j") auto

lemma sorted_entries_inj:
  "sorted_entries xs \<Longrightarrow> i < length xs \<Longrightarrow> j < length xs \<Longrightarrow>
   address (xs ! i) = address (xs ! j) \<Longrightarrow> i = j"
  using sorted_entries_less [of xs i j] sorted_entries_less [of xs j i]
  by (cases i j rule: linorder_cases) auto

lemma search_loop_Some:
  "search_loop xs a b e = Some i \<Longrightarrow> b \<le> i \<and> i < e \<and> address (xs ! i) = a"
proof (induction xs a b e rule: search_loop.induct)
  case (1 xs a b e)
  let ?i = "b + (e - b) div 2"
  have be: "b < e"
    using "1.prems" by (simp add: search_loop.simps [of xs a b e] split: if_splits)
  have i: "b \<le> ?i" "?i < e" using be by auto
  show ?case
  proof (cases "address (xs ! ?i) = a")
    case True
    then show ?thesis
      using "1.prems" be i by (simp add: search_loop.simps [of xs a b e] Let_def)
  next
    case False
    then show ?thesis
      using "1.IH"(1) [OF be refl refl refl False] "1.IH"(2) [OF be refl refl refl False]
        "1.prems" be i
      by (simp add: search_loop.simps [of xs a b e] Let_def split: if_splits)
  qed
qed

lemma search_loop_None:
  "search_loop xs a b e = None \<Longrightarrow> sorted_entries xs \<Longrightarrow> e \<le> length xs \<Longrightarrow>
   b \<le> k \<Longrightarrow> k < e \<Longrightarrow> address (xs ! k) \<noteq> a"
proof (induction xs a b e rule: search_loop.induct)
  case (1 xs a b e)
  let ?i = "b + (e - b) div 2"
  have be: "b < e" and i: "b \<le> ?i" "?i < e" using "1.prems" by auto
  have ne: "address (xs ! ?i) \<noteq> a"
    using "1.prems"(1) be by (auto simp: search_loop.simps [of xs a b e] Let_def)
  consider "k = ?i" | "k < ?i" | "?i < k" by linarith
  then show ?case
  proof cases
    case 1
    with ne show ?thesis by simp
  next
    case 2
    then have lt: "address (xs ! k) < address (xs ! ?i)"
      using "1.prems" i by (intro sorted_entries_less) auto
    show ?thesis
    proof (cases "a < address (xs ! ?i)")
      case True
      then have "search_loop xs a b ?i = None"
        using "1.prems"(1) be ne by (simp add: search_loop.simps [of xs a b e] Let_def)
      then show ?thesis
        using "1.IH"(1) [OF be refl refl refl ne True] "1.prems" i 2 by simp
    qed (use lt in auto)
  next
    case 3
    then have lt: "address (xs ! ?i) < address (xs ! k)"
      using "1.prems" i by (intro sorted_entries_less) auto
    show ?thesis
    proof (cases "a < address (xs ! ?i)")
      case False
      then have "search_loop xs a (?i + 1) e = None"
        using "1.prems"(1) be ne by (simp add: search_loop.simps [of xs a b e] Let_def)
      then show ?thesis
        using "1.IH"(2) [OF be refl refl refl ne False] "1.prems" i 3 by simp
    qed (use lt in auto)
  qed
qed

text \<open>
  The search of \<open>addresslist_add\<close> ends on the first entry that is not below the address,
  or on the last entry when all are below it.
\<close>

lemma closest_loop_cases:
  "\<not> b < e \<Longrightarrow> closest_loop xs a b e = b"
  "b < e \<Longrightarrow> address (xs ! (b + (e - b) div 2)) = a \<Longrightarrow>
     closest_loop xs a b e = b + (e - b) div 2"
  "b < e \<Longrightarrow> a < address (xs ! (b + (e - b) div 2)) \<Longrightarrow>
     closest_loop xs a b e = closest_loop xs a b (b + (e - b) div 2)"
  "b < e \<Longrightarrow> address (xs ! (b + (e - b) div 2)) < a \<Longrightarrow>
     closest_loop xs a b e = closest_loop xs a (b + (e - b) div 2 + 1) e"
  by (auto simp: closest_loop.simps [of xs a b e] Let_def)

lemma closest_loop_bounds: "b \<le> e \<Longrightarrow> b \<le> closest_loop xs a b e \<and> closest_loop xs a b e \<le> e"
proof (induction xs a b e rule: closest_loop.induct)
  case (1 xs a b e)
  let ?i = "b + (e - b) div 2"
  show ?case
  proof (cases "b < e")
    case True
    have i: "b \<le> ?i" "?i < e" using True by auto
    consider "address (xs ! ?i) = a" | "a < address (xs ! ?i)" | "address (xs ! ?i) < a"
      by (rule linorder_cases)
    then show ?thesis
    proof cases
      case 1
      then show ?thesis using True i by (simp add: closest_loop_cases(2))
    next
      case 2
      then have "b \<le> closest_loop xs a b ?i \<and> closest_loop xs a b ?i \<le> ?i"
        using i by (intro "1.IH"(1) [OF True refl refl refl]) auto
      then show ?thesis
        using True i 2 by (simp add: closest_loop_cases(3))
    next
      case 3
      then have "?i + 1 \<le> closest_loop xs a (?i + 1) e \<and> closest_loop xs a (?i + 1) e \<le> e"
        using i by (intro "1.IH"(2) [OF True refl refl refl]) auto
      then show ?thesis
        using True i 3 by (simp add: closest_loop_cases(4))
    qed
  next
    case False
    then show ?thesis using "1.prems" closest_loop_cases(1) [OF False, of xs a] by simp
  qed
qed

lemma closest_loop_below:
  "sorted_entries xs \<Longrightarrow> e < length xs \<Longrightarrow> b \<le> e \<Longrightarrow> \<forall>k<b. address (xs ! k) < a \<Longrightarrow>
   k < closest_loop xs a b e \<Longrightarrow> address (xs ! k) < a"
proof (induction xs a b e rule: closest_loop.induct)
  case (1 xs a b e)
  let ?i = "b + (e - b) div 2"
  show ?case
  proof (cases "b < e")
    case False
    then show ?thesis using "1.prems" closest_loop_cases(1) [OF False, of xs a] by simp
  next
    case be: True
    have i: "b \<le> ?i" "?i < e" using be by auto
    consider "address (xs ! ?i) = a" | "a < address (xs ! ?i)" | "address (xs ! ?i) < a"
      by (rule linorder_cases)
    then show ?thesis
    proof cases
      case 1
      then have "k < ?i" using "1.prems" be by (simp add: closest_loop_cases(2))
      then show ?thesis
        using sorted_entries_less [of xs k ?i] "1.prems" i 1 by simp
    next
      case 2
      then have k: "k < closest_loop xs a b ?i"
        using "1.prems"(5) be by (simp add: closest_loop_cases(3))
      show ?thesis
        by (rule "1.IH"(1) [OF be refl refl refl _ 2 "1.prems"(1) _ _ "1.prems"(4) k])
           (use 2 "1.prems" i in auto)
    next
      case 3
      then have k: "k < closest_loop xs a (?i + 1) e"
        using "1.prems"(5) be by (simp add: closest_loop_cases(4))
      have "\<forall>k<?i + 1. address (xs ! k) < a"
      proof (intro allI impI)
        fix k assume "k < ?i + 1"
        then have "address (xs ! k) \<le> address (xs ! ?i)"
          using "1.prems" i by (intro sorted_entries_le) auto
        with 3 show "address (xs ! k) < a" by simp
      qed
      then show ?thesis
        using "1.IH"(2) [OF be refl refl refl _ _ "1.prems"(1) "1.prems"(2) _ _ k] 3 i by auto
    qed
  qed
qed

text \<open>An address that is in the list is what the search ends on.\<close>

lemma closest_loop_hits:
  "sorted_entries xs \<Longrightarrow> b \<le> i \<Longrightarrow> i \<le> e \<Longrightarrow> e < length xs \<Longrightarrow> address (xs ! i) = a \<Longrightarrow>
   address (xs ! closest_loop xs a b e) = a"
proof (induction xs a b e rule: closest_loop.induct)
  case (1 xs a b e)
  let ?m = "b + (e - b) div 2"
  show ?case
  proof (cases "b < e")
    case False
    then have "i = b" using "1.prems" by simp
    then show ?thesis using "1.prems" closest_loop_cases(1) [OF False, of xs a] by simp
  next
    case be: True
    have m: "b \<le> ?m" "?m < e" using be by auto
    consider "address (xs ! ?m) = a" | "a < address (xs ! ?m)" | "address (xs ! ?m) < a"
      by (rule linorder_cases)
    then show ?thesis
    proof cases
      case 1
      then show ?thesis using be by (simp add: closest_loop_cases(2))
    next
      case 2
      have "i \<le> ?m"
        using sorted_entries_le [of xs ?m i] "1.prems" 2 by (cases "i \<le> ?m") auto
      then have "address (xs ! closest_loop xs a b ?m) = a"
        using "1.IH"(1) [OF be refl refl refl _ 2] "1.prems" m 2 by auto
      then show ?thesis using be 2 by (simp add: closest_loop_cases(3))
    next
      case 3
      have "?m + 1 \<le> i"
        using sorted_entries_le [of xs i ?m] "1.prems" 3 m by (cases "?m + 1 \<le> i") auto
      then have "address (xs ! closest_loop xs a (?m + 1) e) = a"
        using "1.IH"(2) [OF be refl refl refl] "1.prems" 3 by auto
      then show ?thesis using be 3 by (simp add: closest_loop_cases(4))
    qed
  qed
qed

lemma skip_smaller_bounds:
  "s \<le> length xs \<Longrightarrow> s \<le> skip_smaller xs a s \<and> skip_smaller xs a s \<le> length xs"
proof (induction xs a s rule: skip_smaller.induct)
  case (1 xs a s)
  show ?case
    using "1.IH" "1.prems" by (auto simp: skip_smaller.simps [of xs a s])
qed

lemma skip_smaller_below:
  "s \<le> k \<Longrightarrow> k < skip_smaller xs a s \<Longrightarrow> address (xs ! k) < a"
proof (induction xs a s rule: skip_smaller.induct)
  case (1 xs a s)
  then show ?case
    by (cases "k = s") (auto simp: skip_smaller.simps [of xs a s] split: if_splits)
qed

lemma skip_smaller_stop:
  "s \<le> length xs \<Longrightarrow> skip_smaller xs a s < length xs \<Longrightarrow>
   a \<le> address (xs ! skip_smaller xs a s)"
proof (induction xs a s rule: skip_smaller.induct)
  case (1 xs a s)
  then show ?case
    by (cases "s < length xs \<and> address (xs ! s) < a")
       (auto simp: skip_smaller.simps [of xs a s])
qed

section \<open>Functional correctness\<close>

text \<open>The list seen as a map from addresses to pointers.\<close>

definition al_map :: "'d address_list \<Rightarrow> u64 \<rightharpoonup> 'd" where
  "al_map l = map_of (map (\<lambda>e. (address e, entry_data e)) (al_entries l))"

abbreviation pairs :: "'d address_list_entry list \<Rightarrow> (u64 \<times> 'd) list" where
  "pairs xs \<equiv> map (\<lambda>e. (address e, entry_data e)) xs"

lemma sorted_entries_distinct: "sorted_entries xs \<Longrightarrow> distinct (map address xs)"
  by (simp add: sorted_entries_def strict_sorted_iff)

lemma map_of_pairs:
  "sorted_entries xs \<Longrightarrow> i < length xs \<Longrightarrow>
   map_of (pairs xs) (address (xs ! i)) = Some (entry_data (xs ! i))"
  by (rule map_of_is_SomeI) (auto simp: comp_def sorted_entries_distinct)

lemma map_of_pairs_None: "a \<notin> address ` set xs \<Longrightarrow> map_of (pairs xs) a = None"
  by (auto simp: map_of_eq_None_iff image_image)

lemma search_loop_None_iff:
  assumes "sorted_entries xs"
  shows "search_loop xs a 0 (length xs) = None \<longleftrightarrow> a \<notin> address ` set xs"
proof
  assume "search_loop xs a 0 (length xs) = None"
  then have "\<forall>k<length xs. address (xs ! k) \<noteq> a"
    using search_loop_None [OF _ assms] by blast
  then show "a \<notin> address ` set xs"
    by (auto simp: in_set_conv_nth)
next
  assume "a \<notin> address ` set xs"
  then show "search_loop xs a 0 (length xs) = None"
    using search_loop_Some [of xs a 0 "length xs"]
    by (cases "search_loop xs a 0 (length xs)") auto
qed

lemma addresslist_find_map:
  assumes "al_invar l"
  shows "addresslist_find l a = al_map l a"
proof (cases "search_loop (al_entries l) a 0 (al_size l)")
  case None
  then have "al_map l a = None"
    using assms search_loop_None_iff
    unfolding al_map_def al_size_def al_invar_def by (blast intro: map_of_pairs_None)
  then show ?thesis by (simp add: addresslist_find_def None)
next
  case (Some i)
  then have i: "i < length (al_entries l)" "address (al_entries l ! i) = a"
    using search_loop_Some by (fastforce simp: al_size_def)+
  then show ?thesis
    using assms Some map_of_pairs [of "al_entries l" i]
    by (auto simp: addresslist_find_def al_map_def al_invar_def al_size_def)
qed

lemma map_of_pairs_insert:
  assumes "address e \<notin> address ` set xs"
  shows "map_of (pairs (take k xs @ e # drop k xs)) =
         (map_of (pairs xs))(address e \<mapsto> entry_data e)"
proof -
  have "pairs xs = pairs (take k xs) @ pairs (drop k xs)"
    by (simp flip: map_append)
  then have xs: "map_of (pairs xs) = map_of (pairs (drop k xs)) ++ map_of (pairs (take k xs))"
    by (simp only: map_of_append)
  have "map_of (pairs (take k xs)) (address e) = None"
    using assms by (intro map_of_pairs_None) (auto dest: in_set_takeD)
  then show ?thesis
    unfolding xs by (auto simp: map_add_def fun_eq_iff split: option.splits)
qed

lemma map_of_pairs_delete:
  assumes "sorted_entries xs" and "i < length xs"
  shows "map_of (pairs (take i xs @ drop (Suc i) xs)) =
         (map_of (pairs xs))(address (xs ! i) := None)"
proof -
  let ?ys = "take i xs @ drop (Suc i) xs"
  have xs: "take i ?ys @ xs ! i # drop i ?ys = xs"
    using assms(2) by (simp add: min_def flip: id_take_nth_drop)
  have "distinct (map address (take i xs @ xs ! i # drop (Suc i) xs))"
    using sorted_entries_distinct [OF assms(1)] assms(2) by (simp flip: id_take_nth_drop)
  then have fresh: "address (xs ! i) \<notin> address ` set ?ys" by auto
  have "map_of (pairs xs) =
    (map_of (pairs ?ys))(address (xs ! i) \<mapsto> entry_data (xs ! i))"
    using map_of_pairs_insert [OF fresh, of i] unfolding xs .
  moreover have "map_of (pairs ?ys) (address (xs ! i)) = None"
    using fresh by (rule map_of_pairs_None)
  ultimately show ?thesis by (auto simp: fun_eq_iff)
qed

section \<open>What each operation does to the map\<close>

lemma closest_index:
  assumes "al_size l \<noteq> 0"
  shows "addresslist_findclosestIndex l a = int (closest_loop (al_entries l) a 0 (al_size l - 1))"
    and "closest_loop (al_entries l) a 0 (al_size l - 1) < al_size l"
  using assms closest_loop_bounds [of 0 "al_size l - 1" "al_entries l" a]
  by (auto simp: addresslist_findclosestIndex_def)

text \<open>The insertion point of \<open>addresslist_add\<close>: all entries before it are smaller.\<close>

definition insert_point :: "'d address_list \<Rightarrow> u64 \<Rightarrow> nat" where
  "insert_point l a =
     skip_smaller (al_entries l) a (closest_loop (al_entries l) a 0 (al_size l - 1))"

lemma insert_point_props:
  assumes "al_size l \<noteq> 0" and "sorted_entries (al_entries l)"
  shows "insert_point l a \<le> al_size l"
    and "k < insert_point l a \<Longrightarrow> address (al_entries l ! k) < a"
    and "insert_point l a \<le> k \<Longrightarrow> k < al_size l \<Longrightarrow> a \<le> address (al_entries l ! k)"
proof -
  let ?xs = "al_entries l"
  let ?c = "closest_loop ?xs a 0 (al_size l - 1)"
  have c: "?c \<le> length ?xs" "al_size l - 1 < length ?xs"
    using closest_index(2) [OF assms(1), of a] by (auto simp: al_size_def)
  show "insert_point l a \<le> al_size l"
    using skip_smaller_bounds [OF c(1)] by (simp add: insert_point_def al_size_def)
  show "address (?xs ! k) < a" if "k < insert_point l a"
  proof (cases "k < ?c")
    case True
    show ?thesis by (rule closest_loop_below [OF assms(2) c(2) _ _ True]) auto
  next
    case False
    then show ?thesis
      using that by (intro skip_smaller_below [of ?c]) (auto simp: insert_point_def)
  qed
  show "a \<le> address (?xs ! k)" if "insert_point l a \<le> k" and "k < al_size l"
  proof -
    have "a \<le> address (?xs ! insert_point l a)"
      using skip_smaller_stop [OF c(1), of a] that unfolding insert_point_def al_size_def by simp
    also have "\<dots> \<le> address (?xs ! k)"
      using that assms(2) by (intro sorted_entries_le) (auto simp: al_size_def)
    finally show ?thesis .
  qed
qed

lemma invar_room: "al_invar l \<Longrightarrow> al_capacity l \<le> al_bytes l div entry_bytes"
  by (simp add: al_invar_def entry_bytes_def) linarith

lemma invar_empty: "al_invar l \<Longrightarrow> al_size l = 0 \<Longrightarrow> al_entries l = []"
  by (simp add: al_size_def)

text \<open>While there is capacity, adding a new address inserts it at its place.\<close>

lemma addresslist_add_room:
  assumes inv: "al_invar l" and room: "al_size l < al_capacity l"
    and fresh: "a \<notin> address ` set (al_entries l)"
  shows "addresslist_add l a d = Inr (l\<lparr>al_entries :=
           take (insert_point l a) (al_entries l) @ \<lparr>address = a, entry_data = d\<rparr>
             # drop (insert_point l a) (al_entries l)\<rparr>)"
proof (cases "al_size l = 0")
  case True
  then show ?thesis
    using room invar_room [OF inv]
    by (simp add: addresslist_add_def addresslist_findclosestIndex_def al_size_def Let_def)
next
  case False
  let ?c = "closest_loop (al_entries l) a 0 (al_size l - 1)"
  have c: "?c < al_size l" by (rule closest_index(2) [OF False])
  have "al_entries l ! ?c \<in> set (al_entries l)"
    using c by (intro nth_mem) (simp only: al_size_def)
  then have "address (al_entries l ! ?c) \<noteq> a"
    using fresh by (metis image_eqI)
  then show ?thesis
    using room invar_room [OF inv] c False insert_point_props(1) [OF False, of a] inv
    by (simp add: addresslist_add_def closest_index(1) [OF False] Let_def insert_point_def
        shift_up_insert al_size_def al_invar_def)
qed

lemma addresslist_add_duplicate:
  assumes inv: "al_invar l" and room: "al_size l < al_capacity l"
    and dup: "a \<in> address ` set (al_entries l)"
  shows "addresslist_add l a d = Inl AlreadyInList"
proof -
  have ne: "al_size l \<noteq> 0" using dup by (auto simp: al_size_def)
  let ?c = "closest_loop (al_entries l) a 0 (al_size l - 1)"
  have c: "?c < al_size l" by (rule closest_index(2) [OF ne])
  have srt: "sorted_entries (al_entries l)" using inv by (simp add: al_invar_def)
  from dup obtain i where i: "i < al_size l" "address (al_entries l ! i) = a"
    by (auto simp: in_set_conv_nth al_size_def)
  have "address (al_entries l ! ?c) = a"
    using i by (intro closest_loop_hits [OF srt, of 0 i]) (auto simp: al_size_def)
  then show ?thesis
    using room invar_room [OF inv] c
    by (simp add: addresslist_add_def closest_index(1) [OF ne] Let_def)
qed

text \<open>
  At full capacity the block is reallocated to \<open>size + 32\<close> bytes, not entries: the new
  block is smaller than the old one and the store of the moved entries overflows it.
\<close>

lemma addresslist_add_full:
  assumes inv: "al_invar l" and full: "al_size l = al_capacity l"
  shows "isl (addresslist_add l a d)"
    and "a \<notin> address ` set (al_entries l) \<Longrightarrow> addresslist_add l a d = Inl BufferOverflow"
proof -
  have sz: "32 \<le> al_size l" using inv full by (simp add: al_invar_def)
  then have ne: "al_size l \<noteq> 0" by simp
  have room: "(al_size l + 32) div entry_bytes \<le> al_size l"
    using sz unfolding entry_bytes_def by linarith
  let ?c = "closest_loop (al_entries l) a 0 (al_size l - 1)"
  have c: "?c < al_size l" by (rule closest_index(2) [OF ne])
  show "isl (addresslist_add l a d)"
    using full room by (simp add: addresslist_add_def closest_index(1) [OF ne] Let_def)
  assume fresh: "a \<notin> address ` set (al_entries l)"
  have "al_entries l ! ?c \<in> set (al_entries l)"
    using c by (intro nth_mem) (simp only: al_size_def)
  then have "address (al_entries l ! ?c) \<noteq> a"
    using fresh by (metis image_eqI)
  then show "addresslist_add l a d = Inl BufferOverflow"
    using full room by (simp add: addresslist_add_def closest_index(1) [OF ne] Let_def)
qed

lemma addresslist_add_Inr:
  assumes inv: "al_invar l" and add: "addresslist_add l a d = Inr t"
  shows "al_size l < al_capacity l" and "a \<notin> address ` set (al_entries l)"
proof -
  show room: "al_size l < al_capacity l"
    using addresslist_add_full(1) [OF inv, of a d] inv add
    by (cases "al_size l = al_capacity l") (auto simp: al_invar_def)
  show "a \<notin> address ` set (al_entries l)"
    using addresslist_add_duplicate [OF inv room, of a d] add by auto
qed

lemma al_invar_add:
  assumes inv: "al_invar l" and add: "addresslist_add l a d = Inr t"
  shows "al_invar t" and "al_map t = (al_map l)(a \<mapsto> d)" and "al_size t = al_size l + 1"
proof -
  note pre = addresslist_add_Inr [OF inv add]
  let ?e = "\<lparr>address = a, entry_data = d\<rparr>"
  let ?k = "insert_point l a"
  have t: "t = l\<lparr>al_entries := take ?k (al_entries l) @ ?e # drop ?k (al_entries l)\<rparr>"
    using addresslist_add_room [OF inv pre, of d] add by simp
  show "al_size t = al_size l + 1" by (simp add: t al_size_def)
  show "al_map t = (al_map l)(a \<mapsto> d)"
    using map_of_pairs_insert [of ?e "al_entries l" ?k] pre(2) by (simp add: t al_map_def)
  have "sorted_entries (take ?k (al_entries l) @ ?e # drop ?k (al_entries l))"
  proof (cases "al_size l = 0")
    case True
    then show ?thesis by (simp add: al_size_def sorted_entries_def)
  next
    case False
    have srt: "sorted_entries (al_entries l)" using inv by (simp add: al_invar_def)
    note ip = insert_point_props [OF False srt, where a = a]
    show ?thesis
      unfolding sorted_entries_def
    proof (rule sorted_wrt_map_insert)
      show "sorted_wrt (<) (map address (al_entries l))"
        using srt by (simp add: sorted_entries_def)
      show "?k \<le> length (al_entries l)" using ip(1) by (simp add: al_size_def)
      show "address (al_entries l ! i) < address ?e" if "i < ?k" for i
        using ip(2) [OF that] by simp
      show "address ?e < address (al_entries l ! i)" if "i < length (al_entries l)" "?k \<le> i" for i
        using ip(3) [OF that(2)] that pre(2) by (force simp: al_size_def order_less_le)
    qed
  qed
  then show "al_invar t"
    using inv pre(1) by (simp add: al_invar_def t al_size_def min_def)
qed

lemma al_invar_remove:
  assumes inv: "al_invar l"
  shows "al_invar (addresslist_remove l a)"
    and "al_map (addresslist_remove l a) = (al_map l)(a := None)"
proof -
  have srt: "sorted_entries (al_entries l)" using inv by (simp add: al_invar_def)
  consider "search_loop (al_entries l) a 0 (al_size l) = None"
    | i where "search_loop (al_entries l) a 0 (al_size l) = Some i" "i < al_size l"
        "address (al_entries l ! i) = a"
    using search_loop_Some by (cases "search_loop (al_entries l) a 0 (al_size l)") fastforce+
  then have "al_invar (addresslist_remove l a) \<and>
             al_map (addresslist_remove l a) = (al_map l)(a := None)"
  proof cases
    case 1
    then have "addresslist_remove l a = l" by (simp add: addresslist_remove_def)
    moreover have "al_map l a = None"
      using addresslist_find_map [OF inv, of a] 1
      by (simp add: addresslist_find_def split: if_splits)
    ultimately show ?thesis using inv by auto
  next
    case 2
    then have r: "addresslist_remove l a =
        l\<lparr>al_entries := take i (al_entries l) @ drop (Suc i) (al_entries l)\<rparr>"
      using shift_down_remove [of i "al_entries l"] by (simp add: addresslist_remove_def al_size_def)
    have "sorted_entries (take i (al_entries l) @ drop (Suc i) (al_entries l))"
      using srt unfolding sorted_entries_def by (rule sorted_wrt_map_remove)
    then have "al_invar (addresslist_remove l a)"
      using inv 2(2) by (auto simp: al_invar_def r al_size_def)
    moreover have "al_map (addresslist_remove l a) = (al_map l)(a := None)"
      using map_of_pairs_delete [OF srt, of i] 2(2,3) by (simp add: r al_map_def al_size_def)
    ultimately show ?thesis by simp
  qed
  then show "al_invar (addresslist_remove l a)"
    and "al_map (addresslist_remove l a) = (al_map l)(a := None)" by auto
qed

lemma al_invar_create: "al_invar addresslist_create"
  by (simp add: al_invar_def addresslist_create_def sorted_entries_def al_size_def)

definition list_insert_at :: "'d address_list \<Rightarrow> u64 \<Rightarrow> 'd \<Rightarrow> 'd address_list option" where
  "list_insert_at l a d =
     (case addresslist_add l a d of Inl _ \<Rightarrow> None | Inr t \<Rightarrow> Some t)"

interpretation alist: page_index addresslist_find list_insert_at addresslist_remove "\<lambda>_ a. a" al_invar
proof unfold_locales
  fix s t :: "'d address_list" and a b d
  show "al_invar s \<Longrightarrow> list_insert_at s a d = Some t \<Longrightarrow> al_invar t"
    by (auto simp: list_insert_at_def split: sum.splits dest: al_invar_add)
  show "al_invar s \<Longrightarrow> al_invar (addresslist_remove s a)" by (rule al_invar_remove)
  assume "al_invar s" and "list_insert_at s a d = Some t"
  then have add: "addresslist_add s a d = Inr t" and inv: "al_invar s"
    by (auto simp: list_insert_at_def split: sum.splits)
  show "addresslist_find t b = (if b = a then Some d else addresslist_find s b)"
    using al_invar_add(1,2) [OF inv add] addresslist_find_map inv by fastforce
qed (auto simp: addresslist_find_map al_invar_remove)

section \<open>Properties\<close>

lemma find_None_iff: "al_invar l \<Longrightarrow> addresslist_find l a = None \<longleftrightarrow> a \<notin> address ` set (al_entries l)"
  by (simp add: addresslist_find_map al_map_def map_of_eq_None_iff image_image)

text \<open>
  \<open>addresslist_add\<close> on a well-formed list: with room and a new address it stores the pointer,
  keeps the list sorted and changes no other lookup; with room and an address that is in
  the list it stops for ever; on a full list it always fails, and for a new address it does
  so by writing past the block that \<open>realloc\<close> sized in bytes.
\<close>

theorem addresslist_add_correct:
  assumes "al_invar l"
  shows "if al_size l < al_capacity l then
      (if addresslist_find l a = None then
         (case addresslist_add l a d of Inl e \<Rightarrow> False
          | Inr t \<Rightarrow> al_invar t \<and> al_size t = al_size l + 1 \<and>
              (\<forall>b. addresslist_find t b = (if b = a then Some d else addresslist_find l b)))
       else addresslist_add l a d = Inl AlreadyInList)
    else isl (addresslist_add l a d) \<and>
      (addresslist_find l a = None \<longrightarrow> addresslist_add l a d = Inl BufferOverflow)"
proof (cases "al_size l < al_capacity l")
  case room: True
  show ?thesis
  proof (cases "addresslist_find l a = None")
    case True
    then obtain t where t: "addresslist_add l a d = Inr t"
      using addresslist_add_room [OF assms room] assms by (simp add: find_None_iff)
    then show ?thesis
      using True room al_invar_add [OF assms t] alist.lookup_insert [OF assms, of a d t]
      by (auto simp: list_insert_at_def)
  next
    case False
    then show ?thesis
      using room addresslist_add_duplicate [OF assms room] assms by (simp add: find_None_iff)
  qed
next
  case False
  then have full: "al_size l = al_capacity l" using assms by (simp add: al_invar_def)
  then show ?thesis
    using addresslist_add_full [OF assms full] assms by (simp add: find_None_iff)
qed

lemma addresslist_add_correct_witness:
  "addresslist_add \<lparr>al_entries = [\<lparr>address = 5, entry_data = True\<rparr>], al_capacity = 32, al_bytes = 512\<rparr>
     5 False = Inl AlreadyInList"
proof -
  let ?l = "\<lparr>al_entries = [\<lparr>address = 5, entry_data = True\<rparr>], al_capacity = 32, al_bytes = 512\<rparr>"
  have "al_invar ?l" by (simp add: al_invar_def sorted_entries_def al_size_def entry_bytes_def)
  then show ?thesis
    using addresslist_add_correct [of ?l 5 False] by (simp add: find_None_iff al_size_def)
qed

text \<open>
  \<open>addresslist_remove\<close> keeps the list well formed and removes the given address and no
  other; an address that is not in the list leaves it as it was.
\<close>

theorem addresslist_remove_correct:
  assumes "al_invar l"
  shows "al_invar (addresslist_remove l a) \<and>
    (\<forall>b. addresslist_find (addresslist_remove l a) b = (if b = a then None else addresslist_find l b)) \<and>
    (addresslist_find l a = None \<longrightarrow> addresslist_remove l a = l)"
  using alist.invar_remove [OF assms] alist.lookup_remove [OF assms]
  by (auto simp: addresslist_remove_def addresslist_find_def split: option.splits)

lemma addresslist_remove_correct_witness:
  "addresslist_find (addresslist_remove \<lparr>al_entries = [\<lparr>address = 5, entry_data = True\<rparr>,
     \<lparr>address = 9, entry_data = False\<rparr>], al_capacity = 32, al_bytes = 512\<rparr> 5) 9 = Some False"
proof -
  let ?l = "\<lparr>al_entries = [\<lparr>address = 5, entry_data = True\<rparr>, \<lparr>address = 9, entry_data = False\<rparr>],
     al_capacity = 32, al_bytes = 512\<rparr>"
  have "al_invar ?l" by (simp add: al_invar_def sorted_entries_def al_size_def entry_bytes_def)
  moreover from this have "addresslist_find ?l 9 = Some False"
    by (simp add: addresslist_find_map al_map_def)
  ultimately show ?thesis using addresslist_remove_correct [of ?l 5] by simp
qed

end
