(* ===== verification/PhysMap.thy ===== *)
theory PhysMap
  imports PageIndex "HOL-Library.Signed_Division"
begin

text \<open>
  \<open>dbvm/vmm/maps.c\<close>: the radix tree that replaces the list of cloaked pages once it has
  grown. A node is a zeroed 4096-byte page of 512 pointers; the union of \<open>Data\<close> and
  \<open>Map\<close> is resolved by the level, so level 0 nodes are \<open>Leaf\<close> (pointers to data) and the
  nodes above are \<open>Node\<close> (pointers to nodes). \<open>None\<close> is the null pointer. The natural
  number passed along is how many more 4096-byte allocations \<open>malloc\<close> can serve.
\<close>

datatype 'd map_data =
    Leaf "nat \<Rightarrow> 'd option"
  | Node "nat \<Rightarrow> 'd map_data option"

record 'd map_info =
  maxlevel :: nat
  top :: "'d map_data"

section \<open>The operations\<close>

definition entrynr :: "nat \<Rightarrow> u64 \<Rightarrow> nat" where
  "entrynr level pfn = unat (drop_bit (level * 9) pfn AND 0x1ff)"

definition zero_page :: "nat \<Rightarrow> 'd map_data" where
  "zero_page level = (if level = 0 then Leaf (\<lambda>_. None) else Node (\<lambda>_. None))"

definition createMap :: "nat \<Rightarrow> 'd map_info option" where
  "createMap n = (if n = 0 then None else Some \<lparr>maxlevel = n, top = zero_page n\<rparr>)"

definition levels_needed :: "nat \<Rightarrow> int" where
  "levels_needed maxphyaddr =
     (let neededbits = int maxphyaddr - 12; levelneeded = neededbits sdiv 9
      in if neededbits smod 12 \<noteq> 0 then levelneeded + 1 else levelneeded)"

definition createPhysicalMemoryMap :: "nat \<Rightarrow> 'd map_info option" where
  "createPhysicalMemoryMap maxphyaddr = createMap (nat (levels_needed maxphyaddr))"

text \<open>
  One step of the descent per level. The result is the updated node, the allocations left
  and the return value, 1 when an allocation failed half way; nodes already linked stay.
\<close>

fun set_level ::
  "nat \<Rightarrow> u64 \<Rightarrow> 'd option \<Rightarrow> nat \<Rightarrow> 'd map_data \<Rightarrow> 'd map_data \<times> nat \<times> int" where
  "set_level 0 pfn d mem (Leaf m) = (Leaf (m(entrynr 0 pfn := d)), mem, 0)"
| "set_level (Suc l) pfn d mem (Node m) =
     (let e = entrynr (Suc l) pfn in
      case m e of
        None \<Rightarrow>
          (if mem = 0 then (Node m, mem, 1)
           else let (t, mem', r) = set_level l pfn d (mem - 1) (zero_page l)
                in (Node (m(e := Some t)), mem', r))
      | Some s \<Rightarrow>
          (let (t, mem', r) = set_level l pfn d mem s in (Node (m(e := Some t)), mem', r)))"
| "set_level _ pfn d mem t = (t, mem, 0)"

definition map_setEntry ::
  "'d map_info \<Rightarrow> u64 \<Rightarrow> 'd option \<Rightarrow> nat \<Rightarrow> 'd map_info \<times> nat \<times> int" where
  "map_setEntry m address d mem =
     (let (t, mem', r) = set_level (maxlevel m) (drop_bit 12 address) d mem (top m)
      in (m\<lparr>top := t\<rparr>, mem', r))"

fun get_level :: "nat \<Rightarrow> u64 \<Rightarrow> 'd map_data \<Rightarrow> 'd option" where
  "get_level 0 pfn (Leaf m) = m (entrynr 0 pfn)"
| "get_level (Suc l) pfn (Node m) =
     (case m (entrynr (Suc l) pfn) of None \<Rightarrow> None | Some t \<Rightarrow> get_level l pfn t)"
| "get_level _ pfn t = None"

definition map_getEntry :: "'d map_info \<Rightarrow> u64 \<Rightarrow> 'd option" where
  "map_getEntry m address = get_level (maxlevel m) (drop_bit 12 address) (top m)"

text \<open>The calls a traversal makes to its callback, in order.\<close>

fun map_iterate :: "nat \<Rightarrow> u64 \<Rightarrow> 'd map_data \<Rightarrow> (u64 \<times> 'd) list" where
  "map_iterate 0 base (Leaf m) =
     concat (map (\<lambda>i. case m i of None \<Rightarrow> []
       | Some d \<Rightarrow> [(base + push_bit (0 * 9) (of_nat i), d)]) [0..<512])"
| "map_iterate (Suc l) base (Node m) =
     concat (map (\<lambda>i. case m i of None \<Rightarrow> []
       | Some t \<Rightarrow> map_iterate l (base + push_bit (Suc l * 9) (of_nat i)) t) [0..<512])"
| "map_iterate _ base t = []"

definition map_foreach :: "'d map_info \<Rightarrow> (u64 \<times> 'd) list" where
  "map_foreach m = map_iterate (maxlevel m) 0 (top m)"

section \<open>Digits of the page number\<close>

text \<open>Every node sits at its level: the invariant that rules out reading data as a node.\<close>

fun level_ok :: "nat \<Rightarrow> 'd map_data \<Rightarrow> bool" where
  "level_ok 0 (Leaf m) = True"
| "level_ok (Suc l) (Node m) = (\<forall>i t. m i = Some t \<longrightarrow> level_ok l t)"
| "level_ok _ _ = False"

definition map_invar :: "'d map_info \<Rightarrow> bool" where
  "map_invar m \<longleftrightarrow> level_ok (maxlevel m) (top m)"

definition page_key :: "nat \<Rightarrow> u64 \<Rightarrow> u64" where
  "page_key l pfn = take_bit (9 * Suc l) pfn"

lemma entrynr_take_bit: "entrynr l pfn = unat (take_bit 9 (drop_bit (l * 9) pfn))"
proof -
  have "(0x1ff :: u64) = mask 9" by (simp add: mask_eq_exp_minus_1)
  then show ?thesis by (simp add: entrynr_def take_bit_eq_mask)
qed

lemma entrynr_less: "entrynr l pfn < 512"
proof -
  have "take_bit 9 (unat (drop_bit (l * 9) pfn)) < 2 ^ 9"
    by (rule take_bit_nat_less_exp)
  then show ?thesis by (simp add: entrynr_take_bit unsigned_take_bit_eq)
qed

lemma word_take_bit_eq_iff:
  fixes p q :: "'a::len word"
  shows "take_bit n p = take_bit n q \<longleftrightarrow> (\<forall>k<n. bit p k = bit q k)"
proof
  assume "take_bit n p = take_bit n q"
  then show "\<forall>k<n. bit p k = bit q k"
    by (metis bit_take_bit_iff)
next
  assume "\<forall>k<n. bit p k = bit q k"
  then show "take_bit n p = take_bit n q"
    by (intro bit_eqI) (auto simp: bit_take_bit_iff)
qed

lemma entrynr_eq_iff:
  "entrynr l p = entrynr l q \<longleftrightarrow> (\<forall>k<9. bit p (l * 9 + k) = bit q (l * 9 + k))"
proof -
  have "entrynr l p = entrynr l q \<longleftrightarrow>
        take_bit 9 (drop_bit (l * 9) p) = take_bit 9 (drop_bit (l * 9) q)"
    unfolding entrynr_take_bit by (rule word_unat_eq_iff [symmetric])
  then show ?thesis
    by (simp add: word_take_bit_eq_iff bit_drop_bit_eq)
qed

lemma page_key_eq_iff: "page_key l p = page_key l q \<longleftrightarrow> (\<forall>k < 9 * Suc l. bit p k = bit q k)"
  unfolding page_key_def by (rule word_take_bit_eq_iff)

lemma page_key_0: "page_key 0 p = page_key 0 q \<longleftrightarrow> entrynr 0 p = entrynr 0 q"
  by (simp add: page_key_eq_iff entrynr_eq_iff)

lemma page_key_Suc:
  "page_key (Suc l) p = page_key (Suc l) q \<longleftrightarrow>
   entrynr (Suc l) p = entrynr (Suc l) q \<and> page_key l p = page_key l q"
proof -
  have "(\<forall>k < 9 * Suc (Suc l). P k) \<longleftrightarrow>
        (\<forall>k<9. P (Suc l * 9 + k)) \<and> (\<forall>k < 9 * Suc l. P k)" for P :: "nat \<Rightarrow> bool"
    using all_less_add [of "9 * Suc l" 9 P] by (simp add: algebra_simps)
  then show ?thesis
    by (simp only: page_key_eq_iff entrynr_eq_iff)
qed

section \<open>Lookups after updates\<close>

lemma level_ok_zero: "level_ok l (zero_page l)"
  by (cases l) (auto simp: zero_page_def)

lemma get_level_zero: "get_level l pfn (zero_page l) = None"
  by (cases l) (auto simp: zero_page_def)

lemma level_ok_Suc: "level_ok (Suc l) t \<longleftrightarrow> (\<exists>m. t = Node m \<and> (\<forall>i u. m i = Some u \<longrightarrow> level_ok l u))"
  by (cases t) auto

lemma level_ok_0: "level_ok 0 t \<longleftrightarrow> (\<exists>m. t = Leaf m)"
  by (cases t) auto

text \<open>
  The descent below level \<open>l + 1\<close> goes on in the node that is there, or in a fresh one.
\<close>

lemma set_level_Suc:
  assumes "set_level (Suc l) p d mem (Node m) = (t', mem', r)"
  obtains (nomem) "m (entrynr (Suc l) p) = None" "mem = 0" "t' = Node m" "mem' = 0" "r = 1"
  | (fresh) s where "m (entrynr (Suc l) p) = None" "mem \<noteq> 0"
      "set_level l p d (mem - 1) (zero_page l) = (s, mem', r)"
      "t' = Node (m(entrynr (Suc l) p := Some s))"
  | (old) u s where "m (entrynr (Suc l) p) = Some u" "set_level l p d mem u = (s, mem', r)"
      "t' = Node (m(entrynr (Suc l) p := Some s))"
  using assms by (auto simp: Let_def split: option.splits prod.splits if_splits)

lemma level_ok_set:
  "level_ok l t \<Longrightarrow> set_level l p d mem t = (t', mem', r) \<Longrightarrow> level_ok l t'"
proof (induction l arbitrary: t mem t' mem' r)
  case 0
  then show ?case by (auto simp: level_ok_0)
next
  case (Suc l)
  then obtain m where m: "t = Node m" "\<And>i u. m i = Some u \<Longrightarrow> level_ok l u"
    by (auto simp: level_ok_Suc)
  from Suc.prems(2) [unfolded m(1)] show ?case
  proof (cases rule: set_level_Suc)
    case nomem
    then show ?thesis using m(2) by (auto simp: level_ok_Suc)
  next
    case (fresh s)
    then show ?thesis using Suc.IH [OF level_ok_zero fresh(3)] m(2) by (auto simp: level_ok_Suc)
  next
    case (old u s)
    then show ?thesis using Suc.IH [OF m(2) [OF old(1)] old(2)] m(2) by (auto simp: level_ok_Suc)
  qed
qed

lemma get_level_key:
  "level_ok l t \<Longrightarrow> page_key l p = page_key l q \<Longrightarrow> get_level l p t = get_level l q t"
proof (induction l p t rule: get_level.induct)
  case (1 pfn m)
  then show ?case by (simp add: page_key_0)
next
  case (2 l pfn m)
  then show ?case by (auto simp: page_key_Suc split: option.splits)
qed auto

text \<open>
  A store that succeeds is seen at its own page and nowhere else; a store that runs out of
  memory changes no lookup at all.
\<close>

lemma get_level_set:
  "level_ok l t \<Longrightarrow> set_level l p d mem t = (t', mem', r) \<Longrightarrow>
   get_level l q t' =
     (if r = 0 \<and> page_key l q = page_key l p then d else get_level l q t)"
proof (induction l arbitrary: t mem t' mem' r)
  case 0
  then show ?case by (auto simp: level_ok_0 page_key_0)
next
  case (Suc l)
  then obtain m where m: "t = Node m" "\<And>i u. m i = Some u \<Longrightarrow> level_ok l u"
    by (auto simp: level_ok_Suc)
  from Suc.prems(2) [unfolded m(1)] show ?case
  proof (cases rule: set_level_Suc)
    case nomem
    then show ?thesis using m by simp
  next
    case (fresh s)
    then show ?thesis
      using Suc.IH [OF level_ok_zero fresh(3)] m by (auto simp: page_key_Suc get_level_zero)
  next
    case (old u s)
    then show ?thesis
      using Suc.IH [OF m(2) [OF old(1)] old(2)] m by (auto simp: page_key_Suc)
  qed
qed

text \<open>
  The return value is 0 or 1, and 1 only for a page that was absent; storing a null
  pointer therefore removes the page whatever \<open>malloc\<close> does.
\<close>

lemma set_level_ret:
  "level_ok l t \<Longrightarrow> set_level l p d mem t = (t', mem', r) \<Longrightarrow>
   r = 0 \<or> r = 1 \<and> get_level l p t = None"
proof (induction l arbitrary: t mem t' mem' r)
  case 0
  then show ?case by (auto simp: level_ok_0)
next
  case (Suc l)
  then obtain m where m: "t = Node m" "\<And>i u. m i = Some u \<Longrightarrow> level_ok l u"
    by (auto simp: level_ok_Suc)
  from Suc.prems(2) [unfolded m(1)] show ?case
  proof (cases rule: set_level_Suc)
    case nomem
    then show ?thesis using m by simp
  next
    case (fresh s)
    then show ?thesis using Suc.IH [OF level_ok_zero fresh(3)] m by auto
  next
    case (old u s)
    then show ?thesis using Suc.IH [OF m(2) [OF old(1)] old(2)] m by auto
  qed
qed

text \<open>Enough memory: one page per level makes every store succeed.\<close>

lemma set_level_succeeds:
  "level_ok l t \<Longrightarrow> l \<le> mem \<Longrightarrow> \<exists>t' mem'. set_level l p d mem t = (t', mem', 0) \<and> mem \<le> mem' + l"
proof (induction l arbitrary: t mem)
  case 0
  then show ?case by (auto simp: level_ok_0)
next
  case (Suc l)
  then obtain m where m: "t = Node m" "\<And>i u. m i = Some u \<Longrightarrow> level_ok l u"
    by (auto simp: level_ok_Suc)
  show ?case
  proof (cases "m (entrynr (Suc l) p)")
    case None
    have "l \<le> mem - 1" using Suc.prems(2) by simp
    then obtain s n where "set_level l p d (mem - 1) (zero_page l) = (s, n, 0)" "mem - 1 \<le> n + l"
      using Suc.IH [OF level_ok_zero] by blast
    then show ?thesis using None m Suc.prems(2) by (auto simp: Let_def)
  next
    case (Some u)
    have "l \<le> mem" using Suc.prems(2) by simp
    then obtain s n where "set_level l p d mem u = (s, n, 0)" "mem \<le> n + l"
      using Suc.IH [OF m(2) [OF Some]] by blast
    then show ?thesis using Some m by (auto simp: Let_def)
  qed
qed

section \<open>The map operations\<close>

definition map_key :: "'d map_info \<Rightarrow> u64 \<Rightarrow> u64" where
  "map_key m a = page_key (maxlevel m) (drop_bit 12 a)"

lemma map_setEntry_fields:
  assumes "map_setEntry m a d mem = (m', mem', r)"
  shows "maxlevel m' = maxlevel m"
    and "set_level (maxlevel m) (drop_bit 12 a) d mem (top m) = (top m', mem', r)"
  using assms by (auto simp: map_setEntry_def split: prod.splits)

lemma map_invar_set: "map_invar m \<Longrightarrow> map_setEntry m a d mem = (m', mem', r) \<Longrightarrow> map_invar m'"
  unfolding map_invar_def using map_setEntry_fields level_ok_set by metis

lemma map_key_set: "map_setEntry m a d mem = (m', mem', r) \<Longrightarrow> map_key m' = map_key m"
  by (simp add: map_key_def fun_eq_iff map_setEntry_fields)

lemma map_getEntry_key: "map_invar m \<Longrightarrow> map_key m a = map_key m b \<Longrightarrow> map_getEntry m a = map_getEntry m b"
  unfolding map_invar_def map_key_def map_getEntry_def by (rule get_level_key)

lemma map_getEntry_set:
  assumes "map_invar m" and "map_setEntry m a d mem = (m', mem', r)"
  shows "map_getEntry m' b =
         (if r = 0 \<and> map_key m b = map_key m a then d else map_getEntry m b)"
  using get_level_set [OF _ map_setEntry_fields(2) [OF assms(2)]] assms
  by (simp add: map_invar_def map_getEntry_def map_key_def map_setEntry_fields(1))

lemma map_setEntry_ret:
  assumes "map_invar m" and "map_setEntry m a d mem = (m', mem', r)"
  shows "r = 0 \<or> r = 1 \<and> map_getEntry m a = None"
  using set_level_ret [OF _ map_setEntry_fields(2) [OF assms(2)]] assms(1)
  by (simp add: map_invar_def map_getEntry_def)

lemma map_setEntry_enough:
  assumes "map_invar m" and "map_setEntry m a d mem = (m', mem', r)" and "maxlevel m \<le> mem"
  shows "r = 0" and "mem \<le> mem' + maxlevel m"
  using set_level_succeeds [of "maxlevel m" "top m" mem "drop_bit 12 a" d] assms
    map_setEntry_fields(2) [OF assms(2)] by (auto simp: map_invar_def)

text \<open>The map together with the memory that is left, as the index of cloaked pages uses it.\<close>

definition map_insert_at :: "'d map_info \<times> nat \<Rightarrow> u64 \<Rightarrow> 'd \<Rightarrow> ('d map_info \<times> nat) option" where
  "map_insert_at s a d =
     (let (m', mem', r) = map_setEntry (fst s) a (Some d) (snd s)
      in if r = 0 then Some (m', mem') else None)"

definition map_remove_at :: "'d map_info \<times> nat \<Rightarrow> u64 \<Rightarrow> 'd map_info \<times> nat" where
  "map_remove_at s a = (let (m', mem', r) = map_setEntry (fst s) a None (snd s) in (m', mem'))"

lemma map_insert_atE:
  assumes "map_insert_at s a d = Some t"
  obtains "map_setEntry (fst s) a (Some d) (snd s) = (fst t, snd t, 0)"
  using assms by (auto simp: map_insert_at_def split: prod.splits if_splits)

lemma map_remove_atE:
  obtains r where "map_setEntry (fst s) a None (snd s) = (fst (map_remove_at s a), snd (map_remove_at s a), r)"
  by (cases "map_setEntry (fst s) a None (snd s)") (auto simp: map_remove_at_def)

interpretation pmap: page_index "\<lambda>s. map_getEntry (fst s)" map_insert_at map_remove_at
  "\<lambda>s. map_key (fst s)" "\<lambda>s. map_invar (fst s)"
proof unfold_locales
  fix s t :: "'d map_info \<times> nat" and a b d
  show "map_key (fst (map_remove_at s a)) = map_key (fst s)"
    by (rule map_remove_atE [of s a]) (rule map_key_set)
  show "map_insert_at s a d = Some t \<Longrightarrow> map_key (fst t) = map_key (fst s)"
    by (erule map_insert_atE) (rule map_key_set)
  assume inv: "map_invar (fst s)"
  show "map_insert_at s a d = Some t \<Longrightarrow> map_invar (fst t)"
    by (erule map_insert_atE) (rule map_invar_set [OF inv])
  show "map_invar (fst (map_remove_at s a))"
    by (rule map_remove_atE [of s a]) (rule map_invar_set [OF inv])
  show "map_key (fst s) a = map_key (fst s) b \<Longrightarrow> map_getEntry (fst s) a = map_getEntry (fst s) b"
    by (rule map_getEntry_key [OF inv])
  show "map_insert_at s a d = Some t \<Longrightarrow> map_getEntry (fst t) b =
      (if map_key (fst s) b = map_key (fst s) a then Some d else map_getEntry (fst s) b)"
    by (erule map_insert_atE) (simp add: map_getEntry_set [OF inv])
  obtain r where r: "map_setEntry (fst s) a None (snd s)
      = (fst (map_remove_at s a), snd (map_remove_at s a), r)"
    by (rule map_remove_atE)
  have "r = 0 \<or> map_getEntry (fst s) a = None"
    using map_setEntry_ret [OF inv r] by auto
  then show "map_getEntry (fst (map_remove_at s a)) b =
      (if map_key (fst s) b = map_key (fst s) a then None else map_getEntry (fst s) b)"
    using map_getEntry_set [OF inv r, of b] map_getEntry_key [OF inv, of b a] by auto
qed

section \<open>The traversal\<close>

lemma entrynr_of_digits:
  assumes "take_bit (9 * Suc l) p = p" and "i < 512" and "9 * Suc (Suc l) \<le> 64"
  shows "entrynr (Suc l) (push_bit (Suc l * 9) (of_nat i) + p) = i"
    and "page_key l (push_bit (Suc l * 9) (of_nat i) + p) = page_key l p"
    and "take_bit (9 * Suc (Suc l)) (push_bit (Suc l * 9) (of_nat i) + p)
         = push_bit (Suc l * 9) (of_nat i :: u64) + p"
proof -
  let ?q = "push_bit (Suc l * 9) (of_nat i :: u64) + p"
  have tp: "take_bit (Suc l * 9) p = p" using assms(1) by (simp add: mult.commute)
  have i: "take_bit 9 (of_nat i :: u64) = of_nat i"
    using assms(2) by (simp flip: of_nat_take_bit add: take_bit_nat_eq_self)
  have "take_bit 9 (drop_bit (Suc l * 9) ?q) = of_nat i"
  proof (rule bit_eqI)
    fix k :: nat
    have "bit (take_bit 9 (of_nat i :: u64)) k = (k < 9 \<and> bit (of_nat i :: u64) k)"
      by (simp add: bit_take_bit_iff)
    moreover have "bit ?q (Suc l * 9 + k) = (Suc l * 9 + k < 64 \<and> bit (of_nat i :: u64) k)"
      unfolding bit_push_add [OF tp] by simp
    moreover have "k < 9 \<Longrightarrow> Suc l * 9 + k < 64" using assms(3) by simp
    ultimately show "bit (take_bit 9 (drop_bit (Suc l * 9) ?q)) k = bit (of_nat i :: u64) k"
      by (auto simp only: bit_take_bit_iff bit_drop_bit_eq comp_def i)
  qed
  then show "entrynr (Suc l) ?q = i"
    using assms(2) by (simp add: entrynr_take_bit unsigned_of_nat take_bit_nat_eq_self)
  show "page_key l ?q = page_key l p"
    unfolding page_key_eq_iff mult.commute [of 9] bit_push_add [OF tp] by simp
  show "take_bit (9 * Suc (Suc l)) ?q = ?q"
  proof (rule bit_eqI)
    fix k :: nat
    have "bit (of_nat i :: u64) (k - Suc l * 9) \<Longrightarrow> k - Suc l * 9 < 9"
      using i by (metis bit_take_bit_iff)
    then have "bit ?q k \<Longrightarrow> k < 9 * Suc (Suc l)"
      unfolding bit_push_add [OF tp] by (auto split: if_splits)
    then show "bit (take_bit (9 * Suc (Suc l)) ?q) k = bit ?q k"
      by (auto simp: bit_take_bit_iff)
  qed
qed

lemma set_concat_option:
  "x \<in> set (concat (map (\<lambda>i. case m i of None \<Rightarrow> [] | Some t \<Rightarrow> g i t) is)) \<longleftrightarrow>
   (\<exists>i \<in> set is. \<exists>t. m i = Some t \<and> x \<in> set (g i t))"
  by (induction "is") (auto split: option.splits)

text \<open>
  What the callback receives: the page number \<open>p\<close> of every entry (not its address), each
  with the pointer stored there.
\<close>

lemma map_iterate_set:
  fixes base :: u64
  assumes "level_ok l t" and "9 * Suc l \<le> 64"
  shows "(q, d) \<in> set (map_iterate l base t) \<longleftrightarrow>
         (\<exists>p. q = base + p \<and> take_bit (9 * Suc l) p = p \<and> get_level l p t = Some d)"
  using assms
proof (induction l arbitrary: t base)
  case 0
  then obtain m where t: "t = Leaf m" by (auto simp: level_ok_0)
  have e: "entrynr 0 (of_nat i) = i \<and> take_bit 9 (of_nat i :: u64) = of_nat i" if "i < 512" for i
    using that
    by (simp add: entrynr_take_bit unsigned_of_nat take_bit_nat_eq_self flip: of_nat_take_bit)
  have inv: "take_bit 9 p = p \<Longrightarrow> of_nat (entrynr 0 p) = p" for p :: "u64"
    by (simp add: entrynr_take_bit)
  have "(q, d) \<in> set (map_iterate 0 base t) \<longleftrightarrow>
        (\<exists>i<512. m i = Some d \<and> q = base + of_nat i)"
    unfolding t map_iterate.simps set_concat_option by auto
  also have "\<dots> \<longleftrightarrow> (\<exists>p. q = base + p \<and> take_bit 9 p = p \<and> m (entrynr 0 p) = Some d)"
    using e inv entrynr_less [of 0] by metis
  finally show ?case by (simp add: t)
next
  case (Suc l)
  then obtain m where m: "t = Node m" "\<And>i u. m i = Some u \<Longrightarrow> level_ok l u"
    by (auto simp: level_ok_Suc)
  have l: "9 * Suc l \<le> 64" using Suc.prems(2) by simp
  let ?sh = "\<lambda>i. push_bit (Suc l * 9) (of_nat i :: u64)"
  have "(q, d) \<in> set (map_iterate (Suc l) base t) \<longleftrightarrow>
        (\<exists>i<512. \<exists>u. m i = Some u \<and> (q, d) \<in> set (map_iterate l (base + ?sh i) u))"
    unfolding m(1) map_iterate.simps set_concat_option by (simp add: Bex_def)
  also have "\<dots> \<longleftrightarrow> (\<exists>i<512. \<exists>u p. m i = Some u \<and> q = base + ?sh i + p \<and>
        take_bit (9 * Suc l) p = p \<and> get_level l p u = Some d)"
    using Suc.IH [OF m(2) l] by blast
  also have "\<dots> \<longleftrightarrow> (\<exists>p. q = base + p \<and> take_bit (9 * Suc (Suc l)) p = p \<and>
        get_level (Suc l) p t = Some d)" (is "?L \<longleftrightarrow> ?R")
  proof
    assume ?L
    then obtain i u p where i: "i < 512" "m i = Some u" "q = base + ?sh i + p"
      "take_bit (9 * Suc l) p = p" "get_level l p u = Some d" by blast
    note dig = entrynr_of_digits [OF i(4,1) Suc.prems(2)]
    have "get_level (Suc l) (?sh i + p) t = Some d"
      unfolding m(1) get_level.simps dig(1)
      using get_level_key [OF m(2) [OF i(2)] dig(2)] i(2,5) by simp
    then show ?R using i(3) dig(3) by (metis add.assoc)
  next
    assume ?R
    then obtain p where p: "q = base + p" "take_bit (9 * Suc (Suc l)) p = p"
      "get_level (Suc l) p t = Some d" by blast
    then obtain u where u: "m (entrynr (Suc l) p) = Some u" "get_level l p u = Some d"
      by (auto simp: m(1) split: option.splits)
    let ?p = "take_bit (9 * Suc l) p"
    have "drop_bit (Suc l * 9) p = take_bit 9 (drop_bit (Suc l * 9) p)"
      using p(2) by (simp add: take_bit_drop_bit mult.commute add.commute)
    then have "?sh (entrynr (Suc l) p) = push_bit (Suc l * 9) (drop_bit (Suc l * 9) p)"
      by (simp add: entrynr_take_bit)
    then have q: "?sh (entrynr (Suc l) p) + ?p = p"
      by (simp only: mult.commute [of 9] bits_ident)
    have "page_key l ?p = page_key l p" by (simp add: page_key_def)
    then have "get_level l ?p u = Some d"
      using get_level_key [OF m(2) [OF u(1)], of ?p p] u(2) by simp
    then show ?L
      using entrynr_less [of "Suc l" p] u(1) q p(1)
      by (intro exI [of _ "entrynr (Suc l) p"] conjI exI [of _ u] exI [of _ ?p])
         (simp_all add: add.assoc)
  qed
  finally show ?case .
qed

section \<open>The size of the map\<close>

text \<open>
  \<open>createPhysicalMemoryMap\<close> rounds up with \<open>% 12\<close> where the number of levels is a division
  by 9, but the tree has one level more than \<open>maxlevel\<close>, so it always covers the page numbers.
\<close>

definition level_bits_ok :: "nat \<Rightarrow> bool" where
  "level_bits_ok n \<longleftrightarrow> 1 \<le> levels_needed n \<and> levels_needed n \<le> 6 \<and>
     n \<le> 12 + 9 * Suc (nat (levels_needed n))"

lemma all_level_bits_ok: "\<forall>n \<in> {13..<65}. level_bits_ok n"
  by code_simp

lemma levels_needed_ok:
  assumes "12 < n" and "n \<le> 64"
  shows "1 \<le> levels_needed n" and "levels_needed n \<le> 6" and "n \<le> 12 + 9 * Suc (nat (levels_needed n))"
  using all_level_bits_ok assms by (auto simp: level_bits_ok_def)

lemma createPhysicalMemoryMap_Some:
  assumes "12 < n" and "n \<le> 64"
  obtains m where "createPhysicalMemoryMap n = Some m" "map_invar m"
    "maxlevel m = nat (levels_needed n)" "maxlevel m \<le> 6" "\<And>a. map_getEntry m a = None"
  using levels_needed_ok [OF assms]
  by (simp add: createPhysicalMemoryMap_def createMap_def map_invar_def level_ok_zero
      map_getEntry_def get_level_zero)

lemma page_key_page:
  assumes "take_bit n a = a" and "n \<le> 12 + 9 * Suc l"
  shows "page_key l (drop_bit 12 a) = drop_bit 12 a"
proof (rule bit_eqI)
  fix k :: nat
  have "bit a (12 + k) \<Longrightarrow> 12 + k < n"
    using assms(1) by (metis bit_take_bit_iff)
  then show "bit (page_key l (drop_bit 12 a)) k = bit (drop_bit 12 a) k"
    using assms(2) by (auto simp: page_key_def bit_take_bit_iff bit_drop_bit_eq)
qed

lemma map_key_page:
  assumes "12 < n" "n \<le> 64" and "createPhysicalMemoryMap n = Some m" and "take_bit n a = a"
  shows "map_key m a = drop_bit 12 a"
proof -
  have "maxlevel m = nat (levels_needed n)"
    using assms(3) levels_needed_ok(1) [OF assms(1,2)]
    by (auto simp: createPhysicalMemoryMap_def createMap_def)
  then show ?thesis
    using page_key_page [OF assms(4) levels_needed_ok(3) [OF assms(1,2)]] by (simp add: map_key_def)
qed

section \<open>Properties\<close>

text \<open>
  C28: \<open>map_setEntry\<close> is a map update by page key: it keeps the shape of the tree, returns 0 or
  1, and returns 0 when one allocation per level is available; when it returns 0 exactly the
  addresses of that page read back the stored pointer, and when it returns 1 no lookup
  changes although nodes may have been linked.
\<close>

theorem map_setEntry_correct:
  assumes "map_invar m" and "map_setEntry m a d mem = (m', mem', r)"
  shows "map_invar m' \<and> (r = 0 \<or> r = 1) \<and> (maxlevel m \<le> mem \<longrightarrow> r = 0 \<and> mem \<le> mem' + maxlevel m) \<and>
    (\<forall>b. map_getEntry m' b =
       (if r = 0 \<and> map_key m b = map_key m a then d else map_getEntry m b))"
proof -
  have "r = 0 \<and> mem \<le> mem' + maxlevel m" if "maxlevel m \<le> mem"
    using map_setEntry_enough [OF assms that] by simp
  then show ?thesis
    using map_invar_set [OF assms] map_setEntry_ret [OF assms] map_getEntry_set [OF assms] by blast
qed

lemma map_setEntry_correct_witness:
  "\<exists>(m :: nat map_info) m' mem'. map_setEntry m 0x12345 (Some 9) 5 = (m', mem', 0) \<and>
     map_getEntry m' 0x12FFF = Some 9"
proof -
  obtain m :: "nat map_info" where m: "createPhysicalMemoryMap 36 = Some m" "map_invar m"
    by (rule createPhysicalMemoryMap_Some [of 36]) auto
  obtain m' mem' r where s: "map_setEntry m 0x12345 (Some 9) 5 = (m', mem', r)"
    by (cases "map_setEntry m 0x12345 (Some 9) 5")
  have "maxlevel m = 2"
    using m(1) by (auto simp: createPhysicalMemoryMap_def createMap_def levels_needed_def)
  moreover have "map_key m 0x12FFF = map_key m 0x12345" by (simp add: map_key_def)
  ultimately have "r = 0 \<and> map_getEntry m' 0x12FFF = Some 9"
    using map_setEntry_correct [OF m(2) s] by auto
  then show ?thesis using s by blast
qed

text \<open>
  On every processor (\<open>MAXPHYADDR\<close> above 12 and at most 64) \<open>createPhysicalMemoryMap\<close>
  gives an empty map whose levels tell any two physical pages apart: addresses share an
  entry exactly when they lie on the same page.
\<close>

theorem createPhysicalMemoryMap_separates_pages:
  assumes "12 < n" and "n \<le> 64" and "take_bit n a = a" and "take_bit n b = b"
  shows "case createPhysicalMemoryMap n :: 'd map_info option of None \<Rightarrow> False
    | Some m \<Rightarrow> map_invar m \<and> map_getEntry m a = None \<and>
        (map_key m a = map_key m b \<longleftrightarrow> drop_bit 12 a = drop_bit 12 b)"
proof -
  obtain m :: "'d map_info" where m: "createPhysicalMemoryMap n = Some m" "map_invar m"
    "map_getEntry m a = None"
    by (rule createPhysicalMemoryMap_Some [OF assms(1,2)]) blast
  then show ?thesis
    by (simp add: map_key_page [OF assms(1,2) m(1)] assms(3,4))
qed

lemma createPhysicalMemoryMap_separates_pages_witness:
  "case createPhysicalMemoryMap 39 :: nat map_info option of None \<Rightarrow> False
    | Some m \<Rightarrow> map_invar m \<and> map_getEntry m 0x7FFFFFF000 = None \<and>
        (map_key m 0x7FFFFFF000 = map_key m 0x7FFFFFE000
           \<longleftrightarrow> drop_bit 12 0x7FFFFFF000 = drop_bit 12 (0x7FFFFFE000 :: u64))"
  by (rule createPhysicalMemoryMap_separates_pages [of 39 "0x7FFFFFF000" "0x7FFFFFE000"])
     (simp_all add: take_bit_eq_mask mask_eq_exp_minus_1)

text \<open>
  \<open>map_foreach\<close> visits every stored pointer, and each call gets the page number of the
  entry where the type of the callback promises an address.
\<close>

theorem map_foreach_visits_page_numbers:
  assumes "map_invar m" and "maxlevel m \<le> 6"
  shows "(q, d) \<in> set (map_foreach m) \<longleftrightarrow>
         take_bit (9 * Suc (maxlevel m)) q = q \<and> get_level (maxlevel m) q (top m) = Some d"
  using map_iterate_set [of "maxlevel m" "top m" q d 0] assms
  by (simp add: map_foreach_def map_invar_def)

lemma map_foreach_visits_page_numbers_witness:
  "(0x12, 9) \<in> set (map_foreach (fst (map_setEntry \<lparr>maxlevel = 2, top = zero_page 2\<rparr> 0x12345
       (Some (9 :: nat)) 5)))"
proof -
  let ?m = "\<lparr>maxlevel = 2, top = zero_page 2 :: nat map_data\<rparr>"
  let ?m' = "fst (map_setEntry ?m 0x12345 (Some 9) 5)"
  have "map_invar ?m" by (simp add: map_invar_def level_ok_zero)
  then have "map_invar ?m'"
    by (cases "map_setEntry ?m 0x12345 (Some 9) 5") (simp add: map_invar_set)
  moreover have "maxlevel ?m' = 2" by (simp add: map_setEntry_def split: prod.splits)
  moreover have "take_bit 27 (0x12 :: u64) = 0x12" by (simp add: take_bit_eq_mask mask_eq_exp_minus_1)
  moreover have "case get_level 2 0x12 (top ?m') of None \<Rightarrow> False | Some d \<Rightarrow> d = 9" by code_simp
  ultimately show ?thesis
    by (subst map_foreach_visits_page_numbers) (auto split: option.splits)
qed

end
