(* ===== verification/CloakIndex.thy ===== *)
theory CloakIndex
  imports AddrList PhysMap
begin

text \<open>
  The index of cloaked pages of \<open>dbvm/vmm/epthandler.c\<close>: \<open>CloakedPagesList\<close> and, once the
  list has 40 entries, \<open>CloakedPagesMap\<close>. Only the index is modelled here: which pages
  \<open>ept_cloak_activate\<close>, \<open>ept_cloak_deactivate\<close> and the cloak part of \<open>ept_reset\<close> record
  and forget. The \<open>CloakedPageData\<close> is a value \<open>d\<close> given by the caller. \<open>pb\<close> is
  \<open>MAXPHYADDRMASKPB\<close> and \<open>n\<close> is \<open>MAXPHYADDR\<close>.
\<close>

record 'd cloak_state =
  CloakedPagesList :: "'d address_list option"
  CloakedPagesMap :: "'d map_info option"
  cloak_mem :: nat

datatype cloak_error = NullList | ListFault list_error

definition MAXCLOAKLISTBEFORETRANFERTOMAP :: nat where
  "MAXCLOAKLISTBEFORETRANFERTOMAP = 40"

section \<open>The operations\<close>

text \<open>The copy of the list into the map ignores the result of \<open>map_setEntry\<close>.\<close>

fun copy_entries :: "'d address_list_entry list \<Rightarrow> 'd map_info \<Rightarrow> nat \<Rightarrow> 'd map_info \<times> nat" where
  "copy_entries [] m mem = (m, mem)"
| "copy_entries (e # es) m mem =
     (let (m', mem', r) = map_setEntry m (address e) (Some (entry_data e)) mem
      in copy_entries es m' mem')"

definition first_run_check :: "nat \<Rightarrow> 'd cloak_state \<Rightarrow> cloak_error + 'd cloak_state" where
  "first_run_check n st =
     (if CloakedPagesMap st = None then
        let l = (case CloakedPagesList st of None \<Rightarrow> addresslist_create | Some l \<Rightarrow> l) in
        if al_size l \<ge> MAXCLOAKLISTBEFORETRANFERTOMAP then
          (case createPhysicalMemoryMap n of
             None \<Rightarrow> Inl NullList
           | Some m \<Rightarrow>
               let (m', mem') = copy_entries (al_entries l) m (cloak_mem st)
               in Inr \<lparr>CloakedPagesList = None, CloakedPagesMap = Some m', cloak_mem = mem'\<rparr>)
        else Inr (st\<lparr>CloakedPagesList := Some l\<rparr>)
      else Inr st)"

definition cloak_lookup :: "'d cloak_state \<Rightarrow> u64 \<Rightarrow> cloak_error + 'd option" where
  "cloak_lookup st a =
     (case CloakedPagesMap st of
        Some m \<Rightarrow> Inr (map_getEntry m a)
      | None \<Rightarrow> (case CloakedPagesList st of
            None \<Rightarrow> Inl NullList
          | Some l \<Rightarrow> Inr (addresslist_find l a)))"

definition cloak_record :: "'d cloak_state \<Rightarrow> u64 \<Rightarrow> 'd \<Rightarrow> cloak_error + 'd cloak_state" where
  "cloak_record st a d =
     (case CloakedPagesMap st of
        Some m \<Rightarrow>
          let (m', mem', r) = map_setEntry m a (Some d) (cloak_mem st)
          in Inr (st\<lparr>CloakedPagesMap := Some m', cloak_mem := mem'\<rparr>)
      | None \<Rightarrow> (case CloakedPagesList st of
            None \<Rightarrow> Inl NullList
          | Some l \<Rightarrow> (case addresslist_add l a d of
                Inl e \<Rightarrow> Inl (ListFault e)
              | Inr l' \<Rightarrow> Inr (st\<lparr>CloakedPagesList := Some l'\<rparr>))))"

definition ept_cloak_activate ::
  "nat \<Rightarrow> u64 \<Rightarrow> u64 \<Rightarrow> 'd \<Rightarrow> 'd cloak_state \<Rightarrow> cloak_error + 'd cloak_state \<times> int" where
  "ept_cloak_activate n pb pa d st =
     (let a = pa AND pb in
      case first_run_check n st of
        Inl e \<Rightarrow> Inl e
      | Inr st1 \<Rightarrow>
          (case cloak_lookup st1 a of
             Inl e \<Rightarrow> Inl e
           | Inr (Some _) \<Rightarrow> Inr (st1, 1)
           | Inr None \<Rightarrow>
               (case cloak_record st1 a d of Inl e \<Rightarrow> Inl e | Inr st2 \<Rightarrow> Inr (st2, 0))))"

definition ept_cloak_deactivate ::
  "u64 \<Rightarrow> u64 \<Rightarrow> 'd cloak_state \<Rightarrow> cloak_error + 'd cloak_state \<times> int" where
  "ept_cloak_deactivate pb pa st =
     (let a = pa AND pb in
      case cloak_lookup st a of
        Inl e \<Rightarrow> Inl e
      | Inr c \<Rightarrow>
          let r = (if c = None then 0 else 1) in
          (case CloakedPagesMap st of
             Some m \<Rightarrow>
               let (m', mem', _) = map_setEntry m a None (cloak_mem st)
               in Inr (st\<lparr>CloakedPagesMap := Some m', cloak_mem := mem'\<rparr>, r)
           | None \<Rightarrow> (case CloakedPagesList st of
                 None \<Rightarrow> Inl NullList
               | Some l \<Rightarrow> Inr (st\<lparr>CloakedPagesList := Some (addresslist_remove l a)\<rparr>, r))))"

text \<open>
  The last part of \<open>ept_reset\<close>: the list is emptied from the front; the map is traversed
  with \<open>ept_reset_cb\<close>, which stores a null pointer at the value the traversal passes. That
  value is a page number \<open>p\<close>, so the store clears page \<open>p >> 12\<close>, which an ascending traversal
  has already visited; nodes it adds hold no data. So the calls are those of the map at
  the start.
\<close>

fun reset_map :: "(u64 \<times> 'd) list \<Rightarrow> 'd map_info \<Rightarrow> nat \<Rightarrow> 'd map_info \<times> nat" where
  "reset_map [] m mem = (m, mem)"
| "reset_map ((p, _) # ps) m mem =
     (let (m', mem', r) = map_setEntry m p None mem in reset_map ps m' mem')"

function reset_list :: "u64 \<Rightarrow> nat \<Rightarrow> 'd cloak_state \<Rightarrow> (cloak_error + 'd cloak_state) option" where
  "reset_list pb fuel st =
     (case CloakedPagesList st of
        None \<Rightarrow> Some (Inl NullList)
      | Some l \<Rightarrow>
          if al_size l = 0 then Some (Inr st)
          else if fuel = 0 then None
          else (case ept_cloak_deactivate pb (address (al_entries l ! 0)) st of
                  Inl e \<Rightarrow> Some (Inl e)
                | Inr (st', _) \<Rightarrow> reset_list pb (fuel - 1) st'))"
  by pat_completeness auto
termination
  by (relation "measure (\<lambda>(pb, fuel, st). fuel)") auto

declare reset_list.simps [simp del]

definition ept_reset_index ::
  "u64 \<Rightarrow> nat \<Rightarrow> 'd cloak_state \<Rightarrow> (cloak_error + 'd cloak_state) option" where
  "ept_reset_index pb fuel st =
     (case CloakedPagesMap st of
        Some m \<Rightarrow>
          let (m', mem') = reset_map (map_foreach m) m (cloak_mem st)
          in Some (Inr (st\<lparr>CloakedPagesMap := Some m', cloak_mem := mem'\<rparr>))
      | None \<Rightarrow> (case CloakedPagesList st of
            None \<Rightarrow> Some (Inr st)
          | Some _ \<Rightarrow> reset_list pb fuel st))"

section \<open>The index as long as it is a list\<close>

text \<open>What every state reached without a fault looks like.\<close>

definition list_state :: "u64 \<Rightarrow> 'd cloak_state \<Rightarrow> bool" where
  "list_state pb st \<longleftrightarrow> CloakedPagesMap st = None \<and>
     (case CloakedPagesList st of None \<Rightarrow> True
      | Some l \<Rightarrow> al_invar l \<and> al_capacity l = 32 \<and> (\<forall>e \<in> set (al_entries l). address e AND pb = address e))"

definition cloak_abs :: "'d cloak_state \<Rightarrow> u64 \<rightharpoonup> 'd" where
  "cloak_abs st a =
     (case CloakedPagesMap st of
        Some m \<Rightarrow> map_getEntry m a
      | None \<Rightarrow> (case CloakedPagesList st of None \<Rightarrow> None | Some l \<Rightarrow> addresslist_find l a))"

text \<open>What the index promises: one cloak per page, the first activation winning.\<close>

definition abs_activate :: "u64 \<Rightarrow> u64 \<Rightarrow> 'd \<Rightarrow> (u64 \<rightharpoonup> 'd) \<Rightarrow> (u64 \<rightharpoonup> 'd)" where
  "abs_activate pb pa d f =
     (if f (pa AND pb) = None then f(pa AND pb \<mapsto> d) else f)"

definition abs_deactivate :: "u64 \<Rightarrow> u64 \<Rightarrow> (u64 \<rightharpoonup> 'd) \<Rightarrow> (u64 \<rightharpoonup> 'd)" where
  "abs_deactivate pb pa f = f(pa AND pb := None)"

definition cloak_init :: "nat \<Rightarrow> 'd cloak_state" where
  "cloak_init mem = \<lparr>CloakedPagesList = None, CloakedPagesMap = None, cloak_mem = mem\<rparr>"

lemma list_state_init: "list_state pb (cloak_init mem)"
  by (simp add: list_state_def cloak_init_def)

lemma al_empty_find: "addresslist_find addresslist_create a = None"
  by (simp add: addresslist_find_def addresslist_create_def al_size_def)

lemma al_capacity_create: "al_capacity addresslist_create = 32" "al_entries addresslist_create = []"
  by (simp_all add: addresslist_create_def)

lemma first_run_list:
  assumes "list_state pb st"
  obtains st1 l where "first_run_check n st = Inr st1" "list_state pb st1"
    "CloakedPagesList st1 = Some l" "cloak_abs st1 = cloak_abs st" "al_invar l" "al_capacity l = 32"
    "CloakedPagesMap st1 = None" "\<forall>e \<in> set (al_entries l). address e AND pb = address e"
proof -
  let ?l = "case CloakedPagesList st of None \<Rightarrow> addresslist_create | Some l \<Rightarrow> l"
  have l: "al_invar ?l" "al_capacity ?l = 32"
    "\<forall>e \<in> set (al_entries ?l). address e AND pb = address e"
    using assms by (auto simp: list_state_def al_invar_create al_capacity_create split: option.splits)
  then have "al_size ?l < MAXCLOAKLISTBEFORETRANFERTOMAP"
    by (simp add: al_invar_def MAXCLOAKLISTBEFORETRANFERTOMAP_def)
  then have "first_run_check n st = Inr (st\<lparr>CloakedPagesList := Some ?l\<rparr>)"
    using assms by (simp add: first_run_check_def list_state_def Let_def)
  moreover have "cloak_abs (st\<lparr>CloakedPagesList := Some ?l\<rparr>) = cloak_abs st"
    by (auto simp: cloak_abs_def fun_eq_iff al_empty_find split: option.splits)
  ultimately show ?thesis
    using that [of "st\<lparr>CloakedPagesList := Some ?l\<rparr>" ?l] l assms by (simp add: list_state_def)
qed

lemma set_insert_at: "set (take k xs @ x # drop k xs) = insert x (set xs)"
  by (metis Un_insert_right append_take_drop_id list.simps(15) set_append)

lemma add_entries_set:
  assumes "al_invar l" and "addresslist_add l a d = Inr t"
  shows "set (al_entries t) = insert \<lparr>address = a, entry_data = d\<rparr> (set (al_entries l))"
    and "al_capacity t = al_capacity l"
proof -
  let ?k = "insert_point l a"
  have t: "t = l\<lparr>al_entries := take ?k (al_entries l) @ \<lparr>address = a, entry_data = d\<rparr>
      # drop ?k (al_entries l)\<rparr>"
    using addresslist_add_room [OF assms(1) addresslist_add_Inr [OF assms], of d] assms(2) by simp
  then have "al_entries t = take ?k (al_entries l) @ \<lparr>address = a, entry_data = d\<rparr>
      # drop ?k (al_entries l)" by simp
  then show "set (al_entries t) = insert \<lparr>address = a, entry_data = d\<rparr> (set (al_entries l))"
    by (simp only: set_insert_at)
  show "al_capacity t = al_capacity l" by (simp add: t)
qed

lemma remove_entries:
  assumes "al_size l \<noteq> 0" and "search_loop (al_entries l) a 0 (al_size l) = Some i"
  shows "al_entries (addresslist_remove l a) = take i (al_entries l) @ drop (Suc i) (al_entries l)"
    and "i < al_size l"
proof -
  show "i < al_size l" using search_loop_Some [OF assms(2)] by simp
  then show "al_entries (addresslist_remove l a) = take i (al_entries l) @ drop (Suc i) (al_entries l)"
    using shift_down_remove [of i "al_entries l"] assms
    by (simp add: addresslist_remove_def al_size_def)
qed

lemma remove_entries_set:
  "set (al_entries (addresslist_remove l a)) \<subseteq> set (al_entries l)"
  "al_capacity (addresslist_remove l a) = al_capacity l"
proof -
  show "al_capacity (addresslist_remove l a) = al_capacity l"
    by (simp add: addresslist_remove_def split: option.splits)
  show "set (al_entries (addresslist_remove l a)) \<subseteq> set (al_entries l)"
  proof (cases "al_size l \<noteq> 0 \<and> search_loop (al_entries l) a 0 (al_size l) \<noteq> None")
    case True
    then show ?thesis
      by (auto simp: remove_entries dest: in_set_takeD in_set_dropD)
  qed (auto simp: addresslist_remove_def)
qed

lemma activate_list_state:
  assumes inv: "list_state pb st" and act: "ept_cloak_activate n pb pa d st = Inr (st', r)"
  shows "list_state pb st'"
    and "cloak_abs st' = abs_activate pb pa d (cloak_abs st)"
    and "r = (if cloak_abs st (pa AND pb) = None then 0 else 1)"
proof -
  obtain st1 l where st1: "first_run_check n st = Inr st1" "list_state pb st1"
    "CloakedPagesList st1 = Some l" "cloak_abs st1 = cloak_abs st" "al_invar l" "al_capacity l = 32"
    "CloakedPagesMap st1 = None" "\<forall>e \<in> set (al_entries l). address e AND pb = address e"
    by (rule first_run_list [OF inv])
  have look: "cloak_lookup st1 a = Inr (cloak_abs st a)"
    and abs1: "cloak_abs st a = addresslist_find l a" for a
    unfolding st1(4) [symmetric] by (simp_all add: cloak_lookup_def cloak_abs_def st1(3,7))
  have "list_state pb st' \<and> cloak_abs st' = abs_activate pb pa d (cloak_abs st) \<and>
        r = (if cloak_abs st (pa AND pb) = None then 0 else 1)"
  proof (cases "cloak_abs st (pa AND pb)")
    case (Some c)
    then show ?thesis
      using act st1 by (simp add: ept_cloak_activate_def look abs_activate_def)
  next
    case None
    then obtain l' where l': "addresslist_add l (pa AND pb) d = Inr l'"
      and st': "st' = st1\<lparr>CloakedPagesList := Some l'\<rparr>" and r: "r = 0"
      using act st1 by (auto simp: ept_cloak_activate_def look cloak_record_def split: sum.splits)
    have "list_state pb st'"
      using al_invar_add(1) [OF st1(5) l'] add_entries_set [OF st1(5) l'] st1
      by (auto simp: list_state_def st' and.assoc)
    moreover have "cloak_abs st' = abs_activate pb pa d (cloak_abs st)"
      using alist.lookup_insert [of l "pa AND pb" d l'] l' st1(5) None
      by (auto simp: fun_eq_iff abs1 abs_activate_def list_insert_at_def)
         (simp_all add: cloak_abs_def st' st1)
    ultimately show ?thesis using None r by simp
  qed
  then show "list_state pb st'" "cloak_abs st' = abs_activate pb pa d (cloak_abs st)"
    "r = (if cloak_abs st (pa AND pb) = None then 0 else 1)" by auto
qed

lemma deactivate_list_state:
  assumes inv: "list_state pb st" and act: "ept_cloak_deactivate pb pa st = Inr (st', r)"
  shows "list_state pb st'"
    and "cloak_abs st' = abs_deactivate pb pa (cloak_abs st)"
    and "r = (if cloak_abs st (pa AND pb) = None then 0 else 1)"
proof -
  from act inv obtain l where l: "CloakedPagesList st = Some l" and st': 
      "st' = st\<lparr>CloakedPagesList := Some (addresslist_remove l (pa AND pb))\<rparr>"
    and r: "r = (if addresslist_find l (pa AND pb) = None then 0 else 1)"
    by (auto simp: ept_cloak_deactivate_def cloak_lookup_def list_state_def Let_def split: option.splits)
  have l_inv: "al_invar l" "al_capacity l = 32" "CloakedPagesMap st = None"
    "\<forall>e \<in> set (al_entries l). address e AND pb = address e"
    using inv l by (auto simp: list_state_def)
  show "list_state pb st'"
    using l_inv alist.invar_remove [OF l_inv(1)] remove_entries_set [of l "pa AND pb"]
    by (auto simp: list_state_def st')
  show "cloak_abs st' = abs_deactivate pb pa (cloak_abs st)"
    using alist.lookup_remove [OF l_inv(1)] l_inv
    by (auto simp: fun_eq_iff cloak_abs_def st' l abs_deactivate_def)
  show "r = (if cloak_abs st (pa AND pb) = None then 0 else 1)"
    using l_inv by (simp add: r cloak_abs_def l)
qed

section \<open>Sequences of operations\<close>

datatype 'd cloak_op = Activate u64 'd | Deactivate u64

fun cloak_step :: "nat \<Rightarrow> u64 \<Rightarrow> 'd cloak_op \<Rightarrow> 'd cloak_state \<Rightarrow> cloak_error + 'd cloak_state \<times> int" where
  "cloak_step n pb (Activate pa d) st = ept_cloak_activate n pb pa d st"
| "cloak_step n pb (Deactivate pa) st = ept_cloak_deactivate pb pa st"

fun cloak_run ::
  "nat \<Rightarrow> u64 \<Rightarrow> 'd cloak_op list \<Rightarrow> 'd cloak_state \<Rightarrow> cloak_error + 'd cloak_state \<times> int list" where
  "cloak_run n pb [] st = Inr (st, [])"
| "cloak_run n pb (x # xs) st =
     (case cloak_step n pb x st of
        Inl e \<Rightarrow> Inl e
      | Inr (st1, r) \<Rightarrow>
          (case cloak_run n pb xs st1 of Inl e \<Rightarrow> Inl e | Inr (st2, rs) \<Rightarrow> Inr (st2, r # rs)))"

fun abs_step :: "u64 \<Rightarrow> 'd cloak_op \<Rightarrow> (u64 \<rightharpoonup> 'd) \<Rightarrow> (u64 \<rightharpoonup> 'd)" where
  "abs_step pb (Activate pa d) f = abs_activate pb pa d f"
| "abs_step pb (Deactivate pa) f = abs_deactivate pb pa f"

fun op_page :: "u64 \<Rightarrow> 'd cloak_op \<Rightarrow> u64" where
  "op_page pb (Activate pa d) = pa AND pb"
| "op_page pb (Deactivate pa) = pa AND pb"

fun abs_run :: "u64 \<Rightarrow> 'd cloak_op list \<Rightarrow> (u64 \<rightharpoonup> 'd) \<Rightarrow> (u64 \<rightharpoonup> 'd) \<times> int list" where
  "abs_run pb [] f = (f, [])"
| "abs_run pb (x # xs) f =
     (let (g, rs) = abs_run pb xs (abs_step pb x f)
      in (g, (if f (op_page pb x) = None then 0 else 1) # rs))"

lemma cloak_step_list_state:
  assumes "list_state pb st" and "cloak_step n pb x st = Inr (st', r)"
  shows "list_state pb st'" and "cloak_abs st' = abs_step pb x (cloak_abs st)"
    and "r = (if cloak_abs st (op_page pb x) = None then 0 else 1)"
proof (atomize (full), cases x)
  case (Activate pa d)
  then show "list_state pb st' \<and> cloak_abs st' = abs_step pb x (cloak_abs st) \<and>
      r = (if cloak_abs st (op_page pb x) = None then 0 else 1)"
    using activate_list_state [OF assms(1), of n pa d st' r] assms(2) by simp
next
  case (Deactivate pa)
  then show "list_state pb st' \<and> cloak_abs st' = abs_step pb x (cloak_abs st) \<and>
      r = (if cloak_abs st (op_page pb x) = None then 0 else 1)"
    using deactivate_list_state [OF assms(1), of pa st' r] assms(2) by simp
qed

lemma cloak_run_list_state:
  "cloak_run n pb xs st = Inr (st', rs) \<Longrightarrow> list_state pb st \<Longrightarrow>
   list_state pb st' \<and> abs_run pb xs (cloak_abs st) = (cloak_abs st', rs)"
proof (induction xs arbitrary: st rs)
  case (Cons x xs)
  from Cons.prems(1) obtain st1 r rs' where s: "cloak_step n pb x st = Inr (st1, r)"
    "cloak_run n pb xs st1 = Inr (st', rs')" "rs = r # rs'"
    by (auto split: sum.splits)
  note step = cloak_step_list_state [OF Cons.prems(2) s(1)]
  then show ?case
    using Cons.IH [OF s(2) step(1)] by (simp add: s(3) flip: step(2))
qed simp

lemma cloak_abs_init: "cloak_abs (cloak_init mem) = Map.empty"
  by (simp add: cloak_abs_def cloak_init_def fun_eq_iff)

lemma activate_full_list:
  assumes "list_state pb st" and l: "CloakedPagesList st = Some l" "al_size l = 32"
    and new: "cloak_abs st (pa AND pb) = None"
  shows "ept_cloak_activate n pb pa d st = Inl (ListFault BufferOverflow)"
proof -
  have li: "al_invar l" "al_size l = al_capacity l" "CloakedPagesMap st = None"
    using assms by (auto simp: list_state_def)
  then have find: "addresslist_find l (pa AND pb) = None"
    using assms by (simp add: cloak_abs_def)
  then have "pa AND pb \<notin> address ` set (al_entries l)"
    using li(1) by (auto simp: addresslist_find_map al_map_def map_of_eq_None_iff image_image)
  note full = addresslist_add_full(2) [OF li(1,2) this]
  have "first_run_check n st = Inr st"
    using li l by (simp add: first_run_check_def MAXCLOAKLISTBEFORETRANFERTOMAP_def Let_def)
  then show ?thesis
    using li l find full by (simp add: ept_cloak_activate_def cloak_lookup_def cloak_record_def Let_def)
qed

text \<open>
  C1: Whatever sequence of activations and deactivations runs from the empty index without a
  fault, the index is well formed (\<open>list_state\<close>) and a map from pages to cloaks: an activation of a page not yet cloaked
  records it and returns 0, one of a cloaked page changes nothing and returns 1, and a
  deactivation forgets the page and tells whether it was cloaked.
\<close>

theorem cloak_run_refines:
  assumes "cloak_run n pb xs (cloak_init mem) = Inr (st, rs)"
  shows "list_state pb st \<and> abs_run pb xs Map.empty = (cloak_abs st, rs)"
  using cloak_run_list_state [OF assms list_state_init] by (simp add: cloak_abs_init)

lemma cloak_run_refines_witness:
  "\<exists>st. abs_run 0xFFFFFF000 [Activate 0x1ABC 5, Activate 0x1DEF 6, Deactivate 0x1000]
      (Map.empty :: u64 \<rightharpoonup> nat) = (cloak_abs st, [0, 1, 1])"
proof -
  let ?r = "cloak_run 36 0xFFFFFF000 [Activate 0x1ABC 5, Activate 0x1DEF 6, Deactivate 0x1000]
      (cloak_init 0 :: nat cloak_state)"
  have "case ?r of Inl e \<Rightarrow> False | Inr (st, rs) \<Rightarrow> rs = [0, 1, 1]" by code_simp
  then obtain st where "?r = Inr (st, [0, 1, 1])" by (auto split: sum.splits)
  then show ?thesis using cloak_run_refines by blast
qed

text \<open>
  C27: The switch to the map at 40 entries never happens: every state reached without a fault
  still uses the list, which holds at most 32 entries, and activating a new page when it
  holds 32 overflows the block that \<open>addresslist_add\<close> has just reallocated to 64 bytes.
\<close>

theorem cloak_index_overflows_before_map:
  assumes "cloak_run n pb xs (cloak_init mem) = Inr (st, rs)"
  shows "CloakedPagesMap st = None \<and>
    (\<forall>l. CloakedPagesList st = Some l \<longrightarrow> al_size l \<le> 32 \<and>
       (\<forall>pa d. al_size l = 32 \<and> cloak_abs st (pa AND pb) = None \<longrightarrow>
          ept_cloak_activate n pb pa d st = Inl (ListFault BufferOverflow)))"
proof (intro conjI allI impI)
  have inv: "list_state pb st"
    using cloak_run_list_state [OF assms list_state_init] by simp
  then show "CloakedPagesMap st = None" by (simp add: list_state_def)
  show "al_size l \<le> 32" if "CloakedPagesList st = Some l" for l
    using inv that by (auto simp: list_state_def al_invar_def)
  show "ept_cloak_activate n pb pa d st = Inl (ListFault BufferOverflow)"
    if "CloakedPagesList st = Some l" "al_size l = 32 \<and> cloak_abs st (pa AND pb) = None" for l pa d
    using inv that by (auto intro: activate_full_list)
qed

lemma cloak_index_overflows_before_map_witness:
  "\<exists>st. CloakedPagesMap st = None \<and>
     ept_cloak_activate 36 0xFFFFFF000 0x100000 7 (st :: nat cloak_state) =
       Inl (ListFault BufferOverflow)"
proof -
  let ?ops = "map (\<lambda>i. Activate (of_nat i * 4096) i) [1..<33]"
  let ?r = "cloak_run 36 0xFFFFFF000 ?ops (cloak_init 0 :: nat cloak_state)"
  have "case ?r of Inl e \<Rightarrow> False | Inr (st, rs) \<Rightarrow>
      (case CloakedPagesList st of None \<Rightarrow> False | Some l \<Rightarrow> al_size l = 32) \<and>
      (case cloak_abs st (0x100000 AND 0xFFFFFF000) of None \<Rightarrow> True | Some _ \<Rightarrow> False)"
    by code_simp
  then obtain st rs l where st: "?r = Inr (st, rs)" "CloakedPagesList st = Some l" "al_size l = 32"
    "cloak_abs st (0x100000 AND 0xFFFFFF000) = None"
    by (auto split: sum.splits option.splits)
  show ?thesis
    using cloak_index_overflows_before_map [OF st(1)] st(2-4) by blast
qed

section \<open>Emptying the index\<close>

lemma reset_list_empties:
  "list_state pb st \<Longrightarrow> CloakedPagesList st = Some l \<Longrightarrow> al_size l \<le> fuel \<Longrightarrow>
   \<exists>st' l'. reset_list pb fuel st = Some (Inr st') \<and> CloakedPagesMap st' = None \<and>
     CloakedPagesList st' = Some l' \<and> al_size l' = 0"
proof (induction fuel arbitrary: st l)
  case 0
  then show ?case
    by (simp add: reset_list.simps [of pb 0 st] list_state_def)
next
  case (Suc fuel)
  have inv: "al_invar l" "CloakedPagesMap st = None"
    "\<forall>e \<in> set (al_entries l). address e AND pb = address e"
    using Suc.prems(1,2) by (auto simp: list_state_def)
  show ?case
  proof (cases "al_size l = 0")
    case True
    then show ?thesis
      using Suc.prems inv by (simp add: reset_list.simps [of pb "Suc fuel" st])
  next
    case False
    let ?e = "al_entries l ! 0"
    let ?l = "addresslist_remove l (address ?e)"
    have e: "?e \<in> set (al_entries l)" using False by (simp add: al_size_def)
    then have "search_loop (al_entries l) (address ?e) 0 (al_size l) \<noteq> None"
      using search_loop_None_iff [of "al_entries l" "address ?e"] inv(1)
      by (auto simp: al_invar_def al_size_def)
    then obtain i where i: "search_loop (al_entries l) (address ?e) 0 (al_size l) = Some i" by auto
    have sz: "al_size ?l < al_size l"
      using remove_entries [OF False i] by (simp add: al_size_def)
    obtain st' r where d: "ept_cloak_deactivate pb (address ?e) st = Inr (st', r)"
      and st': "st' = st\<lparr>CloakedPagesList := Some ?l\<rparr>"
      using inv e Suc.prems(2) by (simp add: ept_cloak_deactivate_def cloak_lookup_def Let_def)
    have "reset_list pb (Suc fuel) st = reset_list pb fuel st'"
      using d Suc.prems(2) False by (subst reset_list.simps) simp
    then show ?thesis
      using Suc.IH [OF deactivate_list_state(1) [OF Suc.prems(1) d], of ?l] sz Suc.prems(3) st' by simp
  qed
qed

text \<open>
  C31: \<open>ept_reset\<close> terminates and forgets every cloaked page of an index that is a list: it
  makes one deactivation per entry, so as much fuel as there are entries is enough.
\<close>

theorem ept_reset_empties_list:
  assumes "list_state pb st" and "CloakedPagesList st = Some l" and "al_size l \<le> fuel"
  shows "\<exists>st'. ept_reset_index pb fuel st = Some (Inr st') \<and> cloak_abs st' = Map.empty"
proof -
  obtain st' l' where r: "reset_list pb fuel st = Some (Inr st')" "CloakedPagesMap st' = None"
    "CloakedPagesList st' = Some l'" "al_size l' = 0"
    using reset_list_empties [OF assms] by blast
  then have "ept_reset_index pb fuel st = Some (Inr st')"
    using assms by (simp add: ept_reset_index_def list_state_def)
  moreover have "cloak_abs st' = Map.empty"
    using r by (simp add: cloak_abs_def addresslist_find_def fun_eq_iff)
  ultimately show ?thesis by blast
qed

lemma ept_reset_empties_list_witness:
  "\<exists>st'. ept_reset_index 0xFFFFFF000 1 \<lparr>CloakedPagesList = Some \<lparr>al_entries =
       [\<lparr>address = 0x5000, entry_data = 3 :: nat\<rparr>], al_capacity = 32, al_bytes = 512\<rparr>,
       CloakedPagesMap = None, cloak_mem = 0\<rparr> = Some (Inr st') \<and> cloak_abs st' = Map.empty"
  by (rule ept_reset_empties_list [where l = "\<lparr>al_entries =
       [\<lparr>address = 0x5000, entry_data = 3\<rparr>], al_capacity = 32, al_bytes = 512\<rparr>"])
     (simp_all add: list_state_def al_invar_def sorted_entries_def al_size_def entry_bytes_def)

section \<open>The index as a map\<close>

lemma reset_map_lookup:
  "map_invar m \<Longrightarrow> map_invar (fst (reset_map ps m mem)) \<and>
   map_getEntry (fst (reset_map ps m mem)) a =
     (if map_key m a \<in> map_key m ` fst ` set ps then None else map_getEntry m a)"
proof (induction ps m mem rule: reset_map.induct)
  case (2 p d ps m mem)
  let ?s = "map_remove_at (m, mem) p"
  have inv: "map_invar (fst ?s)" and key: "map_key (fst ?s) = map_key m"
    and look: "map_getEntry (fst ?s) b = (if map_key m b = map_key m p then None else map_getEntry m b)" for b
    using pmap.invar_remove [of "(m, mem)" p] pmap.key_remove [of "(m, mem)" p]
      pmap.lookup_remove [of "(m, mem)" p b] "2.prems" by simp_all
  obtain m' mem' r where set: "map_setEntry m p None mem = (m', mem', r)"
    by (cases "map_setEntry m p None mem")
  then have m': "fst ?s = m'" "snd ?s = mem'" by (simp_all add: map_remove_at_def)
  show ?case
    using "2.IH" [OF set [symmetric] refl refl] inv [unfolded m'] by (auto simp: set look [unfolded m'] key [unfolded m'])
qed simp

text \<open>
  With the index in a map, \<open>ept_reset\<close> does not remove the cloaked pages: the callback
  takes the page number \<open>q\<close> of each entry for an address, so a page stays recorded unless
  some cloaked page has a number that lies on it.
\<close>

theorem ept_reset_map_keeps_pages:
  assumes "CloakedPagesMap st = Some m" and "map_invar m"
  shows "\<exists>st'. ept_reset_index pb fuel st = Some (Inr st') \<and> (\<forall>a. cloak_abs st' a =
     (if \<exists>(q, d) \<in> set (map_foreach m). map_key m a = map_key m q then None else cloak_abs st a))"
proof -
  obtain m' mem' where r: "reset_map (map_foreach m) m (cloak_mem st) = (m', mem')"
    by (cases "reset_map (map_foreach m) m (cloak_mem st)")
  then show ?thesis
    using assms reset_map_lookup [OF assms(2), of "map_foreach m" "cloak_mem st"]
    by (auto simp: ept_reset_index_def cloak_abs_def Bex_def image_iff split_beta)
qed

lemma ept_reset_map_keeps_pages_witness:
  "\<exists>st'. ept_reset_index 0xFFFFFF000 0 \<lparr>CloakedPagesList = None, CloakedPagesMap = Some (fst (map_setEntry
       \<lparr>maxlevel = 2, top = zero_page 2\<rparr> 0x12345000 (Some (9 :: nat)) 5)), cloak_mem = 0\<rparr> = Some (Inr st') \<and>
     cloak_abs st' 0x12345000 = Some 9"
proof -
  let ?m0 = "\<lparr>maxlevel = 2, top = zero_page 2 :: nat map_data\<rparr>"
  obtain m mem r where set: "map_setEntry ?m0 0x12345000 (Some (9 :: nat)) 5 = (m, mem, r)"
    by (cases "map_setEntry ?m0 0x12345000 (Some (9 :: nat)) 5")
  have i0: "map_invar ?m0" by (simp add: map_invar_def level_ok_zero)
  have r: "r = 0" using map_setEntry_ret [OF i0 set] map_setEntry_fields(2) [OF set]
      set_level_succeeds [of 2 "top ?m0" 5 "drop_bit 12 0x12345000" "Some 9"]
    by (auto simp: level_ok_zero)
  have inv: "map_invar m" and ml: "maxlevel m = 2" and key: "map_key m = map_key ?m0"
    using map_invar_set [OF i0 set] map_setEntry_fields(1) [OF set] map_key_set [OF set] by auto
  have get: "map_getEntry m a = (if map_key ?m0 a = map_key ?m0 0x12345000 then Some 9 else None)" for a
    using map_getEntry_set [OF i0 set, of a] r by (simp add: map_getEntry_def get_level_zero)
  have num: "(q, d) \<in> set (map_foreach m) \<Longrightarrow> q = 0x12345" for q d
  proof -
    assume "(q, d) \<in> set (map_foreach m)"
    then have q: "take_bit 27 q = q" "get_level 2 q (top m) \<noteq> None"
      using map_iterate_set [of 2 "top m" q d 0] inv by (auto simp: map_foreach_def map_invar_def ml)
    have "drop_bit 12 (push_bit 12 q) = q"
    proof (rule bit_eqI)
      fix k :: nat
      have "bit q k \<Longrightarrow> k < 27" using q(1) by (metis bit_take_bit_iff)
      then show "bit (drop_bit 12 (push_bit 12 q)) k = bit q k"
        by (auto simp: bit_drop_bit_eq bit_push_bit_iff)
    qed
    then have "map_getEntry m (push_bit 12 q) \<noteq> None" "map_key ?m0 (push_bit 12 q) = q"
      using q by (simp_all add: map_getEntry_def map_key_def page_key_def ml)
    then show "q = 0x12345"
      unfolding get by (simp add: map_key_def page_key_def take_bit_eq_mask mask_eq_exp_minus_1 split: if_splits)
  qed
  have "map_key m 0x12345000 \<noteq> map_key m 0x12345"
    unfolding key by (simp add: map_key_def page_key_def take_bit_eq_mask mask_eq_exp_minus_1)
  then show ?thesis
    using ept_reset_map_keeps_pages [where st = "\<lparr>CloakedPagesList = None, CloakedPagesMap = Some m,
        cloak_mem = 0\<rparr>" and m = m and pb = "0xFFFFFF000" and fuel = 0] inv num get [where a = "0x12345000"]
    by (auto simp: set cloak_abs_def Bex_def split: if_splits)
qed

section \<open>From the list to the map\<close>

lemma copy_entries_insert_all:
  "map_invar m \<Longrightarrow> maxlevel m * length es \<le> mem \<Longrightarrow>
   pmap.insert_all (m, mem) (pairs es) = Some (copy_entries es m mem)"
proof (induction es m mem rule: copy_entries.induct)
  case (2 e es m mem)
  obtain m' mem' r where set: "map_setEntry m (address e) (Some (entry_data e)) mem = (m', mem', r)"
    by (cases "map_setEntry m (address e) (Some (entry_data e)) mem")
  have "maxlevel m \<le> mem" using "2.prems"(2) by simp
  then have r: "r = 0" and mem: "mem \<le> mem' + maxlevel m"
    using map_setEntry_enough [OF "2.prems"(1) set] by auto
  have "map_invar m'" "maxlevel m' * length es \<le> mem'"
    using map_invar_set [OF "2.prems"(1) set] map_setEntry_fields(1) [OF set] mem "2.prems"(2) by auto
  moreover have "map_insert_at (m, mem) (address e) (entry_data e) = Some (m', mem')"
    by (simp add: map_insert_at_def set r)
  ultimately show ?case
    using "2.IH" [OF set [symmetric] refl refl] by (simp add: set)
qed simp

lemma map_of_inj_key:
  "(\<And>e. e \<in> set xs \<Longrightarrow> f (fst e) = f b \<Longrightarrow> fst e = b) \<Longrightarrow>
   map_of (map (\<lambda>e. (f (fst e), snd e)) xs) (f b) = map_of xs b"
proof (induction xs)
  case (Cons e xs)
  have "map_of (map (\<lambda>e. (f (fst e), snd e)) xs) (f b) = map_of xs b"
    by (rule Cons.IH) (use Cons.prems in auto)
  then show ?case using Cons.prems [of e] by (cases e) auto
qed simp

text \<open>A physical page address of a processor with \<open>n\<close> address bits.\<close>

definition page_address :: "nat \<Rightarrow> u64 \<Rightarrow> bool" where
  "page_address n a \<longleftrightarrow> take_bit n a = a \<and> take_bit 12 a = 0"

lemma page_address_inj:
  assumes "page_address n a" "page_address n b" "drop_bit 12 a = drop_bit 12 b"
  shows "a = b"
  using assms bits_ident [of 12 a] bits_ident [of 12 b] by (simp add: page_address_def)

text \<open>
  The conversion of a full list into the map, with memory for it, keeps every recorded
  cloak: on page addresses the map answers as the list did.
\<close>

theorem first_run_check_converts:
  assumes n: "12 < n" "n \<le> 64" and st: "CloakedPagesMap st = None" "CloakedPagesList st = Some l"
    and inv: "al_invar l" and full: "MAXCLOAKLISTBEFORETRANFERTOMAP \<le> al_size l"
    and pages: "\<forall>e \<in> set (al_entries l). page_address n (address e)"
    and mem: "6 * al_size l \<le> cloak_mem st"
  shows "\<exists>st'. first_run_check n st = Inr st' \<and> CloakedPagesList st' = None \<and>
    CloakedPagesMap st' \<noteq> None \<and> (\<forall>a. page_address n a \<longrightarrow> cloak_abs st' a = cloak_abs st a)"
proof -
  obtain m :: "'a map_info" where m: "createPhysicalMemoryMap n = Some m" "map_invar m" "maxlevel m \<le> 6"
    "\<And>a. map_getEntry m a = None"
    by (rule createPhysicalMemoryMap_Some [OF n]) blast
  obtain m' mem' where c: "copy_entries (al_entries l) m (cloak_mem st) = (m', mem')"
    by (cases "copy_entries (al_entries l) m (cloak_mem st)")
  have "maxlevel m * length (al_entries l) \<le> 6 * al_size l"
    using m(3) by (simp add: al_size_def)
  then have ins: "pmap.insert_all (m, cloak_mem st) (pairs (al_entries l)) = Some (m', mem')"
    using copy_entries_insert_all [OF m(2)] mem c by fastforce
  have key: "map_key m a = drop_bit 12 a" if "page_address n a" for a
    using that map_key_page [OF n m(1)] by (simp add: page_address_def)
  have "distinct (map address (al_entries l))"
    using inv by (intro sorted_entries_distinct) (simp add: al_invar_def)
  moreover have "inj_on (map_key m) (address ` set (al_entries l))"
    using pages by (auto simp: inj_on_def key intro: page_address_inj [of n])
  ultimately have "distinct (map (map_key m) (map address (al_entries l)))"
    by (simp only: distinct_map set_map)
  then have dist: "distinct (map (\<lambda>e. map_key (fst (m, cloak_mem st)) (fst e)) (pairs (al_entries l)))"
    by (simp add: comp_def)
  have "map_getEntry m' a = addresslist_find l a" if a: "page_address n a" for a
  proof -
    have "map_of (map (\<lambda>e. (map_key m (fst e), snd e)) (pairs (al_entries l))) (map_key m a) = al_map l a"
      unfolding al_map_def using pages a
      by (intro map_of_inj_key) (auto simp: key intro: page_address_inj [of n])
    then show ?thesis
      using pmap.lookup_insert_all [OF ins _ dist, of a] m(2,4)
      by (simp add: addresslist_find_map [OF inv] split: option.splits)
  qed
  then show ?thesis
    using st full m(1) c by (simp add: first_run_check_def cloak_abs_def)
qed

lemma first_run_check_converts_witness:
  "\<exists>st'. first_run_check 36 \<lparr>CloakedPagesList = Some \<lparr>al_entries =
       map (\<lambda>i. \<lparr>address = of_nat i * 4096, entry_data = i\<rparr>) [0..<40], al_capacity = 64,
       al_bytes = 1024\<rparr>, CloakedPagesMap = None, cloak_mem = 300\<rparr> = Inr st' \<and>
     CloakedPagesMap st' \<noteq> None \<and> cloak_abs st' 0x27000 = Some 39"
proof -
  define l where "l = \<lparr>al_entries = map (\<lambda>i. \<lparr>address = of_nat i * 4096, entry_data = i\<rparr>) [0..<40],
       al_capacity = 64, al_bytes = 1024\<rparr>"
  define st where "st = \<lparr>CloakedPagesList = Some l, CloakedPagesMap = None, cloak_mem = 300\<rparr>"
  have "sorted_entries (al_entries l)" unfolding l_def by code_simp
  then have inv: "al_invar l" by (simp add: al_invar_def al_size_def entry_bytes_def l_def)
  have pages: "\<forall>e \<in> set (al_entries l). page_address 36 (address e)" unfolding l_def by code_simp
  have "cloak_abs st 0x27000 = Some 39" unfolding st_def l_def cloak_abs_def by code_simp
  moreover have "page_address 36 0x27000" by code_simp
  moreover have "MAXCLOAKLISTBEFORETRANFERTOMAP \<le> al_size l" "6 * al_size l \<le> cloak_mem st"
    by (simp_all add: al_size_def MAXCLOAKLISTBEFORETRANFERTOMAP_def l_def st_def)
  moreover have "CloakedPagesMap st = None" "CloakedPagesList st = Some l"
    by (simp_all add: st_def)
  ultimately have "\<exists>st'. first_run_check 36 st = Inr st' \<and> CloakedPagesMap st' \<noteq> None \<and>
      cloak_abs st' 0x27000 = Some 39"
    using first_run_check_converts [of 36 st l] inv pages by auto
  then show ?thesis unfolding st_def l_def .
qed

end
