(* ===== verification/Vmcs.thy ===== *)
theory Vmcs
  imports Prelude
begin

text \<open>
  The state the real-mode and paging emulation of \<open>dbvm/vmm\<close> works on: the guest registers
  saved on a VM exit (\<open>VMRegisters\<close>), the fields of the VMCS that \<open>vmread\<close> and \<open>vmwrite\<close>
  reach, physical memory, and the members of \<open>tcpuinfo\<close> the modelled functions use. Only
  Intel processors are modelled (\<open>isAMD\<close> is 0): the VMCS does not exist on the others.
  \<open>vm_env\<close> holds what does not change while an exit is handled: the capabilities found at
  boot, \<open>MAXPHYADDRMASK\<close>, the fixed bits of the control registers, the physical addresses of
  the tables \<open>setupNonPagedPaging\<close> has built, the pages of the mapping window that are free
  and the host page tables.
\<close>

record vm_env =
  hasUnrestrictedSupport :: bool
  hasCETSupport :: bool
  MAXPHYADDRMASK :: u64
  IA32_VMX_CR0_FIXED0 :: u64
  IA32_VMX_CR0_FIXED1 :: u64
  IA32_VMX_CR4_FIXED0 :: u64
  IA32_VMX_CR4_FIXED1 :: u64
  nonpagedEmulationPagedirPA :: u64
  nonpagedEmulationPagedir32BitPAEPA :: u64
  nonpagedEmulationPagedir32BitPA :: u64
  map_window :: nat
  host_page :: "u64 \<Rightarrow> u64 option"
  vmmstart :: u64
  msr_writable :: "u32 \<Rightarrow> u64 \<Rightarrow> bool"

record vm_state =
  rax :: u64
  rcx :: u64
  rdx :: u64
  rbx :: u64
  rbp :: u64
  rsi :: u64
  rdi :: u64
  vmcs :: "nat \<Rightarrow> u64"
  pmem :: "u64 \<Rightarrow> u8"
  guestCR0 :: u64
  guestCR3 :: u64
  efer :: u64
  hasIF :: u32
  TSsegment :: u16
  TSbase :: u64
  TSlimit :: u32
  TSaccessRights :: u32
  RM_IDTBase :: u64
  RM_IDTLimit :: u16
  RM_GDTBase :: u64
  RM_GDTLimit :: u16
  cr3_change_callback :: bool
  changedcr3 :: bool
  callback_newcr3 :: u64
  CR3ValueLog :: "u64 list option"
  LastInterrupt :: u8
  msrs :: "u32 \<Rightarrow> u64 option"
  irqs :: "u8 option list"

section \<open>VMCS fields (\<open>vmreadwrite.h\<close>)\<close>

abbreviation "vm_guest_es \<equiv> 0x800 :: nat"
abbreviation "vm_guest_cs \<equiv> 0x802 :: nat"
abbreviation "vm_guest_ss \<equiv> 0x804 :: nat"
abbreviation "vm_guest_ds \<equiv> 0x806 :: nat"
abbreviation "vm_guest_fs \<equiv> 0x808 :: nat"
abbreviation "vm_guest_gs \<equiv> 0x80a :: nat"
abbreviation "vm_guest_tr \<equiv> 0x80e :: nat"
abbreviation "vm_guest_IA32_EFER \<equiv> 0x2806 :: nat"
abbreviation "vm_execution_controls_cpu \<equiv> 0x4002 :: nat"
abbreviation "vm_entry_controls \<equiv> 0x4012 :: nat"
abbreviation "vm_entry_interruptioninfo \<equiv> 0x4016 :: nat"
abbreviation "vm_entry_exceptionerrorcode \<equiv> 0x4018 :: nat"
abbreviation "vm_entry_instructionlength \<equiv> 0x401a :: nat"
abbreviation "vm_exit_instructionlength \<equiv> 0x440c :: nat"
abbreviation "vm_guest_es_limit \<equiv> 0x4800 :: nat"
abbreviation "vm_guest_cs_limit \<equiv> 0x4802 :: nat"
abbreviation "vm_guest_ss_limit \<equiv> 0x4804 :: nat"
abbreviation "vm_guest_tr_limit \<equiv> 0x480e :: nat"
abbreviation "vm_guest_gdt_limit \<equiv> 0x4810 :: nat"
abbreviation "vm_guest_idt_limit \<equiv> 0x4812 :: nat"
abbreviation "vm_guest_es_access_rights \<equiv> 0x4814 :: nat"
abbreviation "vm_guest_cs_access_rights \<equiv> 0x4816 :: nat"
abbreviation "vm_guest_ss_access_rights \<equiv> 0x4818 :: nat"
abbreviation "vm_guest_ds_access_rights \<equiv> 0x481a :: nat"
abbreviation "vm_guest_fs_access_rights \<equiv> 0x481c :: nat"
abbreviation "vm_guest_gs_access_rights \<equiv> 0x481e :: nat"
abbreviation "vm_guest_tr_access_rights \<equiv> 0x4822 :: nat"
abbreviation "vm_guest_interruptability_state \<equiv> 0x4824 :: nat"
abbreviation "vm_cr0_guest_host_mask \<equiv> 0x6000 :: nat"
abbreviation "vm_cr4_guest_host_mask \<equiv> 0x6002 :: nat"
abbreviation "vm_cr0_read_shadow \<equiv> 0x6004 :: nat"
abbreviation "vm_cr4_read_shadow \<equiv> 0x6006 :: nat"
abbreviation "vm_guest_cr0 \<equiv> 0x6800 :: nat"
abbreviation "vm_guest_cr3 \<equiv> 0x6802 :: nat"
abbreviation "vm_guest_cr4 \<equiv> 0x6804 :: nat"
abbreviation "vm_guest_es_base \<equiv> 0x6806 :: nat"
abbreviation "vm_guest_cs_base \<equiv> 0x6808 :: nat"
abbreviation "vm_guest_ss_base \<equiv> 0x680a :: nat"
abbreviation "vm_guest_ds_base \<equiv> 0x680c :: nat"
abbreviation "vm_guest_fs_base \<equiv> 0x680e :: nat"
abbreviation "vm_guest_gs_base \<equiv> 0x6810 :: nat"
abbreviation "vm_guest_tr_base \<equiv> 0x6814 :: nat"
abbreviation "vm_guest_gdtr_base \<equiv> 0x6816 :: nat"
abbreviation "vm_guest_idtr_base \<equiv> 0x6818 :: nat"
abbreviation "vm_guest_rsp \<equiv> 0x681c :: nat"
abbreviation "vm_guest_rip \<equiv> 0x681e :: nat"
abbreviation "vm_guest_rflags \<equiv> 0x6820 :: nat"

text \<open>
  Bits 13 and 14 of a field's encoding give its width: 16 bits, 64, 32 or natural (64). A
  write to a narrower field drops the upper bits; a read extends with zeros.
\<close>

definition field_bits :: "nat \<Rightarrow> nat" where
  "field_bits f = (let w = f div 0x2000 mod 4 in if w = 0 then 16 else if w = 2 then 32 else 64)"

definition vmread :: "nat \<Rightarrow> vm_state \<Rightarrow> u64" where
  "vmread f s = vmcs s f"

definition vmwrite :: "nat \<Rightarrow> u64 \<Rightarrow> vm_state \<Rightarrow> vm_state" where
  "vmwrite f v s = s\<lparr>vmcs := (vmcs s)(f := take_bit (field_bits f) v)\<rparr>"

lemma vmread_vmwrite [simp]:
  "vmread f (vmwrite g v s) = (if f = g then take_bit (field_bits g) v else vmread f s)"
  by (simp add: vmread_def vmwrite_def)

lemma vmread_update [simp]:
  "vmread f (s\<lparr>rax := v1\<rparr>) = vmread f s" "vmread f (s\<lparr>rcx := v2\<rparr>) = vmread f s"
  "vmread f (s\<lparr>rdx := v3\<rparr>) = vmread f s" "vmread f (s\<lparr>rbx := v4\<rparr>) = vmread f s"
  "vmread f (s\<lparr>rbp := v5\<rparr>) = vmread f s" "vmread f (s\<lparr>rsi := v6\<rparr>) = vmread f s"
  "vmread f (s\<lparr>rdi := v7\<rparr>) = vmread f s" "vmread f (s\<lparr>pmem := v8\<rparr>) = vmread f s"
  "vmread f (s\<lparr>guestCR0 := v9\<rparr>) = vmread f s" "vmread f (s\<lparr>guestCR3 := v10\<rparr>) = vmread f s"
  "vmread f (s\<lparr>efer := v11\<rparr>) = vmread f s" "vmread f (s\<lparr>hasIF := v12\<rparr>) = vmread f s"
  "vmread f (s\<lparr>TSsegment := v13\<rparr>) = vmread f s" "vmread f (s\<lparr>TSbase := v14\<rparr>) = vmread f s"
  "vmread f (s\<lparr>TSlimit := v15\<rparr>) = vmread f s" "vmread f (s\<lparr>TSaccessRights := v16\<rparr>) = vmread f s"
  "vmread f (s\<lparr>RM_IDTBase := v17\<rparr>) = vmread f s" "vmread f (s\<lparr>RM_IDTLimit := v18\<rparr>) = vmread f s"
  "vmread f (s\<lparr>RM_GDTBase := v19\<rparr>) = vmread f s" "vmread f (s\<lparr>RM_GDTLimit := v20\<rparr>) = vmread f s"
  "vmread f (s\<lparr>cr3_change_callback := v21\<rparr>) = vmread f s" "vmread f (s\<lparr>changedcr3 := v22\<rparr>) = vmread f s"
  "vmread f (s\<lparr>callback_newcr3 := v23\<rparr>) = vmread f s" "vmread f (s\<lparr>CR3ValueLog := v24\<rparr>) = vmread f s"
  "vmread f (s\<lparr>LastInterrupt := v25\<rparr>) = vmread f s" "vmread f (s\<lparr>msrs := v26\<rparr>) = vmread f s"
  "vmread f (s\<lparr>irqs := v27\<rparr>) = vmread f s"
  by (simp_all add: vmread_def)

lemma vmwrite_fields [simp]:
  "rax (vmwrite f v s) = rax s" "rcx (vmwrite f v s) = rcx s" "rdx (vmwrite f v s) = rdx s"
  "rbx (vmwrite f v s) = rbx s" "rbp (vmwrite f v s) = rbp s" "rsi (vmwrite f v s) = rsi s"
  "rdi (vmwrite f v s) = rdi s" "pmem (vmwrite f v s) = pmem s"
  "guestCR0 (vmwrite f v s) = guestCR0 s" "guestCR3 (vmwrite f v s) = guestCR3 s"
  "efer (vmwrite f v s) = efer s" "hasIF (vmwrite f v s) = hasIF s"
  "RM_IDTBase (vmwrite f v s) = RM_IDTBase s" "RM_IDTLimit (vmwrite f v s) = RM_IDTLimit s"
  "RM_GDTBase (vmwrite f v s) = RM_GDTBase s" "RM_GDTLimit (vmwrite f v s) = RM_GDTLimit s"
  "irqs (vmwrite f v s) = irqs s" "LastInterrupt (vmwrite f v s) = LastInterrupt s"
  "msrs (vmwrite f v s) = msrs s" "changedcr3 (vmwrite f v s) = changedcr3 s"
  "cr3_change_callback (vmwrite f v s) = cr3_change_callback s"
  "callback_newcr3 (vmwrite f v s) = callback_newcr3 s" "CR3ValueLog (vmwrite f v s) = CR3ValueLog s"
  "TSsegment (vmwrite f v s) = TSsegment s" "TSbase (vmwrite f v s) = TSbase s"
  "TSlimit (vmwrite f v s) = TSlimit s" "TSaccessRights (vmwrite f v s) = TSaccessRights s"
  by (simp_all add: vmwrite_def)

text \<open>Widths of the fields the proofs meet.\<close>

lemma field_bits_natural [simp]:
  "field_bits vm_guest_rsp = 64" "field_bits vm_guest_rip = 64" "field_bits vm_guest_rflags = 64"
  "field_bits vm_guest_cr0 = 64" "field_bits vm_guest_cr3 = 64" "field_bits vm_guest_cr4 = 64"
  "field_bits vm_cr0_read_shadow = 64" "field_bits vm_cr4_read_shadow = 64"
  "field_bits vm_guest_es_base = 64" "field_bits vm_guest_cs_base = 64" "field_bits vm_guest_ss_base = 64"
  "field_bits vm_guest_IA32_EFER = 64"
  by (simp_all add: field_bits_def)

lemma field_bits_narrow [simp]:
  "field_bits vm_guest_es = 16" "field_bits vm_guest_cs = 16" "field_bits vm_guest_ss = 16"
  "field_bits vm_guest_cs_limit = 32" "field_bits vm_guest_es_limit = 32"
  "field_bits vm_guest_interruptability_state = 32" "field_bits vm_entry_controls = 32"
  "field_bits vm_execution_controls_cpu = 32" "field_bits vm_entry_interruptioninfo = 32"
  by (simp_all add: field_bits_def)

lemma take_bit_64_u64 [simp]: "take_bit 64 (x :: u64) = x"
  by (rule bit_eqI) (auto simp: bit_take_bit_iff dest: bit_imp_le_length)

section \<open>Memory as bytes\<close>

text \<open>
  The C code reads and writes words through pointers into pages that need not be contiguous
  in physical memory: a pointer is the function from byte offsets to physical addresses.
\<close>

type_synonym pointer = "nat \<Rightarrow> u64"

fun load_le :: "(u64 \<Rightarrow> u8) \<Rightarrow> pointer \<Rightarrow> nat \<Rightarrow> u64" where
  "load_le m p 0 = 0"
| "load_le m p (Suc n) = ucast (m (p 0)) OR push_bit 8 (load_le m (\<lambda>i. p (Suc i)) n)"

fun store_le :: "(u64 \<Rightarrow> u8) \<Rightarrow> pointer \<Rightarrow> nat \<Rightarrow> u64 \<Rightarrow> (u64 \<Rightarrow> u8)" where
  "store_le m p 0 v = m"
| "store_le m p (Suc n) v = store_le (m(p 0 := ucast v)) (\<lambda>i. p (Suc i)) n (drop_bit 8 v)"

text \<open>\<open>copymem\<close> of \<open>common.c\<close>: byte by byte, upwards.\<close>

fun copymem :: "(u64 \<Rightarrow> u8) \<Rightarrow> pointer \<Rightarrow> pointer \<Rightarrow> nat \<Rightarrow> (u64 \<Rightarrow> u8)" where
  "copymem m d s 0 = m"
| "copymem m d s (Suc n) = copymem (m(d 0 := m (s 0))) (\<lambda>i. d (Suc i)) (\<lambda>i. s (Suc i)) n"

definition phys :: "u64 \<Rightarrow> pointer" where
  "phys a i = a + of_nat i"

definition MAXPHYADDRMASKPB :: "vm_env \<Rightarrow> u64" where
  "MAXPHYADDRMASKPB env = MAXPHYADDRMASK env AND 0xfffffffffffff000"

lemma load_le_cong:
  "(\<And>i. i < n \<Longrightarrow> m (p i) = m' (q i)) \<Longrightarrow> load_le m p n = load_le m' q n"
proof (induction n arbitrary: p q)
  case (Suc n)
  have "load_le m (\<lambda>i. p (Suc i)) n = load_le m' (\<lambda>i. q (Suc i)) n"
    by (rule Suc.IH) (use Suc.prems in auto)
  then show ?case using Suc.prems [of 0] by simp
qed simp

lemma store_le_cong:
  "(\<And>i. i < n \<Longrightarrow> p i = q i) \<Longrightarrow> store_le m p n v = store_le m q n v"
proof (induction n arbitrary: m p q v)
  case (Suc n)
  have "store_le (m(p 0 := ucast v)) (\<lambda>i. p (Suc i)) n (drop_bit 8 v)
      = store_le (m(p 0 := ucast v)) (\<lambda>i. q (Suc i)) n (drop_bit 8 v)"
    by (rule Suc.IH) (use Suc.prems in auto)
  then show ?case using Suc.prems [of 0] by simp
qed simp

lemma bit_load_le:
  "bit (load_le m p n) k \<longleftrightarrow> k < 64 \<and> k < 8 * n \<and> bit (m (p (k div 8))) (k mod 8)"
proof (induction n arbitrary: p k)
  case (Suc n)
  show ?case
  proof (cases "k < 8")
    case True
    then show ?thesis by (simp add: bit_or_iff bit_push_bit_iff bit_ucast_iff)
  next
    case False
    then have "(k - 8) div 8 = k div 8 - 1" "(k - 8) mod 8 = k mod 8" "Suc (k div 8 - 1) = k div 8"
      by (auto simp: le_mod_geq div_if)
    moreover have "\<not> bit (m (p 0)) k" using False by (auto dest: bit_imp_le_length)
    ultimately show ?thesis
      using False Suc.IH [of "\<lambda>i. p (Suc i)" "k - 8"]
      by (auto simp: bit_or_iff bit_push_bit_iff bit_ucast_iff)
  qed
qed simp

lemma take_bit_load_le: "j \<le> n \<Longrightarrow> take_bit (8 * j) (load_le m p n) = load_le m p j"
  by (rule bit_eqI) (auto simp: bit_take_bit_iff bit_load_le)

lemma drop_bit_load_le:
  "j \<le> n \<Longrightarrow> n \<le> 8 \<Longrightarrow> drop_bit (8 * j) (load_le m p n) = load_le m (\<lambda>i. p (i + j)) (n - j)"
  by (rule bit_eqI) (auto simp: bit_drop_bit_eq bit_load_le ac_simps)

lemma copymem_other: "(\<And>i. i < n \<Longrightarrow> d i \<noteq> a) \<Longrightarrow> copymem m d s n a = m a"
proof (induction n arbitrary: m d s)
  case (Suc n)
  have "copymem (m(d 0 := m (s 0))) (\<lambda>i. d (Suc i)) (\<lambda>i. s (Suc i)) n a = (m(d 0 := m (s 0))) a"
    by (rule Suc.IH) (use Suc.prems in auto)
  then show ?case using Suc.prems [of 0] by simp
qed simp

lemma copymem_copies:
  assumes "inj_on d {..<n}" and "\<And>i j. i < n \<Longrightarrow> j < n \<Longrightarrow> d i \<noteq> s j" and "k < n"
  shows "copymem m d s n (d k) = m (s k)"
  using assms
proof (induction n arbitrary: m d s k)
  case (Suc n)
  let ?m = "m(d 0 := m (s 0))"
  have ne: "d (Suc i) \<noteq> d 0" if "i < n" for i
    using Suc.prems(1) that by (fastforce simp: inj_on_def)
  show ?case
  proof (cases k)
    case 0
    have "copymem ?m (\<lambda>i. d (Suc i)) (\<lambda>i. s (Suc i)) n (d 0) = ?m (d 0)"
      using ne by (intro copymem_other) blast
    then show ?thesis using 0 by simp
  next
    case (Suc j)
    have "copymem ?m (\<lambda>i. d (Suc i)) (\<lambda>i. s (Suc i)) n (d (Suc j)) = ?m (s (Suc j))"
      using Suc.prems Suc by (intro Suc.IH) (auto simp: inj_on_def)
    moreover have "d 0 \<noteq> s (Suc j)" using Suc.prems(2,3) Suc by blast
    ultimately show ?thesis using Suc by simp
  qed
qed simp

lemma store_le_other: "(\<And>i. i < n \<Longrightarrow> p i \<noteq> a) \<Longrightarrow> store_le m p n v a = m a"
proof (induction n arbitrary: m p v)
  case (Suc n)
  have "store_le (m(p 0 := ucast v)) (\<lambda>i. p (Suc i)) n (drop_bit 8 v) a = (m(p 0 := ucast v)) a"
    by (rule Suc.IH) (use Suc.prems in auto)
  then show ?case using Suc.prems [of 0] by simp
qed simp

lemma load_store_le_other:
  "(\<And>i j. i < n \<Longrightarrow> j < k \<Longrightarrow> p i \<noteq> q j) \<Longrightarrow> load_le (store_le m p n v) q k = load_le m q k"
  by (rule load_le_cong) (rule store_le_other, simp)

lemma load_le_update_other:
  "(\<And>i. i < n \<Longrightarrow> p i \<noteq> a) \<Longrightarrow> load_le (m(a := b)) p n = load_le m p n"
proof (induction n arbitrary: p)
  case (Suc n)
  have "load_le (m(a := b)) (\<lambda>i. p (Suc i)) n = load_le m (\<lambda>i. p (Suc i)) n"
    by (rule Suc.IH) (use Suc.prems in auto)
  then show ?case using Suc.prems [of 0] by (simp add: fun_upd_def)
qed simp

lemma load_store_le:
  assumes "inj_on p {..<n}"
  shows "load_le (store_le m p n v) p n = take_bit (8 * n) v"
  using assms
proof (induction n arbitrary: m p v)
  case (Suc n)
  have inj: "inj_on (\<lambda>i. p (Suc i)) {..<n}"
    using Suc.prems by (auto simp: inj_on_def)
  have "p (Suc i) \<noteq> p 0" if "i < n" for i
    using Suc.prems that by (fastforce simp: inj_on_def)
  then have "store_le (m(p 0 := ucast v)) (\<lambda>i. p (Suc i)) n (drop_bit 8 v) (p 0) = ucast v"
    by (subst store_le_other) simp_all
  moreover have "ucast (ucast v :: u8) OR push_bit 8 (take_bit (8 * n) (drop_bit 8 v)) = take_bit (8 * Suc n) v"
    by (rule bit_eqI) (auto simp: bit_or_iff bit_push_bit_iff bit_take_bit_iff bit_drop_bit_eq
        bit_ucast_iff not_less less_diff_conv2 dest: bit_imp_le_length)
  ultimately show ?case
    using Suc.IH [OF inj] by simp
qed simp

lemma inj_on_phys: "n \<le> 4096 \<Longrightarrow> inj_on (\<lambda>i. a + of_nat i :: u64) {..<n}"
  by (rule inj_onI) (auto simp: word_of_nat_eq_iff take_bit_nat_eq_self)

section \<open>A sample machine\<close>

text \<open>Everything zero: a processor with unrestricted guest support, resp. without, in real mode.\<close>

definition blank_env :: "bool \<Rightarrow> vm_env" where
  "blank_env unrestricted =
     \<lparr>hasUnrestrictedSupport = unrestricted, hasCETSupport = False,
      MAXPHYADDRMASK = 0xFFFFFFFFF, IA32_VMX_CR0_FIXED0 = 0x80000021,
      IA32_VMX_CR0_FIXED1 = 0xFFFFFFFF, IA32_VMX_CR4_FIXED0 = 0x2000,
      IA32_VMX_CR4_FIXED1 = 0x3767FF, nonpagedEmulationPagedirPA = 0x100000,
      nonpagedEmulationPagedir32BitPAEPA = 0x101000, nonpagedEmulationPagedir32BitPA = 0x102000,
      map_window = 1024, host_page = Some, vmmstart = 0x1000000, msr_writable = (\<lambda>_ _. True)\<rparr>"

definition blank_state :: vm_state where
  "blank_state =
     \<lparr>rax = 0, rcx = 0, rdx = 0, rbx = 0, rbp = 0, rsi = 0, rdi = 0, vmcs = (\<lambda>_. 0), pmem = (\<lambda>_. 0),
      guestCR0 = 0, guestCR3 = 0, efer = 0, hasIF = 0, TSsegment = 0, TSbase = 0, TSlimit = 0,
      TSaccessRights = 0, RM_IDTBase = 0, RM_IDTLimit = 0x3FF, RM_GDTBase = 0, RM_GDTLimit = 0,
      cr3_change_callback = False, changedcr3 = False, callback_newcr3 = 0, CR3ValueLog = None, LastInterrupt = 0,
      msrs = (\<lambda>_. None), irqs = []\<rparr>"

end
