(* ===== verification/GuestPaging.thy ===== *)
theory GuestPaging
  imports Vmcs
begin

text \<open>
  \<open>dbvm/vmm/vmpaging.c\<close> (and the mode tests of \<open>vmmhelper.c\<close>): the walk of the guest's page
  tables, reads of guest virtual memory and its mapping into the window of the hypervisor.
  \<open>None\<close> stands for \<open>notpaged\<close>. A table is read straight from physical memory: the pages
  \<open>mapPhysicalMemory\<close> puts into the window for the time of the walk are not modelled, nor is
  the window page that the non-PAE walk forgets to release. Addresses of the 32-bit modes
  are below 4 GB, so that an index of a non-PAE directory stays in its page.
\<close>

section \<open>Modes\<close>

definition ISREALMODE :: "vm_env \<Rightarrow> vm_state \<Rightarrow> bool" where
  "ISREALMODE env s =
     (if hasUnrestrictedSupport env then vmread vm_guest_cr0 s AND 1 = 0
      else vmread vm_cr0_read_shadow s AND 1 = 0)"

text \<open>\<open>CR0_PG\<close> is the signed constant \<open>1<<31\<close>, which widens to 33 ones.\<close>

abbreviation "CR0_PG \<equiv> 0xFFFFFFFF80000000 :: u64"

definition ISPAGING :: "vm_env \<Rightarrow> vm_state \<Rightarrow> bool" where
  "ISPAGING env s =
     (if hasUnrestrictedSupport env then vmread vm_guest_cr0 s AND CR0_PG = 0
      else vmread vm_cr0_read_shadow s AND CR0_PG = 1)"

definition IS64BITPAGING :: "vm_state \<Rightarrow> bool" where
  "IS64BITPAGING s \<longleftrightarrow> vmread vm_entry_controls s AND 0x200 \<noteq> 0"

definition IS64BITCODE :: "vm_state \<Rightarrow> bool" where
  "IS64BITCODE s \<longleftrightarrow> IS64BITPAGING s \<and> drop_bit 13 (vmread vm_guest_cs_access_rights s) AND 1 \<noteq> 0"

section \<open>The page walk\<close>

definition entry64 :: "vm_state \<Rightarrow> u64 \<Rightarrow> u64 \<Rightarrow> u64" where
  "entry64 s table i = load_le (pmem s) (phys (table + 8 * i)) 8"

definition walk_pagedir :: "vm_env \<Rightarrow> vm_state \<Rightarrow> u64 \<Rightarrow> u64 \<Rightarrow> u64 option" where
  "walk_pagedir env s pagedir a =
     (let pde = entry64 s pagedir (drop_bit 21 a AND 0x1ff) in
      if bit pde 0 then
        (if bit pde 7 then Some ((pde AND MAXPHYADDRMASKPB env) + (a AND 0x1FFFFF))
         else
           let pte = entry64 s (pde AND MAXPHYADDRMASKPB env) (drop_bit 12 a AND 0x1ff) in
           if bit pte 0 then Some ((pte AND MAXPHYADDRMASKPB env) + (a AND 0xFFF)) else None)
      else None)"

definition walk_pagedirptr :: "vm_env \<Rightarrow> vm_state \<Rightarrow> u64 \<Rightarrow> u64 \<Rightarrow> u64 option" where
  "walk_pagedirptr env s pagedirptr a =
     (let pdpte = entry64 s pagedirptr (drop_bit 30 a AND 0x1ff) in
      if bit pdpte 0 then walk_pagedir env s (pdpte AND MAXPHYADDRMASKPB env) a else None)"

definition walk_pml4 :: "vm_env \<Rightarrow> vm_state \<Rightarrow> u64 \<Rightarrow> u64 \<Rightarrow> u64 option" where
  "walk_pml4 env s pml4 a =
     (let e = entry64 s pml4 (drop_bit 39 a AND 0x1ff) in
      if bit e 0 then walk_pagedirptr env s (e AND MAXPHYADDRMASKPB env) a else None)"

text \<open>
  The non-PAE tables have 4-byte entries, but the address is taken from 8 bytes at the entry,
  so the upper half comes from the entry behind it.
\<close>

definition entry32 :: "vm_state \<Rightarrow> u64 \<Rightarrow> u64 \<Rightarrow> u64" where
  "entry32 s table i = load_le (pmem s) (phys (table + 4 * i)) 8"

definition walk_nonpae :: "vm_env \<Rightarrow> vm_state \<Rightarrow> u64 \<Rightarrow> u64 \<Rightarrow> u64 option" where
  "walk_nonpae env s pagedir a =
     (let pde = entry32 s pagedir (take_bit 32 (drop_bit 22 a)) in
      if bit pde 0 then
        (if bit pde 7 then Some ((pde AND MAXPHYADDRMASKPB env) + (a AND 0x3FFFFF))
         else
           let pte = entry32 s (pde AND MAXPHYADDRMASKPB env) (drop_bit 12 a AND 0x3ff) in
           if bit pte 0 then Some ((pte AND MAXPHYADDRMASKPB env) + (a AND 0xFFF)) else None)
      else None)"

definition guest_paged :: "vm_env \<Rightarrow> vm_state \<Rightarrow> bool" where
  "guest_paged env s =
     (let cr0 = (if hasUnrestrictedSupport env then vmread vm_guest_cr0 s
                 else vmread vm_cr0_read_shadow s)
      in cr0 AND 0x80000001 = 0x80000001)"

definition guest_pagebase :: "vm_env \<Rightarrow> vm_state \<Rightarrow> u64" where
  "guest_pagebase env s =
     (if guest_paged env s then guestCR3 s else vmread vm_guest_cr3 s) AND MAXPHYADDRMASKPB env"

definition getPhysicalAddressVM :: "vm_env \<Rightarrow> vm_state \<Rightarrow> u64 \<Rightarrow> u64 option" where
  "getPhysicalAddressVM env s a =
     (if \<not> guest_paged env s \<and> hasUnrestrictedSupport env then Some a
      else if IS64BITPAGING s then walk_pml4 env s (guest_pagebase env s) a
      else if bit (vmread vm_guest_cr4 s) 5 then walk_pagedirptr env s (guest_pagebase env s) a
      else walk_nonpae env s (guest_pagebase env s) a)"

section \<open>Reading and mapping guest memory\<close>

definition ReadBytesFromPage :: "vm_env \<Rightarrow> vm_state \<Rightarrow> u64 \<Rightarrow> nat \<Rightarrow> u8 list" where
  "ReadBytesFromPage env s a n =
     (case getPhysicalAddressVM env s a of
        None \<Rightarrow> []
      | Some p \<Rightarrow>
          let left = 0x1000 - unat (a AND 0xfff);
              left = (if left > n then n else left)
          in map (\<lambda>i. pmem s (p + of_nat i)) [0..<left])"

lemma low_bits_less: "unat (a AND 0xfff :: u64) < 0x1000"
  using unat_take_bit_less [of 12 a] by (simp add: mask_simps)

lemma length_ReadBytesFromPage:
  "length (ReadBytesFromPage env s a n) \<le> n"
  "ReadBytesFromPage env s a n = [] \<Longrightarrow> n \<noteq> 0 \<Longrightarrow> getPhysicalAddressVM env s a = None"
  using low_bits_less [of a]
  by (auto simp: ReadBytesFromPage_def Let_def split: option.splits if_splits)

function ReadVMMemory :: "vm_env \<Rightarrow> vm_state \<Rightarrow> u64 \<Rightarrow> nat \<Rightarrow> u8 list" where
  "ReadVMMemory env s a n =
     (if n = 0 then []
      else let bytes = ReadBytesFromPage env s a n in
        if bytes = [] then []
        else bytes @ ReadVMMemory env s (a + of_nat (length bytes)) (n - length bytes))"
  by pat_completeness auto
termination
  by (relation "measure (\<lambda>(env, s, a, n). n)") auto

declare ReadVMMemory.simps [simp del]

text \<open>
  \<open>mapVMmemory\<close> gives a pointer to the pages it has put into consecutive slots of the window,
  or an error with the address of the page that is missing: 1 no room in the window, 2 a
  page fault, 3 size 0. The pages are released by the caller before it returns.
  The size is an \<open>int\<close>, \<open>n\<close> here when it is not negative. With the offset it can exceed the \<open>int\<close>
  \<open>totalsize\<close>; for the negative number of pages this gives, the search of the window finds no room either.
\<close>

fun map_frames :: "vm_env \<Rightarrow> vm_state \<Rightarrow> u64 \<Rightarrow> nat \<Rightarrow> u64 + u64 list" where
  "map_frames env s a 0 = Inr []"
| "map_frames env s a (Suc n) =
     (case getPhysicalAddressVM env s a of
        None \<Rightarrow> Inl a
      | Some p \<Rightarrow> (case map_frames env s (a + 4096) n of Inl e \<Rightarrow> Inl e | Inr ps \<Rightarrow> Inr (p # ps)))"

definition page_count :: "u64 \<Rightarrow> nat \<Rightarrow> nat" where
  "page_count a n =
     (let totalsize = n + unat (a AND 0xfff)
      in totalsize div 4096 + (if totalsize mod 4096 \<noteq> 0 then 1 else 0))"

definition mapVMmemory :: "vm_env \<Rightarrow> vm_state \<Rightarrow> u64 \<Rightarrow> nat \<Rightarrow> (nat \<times> u64) + pointer" where
  "mapVMmemory env s a n =
     (if n = 0 then Inl (3, 0)
      else let offset = unat (a AND 0xfff) in
        if n + offset \<ge> 2 ^ 31 \<or> page_count a n > map_window env then Inl (1, 0)
        else (case map_frames env s (a AND 0xfffffffffffff000) (page_count a n) of
                Inl fault \<Rightarrow> Inl (2, fault)
              | Inr ps \<Rightarrow> Inr (\<lambda>i. ps ! ((offset + i) div 4096) + of_nat ((offset + i) mod 4096))))"

section \<open>Setting the paging base\<close>

definition emulatePaging :: "vm_state \<Rightarrow> vm_state" where
  "emulatePaging s =
     (if vmread vm_cr0_read_shadow s AND 0x80000001 = 0x80000001 then
        (if changedcr3 s then vmwrite vm_guest_cr3 (callback_newcr3 s) s
         else vmwrite vm_guest_cr3 (guestCR3 s) s)
      else s)"

text \<open>The tables themselves are built once, when the first processor comes here.\<close>

definition setupNonPagedPaging :: "vm_env \<Rightarrow> vm_state \<Rightarrow> vm_state" where
  "setupNonPagedPaging env s =
     (if hasUnrestrictedSupport env then s
      else if IS64BITPAGING s then vmwrite vm_guest_cr3 (nonpagedEmulationPagedirPA env) s
      else if vmread vm_guest_cr4 s AND 0x20 \<noteq> 0
      then vmwrite vm_guest_cr3 (nonpagedEmulationPagedir32BitPAEPA env) s
      else vmwrite vm_guest_cr3 (nonpagedEmulationPagedir32BitPA env) s)"

section \<open>A page is translated as a whole\<close>

abbreviation page_of :: "u64 \<Rightarrow> u64" where
  "page_of a \<equiv> push_bit 12 (drop_bit 12 a)"

lemma drop_bit_page_of: "12 \<le> k \<Longrightarrow> drop_bit k (page_of a) = drop_bit k a"
  by (rule bit_eqI) (auto simp: bit_drop_bit_eq bit_push_bit_iff dest: bit_imp_le_length)

lemma take_bit_page_of:
  assumes "12 \<le> k"
  shows "take_bit k (page_of a) + take_bit 12 a = take_bit k a"
proof -
  have "take_bit k (page_of a) = page_of (take_bit k a)"
    by (rule bit_eqI) (auto simp: bit_take_bit_iff bit_push_bit_iff bit_drop_bit_eq)
  moreover have "take_bit 12 a = take_bit 12 (take_bit k a)"
    using assms by (simp add: min_def)
  ultimately show ?thesis using bits_ident [of 12 "take_bit k a"] by simp
qed

lemma take_bit_12_page_of: "take_bit 12 (page_of a) = 0"
  by (rule bit_eqI) (auto simp: bit_take_bit_iff bit_push_bit_iff)

lemma walk_pagedir_page:
  "walk_pagedir env s t a = map_option (\<lambda>p. p + take_bit 12 a) (walk_pagedir env s t (page_of a))"
  by (simp add: walk_pagedir_def Let_def mask_simps drop_bit_page_of take_bit_12_page_of
      take_bit_page_of add.assoc)

lemma walk_pagedirptr_page:
  "walk_pagedirptr env s t a = map_option (\<lambda>p. p + take_bit 12 a) (walk_pagedirptr env s t (page_of a))"
  by (simp add: walk_pagedirptr_def Let_def drop_bit_page_of walk_pagedir_page [of env s _ a])

lemma walk_pml4_page:
  "walk_pml4 env s t a = map_option (\<lambda>p. p + take_bit 12 a) (walk_pml4 env s t (page_of a))"
  by (simp add: walk_pml4_def Let_def drop_bit_page_of walk_pagedirptr_page [of env s _ a])

lemma walk_nonpae_page:
  "walk_nonpae env s t a = map_option (\<lambda>p. p + take_bit 12 a) (walk_nonpae env s t (page_of a))"
  by (simp add: walk_nonpae_def Let_def mask_simps drop_bit_page_of take_bit_12_page_of
      take_bit_page_of add.assoc)

lemma translate_page:
  "getPhysicalAddressVM env s a =
   map_option (\<lambda>p. p + take_bit 12 a) (getPhysicalAddressVM env s (page_of a))"
  using bits_ident [of 12 a]
  by (simp add: getPhysicalAddressVM_def Let_def walk_pml4_page [of env s _ a]
      walk_pagedirptr_page [of env s _ a] walk_nonpae_page [of env s _ a])

lemma translate_step:
  assumes "unat (take_bit 12 a) + i < 4096"
  shows "getPhysicalAddressVM env s (a + of_nat i) =
         map_option (\<lambda>p. p + of_nat i) (getPhysicalAddressVM env s a)"
  by (subst (1 2) translate_page)
     (simp add: page_step [OF assms] option.map_comp comp_def add.assoc)

text \<open>Frames are page aligned, so an address and its translation have the same offset.\<close>

lemma take_bit_12_add_0:
  fixes a b :: u64
  assumes "take_bit 12 a = 0"
  shows "take_bit 12 (a + b) = take_bit 12 b"
proof -
  have "a + b = push_bit 12 (drop_bit 12 a) + (push_bit 12 (drop_bit 12 b) + take_bit 12 b)"
    using bits_ident [of 12 a] bits_ident [of 12 b] assms by simp
  also have "\<dots> = push_bit 12 (drop_bit 12 a + drop_bit 12 b) + take_bit 12 b"
    by (simp add: push_bit_add add.assoc)
  finally show ?thesis by (simp only:) (rule take_bit_push_add, simp)
qed

lemma frame_aligned: "take_bit 12 (MAXPHYADDRMASKPB env) = 0"
  unfolding MAXPHYADDRMASKPB_def mask_simps
  by (rule bit_eqI) (auto simp: bit_take_bit_iff bit_and_iff bit_push_bit_iff)

lemma take_bit_12_of_0: "take_bit 12 a = 0 \<Longrightarrow> 12 \<le> n \<Longrightarrow> take_bit 12 (take_bit n a) = 0"
  for a :: "u64" by (simp add: min_def)

lemma walk_pagedir_aligned:
  "take_bit 12 a = 0 \<Longrightarrow> walk_pagedir env s t a = Some p \<Longrightarrow> take_bit 12 p = 0"
  by (auto simp: walk_pagedir_def Let_def mask_simps take_bit_12_add_0 frame_aligned take_bit_12_of_0 split: if_splits)

lemma walk_pagedirptr_aligned:
  "take_bit 12 a = 0 \<Longrightarrow> walk_pagedirptr env s t a = Some p \<Longrightarrow> take_bit 12 p = 0"
  by (auto simp: walk_pagedirptr_def Let_def intro: walk_pagedir_aligned split: if_splits)

lemma walk_pml4_aligned:
  "take_bit 12 a = 0 \<Longrightarrow> walk_pml4 env s t a = Some p \<Longrightarrow> take_bit 12 p = 0"
  by (auto simp: walk_pml4_def Let_def intro: walk_pagedirptr_aligned split: if_splits)

lemma walk_nonpae_aligned:
  "take_bit 12 a = 0 \<Longrightarrow> walk_nonpae env s t a = Some p \<Longrightarrow> take_bit 12 p = 0"
  by (auto simp: walk_nonpae_def Let_def mask_simps take_bit_12_add_0 frame_aligned take_bit_12_of_0 split: if_splits)

lemma translate_aligned:
  assumes a: "take_bit 12 a = 0" and t: "getPhysicalAddressVM env s a = Some p"
  shows "take_bit 12 p = 0"
  using t walk_pml4_aligned [OF a] walk_pagedirptr_aligned [OF a] walk_nonpae_aligned [OF a] a
  by (auto simp: getPhysicalAddressVM_def split: if_splits)

lemma translate_offset:
  assumes "getPhysicalAddressVM env s a = Some p"
  shows "take_bit 12 p = take_bit 12 a"
proof -
  obtain q where "getPhysicalAddressVM env s (page_of a) = Some q" "p = q + take_bit 12 a"
    using assms translate_page [of env s a] by auto
  then show ?thesis
    using translate_aligned [OF take_bit_12_page_of] by (simp add: take_bit_12_add_0)
qed

text \<open>What a translation depends on.\<close>

lemma walk_cong:
  assumes "pmem t = pmem s"
  shows "walk_pml4 env t = walk_pml4 env s" "walk_pagedirptr env t = walk_pagedirptr env s"
    "walk_nonpae env t = walk_nonpae env s"
proof -
  have e: "entry64 t = entry64 s" "entry32 t = entry32 s"
    by (intro ext, simp add: entry64_def entry32_def assms)+
  have d: "walk_pagedir env t = walk_pagedir env s"
    by (intro ext) (simp add: walk_pagedir_def e Let_def)
  show p: "walk_pagedirptr env t = walk_pagedirptr env s"
    by (intro ext) (simp add: walk_pagedirptr_def e d Let_def)
  show "walk_pml4 env t = walk_pml4 env s"
    by (intro ext) (simp add: walk_pml4_def e p Let_def)
  show "walk_nonpae env t = walk_nonpae env s"
    by (intro ext) (simp add: walk_nonpae_def e Let_def)
qed

lemma translate_cong:
  assumes "pmem t = pmem s" and "guestCR3 t = guestCR3 s"
    and "\<And>f. f \<in> {vm_guest_cr0, vm_cr0_read_shadow, vm_guest_cr3, vm_guest_cr4, vm_entry_controls}
           \<Longrightarrow> vmread f t = vmread f s"
  shows "getPhysicalAddressVM env t = getPhysicalAddressVM env s"
proof -
  have "guest_paged env t = guest_paged env s" "guest_pagebase env t = guest_pagebase env s"
    "IS64BITPAGING t = IS64BITPAGING s" "vmread vm_guest_cr4 t = vmread vm_guest_cr4 s"
    using assms(2,3) by (simp_all add: guest_paged_def guest_pagebase_def IS64BITPAGING_def)
  then show ?thesis
    by (intro ext) (simp add: getPhysicalAddressVM_def walk_cong [OF assms(1)])
qed

section \<open>Reads and mappings against the byte-wise view\<close>

definition vm_byte :: "vm_env \<Rightarrow> vm_state \<Rightarrow> u64 \<Rightarrow> u8 option" where
  "vm_byte env s a = map_option (pmem s) (getPhysicalAddressVM env s a)"

text \<open>The bytes at an address up to the first one that is not present.\<close>

fun vm_bytes :: "vm_env \<Rightarrow> vm_state \<Rightarrow> u64 \<Rightarrow> nat \<Rightarrow> u8 list" where
  "vm_bytes env s a 0 = []"
| "vm_bytes env s a (Suc n) =
     (case vm_byte env s a of None \<Rightarrow> [] | Some b \<Rightarrow> b # vm_bytes env s (a + 1) n)"

lemma vm_bytes_add:
  "(\<And>i. i < m \<Longrightarrow> vm_byte env s (a + of_nat i) = Some (f i)) \<Longrightarrow>
   vm_bytes env s a (m + n) = map f [0..<m] @ vm_bytes env s (a + of_nat m) n"
proof (induction m arbitrary: a f)
  case (Suc m)
  have "vm_bytes env s (a + 1) (m + n) =
        map (\<lambda>i. f (Suc i)) [0..<m] @ vm_bytes env s (a + 1 + of_nat m) n"
    by (rule Suc.IH) (use Suc.prems [of "Suc _"] in \<open>simp add: add.assoc\<close>)
  moreover have "map f [0..<Suc m] = f 0 # map (\<lambda>i. f (Suc i)) [0..<m]"
    by (simp add: upt_conv_Cons map_Suc_upt [symmetric] comp_def del: upt_Suc)
  moreover have "vm_byte env s a = Some (f 0)" using Suc.prems [of 0] by simp
  ultimately show ?case by (simp add: ac_simps del: upt_Suc)
qed simp

lemma vm_bytes_none: "getPhysicalAddressVM env s a = None \<Longrightarrow> vm_bytes env s a n = []"
  by (cases n) (simp_all add: vm_byte_def)

lemma ReadVMMemory_bytes: "ReadVMMemory env s a n = vm_bytes env s a n"
proof (induction env s a n rule: ReadVMMemory.induct)
  case (1 env s a n)
  let ?bs = "ReadBytesFromPage env s a n"
  show ?case
  proof (cases "n = 0 \<or> ?bs = []")
    case True
    then show ?thesis
      using length_ReadBytesFromPage(2) [of env s a n] vm_bytes_none
      by (auto simp: ReadVMMemory.simps [of env s a n])
  next
    case False
    then obtain p where p: "getPhysicalAddressVM env s a = Some p"
      by (auto simp: ReadBytesFromPage_def split: option.splits)
    define m where "m = length ?bs"
    have m: "m \<le> n" "unat (take_bit 12 a) + m \<le> 4096"
      and bs: "?bs = map (\<lambda>i. pmem s (p + of_nat i)) [0..<m]"
      using low_bits_less [of a] unfolding m_def
      by (auto simp: ReadBytesFromPage_def p Let_def mask_simps)
    have "vm_bytes env s a (m + (n - m)) =
          map (\<lambda>i. pmem s (p + of_nat i)) [0..<m] @ vm_bytes env s (a + of_nat m) (n - m)"
      using m(2) by (intro vm_bytes_add) (simp add: vm_byte_def translate_step p)
    moreover have "ReadVMMemory env s a n = ?bs @ ReadVMMemory env s (a + of_nat m) (n - m)"
      using False by (simp add: ReadVMMemory.simps [of env s a n] m_def Let_def)
    ultimately show ?thesis
      using False "1.IH" [OF _ refl] m(1) bs by (simp add: m_def [symmetric])
  qed
qed

lemma map_frames_Inr:
  "map_frames env s a n = Inr ps \<Longrightarrow>
   length ps = n \<and> (\<forall>j<n. getPhysicalAddressVM env s (a + of_nat (4096 * j)) = Some (ps ! j))"
proof (induction n arbitrary: a ps)
  case (Suc n)
  then obtain p qs where p: "getPhysicalAddressVM env s a = Some p"
    "map_frames env s (a + 4096) n = Inr qs" "ps = p # qs"
    by (auto split: option.splits sum.splits)
  have "getPhysicalAddressVM env s (a + of_nat (4096 * j)) = Some (ps ! j)" if "j < Suc n" for j
    using Suc.IH [OF p(2)] p that by (cases j) (auto simp: ac_simps)
  then show ?case using Suc.IH [OF p(2)] p(3) by simp
qed simp

lemma map_frames_Inl:
  "map_frames env s a n = Inl f \<Longrightarrow>
   \<exists>j<n. f = a + of_nat (4096 * j) \<and> getPhysicalAddressVM env s f = None"
proof (induction n arbitrary: a)
  case (Suc n)
  then consider "f = a" "getPhysicalAddressVM env s a = None" | "map_frames env s (a + 4096) n = Inl f"
    by (cases "getPhysicalAddressVM env s a"; cases "map_frames env s (a + 4096) n") simp_all
  then show ?case
  proof cases
    case 1
    then show ?thesis by (intro exI [of _ 0]) simp
  next
    case 2
    then obtain j where "j < n" "f = a + 4096 + of_nat (4096 * j)" "getPhysicalAddressVM env s f = None"
      using Suc.IH by blast
    then show ?thesis by (intro exI [of _ "Suc j"]) (simp add: ac_simps)
  qed
qed simp

lemma page_of_multiple:
  "take_bit 12 (page_of a + of_nat (4096 * j)) = 0"
proof -
  have "page_of a + of_nat (4096 * j) = push_bit 12 (drop_bit 12 a + of_nat j)"
    by (simp add: push_bit_eq_mult algebra_simps)
  then show ?thesis
    by (simp only:) (rule bit_eqI, auto simp: bit_take_bit_iff bit_push_bit_iff)
qed

lemma page_split:
  fixes a :: u64
  assumes "offset = unat (take_bit 12 a)"
  shows "a + of_nat i = page_of a + of_nat (4096 * ((offset + i) div 4096)) + of_nat ((offset + i) mod 4096)"
proof -
  have "a = page_of a + of_nat offset" using bits_ident [of 12 a] assms by simp
  moreover have "of_nat (offset + i) = (of_nat (4096 * ((offset + i) div 4096)) + of_nat ((offset + i) mod 4096) :: u64)"
    by (metis mult_div_mod_eq of_nat_add)
  ultimately show ?thesis
    by (metis (no_types, lifting) add.assoc of_nat_add)
qed

lemma page_count_less: "i < n \<Longrightarrow> (unat (a AND 0xfff) + i) div 4096 < page_count a n"
  unfolding page_count_def Let_def by (auto simp: div_less_iff_less_mult)

lemma mapVMmemory_Inr:
  assumes "mapVMmemory env s a n = Inr p" and "i < n"
  shows "getPhysicalAddressVM env s (a + of_nat i) = Some (p i)"
proof -
  let ?o = "unat (a AND 0xfff)"
  let ?q = "(?o + i) div 4096" and ?r = "(?o + i) mod 4096"
  obtain ps where ps: "map_frames env s (a AND 0xfffffffffffff000) (page_count a n) = Inr ps"
    and p: "p i = ps ! ?q + of_nat ?r"
    using assms by (auto simp: mapVMmemory_def Let_def split: if_splits sum.splits)
  have "getPhysicalAddressVM env s (page_of a + of_nat (4096 * ?q)) = Some (ps ! ?q)"
    using map_frames_Inr [OF ps] page_count_less [OF assms(2), of a] by (simp add: mask_simps)
  then have "getPhysicalAddressVM env s (page_of a + of_nat (4096 * ?q) + of_nat ?r) = Some (p i)"
    using page_of_multiple [of a ?q] by (subst translate_step) (simp_all add: p)
  then show ?thesis
    using page_split [of ?o a i] by (simp add: mask_simps)
qed




text \<open>
  A translation keeps the offset in the page whatever the paging mode: consecutive
  addresses of a page go to consecutive physical addresses, which is what lets the emulation
  map a guest page once and use it for all accesses to it.
\<close>

theorem getPhysicalAddressVM_page:
  "getPhysicalAddressVM env s a =
   map_option (\<lambda>p. p + (a AND 0xfff)) (getPhysicalAddressVM env s (a AND 0xfffffffffffff000))"
  using translate_page [of env s a] by (simp add: mask_simps)

lemma mapVMmemory_inj:
  assumes "mapVMmemory env s a n = Inr p" and "n \<le> 4096"
  shows "inj_on p {..<n}"
proof (rule inj_onI)
  fix i j assume ij: "i \<in> {..<n}" "j \<in> {..<n}" "p i = p j"
  then have "take_bit 12 (a + of_nat i) = take_bit 12 (a + of_nat j)"
    using translate_offset [OF mapVMmemory_Inr [OF assms(1)]] by (metis lessThan_iff)
  moreover have "unat (take_bit 12 (a + of_nat k)) = (unat a + k) mod 4096" for k
  proof -
    have "unat (a + of_nat k) = (unat a + k) mod 2 ^ 64"
      by (simp add: unat_word_ariths unsigned_of_nat take_bit_eq_mod mod_add_right_eq)
    moreover have "unat (take_bit 12 (a + of_nat k)) = unat (a + of_nat k) mod 2 ^ 12"
      by (subst unsigned_take_bit_eq) (rule take_bit_eq_mod)
    ultimately show ?thesis by (simp add: mod_mod_cancel)
  qed
  ultimately have "(unat a + i) mod 4096 = (unat a + j) mod 4096" by metis
  then show "i = j"
    using ij(1,2) assms(2) by (intro mod_add_left_inj [of "unat a" i 4096 j]) auto
qed

text \<open>A mapping exists when the pages are present and the window has room.\<close>

lemma mapVMmemory_present:
  assumes "\<And>x. getPhysicalAddressVM env s x \<noteq> None" and "0 < n" and "n < 2 ^ 30" and "page_count a n \<le> map_window env"
  shows "\<exists>p. mapVMmemory env s a n = Inr p"
proof -
  have "\<exists>ps. map_frames env s b k = Inr ps" for b k
    using map_frames_Inl [of env s b k] assms(1) by (cases "map_frames env s b k") auto
  then obtain ps where "map_frames env s (a AND 0xfffffffffffff000) (page_count a n) = Inr ps" by blast
  then show ?thesis using assms(2-4) low_bits_less [of a] by (auto simp: mapVMmemory_def Let_def)
qed

lemma page_count_small: "n \<le> 4096 \<Longrightarrow> page_count a n \<le> 2"
  using low_bits_less [of a] by (auto simp: page_count_def Let_def)

definition entry4 :: "vm_state \<Rightarrow> u64 \<Rightarrow> u64" where
  "entry4 s t = load_le (pmem s) (phys t) 4"

lemma load_le_split:
  "load_le m (phys t) 8 = load_le m (phys t) 4 OR push_bit 32 (load_le m (phys (t + 4)) 4)"
  by (simp add: numeral_nat phys_def push_bit_or or.assoc ac_simps)

text \<open>
  The walk of non-PAE tables takes the frame from 8 bytes at a 4-byte entry: for a 4 MB
  page the upper half of the physical address is the directory entry behind the one that
  maps the address, cut to the processor's address width.
\<close>

theorem walk_nonpae_mixes_entries:
  assumes "take_bit 32 a = a" and "bit (entry4 s (pagedir + 4 * drop_bit 22 a)) 0"
    and "bit (entry4 s (pagedir + 4 * drop_bit 22 a)) 7"
  shows "walk_nonpae env s pagedir a =
    Some (((entry4 s (pagedir + 4 * drop_bit 22 a) OR push_bit 32 (entry4 s (pagedir + 4 * drop_bit 22 a + 4)))
        AND MAXPHYADDRMASKPB env) + (a AND 0x3FFFFF))"
proof -
  have "take_bit 32 (drop_bit 22 a) = drop_bit 22 a"
  proof (rule bit_eqI)
    fix k :: nat
    have "bit a (22 + k) \<Longrightarrow> 22 + k < 32" using assms(1) by (metis bit_take_bit_iff)
    then show "bit (take_bit 32 (drop_bit 22 a)) k = bit (drop_bit 22 a) k"
      by (auto simp: bit_take_bit_iff bit_drop_bit_eq)
  qed
  then have pde: "entry32 s pagedir (take_bit 32 (drop_bit 22 a)) =
      entry4 s (pagedir + 4 * drop_bit 22 a) OR push_bit 32 (entry4 s (pagedir + 4 * drop_bit 22 a + 4))"
    by (simp add: entry32_def entry4_def load_le_split)
  show ?thesis
    using assms(2,3) by (simp add: walk_nonpae_def pde bit_or_iff bit_push_bit_iff)
qed

text \<open>A directory at 0 whose entry 0 maps page 0 and whose entry 1 has its lowest bit set.\<close>

lemma walk_nonpae_mixes_entries_witness:
  "walk_nonpae (blank_env False) (blank_state\<lparr>pmem := (\<lambda>_. 0)(0 := 0x81, 4 := 0x1)\<rparr>) 0 0x1234 =
   Some 0x100001234"
proof -
  let ?s = "blank_state\<lparr>pmem := (\<lambda>_. 0)(0 := 0x81, 4 := 0x1)\<rparr>"
  have "entry4 ?s 0 = 0x81" "entry4 ?s 4 = 0x1"
    by code_simp+
  then show ?thesis
    using walk_nonpae_mixes_entries [where a = "0x1234" and s = ?s and pagedir = 0 and env = "blank_env False"]
    by (simp add: MAXPHYADDRMASKPB_def blank_env_def bit_numeral_rec take_bit_eq_mask mask_eq_exp_minus_1)
qed

end
