(* ===== verification/ControlRegs.thy ===== *)
theory ControlRegs
  imports GuestPaging
begin

text \<open>
  The writes to the guest's control registers of \<open>dbvm/vmm/vmeventhandler.c\<close>:
  \<open>setVM_CR0\<close>, \<open>setVM_CR3\<close> and \<open>setVM_CR4\<close>, with the fault they inject. A result is the new
  state and the return value: 0 done, 1 not possible, 2 done without moving the instruction
  pointer; \<open>None\<close> means that the function stops the processor in an endless loop. Flushes of
  the TLB, the time stamps and Ultimap's reaction to a new CR3 are not modelled.
\<close>

type_synonym vm_result = "(vm_state \<times> int) option"

section \<open>Injected faults\<close>

definition raiseGeneralProtectionFault :: "u64 \<Rightarrow> vm_state \<Rightarrow> vm_state" where
  "raiseGeneralProtectionFault errorcode s =
     (let info = 13 OR push_bit 8 3 OR push_bit 11 1 OR push_bit 31 1;
          s = vmwrite vm_entry_interruptioninfo info s;
          s = vmwrite vm_entry_exceptionerrorcode errorcode s
      in vmwrite vm_entry_instructionlength (vmread vm_exit_instructionlength s) s)"

section \<open>CR0\<close>

abbreviation "PG_PE \<equiv> 0x80000001 :: u64"
abbreviation "CR4_PCIDE \<equiv> 0x20000 :: u64"
abbreviation "CR4_CET \<equiv> 0x800000 :: u64"
abbreviation "CR0_WP \<equiv> 0x10000 :: u64"
abbreviation "IA32E_MODE_GUEST \<equiv> 0x200 :: u64"
abbreviation "HLT_EXITING \<equiv> 0x80 :: u64"

definition cr0_ia32e_check :: "u64 \<Rightarrow> vm_state \<Rightarrow> vm_state" where
  "cr0_ia32e_check oldcr0 s =
     (if oldcr0 AND PG_PE \<noteq> guestCR0 s AND PG_PE then
        (if guestCR0 s AND PG_PE = PG_PE \<and> bit (efer s) 8
         then vmwrite vm_entry_controls (vmread vm_entry_controls s OR IA32E_MODE_GUEST) s
         else vmwrite vm_entry_controls (vmread vm_entry_controls s AND NOT IA32E_MODE_GUEST) s)
      else s)"

definition cr0_unrestricted :: "vm_env \<Rightarrow> u64 \<Rightarrow> vm_state \<Rightarrow> vm_state" where
  "cr0_unrestricted env newcr0 s =
     (let fixed0 = IA32_VMX_CR0_FIXED0 env AND 0xFFFFFFFF7FFFFFFE;
          s = vmwrite vm_guest_cr0 (newcr0 OR fixed0) s;
          s = (if vmread vm_guest_cr0 s AND PG_PE = PG_PE \<and> bit (vmread vm_guest_IA32_EFER s) 8
               then let s = vmwrite vm_entry_controls (vmread vm_entry_controls s OR IA32E_MODE_GUEST) s
                    in vmwrite vm_guest_IA32_EFER (vmread vm_guest_IA32_EFER s OR 0x400) s
               else s)
      in vmwrite vm_cr0_read_shadow (newcr0 AND vmread vm_cr0_guest_host_mask s) s)"

text \<open>From real mode to protected mode: the fields of \<open>Access_Rights\<close> are written as bits.\<close>

definition cr0_protected_segments :: "vm_state \<Rightarrow> vm_state" where
  "cr0_protected_segments s =
     (let s = vmwrite vm_execution_controls_cpu (vmread vm_execution_controls_cpu s AND NOT HLT_EXITING) s;
          s = vmwrite vm_guest_tr_access_rights (ucast (TSaccessRights s)) s;
          s = vmwrite vm_guest_tr_limit (ucast (TSlimit s)) s;
          s = vmwrite vm_guest_tr_base (TSbase s) s;
          s = vmwrite vm_guest_tr (ucast (TSsegment s)) s;
          s = vmwrite vm_guest_cs_access_rights (15 OR push_bit 4 1 OR push_bit 7 1) s;
          s = vmwrite vm_guest_cs (vmread vm_guest_cs s AND 0xfffc) s;
          data = 3 OR push_bit 4 1 OR push_bit 5 3 OR push_bit 7 1;
          s = vmwrite vm_guest_es_access_rights data s;
          s = vmwrite vm_guest_ds_access_rights data s;
          s = vmwrite vm_guest_fs_access_rights data s;
          s = vmwrite vm_guest_gs_access_rights data s
      in vmwrite vm_guest_ss_access_rights
           (3 OR push_bit 4 1 OR push_bit 5 (vmread vm_guest_ss s AND 3) OR push_bit 7 1) s)"

definition cr0_protected_tables :: "vm_state \<Rightarrow> vm_state" where
  "cr0_protected_tables s =
     (let flags = vmread vm_guest_rflags s
                    AND NOT (push_bit 17 1 OR push_bit 8 1 OR push_bit 9 1 OR push_bit 12 3);
          s = vmwrite vm_guest_rflags (take_bit 32 flags) s;
          s = vmwrite vm_guest_gdtr_base (RM_GDTBase s) s;
          s = vmwrite vm_guest_gdt_limit (ucast (RM_GDTLimit s)) s;
          s = vmwrite vm_guest_idtr_base (RM_IDTBase s) s
      in vmwrite vm_guest_idt_limit (ucast (RM_IDTLimit s)) s)"

definition cr0_protected_paging :: "vm_env \<Rightarrow> u64 \<Rightarrow> vm_state \<Rightarrow> vm_state" where
  "cr0_protected_paging env newcr0 s =
     (if newcr0 AND CR0_PG \<noteq> 0
      then let s = emulatePaging s
           in vmwrite vm_guest_cr4 (vmread vm_cr4_read_shadow s OR IA32_VMX_CR4_FIXED0 env) s
      else let s = setupNonPagedPaging env s
           in vmwrite vm_guest_cr4
                (vmread vm_cr4_read_shadow s OR IA32_VMX_CR4_FIXED0 env OR 0x10 OR 0x20) s)"

definition cr0_to_protected :: "vm_env \<Rightarrow> u64 \<Rightarrow> vm_state \<Rightarrow> vm_state option" where
  "cr0_to_protected env newcr0 s =
     (let s = cr0_protected_segments s in
      if bit (vmread vm_guest_rflags s) 9 \<or> hasIF s \<noteq> 0 then None
      else Some (cr0_protected_paging env newcr0 (cr0_protected_tables s)))"

definition cr0_to_real :: "vm_env \<Rightarrow> vm_state \<Rightarrow> vm_state" where
  "cr0_to_real env s =
     (let s = vmwrite vm_execution_controls_cpu (vmread vm_execution_controls_cpu s OR HLT_EXITING) s;
          s = s\<lparr>TSaccessRights := ucast (vmread vm_guest_tr_access_rights s),
                TSlimit := ucast (vmread vm_guest_tr_limit s),
                TSbase := vmread vm_guest_tr_base s,
                TSsegment := ucast (vmread vm_guest_tr s)\<rparr>;
          flags = vmread vm_guest_rflags s OR push_bit 12 3 OR push_bit 17 1;
          s = s\<lparr>hasIF := (if bit flags 9 then 1 else 0)\<rparr>;
          s = vmwrite vm_guest_rflags flags s;
          s = s\<lparr>RM_GDTBase := vmread vm_guest_gdtr_base s,
                RM_GDTLimit := ucast (vmread vm_guest_gdt_limit s),
                RM_IDTBase := vmread vm_guest_idtr_base s,
                RM_IDTLimit := ucast (vmread vm_guest_idt_limit s)\<rparr>;
          s = vmwrite vm_guest_cr0 (take_bit 32 (IA32_VMX_CR0_FIXED0 env) OR vmread vm_cr0_read_shadow s) s;
          s = vmwrite vm_guest_cr4 (take_bit 32 (IA32_VMX_CR4_FIXED0 env) OR 1 OR 0x10 OR 0x20
                OR vmread vm_cr4_read_shadow s) s
      in setupNonPagedPaging env s)"

definition cr0_paging_change :: "vm_env \<Rightarrow> u64 \<Rightarrow> u64 \<Rightarrow> vm_state \<Rightarrow> vm_state" where
  "cr0_paging_change env oldcr0 newcr0 s =
     (if newcr0 AND CR0_PG \<noteq> 0 \<and> oldcr0 AND CR0_PG = 0 then
        (if newcr0 AND 1 = 1
         then let s = emulatePaging s
              in vmwrite vm_guest_cr4
                   (take_bit 32 (IA32_VMX_CR4_FIXED0 env) OR vmread vm_cr4_read_shadow s) s
         else s)
      else if oldcr0 AND CR0_PG \<noteq> 0 \<and> newcr0 AND CR0_PG = 0 then
        (if newcr0 AND 1 = 1
         then let s = setupNonPagedPaging env s;
                  s = vmwrite vm_guest_cr4 (vmread vm_guest_cr4 s OR 0x10 OR 0x20) s;
                  ss = take_bit 32 (vmread vm_guest_ss_access_rights s)
              in if bit ss 16
                 then let s = vmwrite vm_guest_ss 8 s;
                          s = vmwrite vm_guest_ss_base 0 s;
                          s = vmwrite vm_guest_ss_limit 0xffffffff s;
                          s = vmwrite vm_guest_ss_access_rights ((ss AND 0xFFFE3F00) OR 0xC093) s
                      in vmwrite vm_guest_cs_access_rights
                           (take_bit 32 (vmread vm_guest_cs_access_rights s) AND 0xFFFFDFFF) s
                 else s
         else s)
      else s)"

definition cr0_finish :: "vm_env \<Rightarrow> u64 \<Rightarrow> u64 \<Rightarrow> vm_state \<Rightarrow> vm_state" where
  "cr0_finish env oldcr0 newcr0 s =
     (let s = vmwrite vm_guest_cr0 (IA32_VMX_CR0_FIXED0 env OR newcr0) s
      in if vmread vm_cr0_read_shadow s AND PG_PE = PG_PE then
           let difference = take_bit 32 (oldcr0 XOR vmread vm_cr0_read_shadow s)
           in if bit difference 16 \<or> bit difference 29 \<or> bit difference 30
              then emulatePaging s else s
         else s)"

definition setVM_CR0 :: "vm_env \<Rightarrow> u64 \<Rightarrow> vm_state \<Rightarrow> vm_result" where
  "setVM_CR0 env newcr0 s =
     (let cr4 = vmread vm_guest_cr4 s;
          oldcr0 = guestCR0 s;
          s = (if hasUnrestrictedSupport env then s\<lparr>efer := vmread vm_guest_IA32_EFER s\<rparr> else s);
          newcr0 = newcr0 OR 0x10
      in if cr4 AND CR4_PCIDE \<noteq> 0 \<and> newcr0 AND CR0_PG = 0
         then Some (raiseGeneralProtectionFault 0 s, 2)
         else if hasCETSupport env \<and> cr4 AND CR4_CET \<noteq> 0 \<and> newcr0 AND CR0_WP = 0
         then Some (raiseGeneralProtectionFault 0 s, 2)
         else
           let s = s\<lparr>guestCR0 := newcr0\<rparr> in
           if hasUnrestrictedSupport env then Some (cr0_unrestricted env newcr0 s, 0)
           else
             let s = vmwrite vm_cr0_read_shadow newcr0 s;
                 s = cr0_ia32e_check oldcr0 s
             in if IA32_VMX_CR0_FIXED1 env AND newcr0 \<noteq> newcr0
                then Some (raiseGeneralProtectionFault 0 s, 2)
                else if newcr0 AND 1 = 1 \<and> oldcr0 AND 1 = 0 then
                  (case cr0_to_protected env newcr0 s of
                     None \<Rightarrow> None
                   | Some s \<Rightarrow>
                       Some (cr0_finish env oldcr0 newcr0 (cr0_paging_change env oldcr0 newcr0 s), 0))
                else if oldcr0 AND 1 = 1 \<and> newcr0 AND 1 = 0 then Some (cr0_to_real env s, 0)
                else Some (cr0_finish env oldcr0 newcr0 (cr0_paging_change env oldcr0 newcr0 s), 0))"

section \<open>CR3\<close>

definition log_cr3 :: "u64 \<Rightarrow> vm_state \<Rightarrow> vm_state" where
  "log_cr3 newcr3 s =
     (case CR3ValueLog s of
        None \<Rightarrow> s
      | Some vs \<Rightarrow>
          if length vs < 512 \<and> newcr3 \<notin> set vs then s\<lparr>CR3ValueLog := Some (vs @ [newcr3])\<rparr> else s)"

text \<open>Bit 63 only says whether the TLB is to be kept, when PCIDs are enabled.\<close>

definition cr3_strip :: "vm_state \<Rightarrow> u64 \<Rightarrow> u64" where
  "cr3_strip s newcr3 =
     (if vmread vm_guest_cr4 s AND CR4_PCIDE \<noteq> 0 \<and> newcr3 AND 0x8000000000000000 \<noteq> 0
      then newcr3 AND 0x7FFFFFFFFFFFFFFF else newcr3)"

definition setVM_CR3 :: "vm_env \<Rightarrow> u64 \<Rightarrow> vm_state \<Rightarrow> vm_result" where
  "setVM_CR3 env newcr3 s =
     (let newcr3 = cr3_strip s newcr3
      in if newcr3 AND NOT (MAXPHYADDRMASK env) \<noteq> 0
         then Some (raiseGeneralProtectionFault 3 s, 0)
         else
           let s = log_cr3 newcr3 s;
               s = s\<lparr>guestCR3 := newcr3\<rparr>;
               s = (if \<not> IS64BITPAGING s then s\<lparr>guestCR3 := guestCR3 s AND 0xffffffff\<rparr> else s)
           in if hasUnrestrictedSupport env then Some (vmwrite vm_guest_cr3 newcr3 s, 0)
              else if vmread vm_cr0_read_shadow s AND CR0_PG \<noteq> 0 then
                (if cr3_change_callback s then None else Some (emulatePaging s, 0))
              else Some (s, 0))"

section \<open>CR4\<close>

text \<open>The real CR4 for an accepted value, and the paging that goes with it.\<close>

definition cr4_real :: "vm_env \<Rightarrow> vm_state \<Rightarrow> u64 \<Rightarrow> u64" where
  "cr4_real env s newCR4 =
     (let shadow0 = vmread vm_cr0_read_shadow s;
          newCR4 = (if shadow0 AND CR0_PG = 0 then newCR4 OR 0x20 OR 0x10 else newCR4);
          newCR4 = (if shadow0 AND 1 = 0 then newCR4 OR 0x10 OR 0x20 else newCR4);
          newCR4 = (if ISREALMODE env s then newCR4 OR 1 else newCR4)
      in if \<not> ISPAGING env s then newCR4 AND 0xFFCFFFFF else newCR4)"

definition cr4_finish :: "vm_env \<Rightarrow> u64 \<Rightarrow> vm_state \<Rightarrow> vm_state" where
  "cr4_finish env oldCR4 s =
     (if vmread vm_cr0_read_shadow s AND PG_PE = PG_PE then
        let difference = oldCR4 XOR vmread vm_cr4_read_shadow s
        in (if bit difference 4 \<or> bit difference 5 then emulatePaging s else s)
      else setupNonPagedPaging env s)"

definition setVM_CR4 :: "vm_env \<Rightarrow> u64 \<Rightarrow> vm_state \<Rightarrow> vm_state \<times> int" where
  "setVM_CR4 env newcr4 s =
     (let mask4 = vmread vm_cr4_guest_host_mask s;
          oldCR4 = (vmread vm_guest_cr4 s AND NOT mask4) OR (vmread vm_cr4_read_shadow s AND mask4);
          newCR4 = (if \<not> IS64BITCODE s then newcr4 AND 0xffffffff else newcr4)
      in if IA32_VMX_CR4_FIXED1 env AND newCR4 \<noteq> newCR4 then (s, 1)
         else if hasCETSupport env then
           (if newCR4 AND CR4_CET \<noteq> 0 \<and> vmread vm_guest_cr0 s AND CR0_WP = 0
            then (raiseGeneralProtectionFault 0 s, 2) else (s, 2))
         else
           let cr3 = (if hasUnrestrictedSupport env then vmread vm_guest_cr3 s else guestCR3 s);
               e = (if hasUnrestrictedSupport env then vmread vm_guest_IA32_EFER s else efer s)
           in if newCR4 AND CR4_PCIDE \<noteq> 0 \<and> oldCR4 AND CR4_PCIDE = 0 \<and>
                 (e AND 0x400 = 0 \<or> cr3 AND 0xfff \<noteq> 0)
              then (raiseGeneralProtectionFault 0 s, 2)
              else if hasUnrestrictedSupport env then
                (let s = vmwrite vm_cr4_read_shadow (newCR4 AND mask4) s
                 in (vmwrite vm_guest_cr4 (IA32_VMX_CR4_FIXED0 env OR newCR4) s, 0))
              else
                let s = vmwrite vm_cr4_read_shadow newCR4 s;
                    newCR4 = IA32_VMX_CR4_FIXED0 env OR newCR4;
                    s = (if vmread vm_cr0_read_shadow s AND CR0_PG \<noteq> 0 \<and> oldCR4 AND 0x20 \<noteq> 0 \<and>
                            newCR4 AND 0x20 = 0 then emulatePaging s else s);
                    s = vmwrite vm_guest_cr4 (cr4_real env s newCR4) s
                in (cr4_finish env oldCR4 s, 0))"

section \<open>What the steps leave alone\<close>

named_theorems frame_simps "fields that an operation does not touch"

lemma emulatePaging_frame [frame_simps]:
  "f \<noteq> vm_guest_cr3 \<Longrightarrow> vmread f (emulatePaging s) = vmread f s"
  "guestCR0 (emulatePaging s) = guestCR0 s" "pmem (emulatePaging s) = pmem s"
  "guestCR3 (emulatePaging s) = guestCR3 s" "hasIF (emulatePaging s) = hasIF s"
  by (simp_all add: emulatePaging_def)

lemma setupNonPagedPaging_frame [frame_simps]:
  "f \<noteq> vm_guest_cr3 \<Longrightarrow> vmread f (setupNonPagedPaging env s) = vmread f s"
  "guestCR0 (setupNonPagedPaging env s) = guestCR0 s"
  "guestCR3 (setupNonPagedPaging env s) = guestCR3 s" "hasIF (setupNonPagedPaging env s) = hasIF s"
  "TSsegment (setupNonPagedPaging env s) = TSsegment s" "TSbase (setupNonPagedPaging env s) = TSbase s"
  "TSlimit (setupNonPagedPaging env s) = TSlimit s"
  "TSaccessRights (setupNonPagedPaging env s) = TSaccessRights s"
  "RM_GDTBase (setupNonPagedPaging env s) = RM_GDTBase s" "RM_GDTLimit (setupNonPagedPaging env s) = RM_GDTLimit s"
  "RM_IDTBase (setupNonPagedPaging env s) = RM_IDTBase s" "RM_IDTLimit (setupNonPagedPaging env s) = RM_IDTLimit s"
  by (simp_all add: setupNonPagedPaging_def)

lemma raiseGPF_frame [frame_simps]:
  "f \<notin> {vm_entry_interruptioninfo, vm_entry_exceptionerrorcode, vm_entry_instructionlength} \<Longrightarrow>
   vmread f (raiseGeneralProtectionFault e s) = vmread f s"
  "guestCR0 (raiseGeneralProtectionFault e s) = guestCR0 s"
  "guestCR3 (raiseGeneralProtectionFault e s) = guestCR3 s"
  by (simp_all add: raiseGeneralProtectionFault_def Let_def)

lemma cr0_ia32e_frame [frame_simps]:
  "f \<noteq> vm_entry_controls \<Longrightarrow> vmread f (cr0_ia32e_check o0 s) = vmread f s"
  "guestCR0 (cr0_ia32e_check o0 s) = guestCR0 s"
  by (simp_all add: cr0_ia32e_check_def)

lemma cr0_paging_change_frame [frame_simps]:
  "vmread vm_cr0_read_shadow (cr0_paging_change env o0 n0 s) = vmread vm_cr0_read_shadow s"
  "guestCR0 (cr0_paging_change env o0 n0 s) = guestCR0 s"
  by (simp_all add: cr0_paging_change_def Let_def frame_simps)

lemma cr0_finish_frame [frame_simps]:
  "vmread vm_cr0_read_shadow (cr0_finish env o0 n0 s) = vmread vm_cr0_read_shadow s"
  "guestCR0 (cr0_finish env o0 n0 s) = guestCR0 s"
  "vmread vm_guest_cr0 (cr0_finish env o0 n0 s) = IA32_VMX_CR0_FIXED0 env OR n0"
  by (simp_all add: cr0_finish_def Let_def frame_simps)

lemma cr0_to_real_frame [frame_simps]:
  "vmread vm_cr0_read_shadow (cr0_to_real env s) = vmread vm_cr0_read_shadow s"
  "guestCR0 (cr0_to_real env s) = guestCR0 s"
  "vmread vm_guest_cr0 (cr0_to_real env s) =
     take_bit 32 (IA32_VMX_CR0_FIXED0 env) OR vmread vm_cr0_read_shadow s"
  by (simp_all add: cr0_to_real_def Let_def frame_simps)

lemma cr0_protected_segments_frame [frame_simps]:
  "f < 0x4000 \<Longrightarrow> f \<notin> {vm_guest_tr, vm_guest_cs} \<Longrightarrow> vmread f (cr0_protected_segments s) = vmread f s"
  "0x6000 \<le> f \<Longrightarrow> f \<noteq> vm_guest_tr_base \<Longrightarrow> vmread f (cr0_protected_segments s) = vmread f s"
  "guestCR0 (cr0_protected_segments s) = guestCR0 s" "hasIF (cr0_protected_segments s) = hasIF s"
  "RM_GDTBase (cr0_protected_segments s) = RM_GDTBase s" "RM_GDTLimit (cr0_protected_segments s) = RM_GDTLimit s"
  "RM_IDTBase (cr0_protected_segments s) = RM_IDTBase s" "RM_IDTLimit (cr0_protected_segments s) = RM_IDTLimit s"
  by (simp_all add: cr0_protected_segments_def Let_def)

lemma cr0_protected_tables_frame [frame_simps]:
  "f \<notin> {vm_guest_rflags, vm_guest_gdtr_base, vm_guest_gdt_limit, vm_guest_idtr_base, vm_guest_idt_limit} \<Longrightarrow>
   vmread f (cr0_protected_tables s) = vmread f s"
  "guestCR0 (cr0_protected_tables s) = guestCR0 s"
  by (simp_all add: cr0_protected_tables_def Let_def)

lemma cr0_protected_paging_frame [frame_simps]:
  "f \<notin> {vm_guest_cr3, vm_guest_cr4} \<Longrightarrow> vmread f (cr0_protected_paging env n0 s) = vmread f s"
  "guestCR0 (cr0_protected_paging env n0 s) = guestCR0 s"
  by (simp_all add: cr0_protected_paging_def Let_def frame_simps)

lemma cr0_to_protected_Some:
  assumes "cr0_to_protected env n0 s = Some t"
  shows "t = cr0_protected_paging env n0 (cr0_protected_tables (cr0_protected_segments s))"
  using assms by (simp add: cr0_to_protected_def Let_def split: if_splits)

lemma cr0_to_protected_frame:
  assumes "cr0_to_protected env n0 s = Some t"
  shows "vmread vm_cr0_read_shadow t = vmread vm_cr0_read_shadow s" "guestCR0 t = guestCR0 s"
  by (simp_all add: cr0_to_protected_Some [OF assms] frame_simps)

text \<open>The state in which \<open>setVM_CR0\<close> looks for a change of mode, and its result there.\<close>

definition cr0_start :: "u64 \<Rightarrow> vm_state \<Rightarrow> vm_state" where
  "cr0_start n0 s = cr0_ia32e_check (guestCR0 s) (vmwrite vm_cr0_read_shadow n0 (s\<lparr>guestCR0 := n0\<rparr>))"

definition cr0_switch :: "vm_env \<Rightarrow> u64 \<Rightarrow> u64 \<Rightarrow> vm_state \<Rightarrow> vm_result" where
  "cr0_switch env o0 n0 s =
     (if IA32_VMX_CR0_FIXED1 env AND n0 \<noteq> n0 then Some (raiseGeneralProtectionFault 0 s, 2)
      else if n0 AND 1 = 1 \<and> o0 AND 1 = 0 then
        (case cr0_to_protected env n0 s of
           None \<Rightarrow> None
         | Some s \<Rightarrow> Some (cr0_finish env o0 n0 (cr0_paging_change env o0 n0 s), 0))
      else if o0 AND 1 = 1 \<and> n0 AND 1 = 0 then Some (cr0_to_real env s, 0)
      else Some (cr0_finish env o0 n0 (cr0_paging_change env o0 n0 s), 0))"

lemma cr0_start_frame [frame_simps]:
  "vmread vm_cr0_read_shadow (cr0_start n0 s) = n0" "guestCR0 (cr0_start n0 s) = n0"
  "vmread vm_guest_cr0 (cr0_start n0 s) = vmread vm_guest_cr0 s"
  by (simp_all add: cr0_start_def frame_simps)

lemma setVM_CR0_restricted:
  "\<not> hasUnrestrictedSupport env \<Longrightarrow>
   setVM_CR0 env v s =
     (if vmread vm_guest_cr4 s AND CR4_PCIDE \<noteq> 0 \<and> (v OR 0x10) AND CR0_PG = 0
      then Some (raiseGeneralProtectionFault 0 s, 2)
      else if hasCETSupport env \<and> vmread vm_guest_cr4 s AND CR4_CET \<noteq> 0 \<and> (v OR 0x10) AND CR0_WP = 0
      then Some (raiseGeneralProtectionFault 0 s, 2)
      else cr0_switch env (guestCR0 s) (v OR 0x10) (cr0_start (v OR 0x10) s))"
  unfolding setVM_CR0_def Let_def cr0_start_def cr0_switch_def by (simp only: if_False)

lemma setVM_CR0_unrestricted:
  "hasUnrestrictedSupport env \<Longrightarrow>
   setVM_CR0 env v s =
     (let s1 = s\<lparr>efer := vmread vm_guest_IA32_EFER s\<rparr>
      in if vmread vm_guest_cr4 s AND CR4_PCIDE \<noteq> 0 \<and> (v OR 0x10) AND CR0_PG = 0
         then Some (raiseGeneralProtectionFault 0 s1, 2)
         else if hasCETSupport env \<and> vmread vm_guest_cr4 s AND CR4_CET \<noteq> 0 \<and> (v OR 0x10) AND CR0_WP = 0
         then Some (raiseGeneralProtectionFault 0 s1, 2)
         else Some (cr0_unrestricted env (v OR 0x10) (s1\<lparr>guestCR0 := v OR 0x10\<rparr>), 0))"
  unfolding setVM_CR0_def Let_def by (simp only: if_True)

lemma cr0_switch_done:
  assumes "cr0_switch env o0 n0 s = Some (t, 0)" and "vmread vm_cr0_read_shadow s = n0"
    and "take_bit 32 (IA32_VMX_CR0_FIXED0 env) = IA32_VMX_CR0_FIXED0 env"
  shows "guestCR0 t = guestCR0 s \<and> vmread vm_cr0_read_shadow t = n0 \<and>
         vmread vm_guest_cr0 t = IA32_VMX_CR0_FIXED0 env OR n0"
proof -
  consider u where "cr0_to_protected env n0 s = Some u"
      "t = cr0_finish env o0 n0 (cr0_paging_change env o0 n0 u)"
    | "t = cr0_to_real env s" | "t = cr0_finish env o0 n0 (cr0_paging_change env o0 n0 s)"
    using assms(1) by (auto simp: cr0_switch_def split: if_splits option.splits)
  then show ?thesis
    by cases (use assms(2,3) in \<open>simp_all add: frame_simps cr0_to_protected_frame\<close>)
qed

section \<open>Properties\<close>

text \<open>
  A write to CR0 that is done shows in the state: the guest's CR0 is the value written
  with ET set, and the real CR0 is that value with the bits the processor demands. Without
  unrestricted guest support the read shadow holds the guest's value, so a later read of CR0
  gives back what was written; with it only the bits the guest does not own are shadowed.
\<close>

theorem setVM_CR0_effect:
  assumes "setVM_CR0 env v s = Some (t, 0)"
    and "take_bit 32 (IA32_VMX_CR0_FIXED0 env) = IA32_VMX_CR0_FIXED0 env"
  shows "guestCR0 t = v OR 0x10 \<and>
    (if hasUnrestrictedSupport env
     then vmread vm_guest_cr0 t = (v OR 0x10) OR (IA32_VMX_CR0_FIXED0 env AND 0xFFFFFFFF7FFFFFFE)
     else vmread vm_cr0_read_shadow t = v OR 0x10 \<and>
          vmread vm_guest_cr0 t = IA32_VMX_CR0_FIXED0 env OR (v OR 0x10))"
proof (cases "hasUnrestrictedSupport env")
  case True
  have "t = cr0_unrestricted env (v OR 0x10) (s\<lparr>efer := vmread vm_guest_IA32_EFER s, guestCR0 := v OR 0x10\<rparr>)"
    using assms(1) unfolding setVM_CR0_unrestricted [OF True] Let_def by (simp split: if_splits)
  then show ?thesis using True by (simp add: cr0_unrestricted_def Let_def)
next
  case False
  have "cr0_switch env (guestCR0 s) (v OR 0x10) (cr0_start (v OR 0x10) s) = Some (t, 0)"
    using assms(1) unfolding setVM_CR0_restricted [OF False] by (simp split: if_splits)
  then show ?thesis
    using cr0_switch_done [of env "guestCR0 s" "v OR 0x10" "cr0_start (v OR 0x10) s" t] False assms(2)
    by (simp add: frame_simps)
qed

lemma setVM_CR0_effect_witness:
  "\<exists>t. setVM_CR0 (blank_env False) 0x20 blank_state = Some (t, 0) \<and>
     vmread vm_cr0_read_shadow t = 0x30 \<and> vmread vm_guest_cr0 t = 0x80000031"
proof -
  have env: "\<not> hasUnrestrictedSupport (blank_env False)" "\<not> hasCETSupport (blank_env False)"
    "IA32_VMX_CR0_FIXED0 (blank_env False) = 0x80000021" "IA32_VMX_CR0_FIXED1 (blank_env False) = 0xFFFFFFFF"
    by (simp_all add: blank_env_def)
  have "vmread vm_guest_cr4 blank_state = 0" "guestCR0 blank_state = 0"
    by (simp_all add: blank_state_def vmread_def)
  then have "\<exists>t. setVM_CR0 (blank_env False) 0x20 blank_state = Some (t, 0)"
    using env by (simp add: setVM_CR0_restricted cr0_switch_def)
  then obtain t where t: "setVM_CR0 (blank_env False) 0x20 blank_state = Some (t, 0)" ..
  show ?thesis
    using setVM_CR0_effect [OF t] t env by (simp add: take_bit_eq_mask mask_eq_exp_minus_1)
qed

text \<open>
  A write to CR0 with a bit the processor forbids is answered with a general protection
  fault, but only after the guest's CR0 and its read shadow have taken the new value; the
  real CR0 keeps the old one, so the guest reads a CR0 that it was told it could not set.
\<close>

theorem setVM_CR0_fault_keeps_value:
  assumes "\<not> hasUnrestrictedSupport env" and "\<not> hasCETSupport env"
    and "vmread vm_guest_cr4 s AND CR4_PCIDE = 0"
    and "IA32_VMX_CR0_FIXED1 env AND (v OR 0x10) \<noteq> v OR 0x10"
  shows "\<exists>t. setVM_CR0 env v s = Some (t, 2) \<and> guestCR0 t = v OR 0x10 \<and>
     vmread vm_cr0_read_shadow t = v OR 0x10 \<and> vmread vm_guest_cr0 t = vmread vm_guest_cr0 s"
  using assms by (simp add: setVM_CR0_restricted cr0_switch_def frame_simps)

lemma setVM_CR0_fault_keeps_value_witness:
  "\<exists>t. setVM_CR0 (blank_env False) 0x100000001 blank_state = Some (t, 2) \<and> guestCR0 t = 0x100000011"
proof -
  have "0x100000001 OR 0x10 = (0x100000011 :: u64)" by simp
  then show ?thesis
    using setVM_CR0_fault_keeps_value [of "blank_env False" blank_state "0x100000001"]
    by (fastforce simp: blank_env_def blank_state_def vmread_def)
qed

text \<open>A VMCS whose fields fit their widths, as any VMCS does.\<close>

definition vmcs_ok :: "vm_state \<Rightarrow> bool" where
  "vmcs_ok s \<longleftrightarrow> (\<forall>f. take_bit (field_bits f) (vmread f s) = vmread f s)"

lemma ucast_ucast_u64:
  "ucast (ucast x :: u16) = take_bit 16 x" "ucast (ucast x :: u32) = take_bit 32 x" for x :: "u64"
  by (simp_all add: unsigned_ucast_eq)

lemma cr0_to_real_saves:
  "TSsegment (cr0_to_real env s) = ucast (vmread vm_guest_tr s)"
  "TSbase (cr0_to_real env s) = vmread vm_guest_tr_base s"
  "TSlimit (cr0_to_real env s) = ucast (vmread vm_guest_tr_limit s)"
  "TSaccessRights (cr0_to_real env s) = ucast (vmread vm_guest_tr_access_rights s)"
  "RM_GDTBase (cr0_to_real env s) = vmread vm_guest_gdtr_base s"
  "RM_GDTLimit (cr0_to_real env s) = ucast (vmread vm_guest_gdt_limit s)"
  "RM_IDTBase (cr0_to_real env s) = vmread vm_guest_idtr_base s"
  "RM_IDTLimit (cr0_to_real env s) = ucast (vmread vm_guest_idt_limit s)"
  "hasIF (cr0_to_real env s) = (if bit (vmread vm_guest_rflags s) 9 then 1 else 0)"
  by (simp_all add: cr0_to_real_def Let_def frame_simps bit_or_iff bit_push_bit_iff)

lemma cr0_to_real_rflags:
  "vmread vm_guest_rflags (cr0_to_real env s) = vmread vm_guest_rflags s OR push_bit 12 3 OR push_bit 17 1"
  by (simp add: cr0_to_real_def Let_def frame_simps)

lemma tr_widths:
  "field_bits vm_guest_tr = 16" "field_bits vm_guest_tr_limit = 32"
  "field_bits vm_guest_tr_access_rights = 32" "field_bits vm_guest_tr_base = 64"
  "field_bits vm_guest_gdtr_base = 64" "field_bits vm_guest_idtr_base = 64"
  "field_bits vm_guest_gdt_limit = 32" "field_bits vm_guest_idt_limit = 32"
  by (simp_all add: field_bits_def)

lemma cr0_to_protected_loads:
  assumes "cr0_to_protected env n0 s = Some t"
  shows "vmread vm_guest_tr t = ucast (TSsegment s)" "vmread vm_guest_tr_base t = TSbase s"
    "vmread vm_guest_tr_limit t = ucast (TSlimit s)"
    "vmread vm_guest_tr_access_rights t = ucast (TSaccessRights s)"
    "vmread vm_guest_gdtr_base t = RM_GDTBase s" "vmread vm_guest_gdt_limit t = ucast (RM_GDTLimit s)"
    "vmread vm_guest_idtr_base t = RM_IDTBase s" "vmread vm_guest_idt_limit t = ucast (RM_IDTLimit s)"
proof -
  have small: "bit x k \<Longrightarrow> k < 16" "bit y k \<Longrightarrow> k < 32" "bit x k \<Longrightarrow> k < 32" for x :: "u16" and y :: "u32" and k
    using bit_imp_le_length [of x k] bit_imp_le_length [of y k] by simp_all
  have narrow: "take_bit 16 (ucast x :: u64) = ucast x" "take_bit 32 (ucast x :: u64) = ucast x"
    for x :: "u16"
    by (auto intro!: bit_eqI simp: bit_take_bit_iff bit_ucast_iff dest: small(1,3))
  have narrow': "take_bit 32 (ucast y :: u64) = ucast y" for y :: "u32"
    by (auto intro!: bit_eqI simp: bit_take_bit_iff bit_ucast_iff dest: small(2))
  have seg: "vmread vm_guest_tr (cr0_protected_segments s) = ucast (TSsegment s)"
    "vmread vm_guest_tr_base (cr0_protected_segments s) = TSbase s"
    "vmread vm_guest_tr_limit (cr0_protected_segments s) = ucast (TSlimit s)"
    "vmread vm_guest_tr_access_rights (cr0_protected_segments s) = ucast (TSaccessRights s)"
    by (simp_all add: cr0_protected_segments_def Let_def tr_widths narrow narrow')
  have tab: "vmread vm_guest_gdtr_base (cr0_protected_tables u) = RM_GDTBase u"
    "vmread vm_guest_gdt_limit (cr0_protected_tables u) = ucast (RM_GDTLimit u)"
    "vmread vm_guest_idtr_base (cr0_protected_tables u) = RM_IDTBase u"
    "vmread vm_guest_idt_limit (cr0_protected_tables u) = ucast (RM_IDTLimit u)" for u
    by (simp_all add: cr0_protected_tables_def Let_def tr_widths narrow)
  show "vmread vm_guest_tr t = ucast (TSsegment s)" "vmread vm_guest_tr_base t = TSbase s"
    "vmread vm_guest_tr_limit t = ucast (TSlimit s)"
    "vmread vm_guest_tr_access_rights t = ucast (TSaccessRights s)"
    "vmread vm_guest_gdtr_base t = RM_GDTBase s" "vmread vm_guest_gdt_limit t = ucast (RM_GDTLimit s)"
    "vmread vm_guest_idtr_base t = RM_IDTBase s" "vmread vm_guest_idt_limit t = ucast (RM_IDTLimit s)"
    by (simp_all add: cr0_to_protected_Some [OF assms] frame_simps seg tab)
qed

lemma cr0_to_protected_None:
  "cr0_to_protected env n0 s = None \<longleftrightarrow> bit (vmread vm_guest_rflags s) 9 \<or> hasIF s \<noteq> 0"
  by (simp add: cr0_to_protected_def Let_def frame_simps)

text \<open>
  C37: Leaving protected mode and coming back restores the task register and the descriptor
  tables (their limits cut to 16 bits), because \<open>cr0_to_protected\<close> loads what \<open>cr0_to_real\<close>
  has saved; the way back stops the processor exactly when interrupts were enabled.
\<close>

theorem cr0_mode_roundtrip:
  assumes "vmcs_ok s"
  shows "case cr0_to_protected env n (cr0_to_real env s) of
      None \<Rightarrow> bit (vmread vm_guest_rflags s) 9
    | Some t \<Rightarrow> \<not> bit (vmread vm_guest_rflags s) 9 \<and>
        vmread vm_guest_tr t = vmread vm_guest_tr s \<and>
        vmread vm_guest_tr_base t = vmread vm_guest_tr_base s \<and>
        vmread vm_guest_tr_limit t = vmread vm_guest_tr_limit s \<and>
        vmread vm_guest_tr_access_rights t = vmread vm_guest_tr_access_rights s \<and>
        vmread vm_guest_gdtr_base t = vmread vm_guest_gdtr_base s \<and>
        vmread vm_guest_gdt_limit t = vmread vm_guest_gdt_limit s AND 0xffff \<and>
        vmread vm_guest_idtr_base t = vmread vm_guest_idtr_base s \<and>
        vmread vm_guest_idt_limit t = vmread vm_guest_idt_limit s AND 0xffff"
proof -
  have ok: "take_bit (field_bits f) (vmread f s) = vmread f s" for f
    using assms by (simp add: vmcs_ok_def)
  note tr = ok [of vm_guest_tr] ok [of vm_guest_tr_limit] ok [of vm_guest_tr_access_rights]
  have "cr0_to_protected env n (cr0_to_real env s) = None \<longleftrightarrow> bit (vmread vm_guest_rflags s) 9"
    by (simp add: cr0_to_protected_None cr0_to_real_rflags cr0_to_real_saves bit_or_iff bit_push_bit_iff)
  then show ?thesis
    using tr
    by (auto simp: cr0_to_protected_loads cr0_to_real_saves ucast_ucast_u64 tr_widths mask_simps
        split: option.splits)
qed

lemma cr0_mode_roundtrip_witness:
  "\<exists>t. cr0_to_protected (blank_env False) 1 (cr0_to_real (blank_env False)
      (vmwrite vm_guest_tr 0x40 blank_state)) = Some t \<and> vmread vm_guest_tr t = 0x40"
proof -
  let ?s = "vmwrite vm_guest_tr 0x40 blank_state"
  have ok: "vmcs_ok ?s"
    by (simp add: vmcs_ok_def blank_state_def vmread_def vmwrite_def tr_widths
        take_bit_eq_mask mask_eq_exp_minus_1)
  have "\<not> bit (vmread vm_guest_rflags ?s) 9" "vmread vm_guest_tr ?s = 0x40"
    by (simp_all add: vmread_def vmwrite_def blank_state_def tr_widths take_bit_eq_mask mask_eq_exp_minus_1)
  then show ?thesis
    using cr0_mode_roundtrip [OF ok, of "blank_env False" 1] by (auto split: option.splits)
qed

text \<open>
  On a processor with CET no write to CR4 is ever carried out: the function returns
  without touching the real or the shadowed CR4, whatever the value.
\<close>

theorem setVM_CR4_ignored_with_CET:
  assumes "hasCETSupport env"
  shows "case setVM_CR4 env v s of (t, r) \<Rightarrow> r \<noteq> 0 \<and>
    vmread vm_guest_cr4 t = vmread vm_guest_cr4 s \<and> vmread vm_cr4_read_shadow t = vmread vm_cr4_read_shadow s"
  using assms by (simp add: setVM_CR4_def Let_def frame_simps)

lemma setVM_CR4_ignored_with_CET_witness:
  "case setVM_CR4 ((blank_env False)\<lparr>hasCETSupport := True\<rparr>) 0x20 blank_state of (t, r) \<Rightarrow> r \<noteq> 0 \<and>
    vmread vm_guest_cr4 t = vmread vm_guest_cr4 blank_state \<and>
    vmread vm_cr4_read_shadow t = vmread vm_cr4_read_shadow blank_state"
  by (rule setVM_CR4_ignored_with_CET) simp

lemma ISPAGING_restricted: "\<not> hasUnrestrictedSupport env \<Longrightarrow> \<not> ISPAGING env s"
proof -
  have "x AND CR0_PG \<noteq> 1" for x :: u64
  proof
    assume "x AND CR0_PG = 1"
    then have "bit (x AND CR0_PG) 0" by simp
    then show False by (simp add: bit_and_iff)
  qed
  then show "\<not> hasUnrestrictedSupport env \<Longrightarrow> \<not> ISPAGING env s" by (simp add: ISPAGING_def)
qed

text \<open>
  Without unrestricted guest support a CR4 that is accepted is shadowed as written (32 bits
  outside 64-bit code) and has the fixed bits in the real CR4, but never SMEP or SMAP (bits 20
  and 21) nor any upper bit: \<open>ISPAGING\<close> compares the masked CR0 with 1 and is never true, so
  the bits that are meant to go only while paging is off always go.
\<close>

theorem setVM_CR4_drops_SMEP_SMAP:
  assumes "\<not> hasUnrestrictedSupport env" and "setVM_CR4 env v s = (t, 0)"
  shows "vmread vm_guest_cr4 t AND 0xFFFFFFFF00300000 = 0 \<and>
     vmread vm_cr4_read_shadow t = (if IS64BITCODE s then v else v AND 0xFFFFFFFF)"
proof -
  have clear: "(x AND 0xFFCFFFFF) AND 0xFFFFFFFF00300000 = 0" for x :: u64
    by (simp add: and.assoc)
  have "cr4_real env u w AND 0xFFFFFFFF00300000 = 0" for u w
    by (simp add: cr4_real_def Let_def ISPAGING_restricted [OF assms(1)] clear)
  moreover obtain old u w where "t = cr4_finish env old (vmwrite vm_guest_cr4 (cr4_real env u w) u)"
    "vmread vm_cr4_read_shadow u = (if IS64BITCODE s then v else v AND 0xFFFFFFFF)"
    using assms by (auto simp: setVM_CR4_def Let_def frame_simps split: if_splits)
  ultimately show ?thesis
    by (simp add: cr4_finish_def frame_simps Let_def)
qed

lemma setVM_CR4_drops_SMEP_SMAP_witness:
  "\<exists>t. setVM_CR4 (blank_env False) 0x300020 blank_state = (t, 0) \<and>
     vmread vm_cr4_read_shadow t = 0x300020 \<and> vmread vm_guest_cr4 t AND 0xFFFFFFFF00300000 = 0"
proof -
  have env: "\<not> hasUnrestrictedSupport (blank_env False)" "\<not> hasCETSupport (blank_env False)"
    "IA32_VMX_CR4_FIXED1 (blank_env False) = 0x3767FF" by (simp_all add: blank_env_def)
  have z: "vmread f blank_state = 0" for f by (simp add: blank_state_def vmread_def)
  have "\<exists>t. setVM_CR4 (blank_env False) 0x300020 blank_state = (t, 0)"
    by (simp add: setVM_CR4_def Let_def env z IS64BITCODE_def IS64BITPAGING_def)
  then obtain t where t: "setVM_CR4 (blank_env False) 0x300020 blank_state = (t, 0)" ..
  show ?thesis
    using setVM_CR4_drops_SMEP_SMAP [OF env(1) t] t by (simp add: z IS64BITCODE_def IS64BITPAGING_def)
qed

text \<open>
  \<open>setVM_CR3\<close> injects a fault, with error code 3, exactly for a value with bits above the
  physical address width (bit 63 aside when PCIDs are on), and then changes nothing else;
  otherwise the guest's CR3 becomes the value, cut to 32 bits outside 64-bit paging, and with
  paging on that is also the base the processor uses. It does not return only when a callback
  is registered.
\<close>

theorem setVM_CR3_effect:
  "case setVM_CR3 env v s of
      None \<Rightarrow> cr3_change_callback s \<and> \<not> hasUnrestrictedSupport env
    | Some (t, r) \<Rightarrow> r = 0 \<and>
        (if cr3_strip s v AND NOT (MAXPHYADDRMASK env) \<noteq> 0
         then t = raiseGeneralProtectionFault 3 s
         else guestCR3 t = (if IS64BITPAGING s then cr3_strip s v else cr3_strip s v AND 0xffffffff) \<and>
           (if hasUnrestrictedSupport env then vmread vm_guest_cr3 t = cr3_strip s v
            else vmread vm_guest_cr3 t =
              (if vmread vm_cr0_read_shadow s AND PG_PE = PG_PE
               then if changedcr3 s then callback_newcr3 s else guestCR3 t
               else vmread vm_guest_cr3 s)))"
proof -
  define w where "w = cr3_strip s v"
  define s1 where "s1 = (if \<not> IS64BITPAGING s then (log_cr3 w s)\<lparr>guestCR3 := w AND 0xffffffff\<rparr>
      else (log_cr3 w s)\<lparr>guestCR3 := w\<rparr>)"
  have log: "vmread f (log_cr3 w s) = vmread f s" "changedcr3 (log_cr3 w s) = changedcr3 s"
    "callback_newcr3 (log_cr3 w s) = callback_newcr3 s"
    "cr3_change_callback (log_cr3 w s) = cr3_change_callback s" for f
    by (simp_all add: log_cr3_def split: option.splits)
  have s1: "vmread f s1 = vmread f s" "changedcr3 s1 = changedcr3 s" "callback_newcr3 s1 = callback_newcr3 s"
    "cr3_change_callback s1 = cr3_change_callback s"
    "guestCR3 s1 = (if IS64BITPAGING s then w else w AND 0xffffffff)" for f
    by (simp_all add: s1_def log)
  have eq: "setVM_CR3 env v s =
    (if w AND NOT (MAXPHYADDRMASK env) \<noteq> 0 then Some (raiseGeneralProtectionFault 3 s, 0)
     else if hasUnrestrictedSupport env then Some (vmwrite vm_guest_cr3 w s1, 0)
     else if vmread vm_cr0_read_shadow s1 AND CR0_PG \<noteq> 0 then
       (if cr3_change_callback s1 then None else Some (emulatePaging s1, 0))
     else Some (s1, 0))"
    by (simp add: setVM_CR3_def Let_def w_def [symmetric] s1_def IS64BITPAGING_def log)
  have pg: "x AND PG_PE = PG_PE \<Longrightarrow> x AND CR0_PG \<noteq> 0" for x :: u64
  proof
    assume a: "x AND PG_PE = PG_PE" and b: "x AND CR0_PG = 0"
    from a have "bit (x AND PG_PE) 31" by simp
    then have "bit (x AND CR0_PG) 31" by (simp add: bit_and_iff)
    then show False using b by simp
  qed
  show ?thesis
    unfolding eq w_def [symmetric]
    using pg [of "vmread vm_cr0_read_shadow s"]
    by (auto simp: s1 emulatePaging_def)
qed

lemma setVM_CR3_effect_witness:
  "setVM_CR3 (blank_env False) 0x1000000000 blank_state =
   Some (raiseGeneralProtectionFault 3 blank_state, 0)"
proof -
  have "cr3_strip blank_state 0x1000000000 = 0x1000000000" "\<not> cr3_change_callback blank_state"
    "MAXPHYADDRMASK (blank_env False) = 0xFFFFFFFFF"
    by (simp_all add: cr3_strip_def blank_state_def blank_env_def vmread_def)
  then show ?thesis
    using setVM_CR3_effect [where env = "blank_env False" and v = "0x1000000000" and s = blank_state]
    by (auto split: option.splits)
qed

end
