(* ===== verification/RealMode.thy ===== *)
theory RealMode
  imports ControlRegs
begin

text \<open>
  \<open>dbvm/vmm/realmodeemu.c\<close>: the emulation of real-mode code on processors whose VMX cannot
  run it. The handlers work on the guest state and on \<open>INSTRUCTIONDATA\<close>; they return 0 (done,
  advance by \<open>size\<close>), 1 (not handled) or 2 (done, the instruction pointer is already set).
  \<open>None\<close> is a fault of the hypervisor itself: an access through the null pointer that
  \<open>mapVMmemory\<close> returned, a read behind the 30 instruction bytes, or a stop in an endless
  loop. 0/1 members of \<open>INSTRUCTIONDATA\<close> are booleans.
\<close>

record instructiondata =
  id_error :: bool
  opperandsize :: bool
  addresssize :: bool
  rep :: bool
  repne :: bool
  lock :: bool
  segmentbase :: u64
  id_address :: u64
  instruction :: "u8 list"
  opperand :: int
  opperand2 :: int
  id_size :: nat

datatype registerType = Register8Bit | Register16Bit | Register32Bit | RegisterSreg

type_synonym rm_result = "(vm_state \<times> instructiondata \<times> int) option"

section \<open>Registers, memory and instruction bytes\<close>

text \<open>
  The switch over the register number that the handlers repeat: \<open>rsp\<close> lives in the VMCS.
\<close>

definition reg_get :: "int \<Rightarrow> vm_state \<Rightarrow> u64" where
  "reg_get k s =
     (if k = 0 then rax s else if k = 1 then rcx s else if k = 2 then rdx s else if k = 3 then rbx s
      else if k = 4 then vmread vm_guest_rsp s else if k = 5 then rbp s else if k = 6 then rsi s
      else if k = 7 then rdi s else 0)"

definition reg_set :: "int \<Rightarrow> u64 \<Rightarrow> vm_state \<Rightarrow> vm_state" where
  "reg_set k v s =
     (if k = 0 then s\<lparr>rax := v\<rparr> else if k = 1 then s\<lparr>rcx := v\<rparr> else if k = 2 then s\<lparr>rdx := v\<rparr>
      else if k = 3 then s\<lparr>rbx := v\<rparr> else if k = 4 then vmwrite vm_guest_rsp v s
      else if k = 5 then s\<lparr>rbp := v\<rparr> else if k = 6 then s\<lparr>rsi := v\<rparr>
      else if k = 7 then s\<lparr>rdi := v\<rparr> else s)"

definition reg_put8 :: "int \<Rightarrow> u64 \<Rightarrow> vm_state \<Rightarrow> vm_state" where
  "reg_put8 k v s = reg_set k ((reg_get k s AND 0xffffffffffffff00) + v) s"

definition reg_put16 :: "int \<Rightarrow> u64 \<Rightarrow> vm_state \<Rightarrow> vm_state" where
  "reg_put16 k v s = reg_set k ((reg_get k s AND 0xffffffffffff0000) + v) s"

definition reg_put32 :: "int \<Rightarrow> u64 \<Rightarrow> vm_state \<Rightarrow> vm_state" where
  "reg_put32 k v s = reg_set k ((reg_get k s AND 0xffffffff00000000) + v) s"

definition reg_put8h :: "int \<Rightarrow> u64 \<Rightarrow> vm_state \<Rightarrow> vm_state" where
  "reg_put8h k v s = reg_set k ((reg_get k s AND 0xffffffffffff00ff) + v) s"

abbreviation word16 :: "u64 \<Rightarrow> u64" where
  "word16 x \<equiv> take_bit 16 x"

abbreviation rsp :: "vm_state \<Rightarrow> u64" where
  "rsp s \<equiv> vmread vm_guest_rsp s"

text \<open>A mapping for the time of one access; a failed one is used as the null pointer.\<close>

definition map_ptr :: "vm_env \<Rightarrow> vm_state \<Rightarrow> u64 \<Rightarrow> nat \<Rightarrow> pointer option" where
  "map_ptr env s a n = (case mapVMmemory env s a n of Inl e \<Rightarrow> None | Inr p \<Rightarrow> Some p)"

definition host_ptr :: "vm_env \<Rightarrow> u64 \<Rightarrow> nat \<Rightarrow> pointer option" where
  "host_ptr env a n =
     (if \<exists>i \<in> set [0..<n]. host_page env ((a + of_nat i) AND 0xfffffffffffff000) = None then None
      else Some (\<lambda>i. (case host_page env ((a + of_nat i) AND 0xfffffffffffff000) of
                        None \<Rightarrow> 0 | Some p \<Rightarrow> p + ((a + of_nat i) AND 0xfff))))"

text \<open>\<open>n\<close> instruction bytes at position \<open>k\<close>, lowest first.\<close>

fun bytes_le :: "u8 list \<Rightarrow> u64" where
  "bytes_le [] = 0"
| "bytes_le (b # bs) = ucast b OR push_bit 8 (bytes_le bs)"

definition fetch :: "instructiondata \<Rightarrow> nat \<Rightarrow> nat \<Rightarrow> u64 option" where
  "fetch i k n =
     (if k + n \<le> length (instruction i) then Some (bytes_le (take n (drop k (instruction i)))) else None)"

definition skip :: "nat \<Rightarrow> instructiondata \<Rightarrow> instructiondata" where
  "skip n i = i\<lparr>id_size := id_size i + n\<rparr>"

definition sext8 :: "u64 \<Rightarrow> u64" where
  "sext8 x = signed_take_bit 7 x"

definition sext16 :: "u64 \<Rightarrow> u64" where
  "sext16 x = signed_take_bit 15 x"

section \<open>Addressing\<close>

definition getSIBBase ::
  "vm_state \<Rightarrow> instructiondata \<Rightarrow> int \<Rightarrow> int \<Rightarrow> (instructiondata \<times> u64) option" where
  "getSIBBase s i MOD base =
     (if base = 5 then
        (if MOD = 0 then do {
           d \<leftarrow> fetch i (id_size i) 4;
           Some (skip 4 (i\<lparr>id_address := d\<rparr>), d)
         }
         else if MOD = 1 \<or> MOD = 2 then
           Some (i\<lparr>id_address := rbp s AND 0xffffffff\<rparr>, rbp s AND 0xffffffff)
         else Some (i\<lparr>id_error := True\<rparr>, 0))
      else Some (i, reg_get base s AND 0xffffffff))"

text \<open>
  The index 5 is read as \<open>rsi\<close>, 6 as \<open>rdi\<close>, and 7 is an error; the scaled index is cut to 32
  bits, and so is the sum.
\<close>

definition handleSIB ::
  "vm_state \<Rightarrow> instructiondata \<Rightarrow> int \<Rightarrow> (instructiondata \<times> u64) option" where
  "handleSIB s i MOD = do {
     b \<leftarrow> fetch i (id_size i) 1;
     (i, base) \<leftarrow> getSIBBase s (skip 1 i) MOD (uint (b AND 7));
     let index = uint (drop_bit 3 b AND 7);
     let scale = unat (drop_bit 6 b);
     Some (if index = 4 then (i, base)
           else if index \<le> 3 then (i, take_bit 32 ((push_bit scale (reg_get index s) AND 0xffffffff) + base))
           else if index \<le> 6
           then (i, take_bit 32 ((push_bit scale (reg_get (index + 1) s) AND 0xffffffff) + base))
           else (i\<lparr>id_error := True\<rparr>, 0))
   }"

definition modrm16_sum :: "vm_state \<Rightarrow> int \<Rightarrow> u64" where
  "modrm16_sum s RM =
     (if RM = 0 then rbx s + rsi s else if RM = 1 then rbx s + rdi s
      else if RM = 2 then rbp s + rsi s else if RM = 3 then rbp s + rdi s
      else if RM = 4 then rsi s else if RM = 5 then rdi s
      else if RM = 6 then rbp s else rbx s)"

definition modrm_16 ::
  "vm_state \<Rightarrow> instructiondata \<Rightarrow> int \<Rightarrow> int \<Rightarrow> instructiondata option" where
  "modrm_16 s i MOD RM =
     (if MOD = 0 then
        (if RM = 6 then do {
           d \<leftarrow> fetch i (id_size i) 2;
           Some (skip 2 (i\<lparr>id_address := segmentbase i + d\<rparr>))
         }
         else
           let i = (if RM = 2 \<or> RM = 3 then i\<lparr>segmentbase := vmread vm_guest_ss_base s\<rparr> else i)
           in Some (i\<lparr>id_address := segmentbase i + (modrm16_sum s RM AND 0xffff)\<rparr>))
      else if MOD = 1 then do {
        d \<leftarrow> fetch i (id_size i) 1;
        let i = skip 1 (if RM = 2 \<or> RM = 3 then i\<lparr>segmentbase := vmread vm_guest_ss_base s\<rparr> else i);
        Some (i\<lparr>id_address := segmentbase i + ((modrm16_sum s RM + sext8 d) AND 0xffff)\<rparr>)
      }
      else if MOD = 2 then do {
        d \<leftarrow> fetch i (id_size i) 2;
        let i = skip 2 (if RM = 6 then i\<lparr>segmentbase := vmread vm_guest_ss_base s\<rparr> else i);
        Some (i\<lparr>id_address := (segmentbase i + (modrm16_sum s RM + sext16 d)) AND 0xffff\<rparr>)
      }
      else Some (i\<lparr>opperand2 := RM\<rparr>))"

text \<open>
  With 32-bit addressing the displacements of \<open>MOD\<close> 1 and 2 are read one byte early, except
  for \<open>RM = 0\<close>, and both advance by one byte only.
\<close>

definition modrm_32 ::
  "vm_state \<Rightarrow> instructiondata \<Rightarrow> int \<Rightarrow> int \<Rightarrow> instructiondata option" where
  "modrm_32 s i MOD RM =
     (if MOD = 0 then
        (if RM = 4 then do {
           (i, a) \<leftarrow> handleSIB s i 0;
           Some (i\<lparr>id_address := a\<rparr>)
         }
         else if RM = 5 then do {
           d \<leftarrow> fetch i (id_size i) 4;
           Some (skip 4 (i\<lparr>id_address := segmentbase i + d\<rparr>))
         }
         else Some (i\<lparr>id_address := segmentbase i + (reg_get RM s AND 0xffffffff)\<rparr>))
      else if MOD = 1 \<or> MOD = 2 then
        (if RM = 4 then do {
           (i, a) \<leftarrow> handleSIB s i MOD;
           d \<leftarrow> fetch i (id_size i - 1) (if MOD = 1 then 1 else 4);
           Some (skip 1 (i\<lparr>id_address := a + (if MOD = 1 then sext8 d else d)\<rparr>))
         }
         else do {
           d \<leftarrow> fetch i (if RM = 0 then id_size i else id_size i - 1) (if MOD = 1 then 1 else 4);
           Some (skip 1 (i\<lparr>id_address := segmentbase i + (reg_get RM s AND 0xffffffff)
                                         + (if MOD = 1 then sext8 d else d)\<rparr>))
         })
      else Some (i\<lparr>opperand2 := RM\<rparr>))"

definition handleMODRM :: "vm_state \<Rightarrow> instructiondata \<Rightarrow> instructiondata option" where
  "handleMODRM s i = do {
     b \<leftarrow> fetch i (id_size i) 1;
     let i = skip 1 (i\<lparr>opperand := uint (drop_bit 3 b AND 7)\<rparr>);
     if addresssize i then modrm_32 s i (uint (drop_bit 6 b)) (uint (b AND 7))
     else modrm_16 s i (uint (drop_bit 6 b)) (uint (b AND 7))
   }"

definition getOpperand :: "instructiondata \<Rightarrow> int option" where
  "getOpperand i = map_option (\<lambda>b. uint (drop_bit 3 b AND 7)) (fetch i (id_size i) 1)"

definition getOpperandValue :: "vm_state \<Rightarrow> int \<Rightarrow> registerType \<Rightarrow> u64" where
  "getOpperandValue s k t =
     (case t of
        Register8Bit \<Rightarrow>
          (if 0 \<le> k \<and> k \<le> 3 then reg_get k s AND 0xff
           else if 4 \<le> k \<and> k \<le> 7 then drop_bit 8 (reg_get (k - 4) s) AND 0xff else 1)
      | Register16Bit \<Rightarrow> (if 0 \<le> k \<and> k \<le> 7 then reg_get k s AND 0xffff else 1)
      | Register32Bit \<Rightarrow> (if 0 \<le> k \<and> k \<le> 7 then reg_get k s AND 0xffffffff else 1)
      | RegisterSreg \<Rightarrow>
          (if 0 \<le> k \<and> k \<le> 5 then vmread (vm_guest_es + 2 * nat k) s else 1))"

section \<open>Segments, interrupts and flags\<close>

definition setSegment :: "nat \<Rightarrow> u64 \<Rightarrow> vm_state \<Rightarrow> vm_state" where
  "setSegment segmentnr v s =
     (let s = vmwrite (vm_guest_es + 2 * segmentnr) v s;
          s = vmwrite (vm_guest_es_base + 2 * segmentnr) (push_bit 4 v) s;
          s = vmwrite (vm_guest_es_limit + 2 * segmentnr) 0xffff s;
          s = vmwrite (vm_guest_es_access_rights + 2 * segmentnr) 0xf3 s
      in if segmentnr = 2
         then vmwrite vm_guest_interruptability_state (vmread vm_guest_interruptability_state s OR 2) s
         else s)"

definition emulateRMinterrupt :: "vm_env \<Rightarrow> nat \<Rightarrow> vm_state \<Rightarrow> vm_state option" where
  "emulateRMinterrupt env intnr s = do {
     let flags = vmread vm_guest_rflags s;
     vector \<leftarrow> host_ptr env (RM_IDTBase s + 4 * of_nat intnr) 4;
     stack \<leftarrow> host_ptr env (vmread vm_guest_ss_base s + word16 (rsp s - 6)) 6;
     let v = load_le (pmem s) vector 4;
     let neweip = word16 v;
     let newcs = drop_bit 16 v;
     let m = store_le (pmem s) stack 2 (vmread vm_guest_rip s);
     let m = store_le m (\<lambda>j. stack (j + 2)) 2 (vmread vm_guest_cs s);
     let m = store_le m (\<lambda>j. stack (j + 4)) 2 flags;
     let s = s\<lparr>pmem := m\<rparr>;
     let s = vmwrite vm_guest_rsp (word16 (rsp s - 6)) s;
     let s = vmwrite vm_guest_rip neweip s;
     let s = vmwrite vm_guest_cs newcs s;
     let s = vmwrite vm_guest_cs_base (push_bit 4 newcs) s;
     let flags = flags AND NOT (push_bit 9 1 OR push_bit 8 1 OR push_bit 18 1 OR push_bit 16 1);
     Some (vmwrite vm_guest_rflags (take_bit 32 flags) s)
   }"

fun parity_loop :: "nat \<Rightarrow> nat \<Rightarrow> nat \<Rightarrow> nat" where
  "parity_loop value v count =
     (if v = 0 then count
      else parity_loop value (v div 2) (if value mod 2 \<noteq> 0 then count + 1 else count))"

declare parity_loop.simps [simp del]

definition getparityflag :: "u64 \<Rightarrow> bool" where
  "getparityflag value = (let b = unat (value AND 0xff) in parity_loop b b 0 mod 2 = 0)"

definition emulateHLT :: "vm_env \<Rightarrow> vm_state \<Rightarrow> (vm_state \<times> int) option" where
  "emulateHLT env s =
     (if bit (vmread vm_guest_rflags s) 9 then
        (case irqs s of
           [] \<Rightarrow> None
         | None # is \<Rightarrow> Some (s\<lparr>irqs := is\<rparr>, -1)
         | Some v # is \<Rightarrow>
             map_option (\<lambda>s. (s, 0)) (emulateRMinterrupt env (unat v) (s\<lparr>irqs := is, LastInterrupt := v\<rparr>)))
      else Some (s, 0))"

definition testRMinterrupt :: "vm_env \<Rightarrow> vm_state \<Rightarrow> vm_state option" where
  "testRMinterrupt env s =
     (if ISREALMODE env s \<and> bit (vmread vm_guest_rflags s) 9 \<and> vmread vm_guest_interruptability_state s = 0
      then
        (case irqs s of
           [] \<Rightarrow> Some s
         | None # is \<Rightarrow> Some (s\<lparr>irqs := is\<rparr>)
         | Some v # is \<Rightarrow> emulateRMinterrupt env (unat v) (s\<lparr>irqs := is, LastInterrupt := v\<rparr>))
      else Some s)"

text \<open>\<open>readMSRSafe\<close> and \<open>writeMSRSafe\<close> of \<open>vmcall.c\<close>: a fault is caught and leaves its number.\<close>

definition readMSRSafe :: "u32 \<Rightarrow> vm_state \<Rightarrow> vm_state \<times> u64" where
  "readMSRSafe m s = (case msrs s m of None \<Rightarrow> (s\<lparr>LastInterrupt := 13\<rparr>, 0) | Some v \<Rightarrow> (s, v))"

definition writeMSRSafe :: "vm_env \<Rightarrow> u32 \<Rightarrow> u64 \<Rightarrow> vm_state \<Rightarrow> vm_state" where
  "writeMSRSafe env m v s =
     (if msr_writable env m v then s\<lparr>msrs := (msrs s)(m \<mapsto> v)\<rparr> else s\<lparr>LastInterrupt := 13\<rparr>)"

section \<open>The handlers: control transfers and system registers\<close>

definition interrupt_result :: "vm_env \<Rightarrow> nat \<Rightarrow> vm_state \<Rightarrow> instructiondata \<Rightarrow> rm_result" where
  "interrupt_result env n s i = map_option (\<lambda>s. (s, i, 2)) (emulateRMinterrupt env n s)"

definition opcode_CALLE8 :: "vm_env \<Rightarrow> vm_state \<Rightarrow> instructiondata \<Rightarrow> rm_result" where
  "opcode_CALLE8 env s i =
     (if opperandsize i then Some (s, i, 1)
      else do {
        stack \<leftarrow> map_ptr env s (vmread vm_guest_ss_base s + word16 (rsp s) - 2) 2;
        offset \<leftarrow> fetch i (id_size i) 2;
        let i = skip 2 i;
        let s = s\<lparr>pmem := store_le (pmem s) stack 2 (vmread vm_guest_rip s + of_nat (id_size i))\<rparr>;
        let s = vmwrite vm_guest_rsp ((rsp s AND 0xffff0000) + word16 (rsp s - 2)) s;
        let newip = word16 (vmread vm_guest_rip s + of_nat (id_size i) + offset);
        Some (vmwrite vm_guest_rip newip s, i\<lparr>id_size := 0\<rparr>, 2)
      })"

definition opcode_HLTF4 :: "vm_env \<Rightarrow> vm_state \<Rightarrow> instructiondata \<Rightarrow> rm_result" where
  "opcode_HLTF4 env s i = do {
     let s = vmwrite vm_guest_rip (vmread vm_guest_rip s + 1) s;
     let s = vmwrite vm_guest_interruptability_state 0 s;
     (s, _) \<leftarrow> emulateHLT env s;
     Some (s, i\<lparr>id_size := 0\<rparr>, 2)
   }"

definition opcode_INTCD :: "vm_env \<Rightarrow> vm_state \<Rightarrow> instructiondata \<Rightarrow> rm_result" where
  "opcode_INTCD env s i =
     (if id_size i = 1 then do {
        let s = vmwrite vm_guest_rip (vmread vm_guest_rip s + of_nat (id_size i) + 1) s;
        n \<leftarrow> fetch i (id_size i) 1;
        interrupt_result env (unat n) s i
      }
      else Some (s, i, 1))"

definition opcode_JMPE9 :: "vm_state \<Rightarrow> instructiondata \<Rightarrow> rm_result" where
  "opcode_JMPE9 s i =
     (if opperandsize i then Some (s, i, 1)
      else do {
        offset \<leftarrow> fetch i (id_size i) 2;
        let i = skip 2 i;
        let newip = word16 (vmread vm_guest_rip s + of_nat (id_size i) + offset);
        Some (vmwrite vm_guest_rip newip s, i\<lparr>id_size := 0\<rparr>, 2)
      })"

text \<open>With a 32-bit offset the segment is still read two bytes behind its start.\<close>

definition opcode_JMPEA :: "vm_state \<Rightarrow> instructiondata \<Rightarrow> rm_result" where
  "opcode_JMPEA s i = do {
     neweip \<leftarrow> fetch i (id_size i) (if opperandsize i then 4 else 2);
     newcs \<leftarrow> fetch i (id_size i + 2) 2;
     let s = vmwrite vm_guest_rip neweip s;
     let s = vmwrite vm_guest_cs newcs s;
     let s = vmwrite vm_guest_cs_base (push_bit 4 newcs) s;
     let s = vmwrite vm_guest_cs_limit 0xffff s;
     Some (s, i\<lparr>id_size := 0\<rparr>, 2)
   }"

definition opcode_JMPEB :: "vm_state \<Rightarrow> instructiondata \<Rightarrow> rm_result" where
  "opcode_JMPEB s i = do {
     offset \<leftarrow> fetch i (id_size i) 1;
     let i = skip 1 i;
     let newip = word16 (vmread vm_guest_rip s + of_nat (id_size i) + sext8 offset);
     Some (vmwrite vm_guest_rip newip s, i\<lparr>id_size := 0\<rparr>, 2)
   }"

definition opcode_LGDT :: "vm_env \<Rightarrow> vm_state \<Rightarrow> instructiondata \<Rightarrow> rm_result" where
  "opcode_LGDT env s i = do {
     i \<leftarrow> handleMODRM s i;
     if id_error i then Some (s, i, 1)
     else do {
       p \<leftarrow> map_ptr env s (id_address i) 16;
       let limit = load_le (pmem s) p 2;
       let base = load_le (pmem s) (\<lambda>j. p (j + 2)) 4;
       let base = (if opperandsize i then base else base AND 0x00FFFFFF);
       Some (s\<lparr>RM_GDTBase := base, RM_GDTLimit := ucast limit\<rparr>, i, 0)
     }
   }"

definition opcode_LIDT :: "vm_env \<Rightarrow> vm_state \<Rightarrow> instructiondata \<Rightarrow> rm_result" where
  "opcode_LIDT env s i = do {
     i \<leftarrow> handleMODRM s i;
     if id_error i then Some (s, i, 1)
     else do {
       p \<leftarrow> map_ptr env s (id_address i) 16;
       let limit = load_le (pmem s) p 2;
       let base = load_le (pmem s) (\<lambda>j. p (j + 2)) 4;
       let base = (if opperandsize i then base else base AND 0x00FFFFFF);
       Some (s\<lparr>RM_IDTBase := base, RM_IDTLimit := ucast limit\<rparr>, i, 0)
     }
   }"

definition opcode_LMSW :: "vm_env \<Rightarrow> vm_state \<Rightarrow> instructiondata \<Rightarrow> rm_result" where
  "opcode_LMSW env s i = do {
     i \<leftarrow> handleMODRM s i;
     let high = vmread vm_cr0_read_shadow s AND 0xffff0000;
     if id_error i then Some (s, i, 1)
     else if opperand2 i = -1 then
       (case mapVMmemory env s (id_address i) 16 of
          Inl _ \<Rightarrow> Some (s, i, 1)
        | Inr p \<Rightarrow> map_option (\<lambda>(s, r). (s, i, r)) (setVM_CR0 env (high OR load_le (pmem s) p 2) s))
     else map_option (\<lambda>(s, r). (s, i, r))
            (setVM_CR0 env (high OR (reg_get (opperand2 i) s AND 0xffff)) s)
   }"

text \<open>\<open>MOV r32, CRn\<close>: the register number 5 goes to \<open>rbx\<close>.\<close>

definition opcode_MOV0F20 :: "vm_state \<Rightarrow> instructiondata \<Rightarrow> rm_result" where
  "opcode_MOV0F20 s i = do {
     i \<leftarrow> handleMODRM s i;
     let dest = (if opperand2 i = 5 then 3 else opperand2 i);
     Some (if id_error i \<or> opperand2 i < 0 then (s, i, 1)
           else if opperand i = 0 then (reg_set dest (vmread vm_cr0_read_shadow s) s, i, 0)
           else if opperand i = 3 then (reg_set dest (guestCR3 s) s, i, 0)
           else if opperand i = 4 then (reg_set dest (vmread vm_cr4_read_shadow s) s, i, 0)
           else (s, i, 1))
   }"

definition opcode_MOV0F22 :: "vm_env \<Rightarrow> vm_state \<Rightarrow> instructiondata \<Rightarrow> rm_result" where
  "opcode_MOV0F22 env s i = do {
     i \<leftarrow> handleMODRM s i;
     let v = reg_get (opperand2 i) s;
     if id_error i \<or> opperand2 i < 0 then Some (s, i, 1)
     else if opperand i = 0 then map_option (\<lambda>(s, r). (s, i, r)) (setVM_CR0 env v s)
     else if opperand i = 3 then map_option (\<lambda>(s, r). (s, i, r)) (setVM_CR3 env v s)
     else if opperand i = 4 then Some (let (s, r) = setVM_CR4 env v s in (s, i, r))
     else Some (s, i, 1)
   }"

definition opcode_RDMSR0F32 :: "vm_env \<Rightarrow> vm_state \<Rightarrow> instructiondata \<Rightarrow> rm_result" where
  "opcode_RDMSR0F32 env s i =
     (let (s, v) = readMSRSafe (ucast (rcx s)) s in
      if LastInterrupt s \<noteq> 0 then interrupt_result env (unat (LastInterrupt s)) s i
      else Some (s\<lparr>rax := v AND 0xffffffff, rdx := drop_bit 32 v\<rparr>, i, 0))"

definition opcode_WRMSR0F30 :: "vm_env \<Rightarrow> vm_state \<Rightarrow> instructiondata \<Rightarrow> rm_result" where
  "opcode_WRMSR0F30 env s i =
     (let s = writeMSRSafe env (ucast (rcx s)) (push_bit 32 (rdx s) OR rax s) s in
      if LastInterrupt s \<noteq> 0 then interrupt_result env (unat (LastInterrupt s)) s i
      else Some (s, i, 0))"

text \<open>The base of the code segment is added to the return address, then cut to 16 bits.\<close>

definition opcode_RETC3 :: "vm_env \<Rightarrow> vm_state \<Rightarrow> instructiondata \<Rightarrow> rm_result" where
  "opcode_RETC3 env s i =
     (if opperandsize i then Some (s, i, 1)
      else do {
        stack \<leftarrow> map_ptr env s (vmread vm_guest_ss_base s + word16 (rsp s)) 2;
        let retaddress = load_le (pmem s) stack 2;
        let sp = word16 (rsp s + 2);
        let s = vmwrite vm_guest_rsp sp s;
        if sp \<le> 1 then interrupt_result env 12 s i
        else
          let retaddress = word16 (vmread vm_guest_cs_base s + retaddress)
          in Some (vmwrite vm_guest_rip (retaddress AND 0xffff) s, i, 2)
      })"

definition opcode_CLI :: "vm_state \<Rightarrow> vm_state" where
  "opcode_CLI s = vmwrite vm_guest_rflags (vmread vm_guest_rflags s AND NOT (push_bit 9 1)) s"

definition opcode_STI :: "vm_state \<Rightarrow> vm_state" where
  "opcode_STI s =
     (let flags = vmread vm_guest_rflags s;
          is = vmread vm_guest_interruptability_state s;
          s = (if \<not> bit flags 9 \<and> is AND 1 = 0
               then vmwrite vm_guest_interruptability_state (is OR 1) s else s)
      in vmwrite vm_guest_rflags (flags OR push_bit 9 1) s)"

definition opcode_CLD :: "vm_state \<Rightarrow> vm_state" where
  "opcode_CLD s = vmwrite vm_guest_rflags (vmread vm_guest_rflags s AND NOT (push_bit 10 1)) s"

section \<open>The handlers: moves, stack and arithmetic\<close>

definition opcode_MOV8B :: "vm_env \<Rightarrow> vm_state \<Rightarrow> instructiondata \<Rightarrow> rm_result" where
  "opcode_MOV8B env s i = do {
     i \<leftarrow> handleMODRM s i;
     if id_error i \<or> opperandsize i then Some (s, i, 1)
     else do {
       v \<leftarrow> (if opperand2 i = -1
             then map_option (\<lambda>p. load_le (pmem s) p 2) (map_ptr env s (id_address i) 2)
             else Some (reg_get (opperand2 i) s AND 0xffff));
       Some (reg_put16 (opperand i) v s, i, 0)
     }
   }"

definition opcode_MOV8E :: "vm_env \<Rightarrow> vm_state \<Rightarrow> instructiondata \<Rightarrow> rm_result" where
  "opcode_MOV8E env s i = do {
     i \<leftarrow> handleMODRM s i;
     if id_error i then Some (s, i, 1)
     else if opperand i = 1 then interrupt_result env 6 s i
     else do {
       v \<leftarrow> (if opperand2 i = -1
             then map_option (\<lambda>p. load_le (pmem s) p 2) (map_ptr env s (id_address i) 2)
             else Some (getOpperandValue s (opperand2 i) Register16Bit));
       Some (setSegment (nat (opperand i)) v s, i, 0)
     }
   }"

text \<open>
  \<open>moves\<close> is an \<open>int\<close>; a negative count or a byte count that does not fit one leaves defined
  C and is \<open>None\<close> here. Both mappings are held at the same time, so the second one finds the
  window without the pages of the first.
\<close>

definition opcode_MOVSA5 :: "vm_env \<Rightarrow> vm_state \<Rightarrow> instructiondata \<Rightarrow> rm_result" where
  "opcode_MOVSA5 env s i =
     (let moves = (if rep i then sint (ucast (rcx s) :: u32) else 1);
          bytespermove = (if opperandsize i then 4 else 2);
          n = nat (bytespermove * moves);
          len = of_nat n :: u64
      in if moves = 0 then Some (s, i, 0)
         else if \<not> addresssize i then Some (s, i, 1)
         else if rdi s < vmmstart env then
           (if moves < 0 \<or> bytespermove * moves \<ge> 2 ^ 31 then None
            else
              let back = (if bit (vmread vm_guest_rflags s) 10 then len - of_int bytespermove else 0);
                  d = rdi s - back
              in do {
                destination \<leftarrow> map_ptr env s d n;
                source \<leftarrow> map_ptr (env\<lparr>map_window := map_window env - page_count d n\<rparr>) s (rsi s - back) n;
                let s = s\<lparr>pmem := copymem (pmem s) destination source n\<rparr>;
                Some (if bit (vmread vm_guest_rflags s) 10
                      then s\<lparr>rsi := rsi s - len, rdi := rdi s - len, rcx := 0\<rparr>
                      else s\<lparr>rdi := rdi s + len, rsi := rsi s + len, rcx := 0\<rparr>, i, 0)
              })
         else Some (s\<lparr>rsi := rsi s + rcx s * of_int bytespermove,
                      rdi := rdi s + rcx s * of_int bytespermove, rcx := 0\<rparr>, i, 0))"

text \<open>Number 7 (\<open>bh\<close>) is written to \<open>rdx\<close>, from the upper bits of \<open>rbx\<close>.\<close>

definition opcode_MOVB0toB7 :: "vm_env \<Rightarrow> vm_state \<Rightarrow> instructiondata \<Rightarrow> int \<Rightarrow> rm_result" where
  "opcode_MOVB0toB7 env s i k =
     (if lock i then interrupt_result env 6 s i
      else do {
        v \<leftarrow> fetch i (id_size i) 1;
        let s = (if k \<le> 3 then reg_put8 k v s
                 else if k \<le> 6 then reg_put8h (k - 4) (push_bit 8 v) s
                 else s\<lparr>rdx := (rbx s AND 0xffffffffffff00ff) + push_bit 8 v\<rparr>);
        Some (s, skip 1 i, 0)
      })"

definition opcode_MOVB8toBF :: "vm_env \<Rightarrow> vm_state \<Rightarrow> instructiondata \<Rightarrow> int \<Rightarrow> rm_result" where
  "opcode_MOVB8toBF env s i k =
     (if lock i then interrupt_result env 6 s i
      else if \<not> opperandsize i then do {
        v \<leftarrow> fetch i (id_size i) 2;
        Some (reg_put16 k v s, skip 2 i, 0)
      }
      else do {
        v \<leftarrow> fetch i (id_size i) 4;
        Some (reg_put32 k v s, skip 4 i, 0)
      })"

text \<open>Number 4 (\<open>ah\<close>) clears \<open>ah\<close> and adds the value to \<open>al\<close>.\<close>

definition opcode_MOVC6 :: "vm_env \<Rightarrow> vm_state \<Rightarrow> instructiondata \<Rightarrow> rm_result" where
  "opcode_MOVC6 env s i = do {
     i \<leftarrow> handleMODRM s i;
     if id_error i then Some (s, i, 1)
     else if opperand2 i = -1 then
       (case mapVMmemory env s (id_address i) 16 of
          Inl _ \<Rightarrow> Some (s, i, 1)
        | Inr p \<Rightarrow> do {
            v \<leftarrow> fetch i (id_size i) 1;
            Some (s\<lparr>pmem := store_le (pmem s) p 1 v\<rparr>, skip 1 i, 0)
          })
     else do {
       v \<leftarrow> fetch i (id_size i) 1;
       let k = opperand2 i;
       Some (if k \<le> 3 then reg_put8 k v s
             else if k = 4 then reg_put8h 0 v s
             else reg_put8h (k - 4) (push_bit 8 v) s, skip 1 i, 0)
     }
   }"

definition opcode_MOVC7 :: "vm_env \<Rightarrow> vm_state \<Rightarrow> instructiondata \<Rightarrow> rm_result" where
  "opcode_MOVC7 env s i = do {
     i \<leftarrow> handleMODRM s i;
     let n = (if opperandsize i then 4 else 2);
     if id_error i then Some (s, i, 1)
     else if opperand2 i = -1 then
       (case mapVMmemory env s (id_address i) 16 of
          Inl _ \<Rightarrow> Some (s, i, 1)
        | Inr p \<Rightarrow> do {
            v \<leftarrow> fetch i (id_size i) n;
            Some (s\<lparr>pmem := store_le (pmem s) p n v\<rparr>, skip n i, 0)
          })
     else do {
       v \<leftarrow> fetch i (id_size i) n;
       Some (if opperandsize i then reg_put32 (opperand2 i) v s else reg_put16 (opperand2 i) v s,
             skip n i, 0)
     }
   }"

definition opcode_POP58to5F :: "vm_env \<Rightarrow> vm_state \<Rightarrow> instructiondata \<Rightarrow> int \<Rightarrow> rm_result" where
  "opcode_POP58to5F env s i k =
     (let n = (if opperandsize i then 4 else 2) in do {
        stack \<leftarrow> map_ptr env s (vmread vm_guest_ss_base s + word16 (rsp s)) n;
        let v = load_le (pmem s) stack n;
        let s = (if opperandsize i then reg_put32 k v s else reg_put16 k v s);
        Some (vmwrite vm_guest_rsp ((rsp s AND 0xffffffffffff0000) + word16 (rsp s + of_nat n)) s, i, 0)
      })"

definition opcode_POPSegment :: "vm_env \<Rightarrow> vm_state \<Rightarrow> instructiondata \<Rightarrow> nat \<Rightarrow> rm_result" where
  "opcode_POPSegment env s i segment = do {
     p \<leftarrow> map_ptr env s (vmread vm_guest_ss_base s + rsp s) 2;
     let v = load_le (pmem s) p 2;
     let s = vmwrite vm_guest_rsp (word16 (rsp s + (if opperandsize i then 4 else 2))) s;
     Some (setSegment segment v s, i, 0)
   }"

definition opcode_PUSH50to57 :: "vm_env \<Rightarrow> vm_state \<Rightarrow> instructiondata \<Rightarrow> int \<Rightarrow> rm_result" where
  "opcode_PUSH50to57 env s i k =
     (let n = (if opperandsize i then 4 else 2);
          s = vmwrite vm_guest_rsp ((rsp s AND 0xffffffffffff0000) + word16 (rsp s - of_nat n)) s
      in do {
        stack \<leftarrow> map_ptr env s (vmread vm_guest_ss_base s + word16 (rsp s)) n;
        let v = (if k = 4 then rsp s + of_nat n else reg_get k s);
        Some (s\<lparr>pmem := store_le (pmem s) stack n v\<rparr>, i, 0)
      })"

definition opcode_PUSHSegment :: "vm_env \<Rightarrow> vm_state \<Rightarrow> instructiondata \<Rightarrow> nat \<Rightarrow> rm_result" where
  "opcode_PUSHSegment env s i segment =
     (let n = (if opperandsize i then 4 else 2);
          v = word16 (vmread (vm_guest_es + 2 * segment) s);
          sp = word16 (rsp s - of_nat n)
      in do {
        stack \<leftarrow> map_ptr env s (vmread vm_guest_ss_base s + sp) n;
        let s = s\<lparr>pmem := store_le (pmem s) stack n v\<rparr>;
        Some (vmwrite vm_guest_rsp sp s, i, 0)
      })"

definition opcode_PUSH68 :: "vm_env \<Rightarrow> vm_state \<Rightarrow> instructiondata \<Rightarrow> rm_result" where
  "opcode_PUSH68 env s i =
     (let n = (if opperandsize i then 4 else 2);
          sp = word16 (rsp s - of_nat n)
      in do {
        stack \<leftarrow> map_ptr env s (vmread vm_guest_ss_base s + sp) n;
        v \<leftarrow> fetch i (id_size i) n;
        let s = s\<lparr>pmem := store_le (pmem s) stack n v\<rparr>;
        Some (vmwrite vm_guest_rsp sp s, skip n i, 0)
      })"

definition set_flag :: "nat \<Rightarrow> bool \<Rightarrow> u64 \<Rightarrow> u64" where
  "set_flag n b flags = (if b then set_bit n flags else unset_bit n flags)"

definition xor_flags :: "u64 \<Rightarrow> u64 \<Rightarrow> u64" where
  "xor_flags result flags =
     (let flags = set_flag 11 False flags;
          flags = set_flag 0 False flags;
          flags = set_flag 7 False flags;
          flags = set_flag 6 (result = 0) flags
      in set_flag 2 (getparityflag result) flags)"

definition opcode_XOR31 :: "vm_env \<Rightarrow> vm_state \<Rightarrow> instructiondata \<Rightarrow> rm_result" where
  "opcode_XOR31 env s i = do {
     i \<leftarrow> handleMODRM s i;
     let flags = vmread vm_guest_rflags s;
     let n = (if opperandsize i then 4 else 2);
     let v = getOpperandValue s (opperand i) (if opperandsize i then Register32Bit else Register16Bit);
     if id_error i then Some (s, i, 1)
     else if opperand2 i = -1 then
       (case mapVMmemory env s (id_address i) 16 of
          Inl _ \<Rightarrow> Some (s, i, 1)
        | Inr p \<Rightarrow>
            let result = take_bit 32 (load_le (pmem s) p n XOR v);
                s = s\<lparr>pmem := store_le (pmem s) p n result\<rparr>
            in Some (vmwrite vm_guest_rflags (xor_flags result flags) s, i, 0))
     else
       let result = take_bit 32 (reg_get (opperand2 i) s XOR v);
           s = (if opperandsize i then reg_put32 (opperand2 i) result s
                else reg_put16 (opperand2 i) (word16 result) s);
           result = (if opperandsize i then result else word16 result)
       in Some (vmwrite vm_guest_rflags (xor_flags result flags) s, i, 0)
   }"

section \<open>The dispatcher\<close>

definition prefix :: "vm_state \<Rightarrow> u8 \<Rightarrow> instructiondata \<Rightarrow> instructiondata option" where
  "prefix s b i =
     (if b = 0x26 then Some (i\<lparr>segmentbase := vmread vm_guest_es_base s\<rparr>)
      else if b = 0x2e then Some (i\<lparr>segmentbase := vmread vm_guest_cs_base s\<rparr>)
      else if b = 0x36 then Some (i\<lparr>segmentbase := vmread vm_guest_ss_base s\<rparr>)
      else if b = 0x3e then Some (i\<lparr>segmentbase := vmread vm_guest_ds_base s\<rparr>)
      else if b = 0x64 then Some (i\<lparr>segmentbase := vmread vm_guest_fs_base s\<rparr>)
      else if b = 0x65 then Some (i\<lparr>segmentbase := vmread vm_guest_gs_base s\<rparr>)
      else if b = 0x66 then Some (i\<lparr>opperandsize := True\<rparr>)
      else if b = 0x67 then Some (i\<lparr>addresssize := True\<rparr>)
      else if b = 0xf0 then Some (i\<lparr>lock := True\<rparr>)
      else if b = 0xf2 then Some (i\<lparr>repne := True\<rparr>)
      else if b = 0xf3 then Some (i\<lparr>rep := True\<rparr>)
      else None)"

text \<open>The position of the opcode: behind the prefixes, 30 when all bytes are prefixes.\<close>

fun skip_prefixes :: "vm_state \<Rightarrow> u8 list \<Rightarrow> instructiondata \<Rightarrow> instructiondata \<times> nat" where
  "skip_prefixes s [] i = (i, 0)"
| "skip_prefixes s (b # bs) i =
     (case prefix s b i of
        None \<Rightarrow> (i, 0)
      | Some i' \<Rightarrow> (let (j, n) = skip_prefixes s bs i' in (j, Suc n)))"

definition extended_opcode :: "vm_env \<Rightarrow> vm_state \<Rightarrow> instructiondata \<Rightarrow> nat \<Rightarrow> rm_result" where
  "extended_opcode env s i b =
     (if b = 0x01 then do {
        k \<leftarrow> getOpperand i;
        if k = 2 then opcode_LGDT env s i
        else if k = 3 then opcode_LIDT env s i
        else if k = 6 then opcode_LMSW env s i
        else Some (s, i, 1)
      }
      else if b = 0x09 then Some (s, i, 0)
      else if b = 0x20 then opcode_MOV0F20 s i
      else if b = 0x22 then opcode_MOV0F22 env s i
      else if b = 0x30 then opcode_WRMSR0F30 env s i
      else if b = 0x32 then opcode_RDMSR0F32 env s i
      else if b = 0xa0 then opcode_PUSHSegment env s i 4
      else if b = 0xa1 then opcode_POPSegment env s i 4
      else if b = 0xa8 then opcode_PUSHSegment env s i 5
      else if b = 0xa9 then opcode_POPSegment env s i 5
      else Some (s, i, 1))"

definition opcode :: "vm_env \<Rightarrow> vm_state \<Rightarrow> instructiondata \<Rightarrow> nat \<Rightarrow> rm_result" where
  "opcode env s i b =
     (if b = 0x0f then do {
        e \<leftarrow> fetch i (id_size i) 1;
        extended_opcode env s (skip 1 i) (unat e)
      }
      else if b = 0x06 then opcode_PUSHSegment env s i 0
      else if b = 0x07 then opcode_POPSegment env s i 0
      else if b = 0x0e then opcode_PUSHSegment env s i 1
      else if b = 0x16 then opcode_PUSHSegment env s i 2
      else if b = 0x17 then opcode_POPSegment env s i 2
      else if b = 0x1e then opcode_PUSHSegment env s i 3
      else if b = 0x1f then opcode_POPSegment env s i 3
      else if b = 0x31 then opcode_XOR31 env s i
      else if 0x50 \<le> b \<and> b \<le> 0x57 then opcode_PUSH50to57 env s i (int b - 0x50)
      else if 0x58 \<le> b \<and> b \<le> 0x5f then opcode_POP58to5F env s i (int b - 0x58)
      else if b = 0x68 then opcode_PUSH68 env s i
      else if b = 0x8b then opcode_MOV8B env s i
      else if b = 0x8e then opcode_MOV8E env s i
      else if b = 0x90 then Some (s, i, 0)
      else if b = 0xa5 then opcode_MOVSA5 env s i
      else if 0xb0 \<le> b \<and> b \<le> 0xb7 then opcode_MOVB0toB7 env s i (int b - 0xb0)
      else if 0xb8 \<le> b \<and> b \<le> 0xbf then opcode_MOVB8toBF env s i (int b - 0xb8)
      else if b = 0xc3 then opcode_RETC3 env s i
      else if b = 0xc6 then do {
        k \<leftarrow> getOpperand i;
        if k = 0 then opcode_MOVC6 env s i else Some (s, i, 1)
      }
      else if b = 0xc7 then do {
        k \<leftarrow> getOpperand i;
        if k = 0 then opcode_MOVC7 env s i else Some (s, i, 1)
      }
      else if b = 0xcd then opcode_INTCD env s i
      else if b = 0xe8 then opcode_CALLE8 env s i
      else if b = 0xe9 then opcode_JMPE9 s i
      else if b = 0xea then opcode_JMPEA s i
      else if b = 0xeb then opcode_JMPEB s i
      else if b = 0xf4 then opcode_HLTF4 env s i
      else if b = 0xfa then Some (opcode_CLI s, i, 0)
      else if b = 0xfb then Some (opcode_STI s, i, 0)
      else if b = 0xfc then Some (opcode_CLD s, i, 0)
      else Some (s, i, 1))"

definition emulateRMinstruction2 :: "vm_env \<Rightarrow> vm_state \<Rightarrow> instructiondata \<Rightarrow> rm_result" where
  "emulateRMinstruction2 env s i =
     (let buf = ReadVMMemory env s (vmread vm_guest_cs_base s + vmread vm_guest_rip s) 30 in
      if buf = [] then Some (s, i, 1)
      else
        let (i, n) = skip_prefixes s buf (i\<lparr>segmentbase := vmread vm_guest_ds_base s\<rparr>);
            i = i\<lparr>instruction := buf, id_size := n + 1\<rparr>
        in do {
          b \<leftarrow> fetch i n 1;
          opcode env s i (unat b)
        })"

definition new_instructiondata :: instructiondata where
  "new_instructiondata =
     \<lparr>id_error = False, opperandsize = False, addresssize = False, rep = False, repne = False,
      lock = False, segmentbase = 0, id_address = 0, instruction = [], opperand = 0,
      opperand2 = -1, id_size = 0\<rparr>"

definition emulateRMinstruction :: "vm_env \<Rightarrow> vm_state \<Rightarrow> (vm_state \<times> bool) option" where
  "emulateRMinstruction env s = do {
     let old = vmread vm_guest_interruptability_state s;
     (s, i, result) \<leftarrow> emulateRMinstruction2 env s new_instructiondata;
     let s = (if result = 0
              then vmwrite vm_guest_rip (vmread vm_guest_rip s + of_nat (id_size i)) s else s);
     if result = 0 \<or> result = 2
     then Some (vmwrite vm_guest_interruptability_state
                  (NOT (old AND 3) AND vmread vm_guest_interruptability_state s) s, True)
     else Some (s, False)
   }"

text \<open>
  The loop runs until the guest has left real mode or an instruction is not handled; it may
  run for ever, which is \<open>None\<close> like a fault of the hypervisor.
\<close>

partial_function (option) emulate_loop ::
  "vm_env \<Rightarrow> vm_state \<Rightarrow> bool \<Rightarrow> bool \<Rightarrow> (vm_state \<times> bool) option" where
  "emulate_loop env s result success =
     (if ISREALMODE env s \<and> result then
        (if ReadVMMemory env s (vmread vm_guest_cs_base s + vmread vm_guest_rip s) 30 = []
         then Some (s, False)
         else case emulateRMinstruction env s of
            None \<Rightarrow> None
          | Some (s, r) \<Rightarrow>
              if r then
                (case testRMinterrupt env s of
                   None \<Rightarrow> None
                 | Some s \<Rightarrow> emulate_loop env s True True)
              else emulate_loop env s False success)
      else Some (s, success))"

definition emulateRealMode :: "vm_env \<Rightarrow> vm_state \<Rightarrow> (vm_state \<times> bool) option" where
  "emulateRealMode env s = emulate_loop env s True False"

end
