(* ===== verification/RealModeCorrect.thy ===== *)
theory RealModeCorrect
  imports RealMode
begin

text \<open>
  What the real-mode emulation of \<open>RealMode\<close> does right and where it departs from the
  processor: the stack, calls and returns, interrupts, flags, addressing and moves.
\<close>

section \<open>Mappings that survive a store\<close>

lemma map_frames_cong:
  "(\<And>x. getPhysicalAddressVM env s x = getPhysicalAddressVM env t x) \<Longrightarrow>
   map_frames env s a n = map_frames env t a n"
  by (induction n arbitrary: a) (simp_all split: option.splits sum.splits)

lemma map_ptr_cong:
  assumes "getPhysicalAddressVM env t = getPhysicalAddressVM env s"
  shows "map_ptr env t a n = map_ptr env s a n"
proof -
  have "map_frames env t = map_frames env s"
    using assms by (intro ext map_frames_cong) simp
  then show ?thesis by (simp add: map_ptr_def mapVMmemory_def Let_def)
qed

lemma map_ptr_inj: "map_ptr env s a n = Some p \<Longrightarrow> n \<le> 4096 \<Longrightarrow> inj_on p {..<n}"
  by (auto simp: map_ptr_def intro: mapVMmemory_inj split: sum.splits)

lemma map_ptr_load_store:
  "map_ptr env s a n = Some p \<Longrightarrow> n \<le> 4096 \<Longrightarrow> load_le (store_le m p n v) p n = take_bit (8 * n) v"
  by (rule load_store_le) (rule map_ptr_inj)

lemma word16_low: "word16 (push_bit 16 (drop_bit 16 x) + word16 v) = word16 v"
  by (rule low_bits_update) simp

lemma word16_word16_add: "word16 (word16 a + b) = word16 (a + b)"
  by (rule take_bit_add_left)

lemma high_low16: "push_bit 16 (drop_bit 16 x) + word16 x = (x :: u64)"
  by (rule bits_ident)

lemma push_bit_drop_low: "push_bit 16 (drop_bit 16 (push_bit 16 (drop_bit 16 x) + word16 v)) = push_bit 16 (drop_bit 16 x)"
  by (rule low_bits_update) simp

lemma reg_set_frame [simp]:
  "k \<noteq> 4 \<Longrightarrow> vmread f (reg_set k v s) = vmread f s"
  "pmem (reg_set k v s) = pmem s"
  "f \<noteq> vm_guest_rsp \<Longrightarrow> vmread f (reg_set k v s) = vmread f s"
  by (simp_all add: reg_set_def)

lemma reg_get_set:
  "0 \<le> k \<Longrightarrow> k \<le> 7 \<Longrightarrow> reg_get j (reg_set k v s) = (if j = k then v else reg_get j s)"
  by (auto simp: reg_get_def reg_set_def)

lemma reg_get_pmem [simp]: "reg_get k (s\<lparr>pmem := m\<rparr>) = reg_get k s"
  by (simp add: reg_get_def)

lemma reg_get_vmwrite: "k \<noteq> 4 \<or> f \<noteq> vm_guest_rsp \<Longrightarrow> reg_get k (vmwrite f v s) = reg_get k s"
  by (auto simp: reg_get_def)

lemma reg_get_rsp: "reg_get 4 s = rsp s"
  by (simp add: reg_get_def)

text \<open>Real mode on a processor that runs it: addresses are physical.\<close>

lemma flat_translate_env:
  "hasUnrestrictedSupport env \<Longrightarrow> vmread vm_guest_cr0 s AND 0x80000001 \<noteq> 0x80000001 \<Longrightarrow>
   getPhysicalAddressVM env s = Some"
  by (rule ext) (simp add: getPhysicalAddressVM_def guest_paged_def)

lemma flat_map_ptr_env:
  assumes flat: "hasUnrestrictedSupport env" "vmread vm_guest_cr0 s AND 0x80000001 \<noteq> 0x80000001"
    and "0 < n" and "n \<le> 4096" and "2 \<le> map_window env"
  shows "\<exists>p. map_ptr env s a n = Some p \<and> (\<forall>i<n. p i = a + of_nat i)"
proof -
  obtain p where p: "mapVMmemory env s a n = Inr p"
    using mapVMmemory_present [of env s n a] page_count_small [OF assms(4), of a] assms(3-5)
    by (auto simp: flat_translate_env [OF flat])
  show ?thesis
    using mapVMmemory_Inr [OF p] by (simp add: map_ptr_def p flat_translate_env [OF flat])
qed

lemma blank_env_sel [simp]:
  "hasUnrestrictedSupport (blank_env b) = b" "map_window (blank_env b) = 1024" "vmmstart (blank_env b) = 0x1000000"
  by (simp_all add: blank_env_def)

lemmas flat_translate = flat_translate_env [of "blank_env True", simplified blank_env_sel, OF TrueI]
lemmas flat_map_ptr = flat_map_ptr_env [of "blank_env True", simplified blank_env_sel, OF TrueI]

section \<open>The stack\<close>

definition rsp_down16 :: "vm_state \<Rightarrow> vm_state" where
  "rsp_down16 s = vmwrite vm_guest_rsp ((rsp s AND 0xffffffffffff0000) + word16 (rsp s - 2)) s"

lemma push16_eq:
  "\<not> opperandsize i \<Longrightarrow> opcode_PUSH50to57 env s i k =
   map_option (\<lambda>p. ((rsp_down16 s)\<lparr>pmem := store_le (pmem s) p 2
       (if k = 4 then rsp (rsp_down16 s) + 2 else reg_get k (rsp_down16 s))\<rparr>, i, 0))
     (map_ptr env (rsp_down16 s) (vmread vm_guest_ss_base s + word16 (rsp (rsp_down16 s))) 2)"
  by (cases "map_ptr env (rsp_down16 s) (vmread vm_guest_ss_base s + word16 (rsp (rsp_down16 s))) 2")
     (auto simp: opcode_PUSH50to57_def rsp_down16_def Let_def)

text \<open>
  A register pushed with \<open>PUSH r16\<close> and popped with \<open>POP r16\<close> arrives: the popped register
  has the 16 bits of the pushed one (the old stack pointer for \<open>PUSH SP\<close>), keeps its own upper
  bits, and the stack pointer is back where it was, also when it wraps around in its segment.
\<close>

theorem PUSH_POP_roundtrip:
  assumes push: "opcode_PUSH50to57 env s i k = Some (t, j, r)" and "\<not> opperandsize i"
    and k: "0 \<le> k" "k \<le> 7" "0 \<le> k'" "k' \<le> 7" "k' \<noteq> 4"
    and stable: "getPhysicalAddressVM env t = getPhysicalAddressVM env s"
  shows "\<exists>u. opcode_POP58to5F env t i k' = Some (u, i, 0) \<and>
    reg_get k' u = (reg_get k' s AND 0xffffffffffff0000) + word16 (reg_get k s) \<and>
    vmread vm_guest_rsp u = vmread vm_guest_rsp s"
proof -
  define s1 where "s1 = rsp_down16 s"
  let ?a = "vmread vm_guest_ss_base s + word16 (rsp s - 2)"
  have rsp1: "rsp s1 = push_bit 16 (drop_bit 16 (rsp s)) + word16 (rsp s - 2)"
    by (simp add: s1_def rsp_down16_def mask_simps)
  have s1: "word16 (rsp s1) = word16 (rsp s - 2)" "vmread vm_guest_ss_base s1 = vmread vm_guest_ss_base s"
    by (simp_all add: rsp1 word16_low) (simp add: s1_def rsp_down16_def)
  have pm: "pmem s1 = pmem s" by (simp add: s1_def rsp_down16_def)
  define v where "v = (if k = 4 then rsp s1 + 2 else reg_get k s1)"
  obtain p where p: "map_ptr env s1 ?a 2 = Some p" and t: "t = s1\<lparr>pmem := store_le (pmem s1) p 2 v\<rparr>"
    using push unfolding push16_eq [OF assms(2)] s1_def [symmetric] s1 v_def pm by auto
  have v: "word16 v = word16 (reg_get k s)"
  proof (cases "k = 4")
    case True
    have "word16 (rsp s1 + 2) = word16 (word16 (rsp s - 2) + 2)"
      by (simp add: s1(1) [symmetric] word16_word16_add)
    then show ?thesis using True by (simp add: v_def reg_get_rsp word16_word16_add)
  next
    case False
    then show ?thesis by (simp add: v_def s1_def rsp_down16_def reg_get_vmwrite)
  qed
  have "getPhysicalAddressVM env s1 = getPhysicalAddressVM env s"
    by (rule translate_cong) (auto simp: s1_def rsp_down16_def)
  then have pt: "map_ptr env t ?a 2 = Some p"
    using p map_ptr_cong [of env t s1] stable by simp
  have ld: "load_le (pmem t) p 2 = word16 (reg_get k s)"
    using map_ptr_load_store [OF p, of "pmem s1" v] v by (simp add: t)
  have rt: "rsp t = rsp s1" "vmread vm_guest_ss_base t = vmread vm_guest_ss_base s" "reg_get k' t = reg_get k' s"
    using k by (simp_all add: t s1) (simp add: s1_def rsp_down16_def reg_get_vmwrite)
  define u1 where "u1 = reg_put16 k' (word16 (reg_get k s)) t"
  define u where "u = vmwrite vm_guest_rsp ((rsp u1 AND 0xffffffffffff0000) + word16 (rsp u1 + 2)) u1"
  have "rsp u1 = rsp s1" using k by (simp add: u1_def reg_put16_def rt)
  then have "rsp u = push_bit 16 (drop_bit 16 (rsp s)) + word16 (word16 (rsp s1) + 2)"
    by (simp add: u_def mask_simps word16_word16_add) (simp add: rsp1 push_bit_drop_low)
  then have "rsp u = rsp s"
    by (simp add: s1 word16_word16_add high_low16)
  moreover have "reg_get k' u = (reg_get k' s AND 0xffffffffffff0000) + word16 (reg_get k s)"
    using k by (simp add: u_def u1_def reg_get_vmwrite reg_put16_def reg_get_set rt)
  moreover have "opcode_POP58to5F env t i k' = Some (u, i, 0)"
    using assms(2) pt ld by (simp add: opcode_POP58to5F_def Let_def rt s1 u1_def [symmetric] u_def)
  ultimately show ?thesis by blast
qed

lemma PUSH_POP_roundtrip_witness:
  defines "s \<equiv> vmwrite vm_guest_rsp 1 (blank_state\<lparr>rax := 0x1234, rbx := 0x50000\<rparr>)"
  shows "\<exists>t j r u. opcode_PUSH50to57 (blank_env True) s new_instructiondata 0 = Some (t, j, r) \<and>
    opcode_POP58to5F (blank_env True) t new_instructiondata 3 = Some (u, new_instructiondata, 0) \<and>
    rbx u = 0x51234 \<and> rsp u = 1"
proof -
  let ?e = "blank_env True"
  have cr0: "vmread vm_guest_cr0 s = 0" "vmread vm_guest_cr0 (rsp_down16 s) = 0"
    by (simp_all add: s_def rsp_down16_def blank_state_def vmread_def vmwrite_def)
  obtain p where "map_ptr ?e (rsp_down16 s) (vmread vm_guest_ss_base s + word16 (rsp (rsp_down16 s))) 2 = Some p"
    using flat_map_ptr [of "rsp_down16 s" 2] cr0(2) by fastforce
  then obtain t where t: "opcode_PUSH50to57 ?e s new_instructiondata 0 = Some (t, new_instructiondata, 0)"
    and cr0t: "vmread vm_guest_cr0 t = 0"
    using cr0 by (auto simp: push16_eq new_instructiondata_def)
  have "getPhysicalAddressVM ?e t = getPhysicalAddressVM ?e s"
    using cr0 cr0t by (simp add: flat_translate)
  then obtain u where "opcode_POP58to5F ?e t new_instructiondata 3 = Some (u, new_instructiondata, 0)"
    "reg_get 3 u = (reg_get 3 s AND 0xffffffffffff0000) + word16 (reg_get 0 s)" "rsp u = rsp s"
    using PUSH_POP_roundtrip [OF t, of 3] by (auto simp: new_instructiondata_def)
  then show ?thesis
    using t by (auto simp: s_def reg_get_def take_bit_eq_mask mask_eq_exp_minus_1)
qed

lemma word16_small: "unat x < 65536 \<Longrightarrow> word16 x = x" for x :: u64
  by (simp add: word_eq_iff_unsigned [where ?'a = nat] unsigned_take_bit_eq take_bit_nat_eq_self)

lemma word16_minus_2:
  assumes "2 \<le> word16 (x :: u64)"
  shows "word16 (x - 2) = word16 x - 2"
proof -
  have "unat (word16 x) < 65536" using unat_take_bit_less [of 16 x] by simp
  then have "unat (word16 x - 2) < 65536" using assms by (simp add: unat_sub)
  then show ?thesis
    using word16_word16_add [of x "-2"] by (simp add: word16_small)
qed

lemma word16_cancel: "word16 (c + x) = word16 x \<longleftrightarrow> word16 c = 0" for c x :: u64
proof
  assume "word16 (c + x) = word16 x"
  then have "word16 (word16 (c + x) + (- x)) = word16 (word16 x + (- x))" by simp
  then show "word16 c = 0" by (simp only: word16_word16_add) simp
next
  assume "word16 c = 0"
  then show "word16 (c + x) = word16 x" using word16_word16_add [of c x] by simp
qed

lemma and_push_drop: "x AND push_bit n y = push_bit n (drop_bit n x) AND push_bit n y" for x y :: u64
  by (rule bit_eqI) (auto simp: bit_and_iff bit_push_bit_iff bit_drop_bit_eq)

lemma word16_mask32: "word16 ((x AND 0xffff0000) + word16 y) = word16 (y :: u64)"
proof -
  have "0xffff0000 = push_bit 16 (0xffff :: u64)" by simp
  then have "x AND 0xffff0000 = push_bit 16 (drop_bit 16 x AND 0xffff)"
    using and_push_drop [of x 16 "0xffff"] by (simp only: push_bit_and)
  then show ?thesis by (simp only:) (rule take_bit_push_add, simp)
qed

lemma CALLE8_Some:
  assumes "opcode_CALLE8 env s i = Some (t, j, r)" and n: "\<not> opperandsize i"
  shows "\<exists>p offset. map_ptr env s (vmread vm_guest_ss_base s + word16 (rsp s) - 2) 2 = Some p \<and>
    fetch i (id_size i) 2 = Some offset \<and>
    t = vmwrite vm_guest_rip (word16 (vmread vm_guest_rip s + of_nat (id_size i + 2) + offset))
          (vmwrite vm_guest_rsp ((rsp s AND 0xffff0000) + word16 (rsp s - 2))
            (s\<lparr>pmem := store_le (pmem s) p 2 (vmread vm_guest_rip s + of_nat (id_size i + 2))\<rparr>)) \<and>
    j = i\<lparr>id_size := 0\<rparr> \<and> r = 2"
proof -
  obtain p where p: "map_ptr env s (vmread vm_guest_ss_base s + word16 (rsp s) - 2) 2 = Some p"
    using assms n unfolding opcode_CALLE8_def by (cases "map_ptr env s (vmread vm_guest_ss_base s + word16 (rsp s) - 2) 2") simp_all
  obtain offset where o: "fetch i (id_size i) 2 = Some offset"
    using assms n p unfolding opcode_CALLE8_def by (cases "fetch i (id_size i) 2") simp_all
  show ?thesis
    using assms n by (simp add: opcode_CALLE8_def p o skip_def Let_def)
qed

text \<open>
  C38: A near call and the return that ends the called routine. The call pushes the address
  of the next instruction and jumps, and the return restores the stack pointer (its upper bits
  are lost) and jumps to the pushed address \<open>plus the base of the code segment\<close>: it comes back
  behind the call only if the lowest 16 bits of that base are 0.
\<close>

theorem CALL_RET_roundtrip:
  assumes call: "opcode_CALLE8 env s i = Some (t, j, r)" and sp: "2 \<le> word16 (rsp s)"
    and stable: "getPhysicalAddressVM env t = getPhysicalAddressVM env s"
    and "\<not> opperandsize i'" and "\<not> opperandsize i"
  shows "\<exists>u offset. fetch i (id_size i) 2 = Some offset \<and>
    vmread vm_guest_rip t = word16 (vmread vm_guest_rip s + of_nat (id_size i + 2) + offset) \<and>
    opcode_RETC3 env t i' = Some (u, i', 2) \<and> rsp u = word16 (rsp s) \<and>
    vmread vm_guest_rip u = word16 (vmread vm_guest_cs_base s + (vmread vm_guest_rip s + of_nat (id_size i + 2))) \<and>
    (vmread vm_guest_rip u = word16 (vmread vm_guest_rip s + of_nat (id_size i + 2)) \<longleftrightarrow>
     word16 (vmread vm_guest_cs_base s) = 0)"
proof -
  let ?ret = "vmread vm_guest_rip s + of_nat (id_size i + 2)"
  obtain p offset where p: "map_ptr env s (vmread vm_guest_ss_base s + word16 (rsp s) - 2) 2 = Some p"
    and off: "fetch i (id_size i) 2 = Some offset"
    and t: "t = vmwrite vm_guest_rip (word16 (?ret + offset))
              (vmwrite vm_guest_rsp ((rsp s AND 0xffff0000) + word16 (rsp s - 2))
                (s\<lparr>pmem := store_le (pmem s) p 2 ?ret\<rparr>))"
    using CALLE8_Some [OF call assms(5)] by (auto simp: add.assoc)
  have pm: "pmem t = store_le (pmem s) p 2 ?ret" by (simp add: t)
  have rsp_t: "word16 (rsp t) = word16 (rsp s) - 2"
    using word16_mask32 [of "rsp s" "rsp s - 2"] word16_minus_2 [OF sp] by (simp add: t)
  have "map_ptr env t (vmread vm_guest_ss_base t + word16 (rsp t)) 2 = Some p"
    using p by (simp add: map_ptr_cong [OF stable] rsp_t add_diff_eq) (simp add: t)
  moreover have "load_le (pmem t) p 2 = word16 ?ret"
    unfolding pm using map_ptr_load_store [OF p] by simp
  moreover have "word16 (rsp t + 2) = word16 (rsp s)"
    using word16_word16_add [of "rsp t" 2] by (simp add: rsp_t)
  moreover have "\<not> word16 (rsp s) \<le> 1" using sp by (auto simp: word_le_nat_alt)
  moreover have "vmread vm_guest_cs_base t = vmread vm_guest_cs_base s" by (simp add: t)
  ultimately have "\<exists>u. opcode_RETC3 env t i' = Some (u, i', 2) \<and> rsp u = word16 (rsp s) \<and>
      vmread vm_guest_rip u = word16 (vmread vm_guest_cs_base s + ?ret)"
    using assms(4) word16_word16_add [of ?ret "vmread vm_guest_cs_base s"]
    by (simp add: opcode_RETC3_def Let_def mask_simps add.commute)
  moreover have "vmread vm_guest_rip t = word16 (?ret + offset)" by (simp add: t)
  ultimately show ?thesis using off word16_cancel [of "vmread vm_guest_cs_base s" ?ret] by fastforce
qed

lemma CALL_RET_roundtrip_witness:
  defines "s \<equiv> vmwrite vm_guest_cs_base 0x10 (vmwrite vm_guest_rsp 0x100 blank_state)"
    and "i \<equiv> new_instructiondata\<lparr>instruction := [0xe8, 5, 0], id_size := 1\<rparr>"
  shows "\<exists>t j r u. opcode_CALLE8 (blank_env True) s i = Some (t, j, r) \<and> vmread vm_guest_rip t = 8 \<and>
    opcode_RETC3 (blank_env True) t i = Some (u, i, 2) \<and> vmread vm_guest_rip u = 0x13"
proof -
  let ?e = "blank_env True"
  have s: "vmread vm_guest_cr0 s = 0" "rsp s = 0x100" "vmread vm_guest_rip s = 0" "vmread vm_guest_cs_base s = 0x10"
    and i: "\<not> opperandsize i" "id_size i = 1" and f: "fetch i 1 2 = Some 5"
    by (simp_all add: s_def i_def blank_state_def new_instructiondata_def fetch_def) (simp_all add: vmread_def)
  obtain p where p: "map_ptr ?e s (vmread vm_guest_ss_base s + word16 (rsp s) - 2) 2 = Some p"
    using flat_map_ptr [of s 2] s(1) by fastforce
  then obtain t where t: "opcode_CALLE8 ?e s i = Some (t, i\<lparr>id_size := 0\<rparr>, 2)" and "vmread vm_guest_cr0 t = 0"
    using s(1) f by (simp add: opcode_CALLE8_def i skip_def Let_def)
  then have stable: "getPhysicalAddressVM ?e t = getPhysicalAddressVM ?e s"
    using s(1) by (simp add: flat_translate)
  have "2 \<le> word16 (rsp s)" by (simp add: s take_bit_eq_mask mask_eq_exp_minus_1)
  from CALL_RET_roundtrip [OF t this stable i(1) i(1)] show ?thesis
    using t f by (auto simp: s i take_bit_eq_mask mask_eq_exp_minus_1)
qed

section \<open>Interrupts\<close>

text \<open>
  An emulated interrupt pushes the low 16 bits of the instruction pointer, the code
  segment and the flags (lowest address first), continues at the vector read from the table at
  \<open>RM_IDTBase\<close>, and clears TF, IF, RF and AC, keeping the other flags of the low 32 bits; the stack pointer
  is reduced by 6 in its segment.
\<close>

theorem emulateRMinterrupt_effect:
  assumes "emulateRMinterrupt env n s = Some t"
    and vector: "host_ptr env (RM_IDTBase s + 4 * of_nat n) 4 = Some vec"
    and stack: "host_ptr env (vmread vm_guest_ss_base s + word16 (rsp s - 6)) 6 = Some st"
    and inj: "inj_on st {..<6}"
  shows "load_le (pmem t) st 2 = word16 (vmread vm_guest_rip s) \<and>
    load_le (pmem t) (\<lambda>j. st (j + 2)) 2 = word16 (vmread vm_guest_cs s) \<and>
    load_le (pmem t) (\<lambda>j. st (j + 4)) 2 = word16 (vmread vm_guest_rflags s) \<and>
    vmread vm_guest_rip t = load_le (pmem s) vec 2 \<and>
    vmread vm_guest_cs t = load_le (pmem s) (\<lambda>j. vec (j + 2)) 2 \<and>
    vmread vm_guest_cs_base t = push_bit 4 (vmread vm_guest_cs t) \<and>
    rsp t = word16 (rsp s - 6) \<and>
    vmread vm_guest_rflags t = vmread vm_guest_rflags s AND 0xFFFAFCFF"
proof -
  let ?ip = "vmread vm_guest_rip s" and ?cs = "vmread vm_guest_cs s" and ?fl = "vmread vm_guest_rflags s"
  let ?st2 = "\<lambda>j. st (j + 2)" and ?st4 = "\<lambda>j. st (j + 4)"
  have st: "st i = st j \<longleftrightarrow> i = j" if "i < 6" "j < 6" for i j
    using inj that by (auto simp: inj_on_def)
  have inj2: "inj_on st {..<2}" "inj_on ?st2 {..<2}" "inj_on ?st4 {..<2}"
    by (auto intro!: inj_onI simp: st)
  define v where "v = load_le (pmem s) vec 4"
  have v: "word16 v = load_le (pmem s) vec 2" "drop_bit 16 v = load_le (pmem s) (\<lambda>j. vec (j + 2)) 2"
    unfolding v_def using take_bit_load_le [of 2 4 "pmem s" vec] drop_bit_load_le [of 2 4 "pmem s" vec]
    by simp_all
  define m where "m = store_le (store_le (store_le (pmem s) st 2 ?ip) ?st2 2 ?cs) ?st4 2 ?fl"
  have m4: "load_le m ?st4 2 = word16 ?fl"
    unfolding m_def using load_store_le [OF inj2(3)] by simp
  have m2: "load_le m ?st2 2 = word16 ?cs"
    unfolding m_def using load_store_le [OF inj2(2)] by (simp add: load_store_le_other st)
  have m0: "load_le m st 2 = word16 ?ip"
    unfolding m_def using load_store_le [OF inj2(1)] by (simp add: load_store_le_other st)
  define fl where "fl = ?fl AND NOT (push_bit 9 1 OR push_bit 8 1 OR push_bit 18 1 OR push_bit 16 1)"
  have t: "t = vmwrite vm_guest_rflags (take_bit 32 fl) (vmwrite vm_guest_cs_base (push_bit 4 (drop_bit 16 v))
      (vmwrite vm_guest_cs (drop_bit 16 v) (vmwrite vm_guest_rip (word16 v)
        (vmwrite vm_guest_rsp (word16 (rsp s - 6)) (s\<lparr>pmem := m\<rparr>)))))"
    using assms(1) by (simp add: emulateRMinterrupt_def vector stack m_def v_def fl_def Let_def)
  have "take_bit 32 fl = ?fl AND take_bit 32 (NOT (push_bit 9 1 OR push_bit 8 1 OR push_bit 18 1 OR push_bit 16 1))"
    unfolding fl_def by (rule bit_eqI) (auto simp only: bit_take_bit_iff bit_and_iff)
  then have "take_bit 32 fl = ?fl AND 0xFFFAFCFF"
    by (simp add: take_bit_eq_mask mask_eq_exp_minus_1)
  moreover have "take_bit 16 (load_le (pmem s) (\<lambda>j. vec (j + 2)) 2) = load_le (pmem s) (\<lambda>j. vec (j + 2)) 2"
    using take_bit_load_le [of 2 2] by simp
  ultimately show ?thesis
    using m2 by (simp add: t m0 m4 v)
qed

lemma flat_host_ptr: "host_ptr (blank_env b) a n = Some (\<lambda>i. a + of_nat i)"
proof -
  have "(x AND 0xfffffffffffff000) + (x AND 0xfff) = x" for x :: u64
    using bits_ident [of 12 x] by (simp add: mask_simps)
  then show ?thesis by (simp add: host_ptr_def blank_env_def)
qed

text \<open>Interrupt 8 with the vector \<open>F000:1234\<close> at the physical address 0x20.\<close>

lemma emulateRMinterrupt_effect_witness:
  defines "s \<equiv> vmwrite vm_guest_rflags 0x202 (vmwrite vm_guest_rip 0x7C05 (vmwrite vm_guest_rsp 0x100
      (blank_state\<lparr>pmem := (\<lambda>_. 0)(0x20 := 0x34, 0x21 := 0x12, 0x23 := 0xF0)\<rparr>)))"
  shows "\<exists>t. emulateRMinterrupt (blank_env False) 8 s = Some t \<and> vmread vm_guest_rip t = 0x1234 \<and>
    vmread vm_guest_cs_base t = 0xF0000 \<and> rsp t = 0xFA \<and> vmread vm_guest_rflags t = 2 \<and>
    load_le (pmem t) (phys 0xFA) 2 = 0x7C05"
proof -
  have s: "rsp s = 0x100" "vmread vm_guest_rip s = 0x7C05" "vmread vm_guest_rflags s = 0x202"
    "vmread vm_guest_ss_base s = 0" "RM_IDTBase s = 0"
    by (simp_all add: s_def blank_state_def) (simp_all add: vmread_def)
  have pm: "pmem s = (\<lambda>_. 0)(0x20 := 0x34, 0x21 := 0x12, 0x23 := 0xF0)"
    by (simp add: s_def blank_state_def)
  have m: "load_le (pmem s) (\<lambda>i. 0x20 + of_nat i) 2 = 0x1234"
      "load_le (pmem s) (\<lambda>i. 0x20 + of_nat (i + 2)) 2 = 0xF000"
    unfolding pm by code_simp+
  have "\<exists>t. emulateRMinterrupt (blank_env False) 8 s = Some t"
    unfolding emulateRMinterrupt_def flat_host_ptr Let_def bind.bind_lunit by blast
  then obtain t where t: "emulateRMinterrupt (blank_env False) 8 s = Some t" ..
  show ?thesis
    using emulateRMinterrupt_effect [OF t flat_host_ptr flat_host_ptr inj_on_phys] t m
    by (simp add: s phys_def [abs_def] take_bit_eq_mask mask_eq_exp_minus_1)
qed

section \<open>Flags\<close>

text \<open>The number of binary digits, and the number of ones among them.\<close>

fun digits2 :: "nat \<Rightarrow> nat" where
  "digits2 v = (if v = 0 then 0 else Suc (digits2 (v div 2)))"

fun ones :: "nat \<Rightarrow> nat" where
  "ones v = (if v = 0 then 0 else v mod 2 + ones (v div 2))"

declare digits2.simps [simp del] ones.simps [simp del]

lemma parity_loop_eq: "parity_loop value v c = (if value mod 2 \<noteq> 0 then c + digits2 v else c)"
proof (induction "value" v c rule: parity_loop.induct)
  case (1 n v c)
  then show ?case
    by (cases "v = 0"; cases "even n")
       (simp_all add: parity_loop.simps [of n v c] parity_loop.simps [of n 0 c]
         digits2.simps [of v] digits2.simps [of 0] odd_iff_mod_2_eq_one)
qed

text \<open>
  The parity flag that the emulation computes is not the parity of the low byte: the loop
  tests the byte instead of the shifted copy, so it counts binary digits. The flag is set for
  every even byte, among them the powers of two, which have a single 1, and for the odd bytes
  with an even number of digits.
\<close>

theorem getparityflag_counts_digits:
  "getparityflag x = (even (unat (x AND 0xff)) \<or> even (digits2 (unat (x AND 0xff)))) \<and>
   (0 < k \<longrightarrow> k < 8 \<longrightarrow> getparityflag (push_bit k 1) \<and> odd (ones (2 ^ k)))"
proof
  show eq: "getparityflag x = (even (unat (x AND 0xff)) \<or> even (digits2 (unat (x AND 0xff))))" for x
    by (simp add: getparityflag_def Let_def parity_loop_eq even_iff_mod_2_eq_zero)
  have "odd (ones (2 ^ k))" for k
  proof (induction k)
    case (Suc k)
    have "ones (2 ^ Suc k) = ones (2 ^ k)" by (subst ones.simps) simp
    then show ?case using Suc by simp
  qed (simp add: ones.simps)
  moreover have "getparityflag (push_bit k 1)" if "0 < k" "k < 8"
  proof -
    have "k \<in> {1, 2, 3, 4, 5, 6, 7}" using that by auto
    then have "unat (push_bit k 1 AND 0xff :: u64) = 2 ^ k" by (auto simp: push_bit_eq_mult)
    then show ?thesis using that(1) by (simp add: eq)
  qed
  ultimately show "0 < k \<longrightarrow> k < 8 \<longrightarrow> getparityflag (push_bit k 1) \<and> odd (ones (2 ^ k))" by blast
qed

lemma getparityflag_counts_digits_witness:
  "getparityflag 2 \<and> odd (ones 2) \<and> \<not> getparityflag 0x41 \<and> ones 0x41 = 2"
proof -
  have "\<not> getparityflag 0x41" "ones 0x41 = 2" by code_simp+
  then show ?thesis using getparityflag_counts_digits [of 0 1] by (simp add: push_bit_eq_mult)
qed

section \<open>The shadow of STI\<close>

lemma bit_blocked: "bit b k \<Longrightarrow> bit c k \<Longrightarrow> \<not> bit (take_bit n (NOT (b AND c) AND x)) k" for b c x :: u64
  by (auto simp: bit_take_bit_iff bit_and_iff bit_or_iff bit_not_iff)

text \<open>
  C39: \<open>STI\<close> on a guest with interrupts off and nothing blocked enables them and blocks them
  for one instruction: no pending interrupt is taken behind it. A blocking by \<open>STI\<close> or by a
  load of \<open>ss\<close> never outlives the instruction behind it, whatever that instruction is.
\<close>

theorem STI_blocks_one_instruction:
  assumes "\<not> bit (vmread vm_guest_rflags s) 9" and "vmread vm_guest_interruptability_state s = 0"
    and "emulateRMinstruction env u = Some (v, True)" and "k < 2"
    and "bit (vmread vm_guest_interruptability_state u) k"
  shows "bit (vmread vm_guest_rflags (opcode_STI s)) 9 \<and>
    testRMinterrupt env (opcode_STI s) = Some (opcode_STI s) \<and>
    \<not> bit (vmread vm_guest_interruptability_state v) k"
proof (intro conjI)
  show "bit (vmread vm_guest_rflags (opcode_STI s)) 9"
    by (simp add: opcode_STI_def Let_def bit_or_iff)
  show "testRMinterrupt env (opcode_STI s) = Some (opcode_STI s)"
    using assms(1,2) by (simp add: testRMinterrupt_def opcode_STI_def Let_def take_bit_eq_mask mask_eq_exp_minus_1)
  obtain x w where "v = vmwrite vm_guest_interruptability_state
      (NOT (vmread vm_guest_interruptability_state u AND 3) AND x) w"
    using assms(3) unfolding emulateRMinstruction_def Let_def bind_eq_Some_conv
    by (auto simp del: bit.de_Morgan_conj split: if_splits)
  moreover have "bit (3 :: u64) k" using assms(4) by (auto simp: less_2_cases_iff)
  ultimately show "\<not> bit (vmread vm_guest_interruptability_state v) k"
    using bit_blocked [OF assms(5)] by (simp only: vmread_vmwrite simp_thms if_True not_False_eq_True)
qed

lemma flat_bytes:
  assumes "vmread vm_guest_cr0 s AND 0x80000001 \<noteq> 0x80000001"
  shows "ReadVMMemory (blank_env True) s a n = map (\<lambda>i. pmem s (a + of_nat i)) [0..<n]"
proof -
  have "vm_bytes (blank_env True) s a (n + 0) =
        map (\<lambda>i. pmem s (a + of_nat i)) [0..<n] @ vm_bytes (blank_env True) s (a + of_nat n) 0"
    by (rule vm_bytes_add) (simp add: vm_byte_def flat_translate [OF assms])
  then show ?thesis by (simp add: ReadVMMemory_bytes)
qed

lemma STI_run:
  assumes "pmem s = (\<lambda>_. 0xFB)" and "vmread vm_guest_cr0 s = 0"
  shows "emulateRMinstruction (blank_env True) s =
    Some (vmwrite vm_guest_interruptability_state
            (NOT (vmread vm_guest_interruptability_state s AND 3)
               AND vmread vm_guest_interruptability_state (opcode_STI s))
            (vmwrite vm_guest_rip (vmread vm_guest_rip (opcode_STI s) + 1) (opcode_STI s)), True)"
proof -
  have "ReadVMMemory (blank_env True) s (vmread vm_guest_cs_base s + vmread vm_guest_rip s) 30
      = replicate (Suc 29) 0xFB"
    using assms by (simp add: flat_bytes map_replicate_const)
  moreover have "skip_prefixes s (replicate (Suc 29) 0xFB) i = (i, 0)" for i
    unfolding replicate_Suc by (simp add: prefix_def)
  moreover have "fetch (i\<lparr>instruction := replicate (Suc 29) 0xFB, id_size := 1\<rparr>) 0 1 = Some 0xFB" for i
    by (simp add: fetch_def)
  ultimately have "emulateRMinstruction2 (blank_env True) s i =
      Some (opcode_STI s, i\<lparr>segmentbase := vmread vm_guest_ds_base s,
                             instruction := replicate (Suc 29) 0xFB, id_size := 1\<rparr>, 0)" for i
    by (simp add: emulateRMinstruction2_def Let_def opcode_def)
  then show ?thesis
    by (simp add: emulateRMinstruction_def Let_def)
qed

text \<open>Memory full of \<open>STI\<close>: the second one ends the blocking of the first.\<close>

lemma STI_blocks_one_instruction_witness:
  defines "s \<equiv> blank_state\<lparr>pmem := (\<lambda>_. 0xFB)\<rparr>"
  shows "\<exists>v w. emulateRMinstruction (blank_env True) s = Some (v, True) \<and>
    emulateRMinstruction (blank_env True) v = Some (w, True) \<and>
    bit (vmread vm_guest_interruptability_state v) 0 \<and> \<not> bit (vmread vm_guest_interruptability_state w) 0"
proof -
  have s: "pmem s = (\<lambda>_. 0xFB)" "vmread vm_guest_cr0 s = 0" "vmread vm_guest_rflags s = 0"
    "vmread vm_guest_interruptability_state s = 0"
    by (simp_all add: s_def blank_state_def vmread_def)
  obtain v where v: "emulateRMinstruction (blank_env True) s = Some (v, True)"
    and "pmem v = (\<lambda>_. 0xFB)" "vmread vm_guest_cr0 v = 0" "bit (vmread vm_guest_interruptability_state v) 0"
    using STI_run [OF s(1,2)] s by (simp add: opcode_STI_def Let_def)
  moreover from this obtain w where "emulateRMinstruction (blank_env True) v = Some (w, True)"
    using STI_run [of v] by blast
  ultimately show ?thesis
    using STI_blocks_one_instruction [of s "blank_env True" v w 0] s by auto
qed

end
