(* ===== verification/RealModeOperands.thy ===== *)
theory RealModeOperands
  imports RealModeCorrect
begin

text \<open>
  Operands of the real-mode emulation: the effective addresses of \<open>handleMODRM\<close>, moves of
  immediates, string moves, and the loop that runs a guest until it leaves real mode.
\<close>

section \<open>Effective addresses\<close>

text \<open>The processor's 16-bit address: the stack segment for \<open>bp\<close>, an offset that wraps.\<close>

definition offset16 :: "vm_state \<Rightarrow> int \<Rightarrow> u64 \<Rightarrow> u64" where
  "offset16 s RM d = word16 (modrm16_sum s RM + d)"

definition ea16 :: "vm_state \<Rightarrow> int \<Rightarrow> int \<Rightarrow> u64 \<Rightarrow> u64" where
  "ea16 s MOD RM d =
     (if RM = 2 \<or> RM = 3 \<or> RM = 6 \<and> MOD \<noteq> 0 then vmread vm_guest_ss_base s
      else vmread vm_guest_ds_base s)
     + (if MOD = 0 \<and> RM = 6 then d else offset16 s RM d)"

definition disp16 :: "instructiondata \<Rightarrow> int \<Rightarrow> int \<Rightarrow> u64 option" where
  "disp16 i MOD RM =
     (if MOD = 1 then map_option sext8 (fetch i (id_size i) 1)
      else if MOD = 2 then map_option sext16 (fetch i (id_size i) 2)
      else if RM = 6 then fetch i (id_size i) 2 else Some 0)"

lemma modrm16_sum_0: "modrm16_sum s RM AND 0xffff = offset16 s RM 0"
  by (simp add: offset16_def mask_simps)

text \<open>
  With 16-bit addressing and no segment prefix the emulation uses the processor's
  effective address without displacement, with a direct address, and with an 8-bit
  displacement unless the base is \<open>bp\<close> alone, which is taken in the data segment. With a
  16-bit displacement the sum with the segment base is cut to 16 bits, so the address is in
  the first 64 KB of memory whatever the segment. The displacement is skipped in full.
\<close>

theorem modrm_16_address:
  assumes "modrm_16 s i MOD RM = Some j" and "segmentbase i = vmread vm_guest_ds_base s"
    and "MOD \<in> {0, 1, 2}" and "0 \<le> RM" and "RM \<le> 7"
  shows "\<exists>d. disp16 i MOD RM = Some d \<and>
    id_size j = id_size i + (if MOD = 1 then 1 else if MOD = 2 \<or> RM = 6 then 2 else 0) \<and>
    id_address j =
      (if MOD = 0 \<or> MOD = 1 \<and> RM \<noteq> 6 then ea16 s MOD RM d
       else if MOD = 1 then vmread vm_guest_ds_base s + offset16 s RM d
       else word16 ((if RM = 6 then vmread vm_guest_ss_base s else vmread vm_guest_ds_base s)
                    + (modrm16_sum s RM + d)))"
proof -
  consider "MOD = 0" "RM = 6" | "MOD = 0" "RM \<noteq> 6" | "MOD = 1" | "MOD = 2" using assms(3) by auto
  then show ?thesis
  proof cases
    case 1
    then show ?thesis
      using assms by (auto simp: modrm_16_def disp16_def skip_def ea16_def bind_eq_Some_conv)
  next
    case 2
    then show ?thesis
      using assms by (auto simp: modrm_16_def disp16_def ea16_def modrm16_sum_0 Let_def)
  next
    case 3
    then obtain d where "fetch i (id_size i) 1 = Some d"
      using assms(1) by (cases "fetch i (id_size i) 1") (auto simp: modrm_16_def)
    then show ?thesis
      using assms 3 by (auto simp: modrm_16_def disp16_def skip_def ea16_def offset16_def mask_simps Let_def)
  next
    case 4
    then obtain d where "fetch i (id_size i) 2 = Some d"
      using assms(1) by (cases "fetch i (id_size i) 2") (auto simp: modrm_16_def)
    then show ?thesis
      using assms 4 by (auto simp: modrm_16_def disp16_def skip_def mask_simps Let_def)
  qed
qed

text \<open>\<open>[bp + 4]\<close> in the data segment at 0x20000 instead of the stack segment at 0x30000.\<close>

lemma modrm_16_address_witness:
  defines "s \<equiv> vmwrite vm_guest_ds_base 0x20000 (vmwrite vm_guest_ss_base 0x30000 (blank_state\<lparr>rbp := 0x10\<rparr>))"
    and "i \<equiv> new_instructiondata\<lparr>segmentbase := 0x20000, instruction := [0x8b, 0x46, 4], id_size := 2\<rparr>"
  shows "\<exists>j. modrm_16 s i 1 6 = Some j \<and> id_address j = 0x20014 \<and> ea16 s 1 6 4 = 0x30014"
proof -
  have f: "fetch i 2 1 = Some 4" and i: "id_size i = 2" "segmentbase i = 0x20000"
    and s: "vmread vm_guest_ds_base s = 0x20000" "vmread vm_guest_ss_base s = 0x30000" "rbp s = 0x10"
    by (simp_all add: s_def i_def fetch_def new_instructiondata_def blank_state_def field_bits_def)
  obtain j where j: "modrm_16 s i 1 6 = Some j"
    using f by (simp add: modrm_16_def i Let_def)
  have "sext8 4 = 4" by code_simp
  then show ?thesis
    using modrm_16_address [OF j] f j
    by (simp add: s i disp16_def offset16_def ea16_def modrm16_sum_def take_bit_eq_mask mask_eq_exp_minus_1)
qed

text \<open>
  With 32-bit addressing and a displacement, a register other than \<open>eax\<close> and \<open>esp\<close> as the
  base takes its displacement one byte early: with 8 bits it is the addressing byte itself,
  with 32 bits that byte and the three behind it, and of the 32 bits only one byte is skipped.
\<close>

theorem modrm_32_displacement:
  assumes "handleMODRM s i = Some j" and "addresssize i" and "fetch i (id_size i) 1 = Some b"
    and MOD: "MOD = uint (drop_bit 6 b)" "MOD \<in> {1, 2}" and RM: "RM = uint (b AND 7)" "RM \<notin> {0, 4}"
  shows "\<exists>d. fetch i (id_size i) (if MOD = 1 then 1 else 4) = Some d \<and>
    id_address j = segmentbase i + (reg_get RM s AND 0xffffffff) + (if MOD = 1 then sext8 b else d) \<and>
    id_size j = id_size i + 2"
proof -
  have "modrm_32 s (skip 1 (i\<lparr>opperand := uint (drop_bit 3 b AND 7)\<rparr>)) MOD RM = Some j"
    using assms(1-3) by (simp add: handleMODRM_def MOD(1) RM(1) Let_def skip_def)
  moreover have "fetch (skip 1 (i\<lparr>opperand := k\<rparr>)) n m = fetch i n m" for k n m
    by (simp add: fetch_def skip_def)
  ultimately show ?thesis
    using assms(3) MOD(2) RM(2)
    by (auto simp: modrm_32_def bind_eq_Some_conv skip_def split: if_splits)
qed

text \<open>\<open>mov ax, [ebx + 0x10]\<close>: the displacement used is 0x43.\<close>

lemma modrm_32_displacement_witness:
  defines "i \<equiv> new_instructiondata\<lparr>addresssize := True, instruction := [0x67, 0x8b, 0x43, 0x10], id_size := 2\<rparr>"
  shows "\<exists>j. handleMODRM blank_state i = Some j \<and> id_address j = 0x43"
proof -
  have f: "fetch i 2 1 = Some 0x43" "fetch i 2 (Suc 0) = Some 0x43" and i: "id_size i = 2" "segmentbase i = 0" "addresssize i"
    by (simp_all add: i_def fetch_def new_instructiondata_def)
  have b: "sext8 0x43 = 0x43" "reg_get 3 blank_state = 0" by code_simp+
  have "handleMODRM blank_state i \<noteq> None"
    by (simp add: handleMODRM_def modrm_32_def i_def new_instructiondata_def skip_def fetch_def Let_def)
  then obtain j where j: "handleMODRM blank_state i = Some j" by blast
  show ?thesis
    using modrm_32_displacement [where b = "0x43", OF j i(3) _ refl _ refl] j f b by (simp add: i)
qed

section \<open>Immediate moves\<close>

text \<open>The update of one of the two low bytes of a register is seen in that byte only.\<close>

lemma bit_low_byte: "bit (0xff :: u64) n \<longleftrightarrow> n < 8"
  using bit_mask_iff [of 8 n, where ?'a = "u64"] by (auto simp: mask_eq_exp_minus_1 dest: bit_imp_le_length)

lemma add_eq_or: "(\<And>n. bit a n \<Longrightarrow> \<not> bit b n) \<Longrightarrow> a + b = a OR b" for a b :: u64
  by (rule disjunctive_add_eq_or) (rule bit_eqI, auto simp: bit_and_iff)

lemma bit_put8:
  fixes x v :: u64
  assumes "take_bit 8 v = v"
  shows "bit ((x AND 0xffffffffffffff00) + v) n = (if n < 8 then bit v n else bit x n)"
proof -
  have v: "bit v n \<Longrightarrow> n < 8" for n using assms by (metis bit_take_bit_iff)
  have "0xffffffffffffff00 = NOT (0xff :: u64)" by simp
  then have "bit (x AND 0xffffffffffffff00) n \<longleftrightarrow> 8 \<le> n \<and> bit x n" for n
    by (simp only: bit_and_iff bit_not_iff bit_low_byte) (auto dest: bit_imp_le_length)
  moreover from this have "(x AND 0xffffffffffffff00) + v = (x AND 0xffffffffffffff00) OR v"
    using v by (intro add_eq_or) (meson leD)
  ultimately show ?thesis using v [of n] by (auto simp: bit_or_iff)
qed

lemma bit_put8h:
  fixes x v :: u64
  assumes "take_bit 8 v = v"
  shows "bit ((x AND 0xffffffffffff00ff) + push_bit 8 v) n =
         (if 8 \<le> n \<and> n < 16 then bit v (n - 8) else bit x n)"
proof -
  have v: "bit (push_bit 8 v) n \<longleftrightarrow> 8 \<le> n \<and> n < 16 \<and> bit v (n - 8)" for n
  proof -
    have "bit v m \<Longrightarrow> m < 8" for m using assms by (metis bit_take_bit_iff)
    from this [of "n - 8"] show ?thesis by (auto simp: bit_push_bit_iff)
  qed
  have "0xffffffffffff00ff = NOT (push_bit 8 0xff :: u64)" by simp
  then have "bit (x AND 0xffffffffffff00ff) n \<longleftrightarrow> \<not> (8 \<le> n \<and> n < 16) \<and> bit x n" for n
    by (simp only: bit_and_iff bit_not_iff bit_push_bit_iff bit_low_byte) (auto dest: bit_imp_le_length)
  moreover from this have "(x AND 0xffffffffffff00ff) + push_bit 8 v = (x AND 0xffffffffffff00ff) OR push_bit 8 v"
    using v by (intro add_eq_or) blast
  ultimately show ?thesis using v [of n] by (auto simp: bit_or_iff)
qed

lemma byte_eq: "x AND 0xff = take_bit 8 x" for x :: u64
  by (simp add: mask_simps)

lemma put8_bytes:
  fixes x v :: u64
  assumes "take_bit 8 v = v"
  shows "((x AND 0xffffffffffffff00) + v) AND 0xff = v"
    and "drop_bit 8 ((x AND 0xffffffffffffff00) + v) AND 0xff = drop_bit 8 x AND 0xff"
    and "((x AND 0xffffffffffff00ff) + push_bit 8 v) AND 0xff = x AND 0xff"
    and "drop_bit 8 ((x AND 0xffffffffffff00ff) + push_bit 8 v) AND 0xff = v"
proof -
  have v: "bit v n \<Longrightarrow> n < 8" for n using assms by (metis bit_take_bit_iff)
  show "((x AND 0xffffffffffffff00) + v) AND 0xff = v"
    unfolding byte_eq by (rule bit_eqI) (auto simp: bit_take_bit_iff bit_put8 [OF assms] dest: v)
  show "drop_bit 8 ((x AND 0xffffffffffffff00) + v) AND 0xff = drop_bit 8 x AND 0xff"
    unfolding byte_eq by (rule bit_eqI) (auto simp: bit_take_bit_iff bit_drop_bit_eq bit_put8 [OF assms])
  show "((x AND 0xffffffffffff00ff) + push_bit 8 v) AND 0xff = x AND 0xff"
    unfolding byte_eq by (rule bit_eqI) (auto simp: bit_take_bit_iff bit_put8h [OF assms])
  show "drop_bit 8 ((x AND 0xffffffffffff00ff) + push_bit 8 v) AND 0xff = v"
    unfolding byte_eq
    by (rule bit_eqI) (auto simp: bit_take_bit_iff bit_drop_bit_eq bit_put8h [OF assms] dest: v)
qed

lemma fetch_byte: "fetch i n 1 = Some v \<Longrightarrow> take_bit 8 v = v"
proof -
  assume "fetch i n 1 = Some v"
  then obtain b :: u8 where "v = ucast b"
    by (cases "drop n (instruction i)") (auto simp: fetch_def split: if_splits)
  then show ?thesis
    by (intro bit_eqI) (auto simp: bit_take_bit_iff bit_ucast_iff dest: bit_imp_le_length)
qed

text \<open>
  \<open>MOV r8, imm8\<close> puts the immediate into the named 8-bit register and leaves the seven others
  as they were, except for \<open>bh\<close>: then \<open>bh\<close> keeps its value and the whole of \<open>rdx\<close> is overwritten
  with \<open>rbx\<close> and the immediate.
\<close>

theorem MOV_imm8:
  assumes "opcode_MOVB0toB7 env s i k = Some (t, j, r)" and "\<not> lock i" and "0 \<le> k" and "k \<le> 7"
  shows "\<exists>v. fetch i (id_size i) 1 = Some v \<and> r = 0 \<and> j = skip 1 i \<and>
    (k \<noteq> 7 \<longrightarrow> (\<forall>k' \<in> {0..7}. getOpperandValue t k' Register8Bit =
        (if k' = k then v else getOpperandValue s k' Register8Bit))) \<and>
    (k = 7 \<longrightarrow> rbx t = rbx s \<and> rdx t = (rbx s AND 0xffffffffffff00ff) + push_bit 8 v)"
proof -
  obtain v where v: "fetch i (id_size i) 1 = Some v"
    using assms(1,2) by (cases "fetch i (id_size i) 1") (auto simp: opcode_MOVB0toB7_def)
  have t: "r = 0" "j = skip 1 i"
    "t = (if k \<le> 3 then reg_put8 k v s else if k \<le> 6 then reg_put8h (k - 4) (push_bit 8 v) s
          else s\<lparr>rdx := (rbx s AND 0xffffffffffff00ff) + push_bit 8 v\<rparr>)"
    using assms(1,2) unfolding opcode_MOVB0toB7_def v by (simp_all add: Let_def)
  have "getOpperandValue t k' Register8Bit = (if k' = k then v else getOpperandValue s k' Register8Bit)"
    if "k \<noteq> 7" "0 \<le> k'" "k' \<le> 7" for k'
    using assms(3,4) that put8_bytes [OF fetch_byte [OF v]]
    by (cases "k \<le> 3"; cases "k' \<le> 3")
       (auto simp: t getOpperandValue_def reg_put8_def reg_put8h_def reg_get_set)
  then show ?thesis using v t assms(4) by auto
qed

lemma MOV_imm8_witness:
  defines "i \<equiv> new_instructiondata\<lparr>instruction := [0xb4, 0x12], id_size := 1\<rparr>"
  shows "\<exists>t j. opcode_MOVB0toB7 (blank_env True) (blank_state\<lparr>rax := 0x5555\<rparr>) i 4 = Some (t, j, 0) \<and>
    getOpperandValue t 4 Register8Bit = 0x12 \<and> getOpperandValue t 0 Register8Bit = 0x55"
proof -
  let ?s = "blank_state\<lparr>rax := 0x5555\<rparr>"
  have f: "fetch i 1 1 = Some 0x12" and i: "id_size i = 1" "\<not> lock i"
    by (simp_all add: i_def fetch_def new_instructiondata_def)
  then have "\<exists>t j r. opcode_MOVB0toB7 (blank_env True) ?s i 4 = Some (t, j, r)"
    by (simp add: opcode_MOVB0toB7_def Let_def)
  then obtain t j r where "opcode_MOVB0toB7 (blank_env True) ?s i 4 = Some (t, j, r)" by blast
  with MOV_imm8 [OF this i(2)] f have "\<forall>k' \<in> {0..7}. getOpperandValue t k' Register8Bit =
      (if k' = 4 then 0x12 else getOpperandValue ?s k' Register8Bit)" and "r = 0"
    by (simp_all add: i)
  moreover have "getOpperandValue ?s 0 Register8Bit = 0x55" by (simp add: getOpperandValue_def reg_get_def)
  ultimately show ?thesis
    using \<open>opcode_MOVB0toB7 (blank_env True) ?s i 4 = Some (t, j, r)\<close> by auto
qed

section \<open>String moves\<close>

text \<open>
  An upward \<open>MOVS\<close> below the hypervisor copies exactly the bytes of its source to its
  destination when the two do not overlap, changes no other byte and advances both
  pointers. It sets \<open>rcx\<close> to 0, also when there is no \<open>REP\<close> prefix.
\<close>

theorem MOVS_copies:
  assumes "opcode_MOVSA5 env s i = Some (t, j, r)" and "addresssize i"
    and "rdi s < vmmstart env" and up: "\<not> bit (vmread vm_guest_rflags s) 10"
    and moves: "moves = (if rep i then sint (ucast (rcx s) :: u32) else 1)" "0 < moves"
    and n: "n = nat ((if opperandsize i then 4 else 2) * moves)" "n \<le> 4096"
    and d: "map_ptr env s (rdi s) n = Some d"
    and src: "map_ptr (env\<lparr>map_window := map_window env - page_count (rdi s) n\<rparr>) s (rsi s) n = Some src"
    and disjoint: "\<forall>k<n. \<forall>l<n. d k \<noteq> src l"
  shows "r = 0 \<and> j = i \<and> rsi t = rsi s + of_nat n \<and> rdi t = rdi s + of_nat n \<and> rcx t = 0 \<and>
    (\<forall>k<n. pmem t (d k) = pmem s (src k)) \<and> (\<forall>a. a \<notin> d ` {..<n} \<longrightarrow> pmem t a = pmem s a)"
proof -
  define m where "m = (if opperandsize i then 4 else 2) * moves"
  have m: "nat m = n" "\<not> 2 ^ 31 \<le> m" "m \<noteq> 0"
    using moves(2) n by (auto simp: m_def nat_le_iff)
  have t: "r = 0" "j = i" "t = s\<lparr>pmem := copymem (pmem s) d src n, rdi := rdi s + of_nat n,
      rsi := rsi s + of_nat n, rcx := 0\<rparr>"
    using assms(1-4) moves(2) m d src
    unfolding opcode_MOVSA5_def Let_def moves(1) [symmetric] m_def [symmetric]
    by (simp_all add: m_def [symmetric] n(1) [symmetric])
  have "inj_on d {..<n}" using map_ptr_inj [OF d n(2)] .
  then have "pmem t (d k) = pmem s (src k)" if "k < n" for k
    using disjoint that by (simp add: t copymem_copies)
  moreover have "pmem t a = pmem s a" if "a \<notin> d ` {..<n}" for a
    using that by (simp add: t) (rule copymem_other, blast)
  ultimately show ?thesis by (simp add: t)
qed

text \<open>\<open>MOVSW\<close> without \<open>REP\<close>.\<close>

lemma MOVS_copies_witness:
  defines "s \<equiv> blank_state\<lparr>rsi := 0x200, rdi := 0x100, rcx := 5, pmem := (\<lambda>_. 0)(0x201 := 7)\<rparr>"
    and "i \<equiv> new_instructiondata\<lparr>addresssize := True\<rparr>"
  shows "\<exists>t j r. opcode_MOVSA5 (blank_env True) s i = Some (t, j, r) \<and>
    rcx t = 0 \<and> rsi t = 0x202 \<and> pmem t 0x101 = 7"
proof -
  let ?e = "blank_env True"
  let ?e' = "?e\<lparr>map_window := map_window ?e - page_count (rdi s) 2\<rparr>"
  have i: "addresssize i" "\<not> rep i" "\<not> opperandsize i" by (simp_all add: i_def new_instructiondata_def)
  have s: "rsi s = 0x200" "rdi s = 0x100" "pmem s 0x201 = 7" "vmread vm_guest_cr0 s = 0" "vmread vm_guest_rflags s = 0"
    by (simp_all add: s_def blank_state_def vmread_def)
  have cr0: "vmread vm_guest_cr0 s AND 0x80000001 \<noteq> 0x80000001" by (simp add: s)
  have "page_count (rdi s) 2 \<le> 2" by (rule page_count_small) simp
  then have e': "hasUnrestrictedSupport ?e'" "2 \<le> map_window ?e'" by simp_all
  obtain d where d: "map_ptr ?e s (rdi s) 2 = Some d" "\<forall>k<2. d k = rdi s + of_nat k"
    using flat_map_ptr [OF cr0, of 2] by auto
  obtain src where src: "map_ptr ?e' s (rsi s) 2 = Some src" "\<forall>k<2. src k = rsi s + of_nat k"
    using flat_map_ptr_env [OF e'(1) cr0 _ _ e'(2), of 2] by auto
  have "\<exists>t j r. opcode_MOVSA5 ?e s i = Some (t, j, r)"
    using d(1) src(1) s(2,5) by (simp add: opcode_MOVSA5_def i Let_def)
  then obtain t j r where t: "opcode_MOVSA5 ?e s i = Some (t, j, r)" by blast
  have two: "(2 :: nat) \<le> 4096" by simp
  have ne: "\<forall>k<2. \<forall>l<2. d k \<noteq> src l"
    using d(2) src(2) s by (auto simp: less_2_cases_iff)
  have "rdi s < vmmstart ?e" "\<not> bit (vmread vm_guest_rflags s) 10" by (simp_all add: s)
  moreover have "(1 :: int) = (if rep i then sint (ucast (rcx s) :: u32) else 1)"
    "2 = nat ((if opperandsize i then 4 else 2) * 1)" by (simp_all add: i)
  ultimately have "rcx t = 0 \<and> rsi t = rsi s + of_nat 2 \<and> (\<forall>k<2. pmem t (d k) = pmem s (src k))"
    using MOVS_copies [OF t i(1) _ _ _ zero_less_one _ _ d(1) src(1) ne] two by blast
  then have "rcx t = 0" "rsi t = 0x202" "pmem t (d 1) = pmem s (src 1)" by (simp_all add: s)
  then show ?thesis using t d(2) src(2) s by auto
qed

section \<open>The emulation loop\<close>

text \<open>
  Where the emulation of a guest ends: outside real mode, at an instruction that is not handled, or at memory that cannot
  be read. In the last case the result is \<open>False\<close>, also when instructions were executed before.
\<close>

lemma emulate_loop_end:
  "emulate_loop env s result b = Some tr \<Longrightarrow>
   (if result then \<not> ISREALMODE env (fst tr) \<or> (\<exists>u. emulateRMinstruction env u = Some (fst tr, False)) \<or>
        \<not> snd tr \<and> ReadVMMemory env (fst tr) (vmread vm_guest_cs_base (fst tr) + vmread vm_guest_rip (fst tr)) 30 = []
    else tr = (s, b))"
proof (rule emulate_loop.raw_induct [where P = "\<lambda>env s result b tr.
      if result then \<not> ISREALMODE env (fst tr) \<or> (\<exists>u. emulateRMinstruction env u = Some (fst tr, False)) \<or>
        \<not> snd tr \<and> ReadVMMemory env (fst tr) (vmread vm_guest_cs_base (fst tr) + vmread vm_guest_rip (fst tr)) 30 = []
      else tr = (s, b)"])
  fix loop env s result b and tr :: "vm_state \<times> bool"
  let ?goal = "\<lambda>result s b. if result then \<not> ISREALMODE env (fst tr) \<or> (\<exists>u. emulateRMinstruction env u = Some (fst tr, False)) \<or>
        \<not> snd tr \<and> ReadVMMemory env (fst tr) (vmread vm_guest_cs_base (fst tr) + vmread vm_guest_rip (fst tr)) 30 = []
      else tr = (s, b)"
  assume IH: "\<And>env s result b tr. loop env s result b = Some tr \<Longrightarrow>
      if result then \<not> ISREALMODE env (fst tr) \<or> (\<exists>u. emulateRMinstruction env u = Some (fst tr, False)) \<or>
        \<not> snd tr \<and> ReadVMMemory env (fst tr) (vmread vm_guest_cs_base (fst tr) + vmread vm_guest_rip (fst tr)) 30 = []
      else tr = (s, b)"
    and run: "(if ISREALMODE env s \<and> result then
        (if ReadVMMemory env s (vmread vm_guest_cs_base s + vmread vm_guest_rip s) 30 = []
         then Some (s, False)
         else case emulateRMinstruction env s of
            None \<Rightarrow> None
          | Some (s, r) \<Rightarrow>
              if r then
                (case testRMinterrupt env s of
                   None \<Rightarrow> None
                 | Some s \<Rightarrow> loop env s True True)
              else loop env s False b)
      else Some (s, b)) = Some tr"
  show "?goal result s b"
  proof (cases "result \<and> ISREALMODE env s \<and>
      ReadVMMemory env s (vmread vm_guest_cs_base s + vmread vm_guest_rip s) 30 \<noteq> []")
    case False
    then show ?thesis using run by (auto split: if_splits)
  next
    case True
    then obtain u ok where u: "emulateRMinstruction env s = Some (u, ok)"
      using run by (cases "emulateRMinstruction env s") auto
    show ?thesis
    proof (cases ok)
      case False
      then have "loop env u False b = Some tr" using run True u by simp
      from IH [OF this] show ?thesis using True False u by auto
    next
      case ok: True
      then obtain t where "testRMinterrupt env u = Some t"
        using run True u by (cases "testRMinterrupt env u") auto
      then have "loop env t True True = Some tr" using run True u ok by simp
      from IH [OF this] show ?thesis using True by simp
    qed
  qed
qed

end
