(* ===== verification/Mtrr.thy ===== *)
theory Mtrr
  imports Prelude
begin

text \<open>
  The memory types of \<open>epthandler.c\<close>: the list of ranges that \<open>initMemTypeRanges\<close> builds from the
  MTRRs, its sanitization into disjoint ranges, and \<open>getMTRRMapInfo\<close>, which tells the EPT code
  whether a large page may map a region and with which type. The model-specific registers
  are read through \<open>msr\<close>. A deliberate endless loop of the code (more than 100 entries) is
  \<open>Some (Inl LoopsForever)\<close>, a loop that does not end by itself is \<open>None\<close>.
\<close>

record memrange =
  startaddress :: u64
  mr_size :: u64
  memtype :: int

record memranges =
  memoryranges :: "memrange list"
  memoryrangesLength :: nat

datatype mtrr_error = LoopsForever

abbreviation "MTC_UC \<equiv> 0 :: int"
abbreviation "MTC_WC \<equiv> 1 :: int"
abbreviation "MTC_WT \<equiv> 3 :: int"
abbreviation "MTC_WP \<equiv> 5 :: int"
abbreviation "MTC_WB \<equiv> 6 :: int"

section \<open>Types and lookup\<close>

definition MTC_RPS :: "int \<Rightarrow> int \<Rightarrow> int" where
  "MTC_RPS mt1 mt2 =
     (if mt1 = mt2 then mt1
      else if mt1 = MTC_UC \<or> mt2 = MTC_UC then MTC_UC
      else if mt1 = MTC_WT \<and> mt2 = MTC_WB \<or> mt2 = MTC_WT \<and> mt1 = MTC_WB then MTC_WT
      else if mt1 = MTC_WP \<or> mt2 = MTC_WP then MTC_WP
      else if mt1 = MTC_WB \<or> mt2 \<noteq> MTC_WB then mt2
      else min mt1 mt2)"

definition stopaddress :: "memrange \<Rightarrow> u64" where
  "stopaddress r = startaddress r + mr_size r - 1"

fun find_range :: "u64 \<Rightarrow> u64 \<Rightarrow> int \<Rightarrow> memrange list \<Rightarrow> bool \<times> int" where
  "find_range starta stopa t [] = (True, t)"
| "find_range starta stopa t (r # rs) =
     (let startb = startaddress r; stopb = stopaddress r in
      if starta \<le> stopb \<and> startb \<le> stopa then
        (if starta \<ge> startb \<and> stopa \<le> stopb then (True, memtype r) else (False, t))
      else if stopa < startb then (True, t)
      else find_range starta stopa t rs)"

text \<open>The result is \<open>fullmap\<close> and the memory type; \<open>def\<close> is \<open>MTRRDefType.TYPE\<close>.\<close>

definition getMTRRMapInfo :: "int \<Rightarrow> memranges \<Rightarrow> u64 \<Rightarrow> u64 \<Rightarrow> bool \<times> int" where
  "getMTRRMapInfo def st start n = find_range start (start + n - 1) def (memoryranges st)"

section \<open>Building the list\<close>

definition addToMemoryRanges :: "u64 \<Rightarrow> u64 \<Rightarrow> int \<Rightarrow> memranges \<Rightarrow> memranges" where
  "addToMemoryRanges a n t st =
     (if n = 0 then st
      else
        let st = (if length (memoryranges st) = memoryrangesLength st
                  then st\<lparr>memoryrangesLength := memoryrangesLength st * 2\<rparr> else st)
        in st\<lparr>memoryranges := memoryranges st @ [\<lparr>startaddress = a, mr_size = n, memtype = t\<rparr>]\<rparr>)"

text \<open>Two overlapping entries: the part before the overlap, the part behind it and the overlap.\<close>

definition split_left :: "memrange \<Rightarrow> memrange \<Rightarrow> memrange" where
  "split_left a b =
     (let newstart = min (startaddress a) (startaddress b); newstop = max (startaddress a) (startaddress b)
      in \<lparr>startaddress = newstart, mr_size = newstop - newstart,
          memtype = (if startaddress a < startaddress b then memtype a else memtype b)\<rparr>)"

definition split_right :: "memrange \<Rightarrow> memrange \<Rightarrow> memrange" where
  "split_right a b =
     (let newstart = min (stopaddress a) (stopaddress b) + 1; newstop = max (stopaddress a) (stopaddress b) + 1
      in \<lparr>startaddress = newstart, mr_size = newstop - newstart,
          memtype = (if stopaddress b < stopaddress a then memtype a else memtype b)\<rparr>)"

definition split_overlap :: "memrange \<Rightarrow> memrange \<Rightarrow> memrange" where
  "split_overlap a b =
     (let start = startaddress (split_left a b) + mr_size (split_left a b)
      in \<lparr>startaddress = start, mr_size = startaddress (split_right a b) - start,
          memtype = MTC_RPS (memtype a) (memtype b)\<rparr>)"

definition split_ranges :: "nat \<Rightarrow> nat \<Rightarrow> memranges \<Rightarrow> memranges" where
  "split_ranges i j st =
     (let a = memoryranges st ! i; b = memoryranges st ! j; left = split_left a b; right = split_right a b;
          st = addToMemoryRanges (startaddress left) (mr_size left) (memtype left) st;
          st = addToMemoryRanges (startaddress right) (mr_size right) (memtype right) st;
          rs = (memoryranges st)[i := split_overlap a b]
      in st\<lparr>memoryranges := take (length rs - 1) (shift_down rs j (length rs))\<rparr>)"

partial_function (option) sanitize_entry ::
  "nat \<Rightarrow> nat \<Rightarrow> memranges \<Rightarrow> (mtrr_error + memranges) option" where
  "sanitize_entry i j st =
     (if j < length (memoryranges st) then
        (if mr_size (memoryranges st ! j) = 0 then None
         else if j > 100 then Some (Inl LoopsForever)
         else if startaddress (memoryranges st ! i) \<le> stopaddress (memoryranges st ! j)
               \<and> startaddress (memoryranges st ! j) \<le> stopaddress (memoryranges st ! i)
         then sanitize_entry i j (split_ranges i j st)
         else sanitize_entry i (j + 1) st)
      else Some (Inr st))"

partial_function (option) sanitize_entries ::
  "nat \<Rightarrow> memranges \<Rightarrow> (mtrr_error + memranges) option" where
  "sanitize_entries i st =
     (if i < length (memoryranges st) then
        (if mr_size (memoryranges st ! i) = 0 then sanitize_entries (i + 1) st
         else if i > 100 then Some (Inl LoopsForever)
         else (case sanitize_entry i (i + 1) st of
                 None \<Rightarrow> None
               | Some (Inl e) \<Rightarrow> Some (Inl e)
               | Some (Inr st) \<Rightarrow> sanitize_entries (i + 1) st))
      else Some (Inr st))"

function drop_default :: "int \<Rightarrow> nat \<Rightarrow> memrange list \<Rightarrow> memrange list" where
  "drop_default def i rs =
     (if i < length rs then
        (if memtype (rs ! i) = def
         then drop_default def i (take (length rs - 1) (shift_down rs i (length rs)))
         else drop_default def (i + 1) rs)
      else rs)"
  by pat_completeness auto
termination
  by (relation "measure (\<lambda>(def, i, rs). 2 * length rs - i)") (auto simp: array_simps)

declare drop_default.simps [simp del]

function sort_inner :: "nat \<Rightarrow> nat \<Rightarrow> memrange list \<Rightarrow> memrange list" where
  "sort_inner i j rs =
     (if j < length rs then
        sort_inner i (j + 1)
          (if startaddress (rs ! j) < startaddress (rs ! i) then rs[i := rs ! j, j := rs ! i] else rs)
      else rs)"
  by pat_completeness auto
termination
  by (relation "measure (\<lambda>(i, j, rs). length rs - j)") auto

declare sort_inner.simps [simp del]

lemma length_sort_inner [simp]: "length (sort_inner i j rs) = length rs"
  by (induction i j rs rule: sort_inner.induct) (subst sort_inner.simps, auto)

function sort_ranges :: "nat \<Rightarrow> memrange list \<Rightarrow> memrange list" where
  "sort_ranges i rs = (if i < length rs then sort_ranges (i + 1) (sort_inner i i rs) else rs)"
  by pat_completeness auto
termination
  by (relation "measure (\<lambda>(i, rs). length rs - i)") auto

declare sort_ranges.simps [simp del]

definition sanitizeMemoryRegions :: "int \<Rightarrow> memranges \<Rightarrow> (mtrr_error + memranges) option" where
  "sanitizeMemoryRegions def st =
     (case sanitize_entries 0 st of
        None \<Rightarrow> None
      | Some (Inl e) \<Rightarrow> Some (Inl e)
      | Some (Inr st) \<Rightarrow> Some (Inr (st\<lparr>memoryranges :=
          sort_ranges 0 (drop_default def 0 (memoryranges st))\<rparr>)))"

section \<open>Reading the registers\<close>

text \<open>The type and the size of the block of the fixed MTRRs at an address below 1 MB.\<close>

definition fixed_block :: "(nat \<Rightarrow> u64) \<Rightarrow> u64 \<Rightarrow> int \<times> u64" where
  "fixed_block msr a =
     (let block = (\<lambda>m base shift. (uint (drop_bit (unat (drop_bit shift (a - base)) * 8) (msr m) AND 0xf), push_bit shift 1)) in
      if a \<le> 0x7ffff then block 0x250 0 16
      else if a \<le> 0x9ffff then block 0x258 0x80000 14
      else if a \<le> 0xbffff then block 0x259 0xa0000 14
      else if a \<le> 0xc7fff then block 0x268 0xc0000 12
      else if a \<le> 0xcffff then block 0x269 0xc8000 12
      else if a \<le> 0xd7fff then block 0x26a 0xd0000 12
      else if a \<le> 0xdffff then block 0x26b 0xd8000 12
      else if a \<le> 0xe7fff then block 0x26c 0xe0000 12
      else if a \<le> 0xeffff then block 0x26d 0xe8000 12
      else if a \<le> 0xf7fff then block 0x26e 0xf0000 12
      else block 0x26f 0xf8000 12)"

function fixed_ranges :: "(nat \<Rightarrow> u64) \<Rightarrow> u64 \<Rightarrow> u64 \<Rightarrow> int \<Rightarrow> memranges \<Rightarrow> memranges" where
  "fixed_ranges msr start n t st =
     (if start + n < 0x100000 then
        let (ty, inc) = fixed_block msr (start + n);
            t = (if t = -1 then ty else t)
        in if ty = t then fixed_ranges msr start (n + inc) t st
           else fixed_ranges msr (start + n) inc ty (addToMemoryRanges start n t st)
      else if n \<noteq> 0 then addToMemoryRanges start n t st else st)"
  by pat_completeness auto

lemma fixed_block_size: "snd (fixed_block msr a) \<in> {0x1000, 0x4000, 0x10000}"
  by (simp add: fixed_block_def Let_def push_bit_eq_mult)

lemma fixed_block_step:
  assumes "a < 0x100000"
  shows "unat (a + snd (fixed_block msr a)) = unat a + unat (snd (fixed_block msr a))"
    and "0 < unat (snd (fixed_block msr a))"
proof -
  have a: "unat a < 0x100000" using assms by (simp add: word_less_nat_alt)
  have "unat (snd (fixed_block msr a)) \<in> {0x1000, 0x4000, 0x10000}"
    using fixed_block_size [of msr a] by auto
  then show "unat (a + snd (fixed_block msr a)) = unat a + unat (snd (fixed_block msr a))"
    "0 < unat (snd (fixed_block msr a))"
    using a by (auto simp: unat_word_ariths)
qed

termination fixed_ranges
proof (relation "measure (\<lambda>(msr, start, n, t, st). 0x100000 - unat (start + n))"; clarsimp)
  fix msr start n t ty inc
  assume s: "start + n < (0x100000 :: u64)" and b: "(ty, inc) = fixed_block msr (start + n)"
  have "unat (start + n) < 0x100000" using s by (simp add: word_less_nat_alt)
  moreover have "inc = snd (fixed_block msr (start + n))" by (simp flip: b)
  ultimately show "0x100000 - unat (start + (n + inc)) < 0x100000 - unat (start + n)"
    "0x100000 - unat (start + n + inc) < 0x100000 - unat (start + n)"
    using fixed_block_step [OF s, of msr] by (simp_all add: add.assoc)
qed

declare fixed_ranges.simps [simp del]

text \<open>The size of a variable range: the highest zero bit of the mask, looked for above bit 12.\<close>

fun mask_size :: "u64 \<Rightarrow> nat \<Rightarrow> u64 option" where
  "mask_size m j =
     (if j > 12 then (if \<not> bit m j then Some (push_bit (j + 1) 1) else mask_size m (j - 1)) else None)"

declare mask_size.simps [simp del]

definition add_variable :: "nat \<Rightarrow> u64 \<Rightarrow> u64 \<Rightarrow> u64 \<Rightarrow> memranges \<Rightarrow> memranges" where
  "add_variable maxphyaddr pb base m st =
     (if bit m 11 then
        (case mask_size (m AND pb) (maxphyaddr - 1) of
           None \<Rightarrow> st
         | Some n \<Rightarrow> addToMemoryRanges (base AND pb) n (uint (base AND 0xff)) st)
      else st)"

fun variable_ranges ::
  "(nat \<Rightarrow> u64) \<Rightarrow> nat \<Rightarrow> u64 \<Rightarrow> nat \<Rightarrow> nat \<Rightarrow> memranges \<Rightarrow> memranges" where
  "variable_ranges msr maxphyaddr pb i 0 st = st"
| "variable_ranges msr maxphyaddr pb i (Suc vcnt) st =
     variable_ranges msr maxphyaddr pb (i + 1) vcnt
       (add_variable maxphyaddr pb (msr (0x200 + i * 2)) (msr (0x201 + i * 2)) st)"

record mtrr_config =
  MTRR_VCNT :: nat
  MTRR_FIX :: bool
  MTRR_FE :: bool
  MTRR_TYPE :: int

definition initMemTypeRanges ::
  "mtrr_config \<Rightarrow> (nat \<Rightarrow> u64) \<Rightarrow> nat \<Rightarrow> u64 \<Rightarrow> memranges \<Rightarrow> (mtrr_error + memranges) option" where
  "initMemTypeRanges cfg msr maxphyaddr pb st =
     (if memoryranges st \<noteq> [] then Some (Inr st)
      else
        let st = (if memoryrangesLength st = 0 then st\<lparr>memoryrangesLength := 32\<rparr> else st);
            st = (if MTRR_FIX cfg \<and> MTRR_FE cfg then fixed_ranges msr 0 0 (-1) st else st);
            st = variable_ranges msr maxphyaddr pb 0 (MTRR_VCNT cfg) st
        in sanitizeMemoryRegions (MTRR_TYPE cfg) st)"

end
