(* ===== verification/MtrrCorrect.thy ===== *)
theory MtrrCorrect
  imports Mtrr "HOL-Library.Multiset"
begin

text \<open>
  The memory ranges of \<open>Mtrr\<close>: the sanitization ends with disjoint sorted ranges and keeps the
  strongest type of every address, the lookup agrees with them, and the registers are read
  as the processor defines them.
\<close>

section \<open>Ranges as sets of addresses\<close>

text \<open>Ranges are not empty and stay below \<open>2 ^ 63\<close>, as \<open>MAXPHYADDR\<close> is at most 52.\<close>

definition range_ok :: "memrange \<Rightarrow> bool" where
  "range_ok r \<longleftrightarrow> mr_size r \<noteq> 0 \<and> unat (startaddress r) + unat (mr_size r) \<le> 2 ^ 63"

definition span :: "memrange \<Rightarrow> nat set" where
  "span r = {unat (startaddress r) ..< unat (startaddress r) + unat (mr_size r)}"

abbreviation disj :: "memrange \<Rightarrow> memrange \<Rightarrow> bool" where
  "disj a b \<equiv> span a \<inter> span b = {}"

lemma size_pos: "range_ok r \<Longrightarrow> 0 < unat (mr_size r)"
  by (simp add: range_ok_def unat_gt_0)

lemma span_nonempty: "range_ok r \<Longrightarrow> span r \<noteq> {}"
  using size_pos [of r] by (auto simp: span_def)

lemma unat_stop:
  assumes "range_ok r"
  shows "unat (stopaddress r) = unat (startaddress r) + unat (mr_size r) - 1"
proof -
  have "unat (startaddress r + mr_size r) = unat (startaddress r) + unat (mr_size r)"
    using assms by (simp add: range_ok_def unat_word_ariths)
  moreover have "1 \<le> startaddress r + mr_size r"
    using size_pos [OF assms] calculation by (simp add: word_le_nat_alt)
  ultimately show ?thesis by (simp add: stopaddress_def unat_sub)
qed

lemma overlap_iff:
  assumes "range_ok a" and "range_ok b"
  shows "startaddress a \<le> stopaddress b \<and> startaddress b \<le> stopaddress a \<longleftrightarrow> \<not> disj a b"
proof -
  have "startaddress a \<le> stopaddress b \<and> startaddress b \<le> stopaddress a \<longleftrightarrow>
        unat (startaddress a) < unat (startaddress b) + unat (mr_size b) \<and>
        unat (startaddress b) < unat (startaddress a) + unat (mr_size a)"
    using size_pos [OF assms(1)] size_pos [OF assms(2)]
    by (auto simp: word_le_nat_alt unat_stop [OF assms(1)] unat_stop [OF assms(2)])
  also have "\<dots> \<longleftrightarrow> \<not> disj a b"
    using size_pos [OF assms(1)] size_pos [OF assms(2)] by (auto simp: span_def ivl_disj_un)
  finally show ?thesis .
qed

section \<open>One split\<close>

abbreviation lo :: "memrange \<Rightarrow> nat" where
  "lo r \<equiv> unat (startaddress r)"

abbreviation hi :: "memrange \<Rightarrow> nat" where
  "hi r \<equiv> unat (startaddress r) + unat (mr_size r)"

lemma unat_min_max:
  "unat (min x y) = min (unat x) (unat y)" "unat (max x y) = max (unat x) (unat y)" for x y :: u64
  by (simp_all add: min_def max_def word_le_nat_alt)

lemma unat_diff_max_min: "unat (max x y - min x y) = max (unat x) (unat y) - min (unat x) (unat y)"
  for x y :: u64
  by (subst unat_sub) (auto simp: unat_min_max word_le_nat_alt min_def max_def)

lemma unat_stop_Suc:
  assumes "range_ok r"
  shows "unat (stopaddress r + 1) = hi r"
  using assms size_pos [OF assms] by (simp add: stopaddress_def range_ok_def unat_word_ariths)

lemma min_max_stop_Suc:
  assumes "range_ok a" and "range_ok b"
  shows "unat (min (stopaddress a) (stopaddress b) + 1) = min (hi a) (hi b)"
    and "unat (max (stopaddress a) (stopaddress b) + 1) = max (hi a) (hi b)"
  using unat_stop_Suc [OF assms(1)] unat_stop_Suc [OF assms(2)]
    size_pos [OF assms(1)] size_pos [OF assms(2)]
  by (auto simp: min_def max_def word_le_nat_alt unat_stop [OF assms(1)] unat_stop [OF assms(2)])

lemma split_bounds:
  assumes "range_ok a" and "range_ok b" and "\<not> disj a b"
  shows "lo (split_left a b) = min (lo a) (lo b)" "hi (split_left a b) = max (lo a) (lo b)"
    "lo (split_right a b) = min (hi a) (hi b)" "hi (split_right a b) = max (hi a) (hi b)"
    "lo (split_overlap a b) = max (lo a) (lo b)" "hi (split_overlap a b) = min (hi a) (hi b)"
    "max (lo a) (lo b) < min (hi a) (hi b)"
proof -
  show lt: "max (lo a) (lo b) < min (hi a) (hi b)"
    using assms(3) size_pos [OF assms(1)] size_pos [OF assms(2)]
    by (force simp: span_def)
  show L: "lo (split_left a b) = min (lo a) (lo b)" "hi (split_left a b) = max (lo a) (lo b)"
    by (simp_all add: split_left_def Let_def unat_min_max unat_diff_max_min)
  show R: "lo (split_right a b) = min (hi a) (hi b)" "hi (split_right a b) = max (hi a) (hi b)"
    using size_pos [OF assms(1)] size_pos [OF assms(2)]
    by (simp_all add: split_right_def Let_def min_max_stop_Suc [OF assms(1,2)] unat_diff_max_min
        unat_stop [OF assms(1)] unat_stop [OF assms(2)])
  have b63: "hi a \<le> 2 ^ 63" "hi b \<le> 2 ^ 63" using assms(1,2) by (simp_all add: range_ok_def)
  have "unat (startaddress (split_left a b) + mr_size (split_left a b)) = hi (split_left a b)"
    using b63 by (simp add: unat_word_ariths L(2))
  then have O: "lo (split_overlap a b) = max (lo a) (lo b)"
    by (simp add: split_overlap_def Let_def L(2))
  have "startaddress (split_overlap a b) \<le> startaddress (split_right a b)"
    using lt by (simp add: word_le_nat_alt O R(1))
  then have "unat (mr_size (split_overlap a b)) = lo (split_right a b) - lo (split_overlap a b)"
    by (simp add: split_overlap_def Let_def unat_sub)
  then show "lo (split_overlap a b) = max (lo a) (lo b)" "hi (split_overlap a b) = min (hi a) (hi b)"
    using O R(1) lt by simp_all
qed

lemma span_eqI: "lo r = l \<Longrightarrow> hi r = h \<Longrightarrow> span r = {l..<h}"
  by (auto simp: span_def)

lemma split_spans:
  assumes "range_ok a" and "range_ok b" and "\<not> disj a b"
  shows "span (split_left a b) = {min (lo a) (lo b)..<max (lo a) (lo b)}"
    and "span (split_right a b) = {min (hi a) (hi b)..<max (hi a) (hi b)}"
    and "span (split_overlap a b) = {max (lo a) (lo b)..<min (hi a) (hi b)}"
  by (rule span_eqI; rule split_bounds [OF assms])+

text \<open>
  The types an operating system uses are ordered by strength, write-back, write-through,
  uncached, and \<open>MTC_RPS\<close> takes the stronger one. 0 stands for no range at all.
\<close>

definition good_type :: "int \<Rightarrow> bool" where
  "good_type t \<longleftrightarrow> t \<in> {MTC_UC, MTC_WT, MTC_WB}"

definition strength :: "int \<Rightarrow> nat" where
  "strength t = (if t = MTC_UC then 3 else if t = MTC_WT then 2 else 1)"

definition type_of_strength :: "int \<Rightarrow> nat \<Rightarrow> int" where
  "type_of_strength def k =
     (if k = 0 then def else if k = 1 then MTC_WB else if k = 2 then MTC_WT else MTC_UC)"

definition strength_at :: "memrange \<Rightarrow> nat \<Rightarrow> nat" where
  "strength_at r x = (if x \<in> span r then strength (memtype r) else 0)"

fun strongest :: "memrange list \<Rightarrow> nat \<Rightarrow> nat" where
  "strongest [] x = 0"
| "strongest (r # rs) x = max (strength_at r x) (strongest rs x)"

lemma strongest_append [simp]: "strongest (rs @ qs) x = max (strongest rs x) (strongest qs x)"
  by (induction rs) (simp_all add: max.assoc)

lemma RPS_strength:
  "good_type s \<Longrightarrow> good_type t \<Longrightarrow> good_type (MTC_RPS s t) \<and> strength (MTC_RPS s t) = max (strength s) (strength t)"
  by (auto simp: good_type_def MTC_RPS_def strength_def)

definition nonempty :: "memrange \<Rightarrow> memrange list" where
  "nonempty r = (if mr_size r = 0 then [] else [r])"

lemma strongest_nonempty [simp]: "strongest (nonempty r) x = strength_at r x"
  by (simp add: nonempty_def strength_at_def span_def)

lemma split_strength:
  assumes "range_ok a" and "range_ok b" and "\<not> disj a b"
    and good: "good_type (memtype a)" "good_type (memtype b)"
  shows "max (strength_at (split_overlap a b) x)
           (max (strength_at (split_left a b) x) (strength_at (split_right a b) x)) =
         max (strength_at a x) (strength_at b x)"
proof -
  note bounds = split_bounds [OF assms(1-3)]
  have mO: "strength (memtype (split_overlap a b)) = max (strength (memtype a)) (strength (memtype b))"
    using RPS_strength [OF good] by (simp add: split_overlap_def Let_def)
  have mL: "memtype (split_left a b) = (if lo a < lo b then memtype a else memtype b)"
    by (simp add: split_left_def Let_def word_less_nat_alt)
  have mR: "memtype (split_right a b) = (if hi b < hi a then memtype a else memtype b)"
    using size_pos [OF assms(1)] size_pos [OF assms(2)]
    by (auto simp: split_right_def Let_def word_less_nat_alt unat_stop [OF assms(1)] unat_stop [OF assms(2)])
  note eqs = strength_at_def mO mL mR split_spans [OF assms(1-3)] atLeastLessThan_iff
  have sp: "x \<in> span a \<longleftrightarrow> lo a \<le> x \<and> x < hi a" "x \<in> span b \<longleftrightarrow> lo b \<le> x \<and> x < hi b"
    by (simp_all add: span_def)
  then consider "lo a \<le> x" "x < hi a" "lo b \<le> x" "x < hi b"
    | "lo a \<le> x" "x < hi a" "x < lo b" | "lo a \<le> x" "x < hi a" "hi b \<le> x"
    | "lo b \<le> x" "x < hi b" "x < lo a" | "lo b \<le> x" "x < hi b" "hi a \<le> x"
    | "x \<notin> span a" "x \<notin> span b"
    by linarith
  then show ?thesis
  proof cases
    case 6
    then have "x \<notin> span (split_overlap a b)" "x \<notin> span (split_left a b)" "x \<notin> span (split_right a b)"
      unfolding split_spans [OF assms(1-3)] sp atLeastLessThan_iff using bounds(7) by linarith+
    then show ?thesis using 6 by (simp add: strength_at_def)
  qed (use bounds(7) in \<open>simp add: eqs sp\<close>)+
qed

lemma split_ok:
  assumes "range_ok a" and "range_ok b" and "\<not> disj a b"
  shows "range_ok (split_overlap a b)"
    and "r \<in> set (nonempty (split_left a b) @ nonempty (split_right a b)) \<Longrightarrow>
      range_ok r \<and> span r \<subseteq> span a \<union> span b \<and> disj (split_overlap a b) r"
    and "span (split_overlap a b) = span a \<inter> span b"
    and "good_type (memtype a) \<Longrightarrow> good_type (memtype b) \<Longrightarrow>
      \<forall>r \<in> set (split_overlap a b # nonempty (split_left a b) @ nonempty (split_right a b)). good_type (memtype r)"
    and "unat (mr_size (split_overlap a b)) + (unat (mr_size (split_left a b)) + unat (mr_size (split_right a b)))
      < unat (mr_size a) + unat (mr_size b)"
proof -
  note bounds = split_bounds [OF assms(1-3)]
  have b63: "hi a \<le> 2 ^ 63" "hi b \<le> 2 ^ 63" using assms(1,2) by (simp_all add: range_ok_def)
  have ok: "range_ok r" if "lo r < hi r" "hi r \<le> 2 ^ 63" for r
    using that by (auto simp: range_ok_def unat_gt_0 [symmetric])
  show "range_ok (split_overlap a b)"
    by (rule ok) (use bounds(5-7) b63 in linarith)+
  show "span (split_overlap a b) = span a \<inter> span b"
    unfolding split_spans [OF assms] by (auto simp: span_def)
  show "range_ok r \<and> span r \<subseteq> span a \<union> span b \<and> disj (split_overlap a b) r"
    if "r \<in> set (nonempty (split_left a b) @ nonempty (split_right a b))"
  proof -
    have r: "0 < unat (mr_size r)" "r = split_left a b \<or> r = split_right a b"
      using that by (auto simp: nonempty_def unat_gt_0 split: if_splits)
    then have "lo r < hi r" by simp
    moreover have "hi (split_left a b) \<le> 2 ^ 63" "hi (split_right a b) \<le> 2 ^ 63"
      using b63 bounds by linarith+
    then have "hi r \<le> 2 ^ 63" using r(2) by blast
    moreover have "span r \<subseteq> span a \<union> span b \<and> disj (split_overlap a b) r"
      using r(2) bounds(7) by (auto simp: split_spans [OF assms]) (auto simp: span_def)
    ultimately show ?thesis using ok by blast
  qed
  show "\<forall>r \<in> set (split_overlap a b # nonempty (split_left a b) @ nonempty (split_right a b)). good_type (memtype r)"
    if "good_type (memtype a)" "good_type (memtype b)"
    using that RPS_strength [OF that]
    by (auto simp: nonempty_def split_overlap_def split_left_def split_right_def Let_def split: if_splits)
  have "unat (mr_size (split_overlap a b)) + max (lo a) (lo b) = min (hi a) (hi b)"
    "unat (mr_size (split_left a b)) + min (lo a) (lo b) = max (lo a) (lo b)"
    "unat (mr_size (split_right a b)) + min (hi a) (hi b) = max (hi a) (hi b)"
    using bounds by linarith+
  then show "unat (mr_size (split_overlap a b)) + (unat (mr_size (split_left a b)) + unat (mr_size (split_right a b)))
      < unat (mr_size a) + unat (mr_size b)"
    using bounds(7) by linarith
qed

section \<open>The sanitization\<close>

lemma memoryranges_add:
  "memoryranges (addToMemoryRanges (startaddress r) (mr_size r) (memtype r) st) = memoryranges st @ nonempty r"
  by (simp add: addToMemoryRanges_def nonempty_def Let_def)

lemma split_ranges_list:
  assumes "memoryranges st = P @ a # Q @ b # T"
  shows "memoryranges (split_ranges (length P) (Suc (length P + length Q)) st) =
    P @ split_overlap a b # Q @ T @ nonempty (split_left a b) @ nonempty (split_right a b)"
proof -
  have j: "(P @ a # Q @ b # T) ! Suc (length P + length Q) = b"
    by (simp add: nth_append)
  define rs where "rs = P @ split_overlap a b # Q @ b # T @ nonempty (split_left a b) @ nonempty (split_right a b)"
  have "take (length rs - 1) (shift_down rs (Suc (length P + length Q)) (length rs)) =
      P @ split_overlap a b # Q @ T @ nonempty (split_left a b) @ nonempty (split_right a b)"
    by (subst shift_down_remove) (simp_all add: rs_def)
  then show ?thesis
    by (simp add: split_ranges_def Let_def j memoryranges_add assms rs_def add.assoc)
qed

definition ranges_ok :: "memrange list \<Rightarrow> bool" where
  "ranges_ok rs \<longleftrightarrow> (\<forall>r \<in> set rs. range_ok r)"

definition good_types :: "memrange list \<Rightarrow> bool" where
  "good_types rs \<longleftrightarrow> (\<forall>r \<in> set rs. good_type (memtype r))"

definition cover :: "memrange list \<Rightarrow> nat set" where
  "cover rs = (\<Union>r \<in> set rs. span r)"

definition total :: "memrange list \<Rightarrow> nat" where
  "total rs = (\<Sum>r \<leftarrow> rs. unat (mr_size r))"

lemma ranges_simps [simp]:
  "ranges_ok []" "ranges_ok (r # rs) \<longleftrightarrow> range_ok r \<and> ranges_ok rs" "ranges_ok (rs @ qs) \<longleftrightarrow> ranges_ok rs \<and> ranges_ok qs"
  "good_types []" "good_types (r # rs) \<longleftrightarrow> good_type (memtype r) \<and> good_types rs"
  "good_types (rs @ qs) \<longleftrightarrow> good_types rs \<and> good_types qs"
  "cover [] = {}" "cover (r # rs) = span r \<union> cover rs" "cover (rs @ qs) = cover rs \<union> cover qs"
  "total [] = 0" "total (r # rs) = unat (mr_size r) + total rs" "total (rs @ qs) = total rs + total qs"
  by (auto simp: ranges_ok_def good_types_def cover_def total_def)

lemma nonempty_simps [simp]:
  "total (nonempty r) = unat (mr_size r)" "cover (nonempty r) = span r" "length (nonempty r) \<le> Suc 0"
  by (auto simp: nonempty_def span_def)

text \<open>What one step of the sanitization keeps of the ranges from the current entry on.\<close>

definition refines :: "memrange list \<Rightarrow> memrange list \<Rightarrow> bool" where
  "refines rs qs \<longleftrightarrow> ranges_ok qs \<and> cover qs \<subseteq> cover rs \<and> total qs \<le> total rs \<and>
     (good_types rs \<longrightarrow> good_types qs \<and> strongest qs = strongest rs)"

lemma refines_trans: "refines rs qs \<Longrightarrow> refines qs ps \<Longrightarrow> refines rs ps"
  by (auto simp: refines_def)

lemma split_refines:
  assumes "ranges_ok (a # Q @ b # T)" and "\<not> disj a b"
  shows "refines (a # Q @ b # T) (split_overlap a b # Q @ T @ nonempty (split_left a b) @ nonempty (split_right a b))"
    and "total (split_overlap a b # Q @ T @ nonempty (split_left a b) @ nonempty (split_right a b)) < total (a # Q @ b # T)"
proof -
  have ok: "range_ok a" "range_ok b" using assms(1) by simp_all
  note s = split_ok [OF ok assms(2)]
  show lt: "total (split_overlap a b # Q @ T @ nonempty (split_left a b) @ nonempty (split_right a b)) < total (a # Q @ b # T)"
    using s(5) by simp
  have "ranges_ok (nonempty (split_left a b) @ nonempty (split_right a b))"
    using s(2) unfolding ranges_ok_def by blast
  moreover have "cover (nonempty (split_left a b) @ nonempty (split_right a b)) \<subseteq> span a \<union> span b"
    using s(2) unfolding cover_def by blast
  moreover have "strongest (split_overlap a b # Q @ T @ nonempty (split_left a b) @ nonempty (split_right a b)) x =
      strongest (a # Q @ b # T) x" if "good_types (a # Q @ b # T)" for x
    using split_strength [OF ok assms(2), of x] that
    by (simp add: max.assoc max.commute max.left_commute)
  moreover have "good_types (split_overlap a b # Q @ T @ nonempty (split_left a b) @ nonempty (split_right a b))"
    if "good_types (a # Q @ b # T)"
    using that s(4) by (auto simp: good_types_def)
  ultimately show "refines (a # Q @ b # T) (split_overlap a b # Q @ T @ nonempty (split_left a b) @ nonempty (split_right a b))"
    unfolding refines_def using assms(1) s(1,3) lt by (simp add: fun_eq_iff) blast
qed

text \<open>
  Every piece of a split begins and ends where some original range begins or ends. The sum over
  the ranges of the number of such points in them never grows, and bounds the length of the list.
\<close>

definition points_in :: "nat set \<Rightarrow> memrange list \<Rightarrow> nat" where
  "points_in E rs = (\<Sum>r \<leftarrow> rs. card (E \<inter> span r))"

definition few_ranges :: "memrange list \<Rightarrow> bool" where
  "few_ranges rs \<longleftrightarrow> ranges_ok rs \<and>
     (\<exists>E. finite E \<and> (\<forall>r \<in> set rs. lo r \<in> E \<and> hi r \<in> E) \<and> points_in E rs \<le> 101)"

lemma points_in_simps [simp]:
  "points_in E [] = 0" "points_in E (r # rs) = card (E \<inter> span r) + points_in E rs"
  "points_in E (rs @ qs) = points_in E rs + points_in E qs" "points_in E (nonempty r) = card (E \<inter> span r)"
  by (simp_all add: points_in_def nonempty_def span_def)

lemma length_le_points:
  assumes "finite E" and "ranges_ok rs" and "\<forall>r \<in> set rs. lo r \<in> E"
  shows "length rs \<le> points_in E rs"
  using assms(2,3)
proof (induction rs)
  case (Cons r rs)
  have "lo r \<in> E \<inter> span r" using Cons.prems size_pos [of r] by (simp add: span_def)
  then have "0 < card (E \<inter> span r)" using assms(1) by (auto simp: card_gt_0_iff)
  then show ?case using Cons by simp
qed simp

lemma few_ranges_length: "few_ranges rs \<Longrightarrow> length rs \<le> 101"
  using length_le_points unfolding few_ranges_def by (meson le_trans)

lemma card_interval:
  fixes l h :: nat
  assumes "finite E" and "l \<le> h"
  shows "card (E \<inter> {l..<h}) + card (E \<inter> {..<l}) = card (E \<inter> {..<h})"
proof -
  have "E \<inter> {..<h} = (E \<inter> {l..<h}) \<union> (E \<inter> {..<l})" using assms(2) by auto
  also have "card \<dots> = card (E \<inter> {l..<h}) + card (E \<inter> {..<l})"
    using assms(1) by (intro card_Un_disjoint) auto
  finally show ?thesis by simp
qed

lemma split_points:
  assumes "range_ok a" and "range_ok b" and "\<not> disj a b" and "finite E"
  shows "card (E \<inter> span (split_overlap a b)) + (card (E \<inter> span (split_left a b)) + card (E \<inter> span (split_right a b)))
    \<le> card (E \<inter> span a) + card (E \<inter> span b)"
proof -
  define f where "f h = card (E \<inter> {..<h})" for h
  have mono: "f l \<le> f h" if "l \<le> h" for l h
    unfolding f_def using assms(4) that by (intro card_mono) auto
  have ab: "card (E \<inter> span a) + f (lo a) = f (hi a)" "card (E \<inter> span b) + f (lo b) = f (hi b)"
    unfolding span_def f_def by (rule card_interval; use assms(4) in simp)+
  note bounds = split_bounds [OF assms(1-3)]
  have "max (lo a) (lo b) \<le> min (hi a) (hi b)" using bounds(7) by simp
  then have "card (E \<inter> span (split_overlap a b)) + f (max (lo a) (lo b)) = f (min (hi a) (hi b))"
    "card (E \<inter> span (split_left a b)) + f (min (lo a) (lo b)) = f (max (lo a) (lo b))"
    "card (E \<inter> span (split_right a b)) + f (min (hi a) (hi b)) = f (max (hi a) (hi b))"
    unfolding split_spans [OF assms(1-3)] f_def by (intro card_interval assms(4); simp)+
  moreover have "f (max (lo a) (lo b)) \<le> f (min (hi a) (hi b))" using bounds(7) by (intro mono) simp
  ultimately show ?thesis using ab
    by (cases "lo a \<le> lo b"; cases "hi a \<le> hi b") (simp_all add: min_def max_def)
qed

lemma split_few:
  assumes "few_ranges (P @ a # Q @ b # T)" and "\<not> disj a b"
  shows "few_ranges (P @ split_overlap a b # Q @ T @ nonempty (split_left a b) @ nonempty (split_right a b))"
proof -
  obtain E where ok: "ranges_ok (P @ a # Q @ b # T)" and E: "finite E"
      "\<forall>r \<in> set (P @ a # Q @ b # T). lo r \<in> E \<and> hi r \<in> E" "points_in E (P @ a # Q @ b # T) \<le> 101"
    using assms(1) unfolding few_ranges_def by blast
  have ab: "range_ok a" "range_ok b" using ok by simp_all
  note bounds = split_bounds [OF ab assms(2)]
  have mm: "min x y \<in> E" "max x y \<in> E" if "x \<in> E" "y \<in> E" for x y
    using that by (simp_all add: min_def max_def)
  have e: "lo a \<in> E" "hi a \<in> E" "lo b \<in> E" "hi b \<in> E" using E(2) by simp_all
  have mem: "lo r \<in> E \<and> hi r \<in> E" if "lo r = l" "hi r = h" "l \<in> E" "h \<in> E" for r l h
    using that by simp
  have "\<forall>r \<in> {split_overlap a b, split_left a b, split_right a b}. lo r \<in> E \<and> hi r \<in> E"
    using mem [OF bounds(5,6) mm(2) [OF e(1,3)] mm(1) [OF e(2,4)]]
      mem [OF bounds(1,2) mm(1) [OF e(1,3)] mm(2) [OF e(1,3)]]
      mem [OF bounds(3,4) mm(1) [OF e(2,4)] mm(2) [OF e(2,4)]] by blast
  then have "\<forall>r \<in> set (P @ split_overlap a b # Q @ T @ nonempty (split_left a b) @ nonempty (split_right a b)).
      lo r \<in> E \<and> hi r \<in> E"
    using E(2) by (auto simp: nonempty_def)
  moreover have "ranges_ok (P @ split_overlap a b # Q @ T @ nonempty (split_left a b) @ nonempty (split_right a b))"
    using split_refines(1) [of a Q b T] ok assms(2) by (simp add: refines_def)
  moreover have "points_in E (P @ split_overlap a b # Q @ T @ nonempty (split_left a b) @ nonempty (split_right a b)) \<le> 101"
    using split_points [OF ab assms(2) E(1)] E(3) by simp
  ultimately show ?thesis using E(1) unfolding few_ranges_def by blast
qed

lemma seven_ranges_few:
  assumes "ranges_ok rs" and "length rs \<le> 7"
  shows "few_ranges rs"
proof -
  define E where "E = lo ` set rs \<union> hi ` set rs"
  have fin: "finite E" by (simp add: E_def)
  have "card (lo ` set rs) \<le> 7" "card (hi ` set rs) \<le> 7"
    using assms(2) by (meson card_image_le card_length finite_set le_trans)+
  then have card: "card E \<le> 14" unfolding E_def by (intro le_trans [OF card_Un_le]) simp
  have "card (E \<inter> span r) \<le> 13" if r: "r \<in> set rs" for r
  proof -
    have "hi r \<in> E" using r by (simp add: E_def)
    then have "E \<inter> span r \<subset> E" by (auto simp: span_def)
    then have "card (E \<inter> span r) < card E" by (rule psubset_card_mono [OF fin])
    then show ?thesis using card by linarith
  qed
  then have "points_in E rs \<le> (\<Sum>r \<leftarrow> rs. 13)" unfolding points_in_def by (intro sum_list_mono) simp
  then have "points_in E rs \<le> 101" using assms(2) by (simp add: sum_list_triv)
  moreover have "\<forall>r \<in> set rs. lo r \<in> E \<and> hi r \<in> E" by (simp add: E_def)
  ultimately show ?thesis using assms(1) fin unfolding few_ranges_def by blast
qed

lemma sanitize_entry_ok:
  assumes "memoryranges st = P @ a # Q @ R" and "ranges_ok (a # Q @ R)" and "\<forall>q \<in> set Q. disj a q"
  shows "\<exists>y. sanitize_entry (length P) (Suc (length P + length Q)) st = Some y \<and>
    (\<forall>st'. y = Inr st' \<longrightarrow> (\<exists>a' R'. memoryranges st' = P @ a' # R' \<and> refines (a # Q @ R) (a' # R') \<and>
      (\<forall>r \<in> set R'. disj a' r))) \<and>
    (few_ranges (P @ a # Q @ R) \<longrightarrow> (\<exists>st'. y = Inr st' \<and> few_ranges (memoryranges st')))"
  using assms
proof (induction "2 * total (a # Q @ R) + length R" arbitrary: st a Q R rule: less_induct)
  case less
  note step = sanitize_entry.simps [of "length P" "Suc (length P + length Q)" st]
  show ?case
  proof (cases R)
    case Nil
    then show ?thesis
      using less.prems by (subst step) (auto simp: refines_def)
  next
    case (Cons b T)
    have i: "memoryranges st ! length P = a" and j: "memoryranges st ! Suc (length P + length Q) = b"
      and len: "Suc (length P + length Q) < length (memoryranges st)"
      by (simp_all add: less.prems(1) Cons nth_append)
    have ok: "range_ok a" "range_ok b" using less.prems(2) Cons by simp_all
    then have nz: "mr_size b \<noteq> 0" by (simp add: range_ok_def)
    note step = step [unfolded i j overlap_iff [OF ok]]
    consider "Suc (length P + length Q) > 100" | "\<not> Suc (length P + length Q) > 100" "disj a b"
      | "\<not> Suc (length P + length Q) > 100" "\<not> disj a b" by blast
    then show ?thesis
    proof cases
      case 1
      have "\<not> few_ranges (P @ a # Q @ R)"
        using few_ranges_length [of "P @ a # Q @ R"] 1 by (auto simp: Cons)
      then show ?thesis using 1 len nz by (simp add: step)
    next
      case 2
      have "sanitize_entry (length P) (Suc (length P + length Q)) st =
          sanitize_entry (length P) (Suc (length P + length (Q @ [b]))) st"
        using 2 len nz by (simp add: step)
      with less.hyps [of a "Q @ [b]" T st] less.prems Cons 2 show ?thesis by auto
    next
      case 3
      let ?L = "nonempty (split_left a b) @ nonempty (split_right a b)"
      have s: "refines (a # Q @ R) (split_overlap a b # Q @ T @ ?L)"
        "total (split_overlap a b # Q @ T @ ?L) < total (a # Q @ R)"
        using split_refines less.prems(2) 3 unfolding Cons by blast+
      have "length (T @ ?L) \<le> Suc (length R)"
        unfolding Cons length_append list.size
        using nonempty_simps(3) [of "split_left a b"] nonempty_simps(3) [of "split_right a b"] by linarith
      then have lt: "2 * total (split_overlap a b # Q @ T @ ?L) + length (T @ ?L) < 2 * total (a # Q @ R) + length R"
        using s(2) by linarith
      have "\<forall>q \<in> set Q. disj (split_overlap a b) q"
        using less.prems(3) split_ok(3) [OF ok 3(2)] by blast
      moreover have "ranges_ok (split_overlap a b # Q @ T @ ?L)" using s(1) by (simp add: refines_def)
      ultimately obtain y where
        "sanitize_entry (length P) (Suc (length P + length Q)) (split_ranges (length P) (Suc (length P + length Q)) st) = Some y"
        and y: "\<forall>st'. y = Inr st' \<longrightarrow> (\<exists>a' R'. memoryranges st' = P @ a' # R' \<and>
          refines (split_overlap a b # Q @ T @ ?L) (a' # R') \<and> (\<forall>r \<in> set R'. disj a' r))"
          "few_ranges (P @ split_overlap a b # Q @ T @ ?L) \<longrightarrow> (\<exists>st'. y = Inr st' \<and> few_ranges (memoryranges st'))"
        using less.hyps [OF lt, of "split_ranges (length P) (Suc (length P + length Q)) st"]
          split_ranges_list [of st P a Q b T] less.prems(1) Cons by auto
      then have "sanitize_entry (length P) (Suc (length P + length Q)) st = Some y"
        using 3 len nz by (simp add: step)
      moreover have "few_ranges (P @ a # Q @ R) \<longrightarrow> few_ranges (P @ split_overlap a b # Q @ T @ ?L)"
        using split_few 3(2) unfolding Cons by blast
      ultimately show ?thesis using y refines_trans [OF s(1)] by blast
    qed
  qed
qed

text \<open>The entries before the current one are disjoint from everything that follows.\<close>

lemma sanitize_entries_ok:
  assumes "memoryranges st = P @ R" and "ranges_ok R" and "sorted_wrt disj P"
    and "\<forall>p \<in> set P. span p \<inter> cover R = {}"
  shows "\<exists>y. sanitize_entries (length P) st = Some y \<and>
    (\<forall>st'. y = Inr st' \<longrightarrow> (\<exists>R'. memoryranges st' = P @ R' \<and> refines R R' \<and> sorted_wrt disj (P @ R'))) \<and>
    (few_ranges (P @ R) \<longrightarrow> (\<exists>st'. y = Inr st'))"
  using assms
proof (induction "total R" arbitrary: st P R rule: less_induct)
  case less
  note step = sanitize_entries.simps [of "length P" st]
  show ?case
  proof (cases R)
    case Nil
    then show ?thesis using less.prems by (subst step) (auto simp: refines_def)
  next
    case (Cons a Q)
    have i: "memoryranges st ! length P = a" and len: "length P < length (memoryranges st)"
      by (simp_all add: less.prems(1) Cons)
    have ok: "range_ok a" using less.prems(2) Cons by simp
    then have nz: "mr_size a \<noteq> 0" by (simp add: range_ok_def)
    obtain y where y: "sanitize_entry (length P) (Suc (length P)) st = Some y"
      and inr: "\<forall>st'. y = Inr st' \<longrightarrow> (\<exists>a' R'. memoryranges st' = P @ a' # R' \<and>
        refines R (a' # R') \<and> (\<forall>r \<in> set R'. disj a' r))"
      and few: "few_ranges (P @ R) \<longrightarrow> (\<exists>st'. y = Inr st' \<and> few_ranges (memoryranges st'))"
      using sanitize_entry_ok [of st P a "[]" Q] less.prems(1,2) Cons by auto
    show ?thesis
    proof (cases "length P > 100 \<or> (\<exists>e. y = Inl e)")
      case True
      have "length P \<le> 100" if "few_ranges (P @ R)" using few_ranges_length [OF that] Cons by simp
      then have "\<not> few_ranges (P @ R)" using True few by force
      then show ?thesis using True nz y len by (subst step) (auto simp: i)
    next
      case False
      then obtain st' where st': "y = Inr st'" by (cases y) auto
      then obtain a' R' where R': "memoryranges st' = (P @ [a']) @ R'" "refines R (a' # R')"
        "\<forall>r \<in> set R'. disj a' r"
        using inr by auto
      have eq: "sanitize_entries (length P) st = sanitize_entries (length (P @ [a'])) st'"
        using False nz y len st' by (subst step) (simp add: i)
      have r: "range_ok a'" "ranges_ok R'" "cover (a' # R') \<subseteq> cover R" "total (a' # R') \<le> total R"
        using R'(2) by (auto simp: refines_def)
      have "total R' < total R" using r(4) size_pos [OF r(1)] by simp
      moreover have "sorted_wrt disj (P @ [a'])"
        using less.prems(3,4) r(3) by (auto simp: sorted_wrt_append)
      moreover have "\<forall>p \<in> set (P @ [a']). span p \<inter> cover R' = {}"
      proof -
        have "span a' \<inter> cover R' = {}" using R'(3) by (auto simp: cover_def)
        moreover have "span p \<inter> cover R' = {}" if "p \<in> set P" for p
          using less.prems(4) r(3) that by (metis Un_subset_iff disjoint_iff ranges_simps(8) subsetD)
        ultimately show ?thesis by auto
      qed
      ultimately obtain z where z: "sanitize_entries (length (P @ [a'])) st' = Some z"
        "\<forall>st''. z = Inr st'' \<longrightarrow> (\<exists>Q'. memoryranges st'' = (P @ [a']) @ Q' \<and> refines R' Q' \<and>
          sorted_wrt disj ((P @ [a']) @ Q'))"
        "few_ranges ((P @ [a']) @ R') \<longrightarrow> (\<exists>st'. z = Inr st')"
        using less.hyps [of R' st' "P @ [a']"] R'(1) r(2) by blast
      have "refines R (a' # Q')" if "refines R' Q'" for Q'
      proof (rule refines_trans [OF R'(2)])
        show "refines (a' # R') (a' # Q')"
          using that r(1) by (auto simp: refines_def fun_eq_iff)
      qed
      moreover have "few_ranges (P @ R) \<longrightarrow> few_ranges ((P @ [a']) @ R')" using few st' R'(1) by auto
      ultimately show ?thesis using z eq by fastforce
    qed
  qed
qed

lemma drop_default_eq:
  "i \<le> length rs \<Longrightarrow> drop_default def i rs = take i rs @ filter (\<lambda>r. memtype r \<noteq> def) (drop i rs)"
proof (induction def i rs rule: drop_default.induct)
  case (1 def i rs)
  show ?case
  proof (cases "i < length rs")
    case True
    note d = Cons_nth_drop_Suc [OF True, symmetric]
    show ?thesis
    proof (cases "memtype (rs ! i) = def")
      case eq: True
      let ?rs = "take i rs @ drop (Suc i) rs"
      have sh: "take (length rs - 1) (shift_down rs i (length rs)) = ?rs"
        using True by (rule shift_down_remove)
      have "drop_default def i rs = drop_default def i ?rs"
        by (subst drop_default.simps) (simp add: True eq sh [simplified])
      also have "\<dots> = take i ?rs @ filter (\<lambda>r. memtype r \<noteq> def) (drop i ?rs)"
        using 1(1) [OF True eq] True unfolding sh by simp
      finally show ?thesis using True eq by (simp add: d)
    next
      case False
      have "drop_default def i rs = drop_default def (Suc i) rs"
        by (subst drop_default.simps) (simp add: True False)
      then show ?thesis using 1(2) [OF True False] True False
        by (simp add: d take_Suc_conv_app_nth)
    qed
  next
    case False
    then show ?thesis using 1(3) by (subst drop_default.simps) simp
  qed
qed

text \<open>The exchange sort: after round \<open>i\<close> the entry \<open>i\<close> is a minimum of the rest.\<close>

definition minimal_at :: "memrange list \<Rightarrow> nat \<Rightarrow> bool" where
  "minimal_at rs m \<longleftrightarrow> (\<forall>k. m \<le> k \<longrightarrow> k < length rs \<longrightarrow> startaddress (rs ! m) \<le> startaddress (rs ! k))"

lemma sort_inner_ok:
  assumes "i \<le> j" and "i < length rs" and "\<forall>k. i \<le> k \<longrightarrow> k < j \<longrightarrow> startaddress (rs ! i) \<le> startaddress (rs ! k)"
    and "j \<le> length rs"
  shows "mset (sort_inner i j rs) = mset rs \<and> take i (sort_inner i j rs) = take i rs \<and> minimal_at (sort_inner i j rs) i"
  using assms
proof (induction i j rs rule: sort_inner.induct)
  case (1 i j rs)
  note step = sort_inner.simps [of i j rs]
  let ?rs = "if startaddress (rs ! j) < startaddress (rs ! i) then rs[i := rs ! j, j := rs ! i] else rs"
  show ?case
  proof (cases "j < length rs")
    case True
    have "\<forall>k. i \<le> k \<longrightarrow> k < j + 1 \<longrightarrow> startaddress (?rs ! i) \<le> startaddress (?rs ! k)"
      using 1(3,4) "1.prems"(1) True
      by (auto simp: nth_list_update less_Suc_eq)
    moreover have "mset ?rs = mset rs" using 1(3) True by (simp add: mset_swap)
    moreover have "take i ?rs = take i rs" using 1(2) by simp
    ultimately show ?thesis using 1(1) [OF True] 1(2,3) True by (simp add: step)
  next
    case False
    then have "sort_inner i j rs = rs" by (simp add: step)
    then show ?thesis using 1(4,5) False by (simp add: minimal_at_def)
  qed
qed

lemma sort_ranges_ok:
  assumes "\<forall>m < i. minimal_at rs m" and "i \<le> length rs"
  shows "mset (sort_ranges i rs) = mset rs \<and> sorted (map startaddress (sort_ranges i rs))"
  using assms
proof (induction i rs rule: sort_ranges.induct)
  case (1 i rs)
  note step = sort_ranges.simps [of i rs]
  show ?case
  proof (cases "i < length rs")
    case True
    let ?rs = "sort_inner i i rs"
    have s: "mset ?rs = mset rs" "take i ?rs = take i rs" "minimal_at ?rs i"
      using sort_inner_ok [of i i rs] True by auto
    have "mset (take i ?rs) + mset (drop i ?rs) = mset (take i rs) + mset (drop i rs)"
      using s(1) by (simp flip: mset_append)
    then have "mset (drop i ?rs) = mset (drop i rs)" using s(2) by simp
    then have rest: "set (drop i ?rs) = set (drop i rs)" by (metis set_mset_mset)
    have "minimal_at ?rs m" if m: "m < i" for m
      unfolding minimal_at_def
    proof (intro allI impI)
      fix k assume k: "m \<le> k" "k < length ?rs"
      have eq: "?rs ! x = rs ! x" if "x < i" for x using s(2) that by (metis nth_take)
      show "startaddress (?rs ! m) \<le> startaddress (?rs ! k)"
      proof (cases "k < i")
        case False
        then have "drop i ?rs ! (k - i) \<in> set (drop i ?rs)" using k(2) by (intro nth_mem) simp
        then have "?rs ! k \<in> set (drop i rs)" using k(2) False rest by simp
        then obtain n' where "n' < length (drop i rs)" "?rs ! k = drop i rs ! n'" by (metis in_set_conv_nth)
        then obtain n where "i \<le> n" "n < length rs" "?rs ! k = rs ! n" by (auto intro: that [of "i + n'"])
        then show ?thesis using 1(2) m eq [OF m] by (simp add: minimal_at_def)
      qed (use 1(2) m k eq in \<open>simp add: minimal_at_def\<close>)
    qed
    then have "\<forall>m < i + 1. minimal_at ?rs m" using s(3) by (simp add: less_Suc_eq)
    then show ?thesis using 1(1) [OF True] True s(1) by (simp add: step)
  next
    case False
    then have "sort_ranges i rs = rs" by (simp add: step)
    then show ?thesis using 1(2,3) False by (auto simp: sorted_iff_nth_mono minimal_at_def)
  qed
qed

lemma sorted_wrt_disj_iff:
  "ranges_ok rs \<Longrightarrow> sorted_wrt disj rs \<longleftrightarrow> distinct rs \<and> (\<forall>a \<in> set rs. \<forall>b \<in> set rs. a \<noteq> b \<longrightarrow> disj a b)"
  by (rule sorted_wrt_symmetric) (auto simp: ranges_ok_def dest: span_nonempty)

text \<open>What the lookup relies on, and the type the ranges give an address.\<close>

definition ordered :: "memrange list \<Rightarrow> bool" where
  "ordered rs \<longleftrightarrow> ranges_ok rs \<and> sorted_wrt (\<lambda>a b. hi a \<le> lo b) rs"

definition type_at :: "int \<Rightarrow> memrange list \<Rightarrow> nat \<Rightarrow> int" where
  "type_at def rs x = (case find (\<lambda>r. x \<in> span r) rs of Some r \<Rightarrow> memtype r | None \<Rightarrow> def)"

lemma sorted_disj_ordered:
  assumes "ranges_ok rs" and "sorted_wrt disj rs" and "sorted (map startaddress rs)"
  shows "ordered rs"
  unfolding ordered_def
proof
  show "sorted_wrt (\<lambda>a b. hi a \<le> lo b) rs"
    unfolding sorted_wrt_iff_nth_less
  proof (intro allI impI)
    fix m n assume mn: "m < n" "n < length rs"
    then have "disj (rs ! m) (rs ! n)" "startaddress (rs ! m) \<le> startaddress (rs ! n)"
      using assms(2,3) by (auto simp: sorted_wrt_iff_nth_less)
    moreover have "range_ok (rs ! m)" "range_ok (rs ! n)"
      using assms(1) mn by (simp_all add: ranges_ok_def)
    ultimately have "lo (rs ! m) \<le> lo (rs ! n)" "lo (rs ! n) \<notin> span (rs ! m)"
      using size_pos [of "rs ! n"] by (auto simp: word_le_nat_alt span_def)
    then show "hi (rs ! m) \<le> lo (rs ! n)" by (simp add: span_def)
  qed
qed (rule assms(1))

lemma type_at_disjoint:
  assumes "sorted_wrt disj rs" and "r \<in> set rs" and "x \<in> span r"
  shows "type_at def rs x = memtype r"
proof -
  have "find (\<lambda>r. x \<in> span r) rs = Some r"
    using assms by (induction rs) auto
  then show ?thesis by (simp add: type_at_def)
qed

lemma type_at_outside: "x \<notin> cover rs \<Longrightarrow> type_at def rs x = def"
  by (auto simp: type_at_def cover_def find_None_iff split: option.splits) (metis find_Some_iff nth_mem)

lemma strongest_disjoint:
  assumes "sorted_wrt disj rs" and "r \<in> set rs" and "x \<in> span r"
  shows "strongest rs x = strength (memtype r)"
proof -
  have none: "strongest qs x = 0" if "\<forall>q \<in> set qs. x \<notin> span q" for qs
    using that by (induction qs) (auto simp: strength_at_def)
  show ?thesis
    using assms
  proof (induction rs)
    case (Cons q rs)
    show ?case
    proof (cases "r = q")
      case True
      then have "strongest rs x = 0" using Cons.prems by (intro none) auto
      then show ?thesis using True Cons.prems by (simp add: strength_at_def)
    next
      case False
      then have "x \<notin> span q" "r \<in> set rs" using Cons.prems by auto
      then show ?thesis using Cons by (simp add: strength_at_def)
    qed
  qed simp
qed

lemma strongest_outside: "x \<notin> cover rs \<Longrightarrow> strongest rs x = 0"
  by (induction rs) (auto simp: strength_at_def)

lemma type_of_strength: "good_type t \<Longrightarrow> type_of_strength def (strength t) = t"
  by (auto simp: good_type_def type_of_strength_def strength_def)

lemma find_disjoint_type:
  assumes "sorted_wrt disj rs" and "good_types rs" and "mset qs = filter_mset (\<lambda>r. memtype r \<noteq> def) (mset rs)"
    and "sorted_wrt disj qs"
  shows "type_at def qs x = type_of_strength def (strongest rs x)"
proof -
  have set: "set qs = {r \<in> set rs. memtype r \<noteq> def}"
    using assms(3) by (metis set_filter set_mset_filter set_mset_mset mset_filter)
  show ?thesis
  proof (cases "x \<in> cover rs")
    case False
    then have "x \<notin> cover qs" using set by (auto simp: cover_def)
    with False show ?thesis by (simp add: type_at_outside strongest_outside type_of_strength_def)
  next
    case True
    then obtain r where r: "r \<in> set rs" "x \<in> span r" by (auto simp: cover_def)
    have t: "type_of_strength def (strongest rs x) = memtype r"
      using strongest_disjoint [OF assms(1) r] assms(2) r(1)
      by (simp add: type_of_strength good_types_def)
    show ?thesis
    proof (cases "memtype r = def")
      case False
      then show ?thesis using type_at_disjoint [OF assms(4) _ r(2)] set r(1) t by simp
    next
      case dflt: True
      have "x \<notin> span q" if "q \<in> set qs" for q
      proof
        assume "x \<in> span q"
        then have "strongest rs x = strength (memtype q)" "memtype q \<noteq> def" "good_type (memtype q)"
          using strongest_disjoint [OF assms(1)] that set assms(2) by (auto simp: good_types_def)
        then show False using t dflt type_of_strength by metis
      qed
      then have "x \<notin> cover qs" by (auto simp: cover_def)
      then show ?thesis using t dflt by (simp add: type_at_outside)
    qed
  qed
qed

section \<open>The sanitized list\<close>

lemma sanitize_regions_exists:
  assumes "ranges_ok (memoryranges st)"
  shows "\<exists>y. sanitizeMemoryRegions def st = Some y \<and>
    (\<forall>st'. y = Inr st' \<longrightarrow> ordered (memoryranges st') \<and>
      (good_types (memoryranges st) \<longrightarrow>
        (\<forall>x. type_at def (memoryranges st') x = type_of_strength def (strongest (memoryranges st) x)))) \<and>
    (few_ranges (memoryranges st) \<longrightarrow> (\<exists>st'. y = Inr st'))"
proof -
  obtain y where y: "sanitize_entries 0 st = Some y"
    and inr: "\<forall>st'. y = Inr st' \<longrightarrow> refines (memoryranges st) (memoryranges st') \<and> sorted_wrt disj (memoryranges st')"
    and few: "few_ranges (memoryranges st) \<longrightarrow> (\<exists>st'. y = Inr st')"
    using sanitize_entries_ok [of st "[]" "memoryranges st"] assms by auto
  show ?thesis
  proof (cases y)
    case (Inl e)
    then show ?thesis using y few by (auto simp: sanitizeMemoryRegions_def)
  next
    case (Inr st')
    let ?rs = "memoryranges st'"
    let ?qs = "sort_ranges 0 (drop_default def 0 ?rs)"
    have r: "refines (memoryranges st) ?rs" "sorted_wrt disj ?rs" using inr Inr by auto
    have q: "mset ?qs = filter_mset (\<lambda>r. memtype r \<noteq> def) (mset ?rs)" "sorted (map startaddress ?qs)"
      using sort_ranges_ok [of 0 "drop_default def 0 ?rs"] drop_default_eq [of 0 ?rs def] by auto
    have set: "set ?qs = {r \<in> set ?rs. memtype r \<noteq> def}"
      using q(1) by (metis set_filter set_mset_mset mset_filter)
    have "distinct (filter (\<lambda>r. memtype r \<noteq> def) ?rs)"
      using r by (simp add: refines_def sorted_wrt_disj_iff)
    then have "distinct ?qs" using q(1) by (metis mset_eq_imp_distinct_iff mset_filter)
    moreover have ok: "ranges_ok ?qs" using r(1) set by (auto simp: refines_def ranges_ok_def)
    ultimately have disj: "sorted_wrt disj ?qs"
      using r set by (auto simp: refines_def sorted_wrt_disj_iff)
    have "type_at def ?qs x = type_of_strength def (strongest (memoryranges st) x)"
      if "good_types (memoryranges st)" for x
      using find_disjoint_type [OF r(2) _ q(1) disj, of x] r(1) that by (simp add: refines_def)
    then show ?thesis
      using y Inr sorted_disj_ordered [OF ok disj q(2)] by (simp add: sanitizeMemoryRegions_def)
  qed
qed

text \<open>
  C5: Sanitizing a list of non-empty ranges below 2^63 whose types are uncached, write-through or
  write-back, when it returns, gives non-empty ranges in ascending order that do not overlap, and the type they give
  an address is the strongest type (uncached over write-through over write-back) that any of
  the original ranges had there, the default type where no range was.
\<close>

theorem sanitize_result:
  assumes "ranges_ok (memoryranges st)" and "good_types (memoryranges st)"
    and "sanitizeMemoryRegions def st = Some (Inr st')"
  shows "ordered (memoryranges st') \<and>
    (\<forall>x. type_at def (memoryranges st') x = type_of_strength def (strongest (memoryranges st) x))"
  using sanitize_regions_exists [OF assms(1), of def] assms(2,3) by auto

text \<open>
  C34: The sanitization of at most seven non-empty ranges below 2^63 returns, although it appends the pieces to the
  list it is walking. With more of them it returns as well, unless it enters the deliberate endless loop for more than 100
  entries, which is \<open>LoopsForever\<close> here: no other loop of it can run for ever.
\<close>

theorem sanitize_terminates:
  assumes "ranges_ok (memoryranges st)"
  shows "(length (memoryranges st) \<le> 7 \<longrightarrow> (\<exists>st'. sanitizeMemoryRegions def st = Some (Inr st'))) \<and>
    ((\<exists>st'. sanitizeMemoryRegions def st = Some (Inr st')) \<or> sanitizeMemoryRegions def st = Some (Inl LoopsForever))"
proof -
  obtain y where y: "sanitizeMemoryRegions def st = Some y" "few_ranges (memoryranges st) \<longrightarrow> (\<exists>st'. y = Inr st')"
    using sanitize_regions_exists [OF assms, of def] by blast
  have "e = LoopsForever" for e by (cases e)
  then have "(\<exists>st'. y = Inr st') \<or> y = Inl LoopsForever" by (cases y) auto
  then show ?thesis using y seven_ranges_few [OF assms] by auto
qed

text \<open>The whole first megabyte is write-back, the video memory uncached, and there is a big write-through range.\<close>

definition example_ranges :: memranges where
  "example_ranges = \<lparr>memoryranges = [
     \<lparr>startaddress = 0, mr_size = 0x100000, memtype = 6\<rparr>,
     \<lparr>startaddress = 0xa0000, mr_size = 0x20000, memtype = 0\<rparr>,
     \<lparr>startaddress = 0x80000, mr_size = 0x100000, memtype = 3\<rparr>], memoryrangesLength = 32\<rparr>"

lemma example_ranges_ok: "ranges_ok (memoryranges example_ranges)" "good_types (memoryranges example_ranges)"
  by (simp_all add: example_ranges_def range_ok_def good_type_def)

lemma example_strongest:
  "strongest (memoryranges example_ranges) 0xb0000 = 3" "strongest (memoryranges example_ranges) 0x80000 = 2"
  "strongest (memoryranges example_ranges) 0x7ffff = 1" "strongest (memoryranges example_ranges) 0x180000 = 0"
  by (simp_all add: example_ranges_def strength_at_def span_def strength_def)

theorem sanitize_terminates_witness: "\<exists>st'. sanitizeMemoryRegions 0 example_ranges = Some (Inr st')"
  using sanitize_terminates [OF example_ranges_ok(1), of 0] by (simp add: example_ranges_def)

theorem sanitize_result_witness:
  "\<exists>st'. sanitizeMemoryRegions 0 example_ranges = Some (Inr st') \<and> ordered (memoryranges st') \<and>
     map (type_at 0 (memoryranges st')) [0x7ffff, 0x80000, 0xb0000, 0x180000] = [6, 3, 0, 0]"
proof -
  have "few_ranges (memoryranges example_ranges)"
    by (rule seven_ranges_few [OF example_ranges_ok(1)]) (simp add: example_ranges_def)
  then obtain st' where st': "sanitizeMemoryRegions 0 example_ranges = Some (Inr st')"
    using sanitize_regions_exists [OF example_ranges_ok(1), of 0] by auto
  show ?thesis
    using sanitize_result [OF example_ranges_ok st'] st' by (simp add: example_strongest type_of_strength_def)
qed

section \<open>The lookup\<close>

lemma find_range_cases:
  assumes "ordered rs" and "range_ok p"
  shows "find_range (startaddress p) (stopaddress p) d rs =
    (case find (\<lambda>r. \<not> disj p r) rs of None \<Rightarrow> (True, d)
     | Some r \<Rightarrow> if span p \<subseteq> span r then (True, memtype r) else (False, d))"
  using assms(1)
proof (induction rs)
  case (Cons r rs)
  have r: "range_ok r" and rest: "\<forall>q \<in> set rs. hi r \<le> lo q" and ord: "ordered rs"
    using Cons.prems by (auto simp: ordered_def)
  note ov = overlap_iff [OF assms(2) r]
  have sub: "startaddress p \<ge> startaddress r \<and> stopaddress p \<le> stopaddress r \<longleftrightarrow> span p \<subseteq> span r"
    using size_pos [OF assms(2)] size_pos [OF r]
    by (auto simp: word_le_nat_alt unat_stop [OF assms(2)] unat_stop [OF r] span_def)
  show ?case
  proof (cases "disj p r")
    case False
    then show ?thesis using ov sub by (auto simp: Let_def)
  next
    case True
    show ?thesis
    proof (cases "stopaddress p < startaddress r")
      case lt: True
      have "\<forall>q \<in> set rs. disj p q"
        using lt rest size_pos [OF assms(2)] size_pos [OF r]
        by (fastforce simp: word_less_nat_alt unat_stop [OF assms(2)] span_def)
      then have "find (\<lambda>q. \<not> disj p q) rs = None" by (simp add: find_None_iff)
      then show ?thesis using True lt ov by (auto simp: Let_def)
    next
      case False
      have nov: "\<not> (startaddress p \<le> stopaddress r \<and> startaddress r \<le> stopaddress p)" using True ov by blast
      have "find_range (startaddress p) (stopaddress p) d (r # rs) = find_range (startaddress p) (stopaddress p) d rs"
        unfolding find_range.simps Let_def if_not_P [OF nov] if_not_P [OF False] ..
      then show ?thesis using True Cons.IH [OF ord] by simp
    qed
  qed
qed simp

lemma ordered_disj: "ordered rs \<Longrightarrow> sorted_wrt disj rs"
  unfolding ordered_def by (auto elim!: sorted_wrt_mono_rel [rotated] simp: span_def)

lemma map_info_exact:
  assumes "ordered (memoryranges st)" and "n \<noteq> 0" and "unat start + unat n \<le> 2 ^ 63"
    and "getMTRRMapInfo def st start n = (fullmap, t)"
  shows "(fullmap \<longleftrightarrow> (\<forall>r \<in> set (memoryranges st).
            span r \<inter> {unat start..<unat start + unat n} = {} \<or> {unat start..<unat start + unat n} \<subseteq> span r)) \<and>
    (fullmap \<longrightarrow> (\<forall>x \<in> {unat start..<unat start + unat n}. type_at def (memoryranges st) x = t))"
proof -
  let ?rs = "memoryranges st"
  define p where "p = \<lparr>startaddress = start, mr_size = n, memtype = 0\<rparr>"
  have p: "range_ok p" "span p = {unat start..<unat start + unat n}" "stopaddress p = start + n - 1"
    using assms(2,3) by (simp_all add: p_def range_ok_def span_def stopaddress_def)
  have res: "(fullmap, t) = (case find (\<lambda>r. \<not> disj p r) ?rs of None \<Rightarrow> (True, def)
     | Some r \<Rightarrow> if span p \<subseteq> span r then (True, memtype r) else (False, def))"
    using find_range_cases [OF assms(1) p(1), of def] assms(4) p(3) by (simp add: getMTRRMapInfo_def p_def)
  have "(fullmap \<longleftrightarrow> (\<forall>r \<in> set ?rs. span r \<inter> span p = {} \<or> span p \<subseteq> span r)) \<and>
    (fullmap \<longrightarrow> (\<forall>x \<in> span p. type_at def ?rs x = t))"
  proof (cases "find (\<lambda>r. \<not> disj p r) ?rs")
    case None
    then have "\<forall>r \<in> set ?rs. span r \<inter> span p = {}" by (auto simp: find_None_iff)
    moreover from this have "x \<notin> cover ?rs" if "x \<in> span p" for x using that by (auto simp: cover_def)
    ultimately show ?thesis using res None by (simp add: type_at_outside)
  next
    case (Some r)
    then have r: "r \<in> set ?rs" "\<not> disj p r" by (auto simp: find_Some_iff)
    show ?thesis
    proof (cases "span p \<subseteq> span r")
      case True
      have "span q \<inter> span p = {}" if "q \<in> set ?rs" "q \<noteq> r" for q
        using ordered_disj [OF assms(1)] sorted_wrt_disj_iff [of ?rs] assms(1) that r(1) True
        by (fastforce simp: ordered_def)
      then have "\<forall>q \<in> set ?rs. span q \<inter> span p = {} \<or> span p \<subseteq> span q" using True by blast
      moreover have "\<forall>x \<in> span p. type_at def ?rs x = memtype r"
        using type_at_disjoint [OF ordered_disj [OF assms(1)] r(1)] True by blast
      ultimately show ?thesis using res Some True by simp
    next
      case False
      then show ?thesis using res Some r by auto
    qed
  qed
  then show ?thesis by (simp add: p(2))
qed

text \<open>
  C30: In a list of ascending disjoint ranges, \<open>getMTRRMapInfo\<close> says that a page can be mapped at
  once exactly when no range covers only a part of it; then every address of the page has the
  type it returns.
\<close>

theorem getMTRRMapInfo_exact:
  assumes "ordered (memoryranges st)" and "n \<noteq> 0" and "unat start + unat n \<le> 2 ^ 63"
    and "getMTRRMapInfo def st start n = (fullmap, t)"
  shows "(fullmap \<longleftrightarrow> (\<forall>r \<in> set (memoryranges st).
            span r \<inter> {unat start..<unat start + unat n} = {} \<or> {unat start..<unat start + unat n} \<subseteq> span r)) \<and>
    (fullmap \<longrightarrow> (\<forall>x \<in> {unat start..<unat start + unat n}. type_at def (memoryranges st) x = t))"
  using map_info_exact [OF assms] .

theorem getMTRRMapInfo_exact_witness:
  "\<exists>st'. sanitizeMemoryRegions 0 example_ranges = Some (Inr st') \<and>
     (\<forall>fullmap t. getMTRRMapInfo 0 st' 0xa0000 0x1000 = (fullmap, t) \<longrightarrow> fullmap \<longrightarrow> t = 0)"
proof -
  have "few_ranges (memoryranges example_ranges)"
    by (rule seven_ranges_few [OF example_ranges_ok(1)]) (simp add: example_ranges_def)
  then obtain st' where st': "sanitizeMemoryRegions 0 example_ranges = Some (Inr st')"
    and ord: "ordered (memoryranges st')"
    and ty: "\<forall>x. type_at 0 (memoryranges st') x = type_of_strength 0 (strongest (memoryranges example_ranges) x)"
    using sanitize_regions_exists [OF example_ranges_ok(1), of 0] example_ranges_ok(2) by auto
  have "t = 0" if "getMTRRMapInfo 0 st' 0xa0000 0x1000 = (True, t)" for t
    using getMTRRMapInfo_exact [OF ord _ _ that] ty
    by (auto simp: example_ranges_def strength_at_def span_def strength_def type_of_strength_def)
  with st' show ?thesis by auto
qed

end
