(* ===== verification/MtrrRegisters.thy ===== *)
theory MtrrRegisters
  imports MtrrCorrect
begin

text \<open>
  The registers behind the ranges of \<open>Mtrr\<close>: the fixed MTRRs give a gap-free division of the first
  megabyte with the type of every block, and a variable MTRR gives the addresses the processor
  compares with its base and mask.
\<close>

section \<open>Reading the registers\<close>

text \<open>Ranges that follow one another without a gap.\<close>

fun chain :: "nat \<Rightarrow> memrange list \<Rightarrow> nat \<Rightarrow> bool" where
  "chain l [] h \<longleftrightarrow> l = h"
| "chain l (r # rs) h \<longleftrightarrow> lo r = l \<and> range_ok r \<and> chain (hi r) rs h"

definition fixed_aligned :: "u64 \<Rightarrow> bool" where
  "fixed_aligned a \<longleftrightarrow> unat a mod (if unat a < 0x80000 then 0x10000 else if unat a < 0xc0000 then 0x4000 else 0x1000) = 0"

lemma fixed_block_size_eq:
  "unat (snd (fixed_block msr a)) = (if unat a < 0x80000 then 0x10000 else if unat a < 0xc0000 then 0x4000 else 0x1000)"
  by (simp add: fixed_block_def Let_def push_bit_eq_mult word_le_nat_alt)

lemma next_multiple: "n mod d = 0 \<Longrightarrow> m mod d = 0 \<Longrightarrow> n < m \<Longrightarrow> n + d \<le> m" for n d m :: nat
  by (auto elim!: dvdE simp: mod_eq_0_iff_dvd) (metis Suc_leI mult_Suc_right add.commute mult_le_mono2)

lemma fixed_aligned_step:
  assumes "fixed_aligned a" and "a < 0x100000"
  shows "fixed_aligned (a + snd (fixed_block msr a))" and "unat (a + snd (fixed_block msr a)) \<le> 0x100000"
proof -
  have a: "unat a < 0x100000" using assms(2) by (simp add: word_less_nat_alt)
  have sum: "unat (a + snd (fixed_block msr a)) = unat a + unat (snd (fixed_block msr a))"
    by (rule fixed_block_step(1) [OF assms(2)])
  consider "unat a < 0x80000" | "0x80000 \<le> unat a" "unat a < 0xc0000" | "0xc0000 \<le> unat a" by linarith
  then have "fixed_aligned (a + snd (fixed_block msr a)) \<and> unat (a + snd (fixed_block msr a)) \<le> 0x100000"
  proof cases
    case 1
    then have "unat a + 0x10000 \<le> 0x80000" "unat a mod 0x10000 = 0"
      using next_multiple [of "unat a" "0x10000" "0x80000"] assms(1) by (simp_all add: fixed_aligned_def)
    then show ?thesis using 1
      by (cases "unat a + 0x10000 = 0x80000") (simp_all add: fixed_aligned_def sum fixed_block_size_eq)
  next
    case 2
    then have "unat a + 0x4000 \<le> 0xc0000" "unat a mod 0x4000 = 0"
      using next_multiple [of "unat a" "0x4000" "0xc0000"] assms(1) by (simp_all add: fixed_aligned_def)
    then show ?thesis using 2
      by (cases "unat a + 0x4000 = 0xc0000") (simp_all add: fixed_aligned_def sum fixed_block_size_eq)
  next
    case 3
    then have "unat a + 0x1000 \<le> 0x100000" "unat a mod 0x1000 = 0"
      using next_multiple [of "unat a" "0x1000" "0x100000"] assms(1) a by (simp_all add: fixed_aligned_def)
    then show ?thesis using 3 by (simp add: fixed_aligned_def sum fixed_block_size_eq)
  qed
  then show "fixed_aligned (a + snd (fixed_block msr a))" "unat (a + snd (fixed_block msr a)) \<le> 0x100000"
    by blast+
qed

lemma same_block:
  fixes a x base :: u64
  assumes "base \<le> a" and "a \<le> x" and "unat x < unat a + 2 ^ k" and "unat a mod 2 ^ k = 0" and "unat base mod 2 ^ k = 0"
  shows "drop_bit k (x - base) = drop_bit k (a - base)"
proof -
  have "unat (x - base) = unat x - unat base" "unat (a - base) = unat a - unat base"
    using assms(1,2) by (simp_all add: unat_sub)
  moreover obtain m n where mn: "unat a = 2 ^ k * m" "unat base = 2 ^ k * n"
    using assms(4,5) by (meson dvdE mod_0_imp_dvd)
  moreover have "unat base \<le> unat a" "unat a \<le> unat x" using assms(1,2) by (simp_all add: word_le_nat_alt)
  moreover have "(unat a - unat base) div 2 ^ k = m - n" using mn by (simp flip: right_diff_distrib')
  moreover have "(unat x - unat base) div 2 ^ k = m - n"
  proof (rule div_nat_eqI)
    have "2 ^ k * (m - n) + 2 ^ k * n = 2 ^ k * m"
      using \<open>unat base \<le> unat a\<close> mn by (simp flip: distrib_left)
    then show "2 ^ k * (m - n) \<le> unat x - unat base" "unat x - unat base < 2 ^ k * Suc (m - n)"
      using mn \<open>unat a \<le> unat x\<close> assms(3) by simp_all
  qed
  ultimately have "unat (drop_bit k (x - base)) = unat (drop_bit k (a - base))"
    unfolding unat_drop_bit_eq by (simp add: drop_bit_eq_div)
  then show ?thesis by (simp only: word_eq_iff_unsigned [where ?'a = nat])
qed

text \<open>Every address of a block has the type and the size that the start of the block has.\<close>

lemma fixed_block_const:
  assumes "fixed_aligned a" and "a < 0x100000" and "a \<le> x" and "unat x < unat a + unat (snd (fixed_block msr a))"
  shows "fixed_block msr x = fixed_block msr a"
proof -
  have ax: "unat a \<le> unat x" and a: "unat a < 0x100000"
    using assms(2,3) by (simp_all add: word_le_nat_alt word_less_nat_alt)
  have inside: "unat x < h" if "unat a < h" "h \<in> {0x80000, 0xa0000, 0xc0000, 0xc8000, 0xd0000, 0xd8000, 0xe0000, 0xe8000, 0xf0000, 0xf8000}" for h
  proof -
    have "unat a + unat (snd (fixed_block msr a)) \<le> h"
      using next_multiple [of "unat a" "unat (snd (fixed_block msr a))" h] assms(1) that
      unfolding fixed_aligned_def fixed_block_size_eq by (auto split: if_splits)
    then show ?thesis using assms(4) by linarith
  qed
  have region: "x \<le> c \<longleftrightarrow> a \<le> c" if "c \<in> {0x7ffff, 0x9ffff, 0xbffff, 0xc7fff, 0xcffff, 0xd7fff, 0xdffff, 0xe7fff, 0xeffff, 0xf7fff}" for c
    using ax inside [of "Suc (unat c)"] that by (auto simp: word_le_nat_alt)
  note regions = region [of "0x7ffff", simplified] region [of "0x9ffff", simplified]
    region [of "0xbffff", simplified] region [of "0xc7fff", simplified] region [of "0xcffff", simplified]
    region [of "0xd7fff", simplified] region [of "0xdffff", simplified] region [of "0xe7fff", simplified]
    region [of "0xeffff", simplified] region [of "0xf7fff", simplified]
  have size: "a \<le> 0x7ffff \<Longrightarrow> unat (snd (fixed_block msr a)) = 0x10000"
    "\<not> a \<le> 0x7ffff \<Longrightarrow> a \<le> 0x9ffff \<or> a \<le> 0xbffff \<Longrightarrow> unat (snd (fixed_block msr a)) = 0x4000"
    "\<not> a \<le> 0xbffff \<Longrightarrow> unat (snd (fixed_block msr a)) = 0x1000"
    by (auto simp: fixed_block_size_eq word_le_nat_alt)
  have same: "drop_bit k (x - base) = drop_bit k (a - base)"
    if "base = 0 \<or> \<not> a \<le> base - 1" "2 ^ k = unat (snd (fixed_block msr a))" "unat base mod 2 ^ k = 0" for base k
  proof (rule same_block)
    show "base \<le> a" using that(1) inc_le [of "base - 1" a] by auto
    show "unat a mod 2 ^ k = 0"
      using assms(1) unfolding that(2) fixed_block_size_eq fixed_aligned_def .
  qed (use that assms(3,4) in simp_all)
  have same0: "drop_bit 16 x = drop_bit 16 a" if "a \<le> 0x7ffff"
    using same [of 0 16] that size by simp
  show ?thesis
    unfolding fixed_block_def Let_def regions
    by (intro if_cong refl; simp add: same same0 size)
qed

abbreviation fixed_type :: "(nat \<Rightarrow> u64) \<Rightarrow> nat \<Rightarrow> int" where
  "fixed_type msr x \<equiv> fst (fixed_block msr (of_nat x))"

lemma fixed_type_not_unset: "fst (fixed_block msr a) \<noteq> -1"
proof -
  have "uint w \<noteq> -1" for w :: u64 using uint_ge_0 [of w] by linarith
  then show ?thesis by (simp add: fixed_block_def Let_def)
qed

lemma fixed_types_extend:
  assumes "unat p \<le> 0x100000" and "fixed_aligned p" and "p < 0x100000"
    and "x \<in> {unat p ..< unat p + unat (snd (fixed_block msr p))}"
  shows "fixed_type msr x = fst (fixed_block msr p)"
proof -
  have "x < 2 ^ 64" using assms(1,4) fixed_block_size_eq [of msr p] by (auto split: if_splits)
  then have "unat (of_nat x :: u64) = x" by (simp add: unat_of_nat take_bit_nat_eq_self)
  then show ?thesis
    using fixed_block_const [OF assms(2,3), of "of_nat x" msr] assms(4) by (simp add: word_le_nat_alt)
qed

lemma fixed_ranges_chain:
  assumes "unat (start + n) = unat start + unat n" and "fixed_aligned (start + n)" and "unat (start + n) \<le> 0x100000"
    and "n = 0 \<and> t = -1 \<or> n \<noteq> 0 \<and> t \<noteq> -1 \<and> (\<forall>x \<in> {unat start..<unat start + unat n}. fixed_type msr x = t)"
  shows "\<exists>rs. memoryranges (fixed_ranges msr start n t st) = memoryranges st @ rs \<and>
    chain (unat start) rs 0x100000 \<and> (\<forall>r \<in> set rs. \<forall>x \<in> span r. fixed_type msr x = memtype r)"
  using assms
proof (induction msr start n t st rule: fixed_ranges.induct)
  case (1 msr start n t st)
  note step = fixed_ranges.simps [of msr start n t st]
  let ?p = "start + n" and ?r = "\<lparr>startaddress = start, mr_size = n, memtype = t\<rparr>"
  define ty inc where "ty = fst (fixed_block msr ?p)" and "inc = snd (fixed_block msr ?p)"
  have b: "fixed_block msr ?p = (ty, inc)" by (simp add: ty_def inc_def)
  have r: "range_ok ?r" "span ?r = {unat start..<unat start + unat n}" if "n \<noteq> 0"
    using that 1(3,5) by (simp_all add: range_ok_def span_def)
  have add: "memoryranges (addToMemoryRanges start n t st) = memoryranges st @ [?r]" if "n \<noteq> 0"
    using that by (simp add: addToMemoryRanges_def Let_def)
  show ?case
  proof (cases "?p < 0x100000")
    case False
    then have finish: "unat start + unat n = 0x100000" using 1(3,5) by (simp add: word_less_nat_alt)
    show ?thesis
    proof (cases "n = 0")
      case True
      then have "fixed_ranges msr start n t st = st" using False by (subst step) simp
      then show ?thesis using finish True by (intro exI [of _ "[]"]) simp
    next
      case n: False
      then show ?thesis using False finish r add 1(6) by (simp add: step)
    qed
  next
    case True
    note fs = fixed_block_step [OF True, of msr, folded inc_def] fixed_aligned_step [OF 1(4) True, of msr, folded inc_def]
    have new: "fixed_type msr x = ty" if "x \<in> {unat ?p ..< unat ?p + unat inc}" for x
      unfolding ty_def by (rule fixed_types_extend [OF 1(5,4) True]) (use that in \<open>simp add: inc_def\<close>)
    have inc: "inc \<noteq> 0" using fs(2) by auto
    have ty: "ty \<noteq> -1" by (simp add: ty_def fixed_type_not_unset)
    let ?t = "if t = -1 then ty else t"
    show ?thesis
    proof (cases "ty = ?t")
      case same: True
      have "fixed_ranges msr start n t st = fixed_ranges msr start (n + inc) ty st"
        using True same by (subst step) (simp add: b Let_def)
      moreover have ni: "unat (n + inc) = unat n + unat inc"
        using fs(4) fs(1) 1(3) fixed_block_size_eq [of msr ?p] by (simp add: unat_word_ariths inc_def split: if_splits)
      moreover have "\<forall>x \<in> {unat start..<unat start + unat (n + inc)}. fixed_type msr x = ty"
        using new 1(3,6) same ni by (auto simp: linorder_not_less)
      moreover have "n + inc \<noteq> 0" using ni fs(2) by auto
      ultimately show ?thesis
        using 1(1) [OF True, of "(ty, inc)" ty inc ?t] b same ty fs 1(3) by (simp add: add.assoc)
    next
      case diff: False
      then have n: "n \<noteq> 0" "t \<noteq> -1" using 1(6) by auto
      have "fixed_ranges msr start n t st = fixed_ranges msr ?p inc ty (addToMemoryRanges start n t st)"
        using True diff n by (subst step) (simp add: b Let_def)
      moreover obtain rs where "memoryranges (fixed_ranges msr ?p inc ty (addToMemoryRanges start n t st)) =
          memoryranges (addToMemoryRanges start n t st) @ rs" "chain (unat ?p) rs 0x100000"
          "\<forall>r \<in> set rs. \<forall>x \<in> span r. fixed_type msr x = memtype r"
        using 1(2) [OF True, of "(ty, inc)" ty inc ?t] b diff n inc ty fs new by auto
      ultimately show ?thesis
        using r [OF n(1)] add [OF n(1)] 1(3,6) n by (intro exI [of _ "?r # rs"]) simp
    qed
  qed
qed

text \<open>
  The processor's view: the 88 blocks of the first megabyte (8 of 64 KB, 16 of 16 KB, 64 of 4 KB)
  take the bytes of the eleven registers in turn.
\<close>

definition block_number :: "nat \<Rightarrow> nat" where
  "block_number x =
     (if x < 0x80000 then x div 0x10000
      else if x < 0xc0000 then 8 + (x - 0x80000) div 0x4000
      else 24 + (x - 0xc0000) div 0x1000)"

definition fixed_mtrr_type :: "(nat \<Rightarrow> u64) \<Rightarrow> nat \<Rightarrow> int" where
  "fixed_mtrr_type msr x =
     (let b = block_number x
      in uint (drop_bit (8 * (b mod 8))
           (msr ([0x250, 0x258, 0x259, 0x268, 0x269, 0x26a, 0x26b, 0x26c, 0x26d, 0x26e, 0x26f] ! (b div 8))) AND 0xf))"

lemma eight_split: "b = 8 * m + c \<Longrightarrow> c < 8 \<Longrightarrow> b div 8 = m \<and> b mod 8 = c" for b m c :: nat
  by simp

lemma block_number_split:
  "x < 0x80000 \<Longrightarrow> block_number x div 8 = 0 \<and> block_number x mod 8 = x div 0x10000"
  "y < 0x20000 \<Longrightarrow> block_number (0x80000 + y) div 8 = 1 \<and> block_number (0x80000 + y) mod 8 = y div 0x4000"
  "y < 0x20000 \<Longrightarrow> block_number (0xa0000 + y) div 8 = 2 \<and> block_number (0xa0000 + y) mod 8 = y div 0x4000"
proof -
  show "x < 0x80000 \<Longrightarrow> block_number x div 8 = 0 \<and> block_number x mod 8 = x div 0x10000"
    by (intro eight_split) (simp_all add: block_number_def less_mult_imp_div_less)
  show "y < 0x20000 \<Longrightarrow> block_number (0x80000 + y) div 8 = 1 \<and> block_number (0x80000 + y) mod 8 = y div 0x4000"
    by (intro eight_split) (simp_all add: block_number_def less_mult_imp_div_less)
  have "(0x20000 + y) div 0x4000 = 8 + y div 0x4000" using div_mult_self4 [of "0x4000" 8 y] by simp
  then show "y < 0x20000 \<Longrightarrow> block_number (0xa0000 + y) div 8 = 2 \<and> block_number (0xa0000 + y) mod 8 = y div 0x4000"
    by (intro eight_split) (simp_all add: block_number_def less_mult_imp_div_less)
qed

lemma block_number_split_4K:
  assumes "0xc0000 + 0x8000 * k \<le> x" and "x < 0xc0000 + 0x8000 * Suc k"
  shows "block_number x div 8 = 3 + k" and "block_number x mod 8 = (x - (0xc0000 + 0x8000 * k)) div 0x1000"
proof -
  define y where "y = x - (0xc0000 + 0x8000 * k)"
  have y: "x = 0xc0000 + 0x8000 * k + y" "y < 0x8000" using assms by (simp_all add: y_def)
  then have "block_number x = 8 * (3 + k) + y div 0x1000" by (simp add: block_number_def)
  moreover have "y div 0x1000 < 8" using y(2) by (simp add: less_mult_imp_div_less)
  ultimately have "block_number x div 8 = 3 + k \<and> block_number x mod 8 = y div 0x1000" by (rule eight_split)
  then show "block_number x div 8 = 3 + k" "block_number x mod 8 = (x - (0xc0000 + 0x8000 * k)) div 0x1000"
    by (simp_all add: y_def)
qed

lemma fixed_type_eq:
  assumes "x < 0x100000"
  shows "fixed_type msr x = fixed_mtrr_type msr x"
proof -
  have u: "unat (of_nat x :: u64) = x" using assms by (simp add: unat_of_nat take_bit_nat_eq_self)
  have le: "(of_nat x :: u64) \<le> c \<longleftrightarrow> x \<le> unat c" for c by (simp add: word_le_nat_alt u)
  have index: "unat (drop_bit k ((of_nat x :: u64) - base)) = (x - unat base) div 2 ^ k" if "unat base \<le> x" for k base
    unfolding unat_drop_bit_eq using that by (simp add: drop_bit_eq_div unat_sub word_le_nat_alt u)
  have four: "fixed_type msr x = fixed_mtrr_type msr x"
    if k: "0xc0000 + 0x8000 * k \<le> x" "x < 0xc0000 + 0x8000 * Suc k" "k < 8" for k
  proof -
    have spec: "fixed_mtrr_type msr x = uint (drop_bit ((x - (0xc0000 + 0x8000 * k)) div 0x1000 * 8)
        (msr ([0x268, 0x269, 0x26a, 0x26b, 0x26c, 0x26d, 0x26e, 0x26f] ! k)) AND 0xf)"
      unfolding fixed_mtrr_type_def Let_def block_number_split_4K [OF k(1,2)] by (simp add: mult.commute)
    consider "k = 0" | "k = 1" | "k = 2" | "k = 3" | "k = 4" | "k = 5" | "k = 6" | "k = 7"
      using k(3) by linarith
    then show ?thesis
      unfolding spec by cases (use k(1,2) in \<open>simp_all add: fixed_block_def Let_def le index\<close>)
  qed
  consider "x < 0x80000" | "0x80000 \<le> x" "x < 0xa0000" | "0xa0000 \<le> x" "x < 0xc0000" | "0xc0000 \<le> x" by linarith
  then show ?thesis
  proof cases
    case 4
    define k where "k = (x - 0xc0000) div 0x8000"
    have "0x8000 * k + (x - 0xc0000) mod 0x8000 = x - 0xc0000" by (simp add: k_def)
    moreover have "(x - 0xc0000) mod 0x8000 < 0x8000" by simp
    moreover have "k < 8" using assms by (simp add: k_def less_mult_imp_div_less)
    ultimately have "0xc0000 + 0x8000 * k \<le> x" "x < 0xc0000 + 0x8000 * Suc k" "k < 8"
      using 4 unfolding mult_Suc_right by linarith+
    then show ?thesis by (rule four)
  next
    case 1
    have "fixed_mtrr_type msr x = uint (drop_bit (x div 0x10000 * 8) (msr 0x250) AND 0xf)"
      unfolding fixed_mtrr_type_def Let_def block_number_split(1) [OF 1, THEN conjunct1]
        block_number_split(1) [OF 1, THEN conjunct2] by (simp add: mult.commute)
    moreover have "fixed_type msr x = uint (drop_bit (unat (drop_bit 16 ((of_nat x :: u64) - 0)) * 8) (msr 0x250) AND 0xf)"
      using 1 by (simp only: fixed_block_def Let_def le) simp
    moreover have "unat (drop_bit 16 ((of_nat x :: u64) - 0)) = x div 0x10000"
      unfolding index [of 0 16, unfolded unat_0, OF le0] by simp
    ultimately show ?thesis by (simp only:)
  next
    case 2
    then obtain y where y: "x = 0x80000 + y" "y < 0x20000" by (auto simp: le_iff_add)
    have "fixed_mtrr_type msr x = uint (drop_bit (y div 0x4000 * 8) (msr 0x258) AND 0xf)"
      unfolding fixed_mtrr_type_def Let_def y(1) block_number_split(2) [OF y(2), THEN conjunct1]
        block_number_split(2) [OF y(2), THEN conjunct2] by (simp add: mult.commute)
    moreover have "unat (drop_bit 14 ((of_nat x :: u64) - 0x80000)) = y div 0x4000"
      using index [of "0x80000" 14] y(1) by simp
    moreover have "fixed_type msr x = uint (drop_bit (unat (drop_bit 14 ((of_nat x :: u64) - 0x80000)) * 8) (msr 0x258) AND 0xf)"
      using 2 by (simp only: fixed_block_def Let_def le) simp
    ultimately show ?thesis by (simp only:)
  next
    case 3
    then obtain y where y: "x = 0xa0000 + y" "y < 0x20000" by (auto simp: le_iff_add)
    have "fixed_mtrr_type msr x = uint (drop_bit (y div 0x4000 * 8) (msr 0x259) AND 0xf)"
      unfolding fixed_mtrr_type_def Let_def y(1) block_number_split(3) [OF y(2), THEN conjunct1]
        block_number_split(3) [OF y(2), THEN conjunct2] by (simp add: mult.commute)
    moreover have "unat (drop_bit 14 ((of_nat x :: u64) - 0xa0000)) = y div 0x4000"
      using index [of "0xa0000" 14] y(1) by simp
    moreover have "fixed_type msr x = uint (drop_bit (unat (drop_bit 14 ((of_nat x :: u64) - 0xa0000)) * 8) (msr 0x259) AND 0xf)"
      using 3 by (simp only: fixed_block_def Let_def le) simp
    ultimately show ?thesis by (simp only:)
  qed
qed

lemma chain_below: "chain l rs h \<Longrightarrow> r \<in> set rs \<Longrightarrow> hi r \<le> h"
proof (induction rs arbitrary: l)
  case (Cons q rs)
  have "l \<le> h" if "chain l rs h" for l rs using that by (induction rs arbitrary: l) fastforce+
  then show ?case using Cons by auto
qed simp

text \<open>
  With the fixed MTRRs in use the code adds ranges that divide the first megabyte from 0 to
  0x100000 without gap or overlap, each with the type that every address in it has for the
  processor, the low four bits of the byte of its block among the eleven fixed registers.
\<close>

theorem fixed_ranges_divide:
  "\<exists>rs. memoryranges (fixed_ranges msr 0 0 (-1) st) = memoryranges st @ rs \<and> chain 0 rs 0x100000 \<and>
     (\<forall>r \<in> set rs. \<forall>x \<in> span r. memtype r = fixed_mtrr_type msr x)"
proof -
  obtain rs where rs: "memoryranges (fixed_ranges msr 0 0 (-1) st) = memoryranges st @ rs" "chain 0 rs 0x100000"
    "\<forall>r \<in> set rs. \<forall>x \<in> span r. fixed_type msr x = memtype r"
    using fixed_ranges_chain [of 0 0 "-1" msr st] by (auto simp: fixed_aligned_def)
  have "memtype r = fixed_mtrr_type msr x" if "r \<in> set rs" "x \<in> span r" for r x
    using fixed_type_eq [of x msr] chain_below [OF rs(2) that(1)] rs(3) that by (simp add: span_def)
  with rs show ?thesis by blast
qed

theorem fixed_ranges_divide_witness:
  "\<exists>rs. memoryranges (fixed_ranges (\<lambda>r. if r = 0x26f then 0x0606060605060606 else 0x250) 0 0 (-1)
        \<lparr>memoryranges = [], memoryrangesLength = 10\<rparr>) = rs \<and> chain 0 rs 0x100000 \<and>
     (\<forall>r \<in> set rs. (0xfbfff \<in> span r \<longrightarrow> memtype r = 5) \<and> (0xfffff \<in> span r \<longrightarrow> memtype r = 6))"
proof -
  define msr :: "nat \<Rightarrow> u64" where "msr = (\<lambda>r. if r = 0x26f then 0x0606060605060606 else 0x250)"
  have "fixed_mtrr_type msr 0xfbfff = 5" "fixed_mtrr_type msr 0xfffff = 6"
    by (simp_all add: fixed_mtrr_type_def block_number_def msr_def)
  with fixed_ranges_divide [of msr "\<lparr>memoryranges = [], memoryrangesLength = 10\<rparr>"]
  show ?thesis unfolding msr_def [symmetric] by auto
qed

section \<open>Variable ranges\<close>

lemma mask_size_found:
  assumes "14 \<le> k" and "k \<le> j + 1" and "\<not> bit m (k - 1)" and "\<forall>i. k \<le> i \<longrightarrow> i \<le> j \<longrightarrow> bit m i"
  shows "mask_size m j = Some (push_bit k 1)"
  using assms(2,4)
proof (induction j)
  case (Suc j)
  show ?case
  proof (cases "k = Suc (Suc j)")
    case True
    then show ?thesis using assms(1,3) by (subst mask_size.simps) simp
  next
    case False
    then have "bit m (Suc j)" using Suc.prems by simp
    then show ?thesis using Suc False assms(1) by (subst mask_size.simps) simp
  qed
qed (use assms(1) in simp)

lemma mask_size_not_found:
  "\<forall>i. 12 < i \<longrightarrow> i \<le> j \<longrightarrow> bit m i \<Longrightarrow> mask_size m j = None"
proof (induction j)
  case (Suc j)
  then show ?case by (subst mask_size.simps) simp
qed (subst mask_size.simps, simp)

text \<open>
  The registers of a contiguous range of \<open>2 ^ k\<close> bytes: the mask has the bits \<open>k\<close> to \<open>MAXPHYADDR - 1\<close>
  and the valid bit, and the base is a multiple of the size. \<open>pb\<close> is \<open>MAXPHYADDRMASKPB\<close>.
\<close>

definition variable_mtrr :: "nat \<Rightarrow> nat \<Rightarrow> u64 \<Rightarrow> u64 \<Rightarrow> u64 \<Rightarrow> bool" where
  "variable_mtrr w k pb base m \<longleftrightarrow>
     12 \<le> k \<and> k \<le> w \<and> 13 \<le> w \<and> w \<le> 52 \<and> pb = mask w AND NOT (mask 12) \<and> bit m 11 \<and>
     m AND pb = mask w AND NOT (mask k) \<and> base AND mask k AND NOT (mask 12) = 0"

lemma variable_base:
  assumes "variable_mtrr w k pb base m"
  shows "base AND pb = push_bit k (drop_bit k (base AND mask w))"
  using assms
  by (auto simp: variable_mtrr_def bit_eq_iff bit_simps)

lemma unat_block_start: "unat (push_bit k (drop_bit k y)) = 2 ^ k * (unat y div 2 ^ k)" for y :: u64
proof -
  have "unat (push_bit k (drop_bit k y)) = take_bit 64 (push_bit k (unat (drop_bit k y)))"
    by (simp only: unsigned_push_bit_eq len_num0 len_bit0 len_num1) simp
  also have "push_bit k (unat (drop_bit k y)) = 2 ^ k * (unat y div 2 ^ k)"
    unfolding unat_drop_bit_eq by (simp add: push_bit_eq_mult drop_bit_eq_div mult.commute)
  also have "take_bit 64 (2 ^ k * (unat y div 2 ^ k)) = 2 ^ k * (unat y div 2 ^ k)"
  proof (rule take_bit_nat_eq_self)
    have "2 ^ k * (unat y div 2 ^ k) \<le> unat y" by simp
    also have "unat y < 2 ^ 64" using unsigned_less [of y] by simp
    finally show "2 ^ k * (unat y div 2 ^ k) < 2 ^ 64" .
  qed
  finally show ?thesis .
qed

lemma block_bound:
  fixes b :: nat
  assumes "k \<le> w" and "b < 2 ^ w"
  shows "2 ^ k * (b div 2 ^ k) + 2 ^ k \<le> 2 ^ w"
proof -
  have "b < 2 ^ (w - k) * 2 ^ k" using assms by (simp flip: power_add)
  then have "Suc (b div 2 ^ k) \<le> 2 ^ (w - k)" by (simp add: less_mult_imp_div_less Suc_leI)
  then have "2 ^ k * Suc (b div 2 ^ k) \<le> 2 ^ k * 2 ^ (w - k)" by (rule mult_le_mono2)
  then show ?thesis using assms(1) by (simp flip: power_add)
qed

text \<open>
  C35: For a valid variable MTRR of a contiguous range of at least 16 KB, the code adds exactly one
  range, not empty and below 2^63, with the type byte of the base register, and it covers exactly
  the physical addresses that the processor matches (those that agree with the base in the bits
  of the mask). A valid range of 4 KB or 8 KB adds nothing.
\<close>

theorem add_variable_matches:
  assumes "variable_mtrr w k pb base m"
  shows "if k < 14 then add_variable w pb base m st = st
    else \<exists>r. memoryranges (add_variable w pb base m st) = memoryranges st @ [r] \<and> range_ok r \<and>
      memtype r = uint (base AND 0xff) \<and>
      (\<forall>x. unat x < 2 ^ w \<longrightarrow> (x AND (m AND pb) = base AND (m AND pb) \<longleftrightarrow> unat x \<in> span r))"
proof (cases "k < 14")
  case True
  have "m AND pb = mask w AND NOT (mask k)" "w \<le> 52" using assms unfolding variable_mtrr_def by blast+
  then have "mask_size (m AND pb) (w - 1) = None"
    using True by (intro mask_size_not_found) (auto simp: bit_simps)
  then show ?thesis using assms True by (simp add: add_variable_def variable_mtrr_def)
next
  case False
  define b where "b = base AND mask w"
  define sz :: u64 where "sz = push_bit k 1"
  let ?r = "\<lparr>startaddress = push_bit k (drop_bit k b), mr_size = sz, memtype = uint (base AND 0xff)\<rparr>"
  have w: "k \<le> w" "w \<le> 52" "13 \<le> w" using assms by (simp_all add: variable_mtrr_def)
  have mpb: "m AND pb = mask w AND NOT (mask k)" using assms unfolding variable_mtrr_def by blast
  then have found: "mask_size (m AND pb) (w - 1) = Some sz"
    unfolding sz_def using False w by (intro mask_size_found) (auto simp: bit_simps)
  have size: "unat sz = 2 ^ k"
  proof -
    have "(2 :: nat) ^ k < 2 ^ 64" using w by (intro power_strict_increasing) simp_all
    then show ?thesis
      by (simp only: sz_def unsigned_push_bit_eq len_num0 len_bit0 len_num1) (use w in \<open>simp add: push_bit_eq_mult take_bit_nat_eq_self\<close>)
  qed
  have "sz \<noteq> 0" using w by (simp add: sz_def push_bit_eq_mult)
  have add: "memoryranges (add_variable w pb base m st) = memoryranges st @ [?r]"
    unfolding add_variable_def found variable_base [OF assms] b_def [symmetric]
    using assms \<open>sz \<noteq> 0\<close> by (simp add: addToMemoryRanges_def Let_def variable_mtrr_def)
  have b_less: "unat b < 2 ^ w"
    using w unat_take_bit_less [of w base] by (simp add: b_def flip: take_bit_eq_mask)
  have bound: "2 ^ k * (unat b div 2 ^ k) + 2 ^ k \<le> (2 ^ w :: nat)" by (rule block_bound [OF w(1) b_less])
  have "(2 :: nat) ^ w \<le> 2 ^ 63" using w by (intro power_increasing) simp_all
  then have "range_ok ?r"
    using bound \<open>sz \<noteq> 0\<close> by (simp add: range_ok_def unat_block_start size)
  moreover have "x AND (m AND pb) = base AND (m AND pb) \<longleftrightarrow> unat x \<in> span ?r" if x: "unat x < 2 ^ w" for x
  proof -
    have start: "y AND (mask w AND NOT (mask k)) = push_bit k (drop_bit k (y AND mask w))" for y :: u64
      by (auto simp: bit_eq_iff bit_simps)
    have "take_bit w x = x"
      using x by (simp add: word_eq_iff_unsigned [where ?'a = nat] unsigned_take_bit_eq take_bit_nat_eq_self)
    then have xw: "x AND mask w = x" by (simp add: take_bit_eq_mask)
    have "x AND (m AND pb) = base AND (m AND pb) \<longleftrightarrow>
        unat (push_bit k (drop_bit k x)) = unat (push_bit k (drop_bit k b))"
      unfolding mpb start xw b_def [symmetric] by (simp only: word_eq_iff_unsigned [where ?'a = nat])
    also have "\<dots> \<longleftrightarrow> unat x div 2 ^ k = unat b div 2 ^ k"
      unfolding unat_block_start by simp
    also have "\<dots> \<longleftrightarrow> 2 ^ k * (unat b div 2 ^ k) \<le> unat x \<and> unat x < 2 ^ k * (unat b div 2 ^ k) + 2 ^ k"
      by (metis add.commute div_nat_eqI mult.commute mult_Suc_right dividend_less_times_div times_div_less_eq_dividend zero_less_numeral zero_less_power)
    also have "\<dots> \<longleftrightarrow> unat x \<in> span ?r" by (simp add: span_def unat_block_start size)
    finally show ?thesis .
  qed
  ultimately show ?thesis using add False by auto
qed

theorem add_variable_matches_witness:
  "\<exists>r. memoryranges (add_variable 36 0xFFFFFF000 0x80000006 0xF80000800 example_ranges) =
         memoryranges example_ranges @ [r] \<and> memtype r = 6 \<and>
     (\<forall>x :: u64. unat x < 2 ^ 36 \<longrightarrow> (x AND (0xF80000800 AND 0xFFFFFF000) = 0x80000006 AND (0xF80000800 AND 0xFFFFFF000) \<longleftrightarrow> unat x \<in> span r))"
proof -
  have "variable_mtrr 36 31 0xFFFFFF000 0x80000006 0xF80000800"
    by (simp add: variable_mtrr_def mask_eq_exp_minus_1)
  note ex = add_variable_matches [OF this, of example_ranges]
  have "\<not> (31 :: nat) < 14" by simp
  from ex [unfolded if_not_P [OF this]] obtain r where
    "memoryranges (add_variable 36 0xFFFFFF000 0x80000006 0xF80000800 example_ranges) = memoryranges example_ranges @ [r]"
    "memtype r = uint ((0x80000006 :: u64) AND 0xff)"
    "\<forall>x :: u64. unat x < 2 ^ 36 \<longrightarrow> (x AND (0xF80000800 AND 0xFFFFFF000) = 0x80000006 AND (0xF80000800 AND 0xFFFFFF000) \<longleftrightarrow> unat x \<in> span r)"
    by (elim exE conjE)
  moreover have "uint ((0x80000006 :: u64) AND 0xff) = 6" by simp
  ultimately show ?thesis by (intro exI [of _ r] conjI) simp_all
qed

end
