(* ===== verification/Alloc.thy ===== *)
theory Alloc
  imports Prelude
begin

text \<open>
  The memory manager of \<open>mm.c\<close>: the bitmap allocator \<open>malloc2\<close>, \<open>free2\<close>, \<open>realloc2\<close> with one bit
  per 64 bytes, and on top of it \<open>malloc\<close>, \<open>free\<close>, \<open>realloc\<close>, which keep the sizes in a sorted list.
  \<open>AllocationInfoList\<close> is the whole array of bit masks (\<open>PhysicalPageListMaxSize\<close> entries, the ones
  from \<open>PhysicalPageListSize\<close> on are all ones), \<open>AllocList\<close> the first \<open>AllocListPos\<close> entries of
  the list of sizes, \<open>heap\<close> the contents of memory. NULL is 0. A shift by 64, undefined in C,
  is the shift by 0 that the processor makes of it.
\<close>

record memlist_item =
  mi_base :: u64
  mi_size :: u32

record mm =
  AllocationInfoList :: "u64 list"
  PhysicalPageListSize :: nat
  AllocList :: "memlist_item list"
  AllocList_at :: u64
  AllocListMax :: nat
  heap :: "u64 \<Rightarrow> u8"

definition BASE_VIRTUAL_ADDRESS :: u64 where
  "BASE_VIRTUAL_ADDRESS = 0x1000000000"

section \<open>Bits and bytes of the list\<close>

text \<open>The list as the byte array \<open>list\<close>: a byte, and a 64-bit value at any byte offset.\<close>

definition list_byte :: "u64 list \<Rightarrow> nat \<Rightarrow> u64" where
  "list_byte xs i = take_bit 8 (drop_bit (8 * (i mod 8)) (xs ! (i div 8)))"

definition list_qword :: "u64 list \<Rightarrow> nat \<Rightarrow> u64" where
  "list_qword xs i =
     (let q = i div 8; r = i mod 8
      in if r = 0 then xs ! q
         else drop_bit (8 * r) (xs ! q) OR push_bit (64 - 8 * r) (xs ! (q + 1)))"

definition list_qword_or :: "u64 list \<Rightarrow> nat \<Rightarrow> u64 \<Rightarrow> u64 list" where
  "list_qword_or xs i m =
     (let q = i div 8; r = i mod 8; ys = xs[q := xs ! q OR push_bit (8 * r) m]
      in if r = 0 then ys else ys[q + 1 := ys ! (q + 1) OR drop_bit (64 - 8 * r) m])"

definition blocks_for :: "u32 \<Rightarrow> nat" where
  "blocks_for n = unat n div 64 + (if unat n mod 64 \<noteq> 0 then 1 else 0)"

definition low_mask :: "nat \<Rightarrow> u64" where
  "low_mask bitcount = push_bit (bitcount mod 64) 1 - 1"

text \<open>\<open>BASE_VIRTUAL_ADDRESS+i*n\<close> with the product in 32-bit \<open>int\<close>.\<close>

definition block_address :: "nat \<Rightarrow> nat \<Rightarrow> u64" where
  "block_address i n = BASE_VIRTUAL_ADDRESS + signed_take_bit 31 (of_nat (i * n))"

section \<open>malloc2\<close>

fun find_shift :: "u64 \<Rightarrow> u64 \<Rightarrow> nat \<Rightarrow> nat \<Rightarrow> nat option" where
  "find_shift p currentbm j 0 = None"
| "find_shift p currentbm j (Suc n) =
     (if p AND currentbm \<noteq> 0 then find_shift p (push_bit 1 currentbm) (j + 1) n else Some j)"

fun scan_bytes :: "u64 list \<Rightarrow> u64 \<Rightarrow> nat \<Rightarrow> nat \<Rightarrow> (nat \<times> nat) option" where
  "scan_bytes xs bitmask i 0 = None"
| "scan_bytes xs bitmask i (Suc n) =
     (if list_byte xs i \<noteq> 0xff
      then (case find_shift (list_qword xs i) bitmask 0 8 of
              Some j \<Rightarrow> Some (i, j)
            | None \<Rightarrow> scan_bytes xs bitmask (i + 1) n)
      else scan_bytes xs bitmask (i + 1) n)"

definition malloc2_small :: "nat \<Rightarrow> mm \<Rightarrow> u64 \<times> mm" where
  "malloc2_small bitcount st =
     (let bitmask = push_bit bitcount 1 - 1; xs = AllocationInfoList st
      in case scan_bytes xs bitmask 0 (PhysicalPageListSize st * 8 - 8) of
           Some (i, j) \<Rightarrow>
             (block_address i 512 + of_nat (j * 64),
              st\<lparr>AllocationInfoList := list_qword_or xs i (push_bit j bitmask)\<rparr>)
         | None \<Rightarrow> (0, st))"

text \<open>The neighbours of the free page \<open>i\<close>; the test of a last page that is used reads entry \<open>i\<close> again.\<close>

function neighbours_usable :: "u64 list \<Rightarrow> nat \<Rightarrow> nat \<Rightarrow> nat \<Rightarrow> int \<Rightarrow> bool" where
  "neighbours_usable xs i minpagecount j sizeleft =
     (if sizeleft > 0
      then (if xs ! j \<noteq> 0
            then j = i + minpagecount - 1 \<and> sizeleft < 4096 \<and>
              low_mask (blocks_for (word_of_int sizeleft)) AND xs ! i = 0
            else neighbours_usable xs i minpagecount (j + 1) (sizeleft - 4096))
      else True)"
  by pat_completeness auto
termination
  by (relation "measure (\<lambda>(xs, i, m, j, sizeleft). nat sizeleft)") auto

declare neighbours_usable.simps [simp del]

fun mark_pages :: "u64 list \<Rightarrow> nat \<Rightarrow> nat \<Rightarrow> u64 list" where
  "mark_pages xs x 0 = xs"
| "mark_pages xs x (Suc n) = mark_pages (xs[x := -1]) (x + 1) n"

definition mark_range :: "u64 list \<Rightarrow> nat \<Rightarrow> u32 \<Rightarrow> u64 list" where
  "mark_range xs i n =
     (let x = i + unat n div 4096; xs = mark_pages xs i (unat n div 4096); rest = n mod 4096
      in if rest \<noteq> 0 then xs[x := xs ! x OR low_mask (blocks_for rest)] else xs)"

fun scan_pages :: "u64 list \<Rightarrow> u32 \<Rightarrow> nat \<Rightarrow> nat \<Rightarrow> nat option" where
  "scan_pages xs n i 0 = None"
| "scan_pages xs n i (Suc k) =
     (if xs ! i = 0 \<and>
         neighbours_usable xs i (unat n div 4096 + (if unat n mod 4096 \<noteq> 0 then 1 else 0)) (i + 1) (sint (n - 4096))
      then Some i else scan_pages xs n (i + 1) k)"

definition malloc2_large :: "u32 \<Rightarrow> mm \<Rightarrow> u64 \<times> mm" where
  "malloc2_large n st =
     (let xs = AllocationInfoList st
      in case scan_pages xs n 0 (PhysicalPageListSize st) of
           Some i \<Rightarrow> (block_address i 4096, st\<lparr>AllocationInfoList := mark_range xs i n\<rparr>)
         | None \<Rightarrow> (0, st))"

definition malloc2 :: "u32 \<Rightarrow> mm \<Rightarrow> u64 \<times> mm" where
  "malloc2 n st =
     (let bitcount = blocks_for n
      in if bitcount = 0 then (0, st)
         else if bitcount < 56 then malloc2_small bitcount st
         else malloc2_large n st)"

section \<open>free2 and realloc2\<close>

fun free_pages :: "u64 list \<Rightarrow> nat \<Rightarrow> nat \<Rightarrow> u64 list" where
  "free_pages xs index 0 = xs"
| "free_pages xs index (Suc n) = free_pages (xs[index := 0]) (index + 1) n"

definition free2 :: "u64 \<Rightarrow> u32 \<Rightarrow> mm \<Rightarrow> mm" where
  "free2 address n st =
     (let bitcount = blocks_for n
      in if bitcount \<noteq> 0 then
           let offset = address - BASE_VIRTUAL_ADDRESS;
               first = unat (drop_bit 12 offset);
               index = first + bitcount div 64;
               rest = bitcount mod 64;
               xs = free_pages (AllocationInfoList st) first (bitcount div 64);
               bitoffset = unat (offset AND 0xfff) div 64
           in st\<lparr>AllocationInfoList :=
                (if rest \<noteq> 0 then xs[index := xs ! index AND NOT (push_bit bitoffset (push_bit rest 1 - 1))] else xs)\<rparr>
         else st)"

text \<open>
  The bytes are copied one after the other. Sizes are below \<open>2 ^ 31\<close> here: \<open>min\<close> takes \<open>int\<close>s, and
  a negative result would be a copy without end.
\<close>

fun copymem :: "u64 \<Rightarrow> u64 \<Rightarrow> nat \<Rightarrow> (u64 \<Rightarrow> u8) \<Rightarrow> u64 \<Rightarrow> u8" where
  "copymem dest src 0 h = h"
| "copymem dest src (Suc n) h = copymem (dest + 1) (src + 1) n (h(dest := h src))"

definition realloc2 :: "u64 \<Rightarrow> u32 \<Rightarrow> u32 \<Rightarrow> mm \<Rightarrow> u64 \<times> mm" where
  "realloc2 oldaddress oldsize newsize st =
     (let (newaddress, st) = malloc2 newsize st
      in if newaddress \<noteq> 0 then
           (newaddress, free2 oldaddress oldsize (st\<lparr>heap :=
              copymem newaddress oldaddress (nat (min (sint oldsize) (sint newsize))) (heap st)\<rparr>))
         else (newaddress, st))"

section \<open>malloc, free and realloc\<close>

function closest_region :: "memlist_item list \<Rightarrow> u64 \<Rightarrow> int \<Rightarrow> int \<Rightarrow> int" where
  "closest_region xs a low high =
     (if low \<le> high then
        let mid = low + (high - low) div 2; b = mi_base (xs ! nat mid) in
        if a = b then mid
        else if a > b then closest_region xs a (mid + 1) high
        else closest_region xs a low (mid - 1)
      else low)"
  by pat_completeness auto
termination
  by (relation "measure (\<lambda>(xs, a, low, high). nat (high - low + 1))") auto

declare closest_region.simps [simp del]

definition findClosestAllocRegion :: "mm \<Rightarrow> u64 \<Rightarrow> nat" where
  "findClosestAllocRegion st a =
     nat (closest_region (AllocList st) a 0 (int (length (AllocList st)) - 1))"

definition insert_item :: "nat \<Rightarrow> memlist_item \<Rightarrow> mm \<Rightarrow> mm" where
  "insert_item insertpoint item st =
     (let n = length (AllocList st);
          st = st\<lparr>AllocList := (shift_up (AllocList st @ [item]) n insertpoint)[insertpoint := item]\<rparr>
      in if length (AllocList st) \<ge> AllocListMax st
         then let bytes = of_nat (AllocListMax st * 16);
                  (p, st) = realloc2 (AllocList_at st) bytes (bytes * 2) st
              in st\<lparr>AllocList_at := p, AllocListMax := AllocListMax st * 2\<rparr>
         else st)"

text \<open>\<open>None\<close> is the write of the first item through NULL, when there is no memory for the list.\<close>

definition malloc :: "u32 \<Rightarrow> mm \<Rightarrow> (u64 \<times> mm) option" where
  "malloc n st =
     (let (result, st) = malloc2 n st; item = \<lparr>mi_base = result, mi_size = n\<rparr>
      in if result = 0 then Some (result, st)
         else if AllocList_at st = 0 then
           let (p, st) = malloc2 (16 * 64) st
           in if p = 0 then None
              else Some (result, st\<lparr>AllocList_at := p, AllocListMax := 64, AllocList := [item]\<rparr>)
         else
           let k = findClosestAllocRegion st result
           in if k < length (AllocList st) \<and> mi_size (AllocList st ! k) = 0
              then Some (result, st\<lparr>AllocList := (AllocList st)[k := item]\<rparr>)
              else Some (result, insert_item k item st))"

definition is_alloc :: "mm \<Rightarrow> nat \<Rightarrow> u64 \<Rightarrow> bool" where
  "is_alloc st i a \<longleftrightarrow> i < length (AllocList st) \<and> mi_size (AllocList st ! i) \<noteq> 0 \<and> mi_base (AllocList st ! i) = a"

definition free :: "u64 \<Rightarrow> mm \<Rightarrow> mm" where
  "free address st =
     (if address \<noteq> 0 then
        let i = findClosestAllocRegion st address
        in if is_alloc st i address
           then let st = free2 address (mi_size (AllocList st ! i)) st
                in st\<lparr>AllocList := (AllocList st)[i := (AllocList st ! i)\<lparr>mi_size := 0\<rparr>]\<rparr>
           else st
      else st)"

text \<open>
  \<open>None\<close> is the endless loop for a pointer that is not in the list, a fault of \<open>malloc\<close>, or the
  copy to NULL when there is no memory.
\<close>

definition realloc :: "u64 \<Rightarrow> u32 \<Rightarrow> mm \<Rightarrow> (u64 \<times> mm) option" where
  "realloc old n st =
     (if old = 0 then malloc n st
      else if n = 0 then Some (0, st)
      else
        let i = findClosestAllocRegion st old
        in if is_alloc st i old then
             let oldsize = mi_size (AllocList st ! i)
             in (case malloc n st of
                   None \<Rightarrow> None
                 | Some (result, st) \<Rightarrow>
                     if result = 0 then None
                     else Some (result, free old (st\<lparr>heap :=
                       copymem result old (nat (min (sint n) (sint oldsize))) (heap st)\<rparr>)))
           else None)"

end
