(* ===== verification/RegionAllocator.thy ===== *)
theory RegionAllocator
  imports Prelude
begin

text \<open>
  The contract of an allocator of memory regions: what \<open>malloc\<close> and \<open>free\<close> rely on in \<open>malloc2\<close> and
  \<open>free2\<close>. A request gives a region that was free, and freeing a region gives back at most its
  blocks. Whoever keeps a list of regions it owns can rely on them staying taken and apart.
\<close>

definition owns :: "('a \<Rightarrow> 'n \<Rightarrow> nat set) \<Rightarrow> ('a \<Rightarrow> 'n \<Rightarrow> bool) \<Rightarrow> nat set \<Rightarrow> ('a \<times> 'n) list \<Rightarrow> bool" where
  "owns region valid T rs \<longleftrightarrow> distinct rs \<and>
     (\<forall>(a, n) \<in> set rs. valid a n \<and> region a n \<noteq> {} \<and> region a n \<subseteq> T) \<and>
     pairwise (\<lambda>r q. case_prod region r \<inter> case_prod region q = {}) (set rs)"

lemma owns_Cons:
  "owns region valid T ((a, n) # rs) \<longleftrightarrow>
     valid a n \<and> region a n \<noteq> {} \<and> region a n \<subseteq> T \<and> (\<forall>q \<in> set rs. region a n \<inter> case_prod region q = {}) \<and>
     owns region valid T rs"
proof -
  have notin: "(a, n) \<notin> set rs" if "region a n \<noteq> {}" "\<forall>q \<in> set rs. region a n \<inter> case_prod region q = {}"
    using that by auto
  have sym: "(\<forall>q. q \<in> set rs \<and> q \<noteq> (a, n) \<longrightarrow> case_prod region (a, n) \<inter> case_prod region q = {} \<and>
      case_prod region q \<inter> case_prod region (a, n) = {}) \<longleftrightarrow>
      (\<forall>q \<in> set rs. q \<noteq> (a, n) \<longrightarrow> region a n \<inter> case_prod region q = {})"
    by (simp add: Int_commute) blast
  show ?thesis
    unfolding owns_def list.set pairwise_insert sym distinct.simps using notin by auto
qed

lemma owns_perm: "owns region valid T rs \<Longrightarrow> distinct qs \<Longrightarrow> set qs = set rs \<Longrightarrow> owns region valid T qs"
  by (simp add: owns_def)

lemma owns_mono: "owns region valid T rs \<Longrightarrow> T \<subseteq> U \<Longrightarrow> owns region valid U rs"
  by (fastforce simp: owns_def)

locale region_allocator =
  fixes inv :: "'s \<Rightarrow> bool"
    and taken :: "'s \<Rightarrow> nat set"
    and good :: "'n \<Rightarrow> bool"
    and region :: "'a \<Rightarrow> 'n \<Rightarrow> nat set"
    and valid :: "'a \<Rightarrow> 'n \<Rightarrow> bool"
    and null :: 'a
    and alloc :: "'n \<Rightarrow> 's \<Rightarrow> 'a \<times> 's"
    and dealloc :: "'a \<Rightarrow> 'n \<Rightarrow> 's \<Rightarrow> 's"
  assumes alloc_region: "inv st \<Longrightarrow> good n \<Longrightarrow> alloc n st = (a, st') \<Longrightarrow> a \<noteq> null \<Longrightarrow>
      inv st' \<and> valid a n \<and> region a n \<noteq> {} \<and> region a n \<inter> taken st = {} \<and> taken st' = taken st \<union> region a n"
    and alloc_null: "inv st \<Longrightarrow> good n \<Longrightarrow> alloc n st = (null, st') \<Longrightarrow> st' = st"
    and dealloc_region: "inv st \<Longrightarrow> valid a n \<Longrightarrow> region a n \<subseteq> taken st \<Longrightarrow>
      inv (dealloc a n st) \<and> taken st - region a n \<subseteq> taken (dealloc a n st)"
begin

lemma owns_alloc:
  assumes "inv st" and "good n" and "alloc n st = (a, st')" and "a \<noteq> null"
    and "owns region valid (taken st) rs"
  shows "inv st' \<and> owns region valid (taken st') ((a, n) # rs)"
proof -
  note r = alloc_region [OF assms(1-4)]
  have "region a n \<inter> case_prod region q = {}" if "q \<in> set rs" for q
    using assms(5) that r by (cases q) (fastforce simp: owns_def)
  then show ?thesis using r owns_mono [OF assms(5)] by (auto simp: owns_Cons)
qed

lemma owns_dealloc:
  assumes "inv st" and "owns region valid (taken st) ((a, n) # rs)"
  shows "inv (dealloc a n st) \<and> owns region valid (taken (dealloc a n st)) rs"
proof -
  have o: "valid a n" "region a n \<subseteq> taken st" "\<forall>q \<in> set rs. region a n \<inter> case_prod region q = {}"
    "owns region valid (taken st) rs"
    using assms(2) by (simp_all add: owns_Cons)
  note d = dealloc_region [OF assms(1) o(1,2)]
  have "region b m \<subseteq> taken (dealloc a n st)" if "(b, m) \<in> set rs" for b m
    using o(3,4) d that by (fastforce simp: owns_def)
  then show ?thesis using d o(4) by (auto simp: owns_def)
qed

end

end
