(* ===== verification/AllocCorrect.thy ===== *)
theory AllocCorrect
  imports Alloc RegionAllocator
begin

text \<open>
  The allocator of \<open>Alloc\<close>: \<open>malloc2\<close> of small blocks is a first-fit search, \<open>free2\<close> undoes it, larger
  requests can get memory that is in use, and \<open>malloc\<close> and \<open>free\<close> keep the regions of the list
  allocated and apart.
\<close>

section \<open>Blocks of 64 bytes\<close>

definition used :: "u64 list \<Rightarrow> nat \<Rightarrow> bool" where
  "used xs k \<longleftrightarrow> bit (xs ! (k div 64)) (k mod 64)"

definition free_run :: "u64 list \<Rightarrow> nat \<Rightarrow> nat \<Rightarrow> bool" where
  "free_run xs k b \<longleftrightarrow> (\<forall>t<b. \<not> used xs (k + t))"

lemma byte_position:
  fixes i n :: nat
  assumes "n < 64"
  shows "(8 * i + n) div 64 = i div 8 + (if 8 * (i mod 8) + n < 64 then 0 else 1)"
    and "(8 * i + n) mod 64 = (if 8 * (i mod 8) + n < 64 then 8 * (i mod 8) + n else 8 * (i mod 8) + n - 64)"
proof -
  have "8 * i = 8 * (8 * (i div 8) + i mod 8)" by simp
  then have i: "8 * i + n = 64 * (i div 8) + (8 * (i mod 8) + n)" by (simp only: distrib_left)
  have lt: "8 * (i mod 8) + n < 128" using assms mod_less_divisor [of 8 i] by simp
  have split: "(64 * q + m) div 64 = q + (if m < 64 then 0 else 1)"
    "(64 * q + m) mod 64 = (if m < 64 then m else m - 64)" if "m < 128" for q m :: nat
  proof -
    have "(64 * q + m) div 64 = q + (if m < 64 then 0 else 1) \<and> (64 * q + m) mod 64 = (if m < 64 then m else m - 64)"
    proof (cases "m < 64")
      case False
      then obtain k where "m = 64 + k" by (auto simp: le_iff_add not_less)
      then show ?thesis using that by simp
    qed simp
    then show "(64 * q + m) div 64 = q + (if m < 64 then 0 else 1)"
      "(64 * q + m) mod 64 = (if m < 64 then m else m - 64)" by simp_all
  qed
  show "(8 * i + n) div 64 = i div 8 + (if 8 * (i mod 8) + n < 64 then 0 else 1)"
    "(8 * i + n) mod 64 = (if 8 * (i mod 8) + n < 64 then 8 * (i mod 8) + n else 8 * (i mod 8) + n - 64)"
    unfolding i by (rule split [OF lt])+
qed

lemma bit_list_qword: "n < 64 \<Longrightarrow> bit (list_qword xs i) n \<longleftrightarrow> used xs (8 * i + n)"
  unfolding used_def byte_position
  by (auto simp: list_qword_def Let_def bit_simps add.commute dest: bit_imp_le_length)

lemma list_byte_full: "list_byte xs i = 0xff \<longleftrightarrow> (\<forall>n<8. used xs (8 * i + n))"
proof -
  have "list_byte xs i = 0xff \<longleftrightarrow> (\<forall>n<8. bit (xs ! (i div 8)) (8 * (i mod 8) + n))"
  proof -
    have ff: "(0xff :: u64) = mask 8" by (simp add: mask_eq_exp_minus_1)
    have "(\<forall>n<64. (n < 8 \<and> P n) \<longleftrightarrow> n < 8) \<longleftrightarrow> (\<forall>n<8. P n)" for P :: "nat \<Rightarrow> bool"
    proof -
      have "P n" if "\<forall>n<64. (n < 8 \<and> P n) \<longleftrightarrow> n < 8" "n < 8" for n
        using that(1) [rule_format, of n] that(2) by simp
      then show ?thesis by blast
    qed
    then show ?thesis
      unfolding list_byte_def ff by (simp add: bit_eq_iff bit_simps)
  qed
  also have "\<dots> \<longleftrightarrow> (\<forall>n<8. used xs (8 * i + n))"
  proof -
    have "8 * (i mod 8) + n < 64" if "n < 8" for n using that mod_less_divisor [of 8 i] by linarith
    then show ?thesis by (simp add: used_def byte_position)
  qed
  finally show ?thesis .
qed

lemma ones_mask: "push_bit b 1 - 1 = (mask b :: u64)"
  by (simp add: mask_eq_exp_minus_1 push_bit_eq_mult)

lemma overlap_zero:
  fixes p :: u64
  assumes "b < 56" and "j < 8"
  shows "p AND push_bit j (push_bit b 1 - 1) = 0 \<longleftrightarrow> (\<forall>t<b. \<not> bit p (j + t))"
proof -
  have "bit (p AND push_bit j (push_bit b 1 - 1)) n \<longleftrightarrow> bit p n \<and> j \<le> n \<and> n - j < b" for n
    unfolding ones_mask using assms by (auto simp: bit_simps dest: bit_imp_le_length)
  then have "p AND push_bit j (push_bit b 1 - 1) = 0 \<longleftrightarrow> (\<forall>n. \<not> (bit p n \<and> j \<le> n \<and> n - j < b))"
    using bit_imp_le_length [of p] by (auto simp: bit_eq_iff)
  also have "\<dots> \<longleftrightarrow> (\<forall>t<b. \<not> bit p (j + t))" by (metis add_diff_cancel_left' le_add1 le_add_diff_inverse)
  finally show ?thesis .
qed

section \<open>The search of malloc2\<close>

lemma find_shift_spec:
  "case find_shift p (push_bit j0 bm) j0 n of
     Some j \<Rightarrow> j0 \<le> j \<and> j < j0 + n \<and> p AND push_bit j bm = 0 \<and> (\<forall>i. j0 \<le> i \<longrightarrow> i < j \<longrightarrow> p AND push_bit i bm \<noteq> 0)
   | None \<Rightarrow> \<forall>i. j0 \<le> i \<longrightarrow> i < j0 + n \<longrightarrow> p AND push_bit i bm \<noteq> 0"
proof (induction n arbitrary: j0)
  case (Suc n)
  have "push_bit 1 (push_bit j0 bm) = push_bit (j0 + 1) bm" by (simp add: push_bit_push_bit)
  then show ?case
    using Suc.IH [of "j0 + 1"]
    by (auto split: option.splits) (metis Suc_leI le_neq_implies_less)+
qed simp

lemma overlap_free_run:
  assumes "b < 56" and "j < 8"
  shows "list_qword xs i AND push_bit j (push_bit b 1 - 1) = 0 \<longleftrightarrow> free_run xs (8 * i + j) b"
  unfolding overlap_zero [OF assms] free_run_def
  using assms bit_list_qword [of _ xs i] by (simp add: add.assoc)

lemma find_shift_free_run:
  assumes "b < 56"
  shows "case find_shift (list_qword xs i) (push_bit b 1 - 1) 0 8 of
     Some j \<Rightarrow> j < 8 \<and> free_run xs (8 * i + j) b \<and> (\<forall>t<j. \<not> free_run xs (8 * i + t) b)
   | None \<Rightarrow> \<forall>t<8. \<not> free_run xs (8 * i + t) b"
  using find_shift_spec [where p = "list_qword xs i" and ?j0.0 = 0 and bm = "push_bit b 1 - 1" and n = 8] overlap_free_run [OF assms, of _ xs i]
  unfolding push_bit_0_id id_apply by (auto split: option.splits)

lemma scan_bytes_spec:
  assumes "0 < b" and "b < 56"
  shows "case scan_bytes xs (push_bit b 1 - 1) i n of
     Some (q, j) \<Rightarrow> j < 8 \<and> i \<le> q \<and> q < i + n \<and> free_run xs (8 * q + j) b \<and>
       (\<forall>k. 8 * i \<le> k \<longrightarrow> k < 8 * q + j \<longrightarrow> \<not> free_run xs k b)
   | None \<Rightarrow> \<forall>k. 8 * i \<le> k \<longrightarrow> k < 8 * (i + n) \<longrightarrow> \<not> free_run xs k b"
proof (induction n arbitrary: i)
  case (Suc n)
  show ?case
  proof (cases "list_byte xs i \<noteq> 0xff \<and> find_shift (list_qword xs i) (push_bit b 1 - 1) 0 8 \<noteq> None")
    case True
    then obtain j where j: "find_shift (list_qword xs i) (push_bit b 1 - 1) 0 8 = Some j" by auto
    have "\<not> free_run xs k b" if "8 * i \<le> k" "k < 8 * i + j" for k
      using find_shift_free_run [OF assms(2), of xs i] that j by (auto simp: le_iff_add)
    then show ?thesis
      using True j find_shift_free_run [OF assms(2), of xs i] by auto
  next
    case False
    have none: "\<forall>t<8. \<not> free_run xs (8 * i + t) b"
    proof (cases "list_byte xs i = 0xff")
      case True
      then show ?thesis using assms(1) by (auto simp: list_byte_full free_run_def)
    next
      case byte: False
      then show ?thesis using False find_shift_free_run [OF assms(2), of xs i] by auto
    qed
    have step: "scan_bytes xs (push_bit b 1 - 1) i (Suc n) = scan_bytes xs (push_bit b 1 - 1) (Suc i) n"
      using False by (auto split: option.splits)
    have low: "\<not> free_run xs k b" if "8 * i \<le> k" "k < 8 * Suc i" for k
      using none [rule_format, of "k - 8 * i"] that by simp
    show ?thesis
    proof (cases "scan_bytes xs (push_bit b 1 - 1) (Suc i) n")
      case None
      then show ?thesis using Suc.IH [of "Suc i"] low unfolding step by simp (metis not_less)
    next
      case (Some qj)
      then show ?thesis using Suc.IH [of "Suc i"] low unfolding step
        by (cases qj) (simp, metis not_less)
    qed
  qed
qed simp

section \<open>Setting the bits\<close>

lemma used_list_update:
  assumes "q < length xs"
  shows "used (xs[q := w]) k \<longleftrightarrow> (if k div 64 = q then bit w (k mod 64) else used xs k)"
  using assms by (simp add: used_def nth_list_update)

lemma used_list_qword_or:
  assumes "i div 8 + 1 < length xs"
  shows "used (list_qword_or xs i m) k \<longleftrightarrow> used xs k \<or> 8 * i \<le> k \<and> bit m (k - 8 * i)"
proof -
  let ?q = "i div 8" and ?r = "i mod 8"
  have q: "?q < length xs" using assms by simp
  have i: "8 * i = 64 * ?q + 8 * ?r" using div_mult_mod_eq [of i 8] by linarith
  have k: "k = 64 * (k div 64) + k mod 64" "k mod 64 < 64" by simp_all
  have len: "n < 64" if "bit m n" for n using bit_imp_le_length [OF that] by simp
  consider "k div 64 < ?q" | "k div 64 = ?q" | "k div 64 = ?q + 1" | "?q + 1 < k div 64" by linarith
  then show ?thesis
  proof cases
    case 1
    then have "k < 8 * i" using k i by linarith
    with 1 show ?thesis using assms q by (auto simp: list_qword_or_def Let_def used_list_update)
  next
    case 2
    have "8 * i \<le> k \<longleftrightarrow> 8 * ?r \<le> k mod 64" "k - 8 * i = k mod 64 - 8 * ?r" using 2 k i by linarith+
    then show ?thesis using 2 assms q k(2)
      by (auto simp: list_qword_or_def Let_def used_list_update used_def bit_simps)
  next
    case 3
    have "8 * i \<le> k" "k - 8 * i = 64 - 8 * ?r + k mod 64" using 3 k i by linarith+
    then show ?thesis using 3 assms q k(2)
      by (auto simp: list_qword_or_def Let_def used_list_update used_def bit_simps dest: len)
  next
    case 4
    then have "64 \<le> k - 8 * i" using k i by linarith
    with 4 show ?thesis using assms q
      by (auto simp: list_qword_or_def Let_def used_list_update dest: len)
  qed
qed

lemma length_list_qword_or [simp]: "length (list_qword_or xs i m) = length xs"
  by (simp add: list_qword_or_def Let_def)

lemma block_address_small:
  assumes "i * n < 2 ^ 31"
  shows "block_address i n = BASE_VIRTUAL_ADDRESS + of_nat (i * n)"
proof -
  let ?w = "of_nat (i * n) :: u64"
  have "take_bit 31 ?w = ?w"
    using assms by (simp add: word_eq_iff_unsigned [where ?'a = nat] unsigned_take_bit_eq take_bit_nat_eq_self unat_of_nat del: of_nat_mult)
  then have b: "bit ?w m \<Longrightarrow> m < 31" for m by (metis bit_take_bit_iff)
  have "signed_take_bit 31 ?w = ?w"
    by (rule bit_word_eqI) (auto simp: bit_signed_take_bit_iff min_def simp del: of_nat_mult dest: b)
  then show ?thesis by (simp add: block_address_def)
qed

text \<open>The block number of an address, and the effect a request of \<open>b\<close> blocks at block \<open>k\<close> has.\<close>

definition block_at :: "nat \<Rightarrow> u64" where
  "block_at k = BASE_VIRTUAL_ADDRESS + 64 * of_nat k"

definition takes_blocks :: "mm \<Rightarrow> nat \<Rightarrow> nat \<Rightarrow> mm \<Rightarrow> bool" where
  "takes_blocks st k b st' \<longleftrightarrow>
     st' = st\<lparr>AllocationInfoList := AllocationInfoList st'\<rparr> \<and>
     length (AllocationInfoList st') = length (AllocationInfoList st) \<and>
     (\<forall>i. used (AllocationInfoList st') i \<longleftrightarrow> used (AllocationInfoList st) i \<or> k \<le> i \<and> i < k + b)"

definition mm_sizes :: "mm \<Rightarrow> bool" where
  "mm_sizes st \<longleftrightarrow> 0 < PhysicalPageListSize st \<and>
     PhysicalPageListSize st < length (AllocationInfoList st) \<and> PhysicalPageListSize st \<le> 2 ^ 19"

lemma malloc2_small_spec:
  assumes "mm_sizes st" and "0 < b" and "b < 56" and "malloc2_small b st = (a, st')"
  shows "if \<exists>k < 64 * PhysicalPageListSize st - 64. free_run (AllocationInfoList st) k b
    then \<exists>k. k < 64 * PhysicalPageListSize st - 64 \<and> free_run (AllocationInfoList st) k b \<and>
      (\<forall>i<k. \<not> free_run (AllocationInfoList st) i b) \<and> a = block_at k \<and> takes_blocks st k b st'
    else a = 0 \<and> st' = st"
proof (cases "scan_bytes (AllocationInfoList st) (push_bit b 1 - 1) 0 (PhysicalPageListSize st * 8 - 8)")
  case None
  then have "\<forall>k < 64 * PhysicalPageListSize st - 64. \<not> free_run (AllocationInfoList st) k b"
    using scan_bytes_spec [OF assms(2,3), where xs = "AllocationInfoList st" and i = 0 and n = "PhysicalPageListSize st * 8 - 8"]
    by (simp add: diff_mult_distrib2 mult.commute)
  then show ?thesis using None assms(4) by (auto simp: malloc2_small_def Let_def)
next
  case (Some qj)
  obtain i j where qj: "qj = (i, j)" by (cases qj)
  let ?k = "8 * i + j"
  have s: "j < 8" "i < PhysicalPageListSize st * 8 - 8" "free_run (AllocationInfoList st) ?k b"
      "\<forall>k<?k. \<not> free_run (AllocationInfoList st) k b"
    using scan_bytes_spec [OF assms(2,3), where xs = "AllocationInfoList st" and i = 0 and n = "PhysicalPageListSize st * 8 - 8"] Some qj by auto
  have k: "?k < 64 * PhysicalPageListSize st - 64" using s(1,2) by linarith
  have "PhysicalPageListSize st \<le> 524288" using assms(1) by (simp add: mm_sizes_def)
  then have "i < 4194304" using s(2) by linarith
  then have "i * 512 < 2 ^ 31" by simp
  then have a: "a = block_at ?k"
    using assms(4) Some qj by (auto simp: malloc2_small_def Let_def block_address_small block_at_def algebra_simps)
  have "i < (PhysicalPageListSize st - 1) * 8" using s(2) by (simp add: diff_mult_distrib)
  then have "i div 8 < PhysicalPageListSize st - 1" by (rule less_mult_imp_div_less)
  then have "i div 8 + 1 < length (AllocationInfoList st)" using assms(1) by (auto simp: mm_sizes_def)
  note or = used_list_qword_or [OF this, of "push_bit j (push_bit b 1 - 1)"]
  have range: "8 * i \<le> m \<and> bit (push_bit j (push_bit b 1 - 1) :: u64) (m - 8 * i) \<longleftrightarrow> ?k \<le> m \<and> m < ?k + b" for m
    unfolding ones_mask using s(1) assms(3) by (auto simp: bit_simps)
  have "st' = st\<lparr>AllocationInfoList := list_qword_or (AllocationInfoList st) i (push_bit j (push_bit b 1 - 1))\<rparr>"
    using assms(4) Some qj by (simp add: malloc2_small_def Let_def)
  then have "takes_blocks st ?k b st'"
    using or [unfolded range] by (simp add: takes_blocks_def)
  then show ?thesis using s k a by auto
qed

text \<open>
  C29: For a request of at most 55 blocks of 64 bytes, \<open>malloc2\<close> is a first-fit allocator: it takes
  the lowest run of free blocks that begins before the last page, returns its address and marks
  exactly its blocks as used; it returns NULL and changes nothing when no run begins there, also
  when there is one in the last page.
\<close>

theorem malloc2_first_fit:
  assumes "mm_sizes st" and "0 < blocks_for n" and "blocks_for n < 56" and "malloc2 n st = (a, st')"
  shows "if \<exists>k < 64 * PhysicalPageListSize st - 64. free_run (AllocationInfoList st) k (blocks_for n)
    then \<exists>k. k < 64 * PhysicalPageListSize st - 64 \<and> free_run (AllocationInfoList st) k (blocks_for n) \<and>
      (\<forall>i<k. \<not> free_run (AllocationInfoList st) i (blocks_for n)) \<and> a = block_at k \<and> takes_blocks st k (blocks_for n) st'
    else a = 0 \<and> st' = st"
  using malloc2_small_spec [OF assms(1-3), of a st'] assms(2-4) by (simp add: malloc2_def Let_def)

text \<open>Four pages; the first eight blocks hold the list itself.\<close>

definition example_mm :: mm where
  "example_mm = \<lparr>AllocationInfoList = [0xff, 0, 0, 0, -1], PhysicalPageListSize = 4, AllocList = [],
     AllocList_at = 0, AllocListMax = 0, heap = (\<lambda>_. 0)\<rparr>"

lemma example_sizes: "mm_sizes example_mm"
  by (simp add: mm_sizes_def example_mm_def)

lemma example_used: "k < 192 \<Longrightarrow> used (AllocationInfoList example_mm) k \<longleftrightarrow> k < 8"
proof -
  assume "k < 192"
  then have "k div 64 < 3" by (simp add: less_mult_imp_div_less)
  then consider "k div 64 = 0" | "k div 64 = 1" | "k div 64 = 2" by linarith
  moreover have "bit (0xff :: u64) m \<longleftrightarrow> m < 8" for m
    using bit_mask_iff [where m = 8 and n = m, where ?'a = u64] by (auto simp: mask_eq_exp_minus_1 dest: bit_imp_le_length)
  ultimately show ?thesis by cases (auto simp: used_def example_mm_def)
qed

lemma example_runs:
  "free_run (AllocationInfoList example_mm) 8 2" "i < 8 \<Longrightarrow> \<not> free_run (AllocationInfoList example_mm) i 2"
  using example_used [of i] by (auto simp: free_run_def example_used intro!: exI [of _ 0])

lemma example_blocks: "blocks_for 100 = 2"
  by (simp add: blocks_for_def)

theorem malloc2_first_fit_witness:
  "\<exists>st'. malloc2 100 example_mm = (0x1000000200, st') \<and> takes_blocks example_mm 8 2 st'"
proof -
  obtain a st' where m: "malloc2 100 example_mm = (a, st')" by fastforce
  have size: "8 < 64 * PhysicalPageListSize example_mm - 64" by (simp add: example_mm_def)
  have "a = block_at 8 \<and> takes_blocks example_mm 8 2 st'"
    using malloc2_first_fit [OF example_sizes _ _ m, unfolded example_blocks] size example_runs
    by (auto split: if_splits) (metis linorder_neqE_nat)+
  then show ?thesis using m by (simp add: block_at_def BASE_VIRTUAL_ADDRESS_def)
qed

section \<open>free2\<close>

lemma offset_bits:
  assumes "k < 2 ^ 25"
  shows "unat (drop_bit 12 (block_at k - BASE_VIRTUAL_ADDRESS)) = k div 64"
    and "unat ((block_at k - BASE_VIRTUAL_ADDRESS) AND 0xfff) div 64 = k mod 64"
proof -
  have "block_at k - BASE_VIRTUAL_ADDRESS = of_nat (64 * k)" by (simp add: block_at_def)
  moreover have u: "unat (of_nat (64 * k) :: u64) = 64 * k"
    using assms by (simp add: unat_of_nat take_bit_nat_eq_self del: of_nat_mult)
  ultimately have o: "unat (block_at k - BASE_VIRTUAL_ADDRESS) = 64 * k" by simp
  show "unat (drop_bit 12 (block_at k - BASE_VIRTUAL_ADDRESS)) = k div 64"
    unfolding unat_drop_bit_eq o by (simp add: drop_bit_eq_div)
  have low: "(block_at k - BASE_VIRTUAL_ADDRESS) AND 0xfff = take_bit 12 (block_at k - BASE_VIRTUAL_ADDRESS)"
    by (simp add: take_bit_eq_mask mask_eq_exp_minus_1)
  have "unat ((block_at k - BASE_VIRTUAL_ADDRESS) AND 0xfff) = 64 * k mod 4096"
    unfolding low unsigned_take_bit_eq o by (simp add: take_bit_eq_mod)
  also have "\<dots> div 64 = k mod 64"
    using mult_mod_right [of 64 k 64] by simp
  finally show "unat ((block_at k - BASE_VIRTUAL_ADDRESS) AND 0xfff) div 64 = k mod 64" .
qed

definition frees_blocks :: "mm \<Rightarrow> (nat \<Rightarrow> bool) \<Rightarrow> mm \<Rightarrow> bool" where
  "frees_blocks st F st' \<longleftrightarrow>
     st' = st\<lparr>AllocationInfoList := AllocationInfoList st'\<rparr> \<and>
     length (AllocationInfoList st') = length (AllocationInfoList st) \<and>
     (\<forall>i. used (AllocationInfoList st') i \<longleftrightarrow> used (AllocationInfoList st) i \<and> \<not> F i)"

text \<open>A small block is freed only as far as its first page goes.\<close>

lemma free2_small:
  assumes "blocks_for n = b" and "0 < b" and "b < 64" and "k < 2 ^ 25" and "k div 64 < length (AllocationInfoList st)"
  shows "frees_blocks st (\<lambda>i. k \<le> i \<and> i < k + b \<and> i div 64 = k div 64) (free2 (block_at k) n st)"
proof -
  let ?xs = "AllocationInfoList st"
  let ?m = "push_bit (k mod 64) (push_bit b 1 - 1) :: u64"
  have eq: "free2 (block_at k) n st = st\<lparr>AllocationInfoList := ?xs[k div 64 := ?xs ! (k div 64) AND NOT ?m]\<rparr>"
    using assms by (simp add: free2_def Let_def offset_bits)
  have k: "k = 64 * (k div 64) + k mod 64" by simp
  have "used (?xs[k div 64 := ?xs ! (k div 64) AND NOT ?m]) i \<longleftrightarrow>
      used ?xs i \<and> \<not> (k \<le> i \<and> i < k + b \<and> i div 64 = k div 64)" for i
  proof (cases "i div 64 = k div 64")
    case True
    then have "i = 64 * (k div 64) + i mod 64" by (metis mult_div_mod_eq)
    then have "k \<le> i \<and> i < k + b \<longleftrightarrow> k mod 64 \<le> i mod 64 \<and> i mod 64 - k mod 64 < b" using k by linarith
    moreover have "i mod 64 < 64" by simp
    ultimately show ?thesis
      using True assms(5) unfolding used_list_update [OF assms(5)] ones_mask by (auto simp: used_def bit_simps)
  qed (simp add: used_list_update [OF assms(5)])
  then show ?thesis by (simp add: frees_blocks_def eq)
qed

lemma length_free_pages [simp]: "length (free_pages xs q n) = length xs"
  by (induction xs q n rule: free_pages.induct) simp_all

lemma used_free_pages:
  "q + n \<le> length xs \<Longrightarrow> used (free_pages xs q n) i \<longleftrightarrow> used xs i \<and> \<not> (64 * q \<le> i \<and> i < 64 * q + 64 * n)"
proof (induction xs q n rule: free_pages.induct)
  case (2 xs q n)
  have "i div 64 = q \<longleftrightarrow> 64 * q \<le> i \<and> i < 64 * q + 64" by (metis div_nat_eqI dividend_less_times_div mult.commute mult_Suc_right add.commute times_div_less_eq_dividend zero_less_numeral)
  then show ?case using 2 by (auto simp: used_list_update)
qed simp

lemma free2_pages:
  assumes "blocks_for n = 64 * m" and "0 < m" and "64 * q < 2 ^ 25" and "q + m \<le> length (AllocationInfoList st)"
  shows "frees_blocks st (\<lambda>i. 64 * q \<le> i \<and> i < 64 * q + 64 * m) (free2 (block_at (64 * q)) n st)"
  using assms by (simp add: free2_def Let_def offset_bits frees_blocks_def used_free_pages)

text \<open>
  C33: Freeing a block of at most 55 units that \<open>malloc2\<close> gave restores the bit map as it was, except
  when the block crosses into a second page: then its part in the second page stays used for ever.
\<close>

theorem malloc2_free2:
  assumes "mm_sizes st" and "0 < blocks_for n" and "blocks_for n < 56" and "malloc2 n st = (a, st')" and "a \<noteq> 0"
  shows "\<exists>k. a = block_at k \<and> (\<forall>i. used (AllocationInfoList (free2 a n st')) i \<longleftrightarrow>
      used (AllocationInfoList st) i \<or> k \<le> i \<and> i < k + blocks_for n \<and> i div 64 \<noteq> k div 64)"
proof -
  have "malloc2_small (blocks_for n) st = (a, st')" using assms(2-4) by (simp add: malloc2_def Let_def)
  from malloc2_small_spec [OF assms(1-3) this] assms(5) obtain k where
    k: "k < 64 * PhysicalPageListSize st - 64" "free_run (AllocationInfoList st) k (blocks_for n)" "a = block_at k"
      "takes_blocks st k (blocks_for n) st'"
    by (auto split: if_splits)
  have "k < 2 ^ 25" "k div 64 < length (AllocationInfoList st')"
    using k(1,4) assms(1) by (auto simp: mm_sizes_def takes_blocks_def)
  from free2_small [OF refl assms(2) _ this] assms(3) have
    f: "frees_blocks st' (\<lambda>i. k \<le> i \<and> i < k + blocks_for n \<and> i div 64 = k div 64) (free2 a n st')"
    unfolding k(3) by simp
  have "\<not> used (AllocationInfoList st) i" if "k \<le> i" "i < k + blocks_for n" for i
    using k(2) that by (auto simp: free_run_def le_iff_add)
  then show ?thesis using f k(3,4) unfolding frees_blocks_def takes_blocks_def by blast
qed

theorem malloc2_free2_witness:
  "\<exists>a st' k. malloc2 100 example_mm = (a, st') \<and> a = block_at k \<and>
     (\<forall>i. used (AllocationInfoList (free2 a 100 st')) i \<longleftrightarrow>
       used (AllocationInfoList example_mm) i \<or> k \<le> i \<and> i < k + 2 \<and> i div 64 \<noteq> k div 64)"
proof -
  obtain a st' where m: "malloc2 100 example_mm = (a, st')" by fastforce
  then have "malloc2_small 2 example_mm = (a, st')" by (simp add: malloc2_def example_blocks)
  from malloc2_small_spec [OF example_sizes _ _ this] example_runs
  have "a = block_at 8" by (auto simp: example_mm_def split: if_splits) (metis linorder_neqE_nat)+
  then have "a \<noteq> 0" by (simp add: block_at_def BASE_VIRTUAL_ADDRESS_def)
  from malloc2_free2 [OF example_sizes _ _ m this] m example_blocks show ?thesis by auto
qed

section \<open>Whole pages\<close>

lemma sizeleft_eq:
  fixes n :: u32
  assumes "unat n < 2 ^ 31"
  shows "sint (n - 4096) = int (unat n) - 4096"
proof -
  have "n - 4096 = word_of_int (uint n - 4096)" by simp
  then have "sint (n - 4096) = (uint n - 4096 + 2 ^ 31) mod 2 ^ 32 - 2 ^ 31"
    using int_word_sint [where x = "uint n - 4096" and ?'a = 32] by simp
  moreover have "uint n < int (2 ^ 31)"
    using assms unfolding unat_eq_nat_uint nat_less_iff [OF uint_ge_0] .
  then have "uint n < 2 ^ 31" by (simp only: of_nat_power of_nat_numeral)
  then have "uint n - 4096 + 2 ^ 31 < 2 ^ 32" "0 \<le> uint n - 4096 + 2 ^ 31" using uint_ge_0 [of n] by simp_all
  then have "(uint n - 4096 + 2 ^ 31) mod 2 ^ 32 = uint n - 4096 + 2 ^ 31" by (rule mod_pos_pos_trivial [rotated])
  ultimately show ?thesis by simp
qed

definition page_ok :: "u64 list \<Rightarrow> u32 \<Rightarrow> nat \<Rightarrow> bool" where
  "page_ok xs n i \<longleftrightarrow> xs ! i = 0 \<and>
     neighbours_usable xs i (unat n div 4096 + (if unat n mod 4096 \<noteq> 0 then 1 else 0)) (i + 1) (sint (n - 4096))"

lemma scan_pages_spec:
  "case scan_pages xs n i k of
     Some p \<Rightarrow> i \<le> p \<and> p < i + k \<and> page_ok xs n p \<and> (\<forall>t. i \<le> t \<longrightarrow> t < p \<longrightarrow> \<not> page_ok xs n t)
   | None \<Rightarrow> \<forall>t. i \<le> t \<longrightarrow> t < i + k \<longrightarrow> \<not> page_ok xs n t"
proof (induction k arbitrary: i)
  case (Suc k)
  have step: "scan_pages xs n i (Suc k) = (if page_ok xs n i then Some i else scan_pages xs n (Suc i) k)"
    by (simp add: page_ok_def)
  show ?case
    using Suc.IH [of "Suc i"] unfolding step
    by (auto split: option.splits) (metis Suc_leI le_neq_implies_less)+
qed simp

lemma scan_pages_first:
  assumes "p < k" and "page_ok xs n p" and "\<forall>j<p. xs ! j \<noteq> 0"
  shows "scan_pages xs n 0 k = Some p"
proof -
  have "\<not> page_ok xs n j" if "j < p" for j using assms(3) that by (simp add: page_ok_def)
  then show ?thesis
    using scan_pages_spec [where xs = xs and n = n and i = 0 and k = k] assms(1,2)
    by (auto split: option.splits) (metis linorder_neqE_nat)
qed

text \<open>
  Memory that is in use is given out again. A request of 4033 to 4095 bytes gets the first free
  page, which stays marked as free, so the next such request gets the same page. A request of
  4097 to 8191 bytes gets the first free page too, and the state of the page behind it is
  not looked at: its blocks may be allocated, or it may not exist.
\<close>

theorem malloc2_gives_used_memory:
  assumes "mm_sizes st" and "i < PhysicalPageListSize st" and "AllocationInfoList st ! i = 0"
    and "\<forall>j<i. AllocationInfoList st ! j \<noteq> 0"
  shows "(4032 < unat n \<longrightarrow> unat n < 4096 \<longrightarrow> malloc2 n st = (block_at (64 * i), st)) \<and>
    (4096 < unat n \<longrightarrow> unat n < 8192 \<longrightarrow> fst (malloc2 n st) = block_at (64 * i))"
proof -
  let ?xs = "AllocationInfoList st"
  have "i * 4096 < 2 ^ 31" using assms(1,2) by (auto simp: mm_sizes_def)
  then have addr: "block_address i 4096 = block_at (64 * i)"
    by (simp add: block_address_small block_at_def algebra_simps)
  note first = scan_pages_first [OF assms(2) _ assms(4), of n]
  show ?thesis
  proof (intro conjI impI)
    assume n: "4032 < unat n" "unat n < 4096"
    have b: "blocks_for n = 64"
    proof -
      obtain m where "unat n = 64 * 63 + m" "0 < m" "m < 64"
        using n by (intro that [of "unat n - 4032"]) simp_all
      then have "unat n div 64 = 63" "unat n mod 64 = m" using mod_mult_self4 [of 64 63 m] by simp_all
      with \<open>0 < m\<close> have "unat n div 64 = 63" "unat n mod 64 \<noteq> 0" by simp_all
      then show ?thesis by (simp add: blocks_for_def)
    qed
    have "sint (n - 4096) = int (unat n) - 4096" by (rule sizeleft_eq) (use n in simp)
    then have "sint (n - 4096) \<le> 0" using n by linarith
    then have "page_ok ?xs n i" using assms(3) by (simp add: page_ok_def neighbours_usable.simps)
    then have "scan_pages ?xs n 0 (PhysicalPageListSize st) = Some i" by (rule first)
    moreover have "n mod 4096 = n" using n by (simp add: word_eq_iff_unsigned [where ?'a = nat] unat_mod)
    moreover have "unat n div 4096 = 0" using n by simp
    moreover have "low_mask 64 = 0" by (simp add: low_mask_def)
    ultimately have "malloc2_large n st = (block_at (64 * i), st)"
      by (simp add: malloc2_large_def mark_range_def Let_def addr b)
    then show "malloc2 n st = (block_at (64 * i), st)" by (simp add: malloc2_def b)
  next
    assume n: "4096 < unat n" "unat n < 8192"
    have pages: "unat n div 4096 = 1" "unat n mod 4096 = unat n - 4096"
    proof -
      obtain m where "unat n = 4096 + m" "m < 4096" using n by (auto intro: that [of "unat n - 4096"])
      then show "unat n div 4096 = 1" "unat n mod 4096 = unat n - 4096" by simp_all
    qed
    have left: "sint (n - 4096) = int (unat n) - 4096" using n by (simp add: sizeleft_eq)
    have "neighbours_usable ?xs i 2 (Suc i) z" if "0 < z" "z < 4096" for z
      using that assms(3) by (subst neighbours_usable.simps) (simp add: neighbours_usable.simps [of _ _ _ "Suc (Suc i)"])
    from this [of "int (unat n) - 4096"] have "neighbours_usable ?xs i 2 (Suc i) (int (unat n) - 4096)"
      using n by linarith
    then have "page_ok ?xs n i" using assms(3) n pages left by (simp add: page_ok_def numeral_2_eq_2)
    then have "scan_pages ?xs n 0 (PhysicalPageListSize st) = Some i" by (rule first)
    moreover have "\<not> blocks_for n < 56" "blocks_for n \<noteq> 0" using n unfolding blocks_for_def by linarith+
    ultimately show "fst (malloc2 n st) = block_at (64 * i)"
      by (simp add: malloc2_def malloc2_large_def Let_def addr)
  qed
qed

theorem malloc2_gives_used_memory_witness:
  "malloc2 4090 example_mm = (0x1000001000, example_mm) \<and>
   fst (malloc2 4100 (example_mm\<lparr>AllocationInfoList := [0xff, 0, -1, -1, -1]\<rparr>)) = 0x1000001000"
proof
  show "malloc2 4090 example_mm = (0x1000001000, example_mm)"
    using malloc2_gives_used_memory [OF example_sizes, of 1 4090]
    by (simp add: example_mm_def block_at_def BASE_VIRTUAL_ADDRESS_def)
  have "mm_sizes (example_mm\<lparr>AllocationInfoList := [0xff, 0, -1, -1, -1]\<rparr>)"
    by (simp add: mm_sizes_def example_mm_def)
  from malloc2_gives_used_memory [OF this, of 1 4100]
  show "fst (malloc2 4100 (example_mm\<lparr>AllocationInfoList := [0xff, 0, -1, -1, -1]\<rparr>)) = 0x1000001000"
    by (simp add: example_mm_def block_at_def BASE_VIRTUAL_ADDRESS_def)
qed

section \<open>The contract of an allocator\<close>

definition mm_inv :: "mm \<Rightarrow> bool" where
  "mm_inv st \<longleftrightarrow> mm_sizes st \<and>
     (\<forall>i. 64 * PhysicalPageListSize st \<le> i \<longrightarrow> i < 64 * length (AllocationInfoList st) \<longrightarrow> used (AllocationInfoList st) i)"

definition taken :: "mm \<Rightarrow> nat set" where
  "taken st = {i. i < 64 * PhysicalPageListSize st \<and> used (AllocationInfoList st) i}"

text \<open>The sizes for which \<open>malloc2\<close> is right: at most 55 blocks, or whole pages.\<close>

definition good_size :: "u32 \<Rightarrow> bool" where
  "good_size n \<longleftrightarrow> n \<noteq> 0 \<and> unat n < 2 ^ 31 \<and> (blocks_for n < 56 \<or> unat n mod 4096 = 0)"

definition blocks :: "u64 \<Rightarrow> u32 \<Rightarrow> nat set" where
  "blocks a n = (let k = unat (a - BASE_VIRTUAL_ADDRESS) div 64 in {k..<k + blocks_for n})"

definition valid_region :: "u64 \<Rightarrow> u32 \<Rightarrow> bool" where
  "valid_region a n \<longleftrightarrow> good_size n \<and> (\<exists>k < 2 ^ 25. a = block_at k \<and> (unat n mod 4096 = 0 \<longrightarrow> k mod 64 = 0))"

lemma block_number:
  assumes "k < 2 ^ 25"
  shows "unat (block_at k - BASE_VIRTUAL_ADDRESS) div 64 = k" and "block_at k \<noteq> 0"
proof -
  have "(of_nat (64 * k) :: u64) = 64 * of_nat k" by simp
  moreover have "unat (of_nat (64 * k) :: u64) = 64 * k"
    using assms by (simp add: unat_of_nat take_bit_nat_eq_self del: of_nat_mult)
  ultimately have u: "unat (64 * of_nat k :: u64) = 64 * k" by simp
  then show "unat (block_at k - BASE_VIRTUAL_ADDRESS) div 64 = k" by (simp add: block_at_def)
  have "unat (block_at k) = 0x1000000000 + 64 * k"
    using assms u by (simp add: block_at_def BASE_VIRTUAL_ADDRESS_def unat_word_ariths)
  then show "block_at k \<noteq> 0" by auto
qed

lemma blocks_block_at: "k < 2 ^ 25 \<Longrightarrow> blocks (block_at k) n = {k..<k + blocks_for n}"
  by (simp add: blocks_def block_number)

lemma blocks_for_pos: "n \<noteq> 0 \<Longrightarrow> 0 < blocks_for n"
proof -
  assume "n \<noteq> 0"
  then have "unat n \<noteq> 0" by (simp add: unat_eq_zero)
  then show ?thesis by (auto simp: blocks_for_def)
qed

lemma page_zero: "xs ! i = 0 \<longleftrightarrow> free_run xs (64 * i) 64"
proof -
  have "(64 * i + t) div 64 = i" "(64 * i + t) mod 64 = t" if "t < 64" for t :: nat
    using that by simp_all
  then show ?thesis by (simp add: free_run_def used_def bit_eq_iff [of "xs ! i" 0])
qed

lemma neighbours_pages:
  "neighbours_usable xs i m j (4096 * int r) \<longleftrightarrow> (\<forall>s<r. xs ! (j + s) = 0)"
proof (induction r arbitrary: j)
  case (Suc r)
  have "4096 * int (Suc r) - 4096 = 4096 * int r" by simp
  then have "neighbours_usable xs i m j (4096 * int (Suc r)) \<longleftrightarrow> xs ! j = 0 \<and> neighbours_usable xs i m (j + 1) (4096 * int r)"
    by (subst neighbours_usable.simps) simp
  also have "\<dots> \<longleftrightarrow> (\<forall>s < Suc r. xs ! (j + s) = 0)"
    unfolding Suc.IH by (auto simp: less_Suc_eq_0_disj)
  finally show ?case .
qed (simp add: neighbours_usable.simps)

lemma length_mark_pages [simp]: "length (mark_pages xs q n) = length xs"
  by (induction xs q n rule: mark_pages.induct) simp_all

lemma page_blocks: "i div 64 = q \<longleftrightarrow> 64 * q \<le> i \<and> i < 64 * q + 64" for i q :: nat
  by (metis div_nat_eqI dividend_less_times_div mult.commute mult_Suc_right add.commute times_div_less_eq_dividend zero_less_numeral)

lemma used_mark_pages:
  "q + n \<le> length xs \<Longrightarrow> used (mark_pages xs q n) i \<longleftrightarrow> used xs i \<or> 64 * q \<le> i \<and> i < 64 * q + 64 * n"
proof (induction xs q n rule: mark_pages.induct)
  case (2 xs q n)
  have "bit (-1 :: u64) (i mod 64)" by simp
  then show ?case using 2 page_blocks [of i q] by (auto simp: used_list_update)
qed auto

lemma free_pages_run: "(\<forall>s<m. xs ! (q + s) = 0) \<longleftrightarrow> free_run xs (64 * q) (64 * m)"
proof
  assume *: "\<forall>s<m. xs ! (q + s) = 0"
  show "free_run xs (64 * q) (64 * m)"
    unfolding free_run_def
  proof (intro allI impI)
    fix t assume "t < 64 * m"
    then have "t div 64 < m" by (simp add: less_mult_imp_div_less mult.commute)
    moreover have "(64 * q + t) div 64 = q + t div 64" by simp
    ultimately show "\<not> used xs (64 * q + t)" using * unfolding used_def by simp
  qed
next
  assume *: "free_run xs (64 * q) (64 * m)"
  have "free_run xs (64 * (q + s)) 64" if "s < m" for s
    unfolding free_run_def
  proof (intro allI impI)
    fix t :: nat assume "t < 64"
    then have "64 * s + t < 64 * m" using that by linarith
    then show "\<not> used xs (64 * (q + s) + t)"
      using * [unfolded free_run_def, rule_format, of "64 * s + t"] by (simp add: add.assoc distrib_left)
  qed
  then show "\<forall>s<m. xs ! (q + s) = 0" by (simp add: page_zero)
qed

lemma malloc2_pages:
  assumes "mm_inv st" and n: "unat n = 4096 * m" "0 < m" "unat n < 2 ^ 31" and "malloc2 n st = (a, st')"
  shows "a = 0 \<and> st' = st \<or> (\<exists>q. q + m \<le> PhysicalPageListSize st \<and> a = block_at (64 * q) \<and>
    free_run (AllocationInfoList st) (64 * q) (64 * m) \<and> takes_blocks st (64 * q) (64 * m) st')"
proof -
  let ?xs = "AllocationInfoList st"
  have "unat n div 64 = 64 * m" "unat n mod 64 = 0" "unat n mod 4096 = 0" "unat n div 4096 = m" using n(1) by simp_all
  note dm = this
  have b: "blocks_for n = 64 * m" by (simp add: blocks_for_def dm)
  have large: "malloc2_large n st = (a, st')" using assms(5) n(2) by (simp add: malloc2_def b)
  have rest: "n mod 4096 = 0" using dm(3) by (simp add: word_eq_iff_unsigned [where ?'a = nat] unat_mod)
  have "sint (n - 4096) = 4096 * int (m - 1)"
    using sizeleft_eq [OF n(3)] n(1,2) by (simp add: of_nat_diff)
  then have ok: "page_ok ?xs n q \<longleftrightarrow> (\<forall>s<m. ?xs ! (q + s) = 0)" for q
    unfolding page_ok_def using neighbours_pages [of ?xs q _ "q + 1" "m - 1"] n(2) dm
    by (cases m) (auto simp: less_Suc_eq_0_disj)
  show ?thesis
  proof (cases "scan_pages ?xs n 0 (PhysicalPageListSize st)")
    case None
    then show ?thesis using large by (simp add: malloc2_large_def)
  next
    case (Some q)
    then have q: "q < PhysicalPageListSize st" "free_run ?xs (64 * q) (64 * m)"
      using scan_pages_spec [where xs = ?xs and n = n and i = 0 and k = "PhysicalPageListSize st"] ok free_pages_run
      by auto
    have fit: "q + m \<le> PhysicalPageListSize st"
    proof (rule ccontr)
      assume "\<not> q + m \<le> PhysicalPageListSize st"
      then obtain t where t: "64 * PhysicalPageListSize st = 64 * q + t" "t < 64 * m"
        using q(1) by (intro that [of "64 * (PhysicalPageListSize st - q)"]) (auto simp: diff_mult_distrib2)
      have "used ?xs (64 * PhysicalPageListSize st)"
        using assms(1) by (auto simp: mm_inv_def mm_sizes_def)
      then show False using q(2) t by (auto simp: free_run_def)
    qed
    have "q * 4096 < 2 ^ 31" using assms(1) q(1) by (auto simp: mm_inv_def mm_sizes_def)
    then have "block_address q 4096 = block_at (64 * q)"
      by (simp add: block_address_small block_at_def algebra_simps)
    then have a: "a = block_at (64 * q)" and st': "st' = st\<lparr>AllocationInfoList := mark_pages ?xs q m\<rparr>"
      using large Some dm rest by (simp_all add: malloc2_large_def mark_range_def Let_def)
    have "q + m \<le> length ?xs" using fit assms(1) by (auto simp: mm_inv_def mm_sizes_def)
    then have "takes_blocks st (64 * q) (64 * m) st'" by (simp add: takes_blocks_def st' used_mark_pages)
    then show ?thesis using fit a q(2) by blast
  qed
qed

lemma small_not_pages: "n \<noteq> 0 \<Longrightarrow> blocks_for n < 56 \<Longrightarrow> unat n mod 4096 \<noteq> 0"
proof
  assume n: "n \<noteq> 0" "blocks_for n < 56" "unat n mod 4096 = 0"
  have "unat n < 4096" using n(2) by (auto simp: blocks_for_def split: if_splits)
  then have "unat n = 0" using n(3) by simp
  then show False using n(1) by (simp add: unat_eq_zero)
qed

lemma malloc2_cases:
  assumes "mm_inv st" and "good_size n" and "malloc2 n st = (a, st')"
  shows "a = 0 \<and> st' = st \<or> (\<exists>k. k + blocks_for n \<le> 64 * PhysicalPageListSize st \<and> a = block_at k \<and>
    (unat n mod 4096 = 0 \<longrightarrow> k mod 64 = 0) \<and> free_run (AllocationInfoList st) k (blocks_for n) \<and>
    takes_blocks st k (blocks_for n) st')"
proof -
  have n: "n \<noteq> 0" "unat n < 2 ^ 31" using assms(2) by (simp_all add: good_size_def)
  note pos = blocks_for_pos [OF n(1)]
  show ?thesis
  proof (cases "blocks_for n < 56")
    case True
    have sizes: "mm_sizes st" using assms(1) by (simp add: mm_inv_def)
    have small: "malloc2_small (blocks_for n) st = (a, st')" using assms(3) pos True by (simp add: malloc2_def Let_def)
    have s: "a = 0 \<and> st' = st \<or> (\<exists>k. k < 64 * PhysicalPageListSize st - 64 \<and> a = block_at k \<and>
      free_run (AllocationInfoList st) k (blocks_for n) \<and> takes_blocks st k (blocks_for n) st')"
    proof (cases "\<exists>k < 64 * PhysicalPageListSize st - 64. free_run (AllocationInfoList st) k (blocks_for n)")
      case True
      from malloc2_small_spec [OF sizes pos \<open>blocks_for n < 56\<close> small, unfolded if_P [OF True]] show ?thesis by blast
    next
      case False
      from malloc2_small_spec [OF sizes pos \<open>blocks_for n < 56\<close> small, unfolded if_not_P [OF False]] show ?thesis by blast
    qed
    from s show ?thesis
    proof (elim disjE exE conjE)
      fix k assume k: "k < 64 * PhysicalPageListSize st - 64" "a = block_at k"
        "free_run (AllocationInfoList st) k (blocks_for n)" "takes_blocks st k (blocks_for n) st'"
      have "k + blocks_for n \<le> 64 * PhysicalPageListSize st" using k(1) True by linarith
      with k(2-4) small_not_pages [OF n(1) True] show ?thesis by (intro disjI2 exI [of _ k]) simp
    qed simp
  next
    case False
    then have "unat n mod 4096 = 0" using assms(2) by (simp add: good_size_def)
    then obtain m where m: "unat n = 4096 * m" by (auto elim: dvdE simp: mod_eq_0_iff_dvd)
    moreover have "0 < m" using m n(1) by (cases m) (simp_all add: unat_eq_zero)
    moreover have "blocks_for n = 64 * m"
    proof -
      have "unat n div 64 = 64 * m" "unat n mod 64 = 0" using m by simp_all
      then show ?thesis by (simp add: blocks_for_def)
    qed
    ultimately have m: "unat n = 4096 * m" "0 < m" "blocks_for n = 64 * m" by blast+
    from malloc2_pages [OF assms(1) m(1,2) n(2) assms(3)] show ?thesis
    proof (elim disjE exE conjE)
      fix q assume "q + m \<le> PhysicalPageListSize st" "a = block_at (64 * q)"
        "free_run (AllocationInfoList st) (64 * q) (64 * m)" "takes_blocks st (64 * q) (64 * m) st'"
      then show ?thesis by (intro disjI2 exI [of _ "64 * q"]) (simp add: m(3))
    qed blast
  qed
qed

lemma same_pages: "st' = st\<lparr>AllocationInfoList := xs\<rparr> \<Longrightarrow> PhysicalPageListSize st' = PhysicalPageListSize st"
  by simp

lemma taken_takes:
  assumes "takes_blocks st k b st'" and "k + b \<le> 64 * PhysicalPageListSize st"
  shows "taken st' = taken st \<union> {k..<k + b}" and "mm_inv st \<Longrightarrow> mm_inv st'"
proof -
  have st': "PhysicalPageListSize st' = PhysicalPageListSize st" "length (AllocationInfoList st') = length (AllocationInfoList st)"
    "\<And>i. used (AllocationInfoList st') i \<longleftrightarrow> used (AllocationInfoList st) i \<or> k \<le> i \<and> i < k + b"
    using assms(1) same_pages unfolding takes_blocks_def by blast+
  show "taken st' = taken st \<union> {k..<k + b}" using assms(2) by (auto simp: taken_def st')
  show "mm_inv st'" if "mm_inv st" using that by (simp add: mm_inv_def mm_sizes_def st')
qed

lemma malloc2_region:
  assumes "mm_inv st" and "good_size n" and "malloc2 n st = (a, st')" and "a \<noteq> 0"
  shows "mm_inv st' \<and> valid_region a n \<and> blocks a n \<noteq> {} \<and> blocks a n \<inter> taken st = {} \<and> taken st' = taken st \<union> blocks a n"
proof -
  obtain k where k: "k + blocks_for n \<le> 64 * PhysicalPageListSize st" "a = block_at k"
      "unat n mod 4096 = 0 \<longrightarrow> k mod 64 = 0" "free_run (AllocationInfoList st) k (blocks_for n)"
      "takes_blocks st k (blocks_for n) st'"
    using malloc2_cases [OF assms(1-3)] assms(4) by auto
  have pos: "0 < blocks_for n" using assms(2) by (intro blocks_for_pos) (simp add: good_size_def)
  have "64 * PhysicalPageListSize st \<le> 2 ^ 25" using assms(1) by (simp add: mm_inv_def mm_sizes_def)
  then have k25: "k < 2 ^ 25" using k(1) pos by linarith
  have b: "blocks a n = {k..<k + blocks_for n}" using k(2) k25 by (simp add: blocks_block_at)
  have "i \<notin> taken st" if "i \<in> {k..<k + blocks_for n}" for i
    using k(4) that by (auto simp: taken_def free_run_def le_iff_add)
  then have "blocks a n \<inter> taken st = {}" unfolding b by blast
  moreover have "valid_region a n" using assms(2) k(2,3) k25 by (auto simp: valid_region_def)
  moreover have "blocks a n \<noteq> {}" using pos by (simp add: b)
  ultimately show ?thesis using taken_takes [OF k(5,1)] assms(1) unfolding b by blast
qed

lemma taken_frees:
  assumes "frees_blocks st F st'"
  shows "taken st' = taken st - Collect F"
    and "mm_inv st \<Longrightarrow> (\<And>i. F i \<Longrightarrow> i < 64 * PhysicalPageListSize st) \<Longrightarrow> mm_inv st'"
proof -
  have st': "PhysicalPageListSize st' = PhysicalPageListSize st" "length (AllocationInfoList st') = length (AllocationInfoList st)"
    "\<And>i. used (AllocationInfoList st') i \<longleftrightarrow> used (AllocationInfoList st) i \<and> \<not> F i"
    using assms same_pages unfolding frees_blocks_def by blast+
  show "taken st' = taken st - Collect F" by (auto simp: taken_def st')
  show "mm_inv st'" if "mm_inv st" "\<And>i. F i \<Longrightarrow> i < 64 * PhysicalPageListSize st"
    using that by (auto simp: mm_inv_def mm_sizes_def st' not_less [symmetric])
qed

lemma free2_region:
  assumes "mm_inv st" and "valid_region a n" and "blocks a n \<subseteq> taken st"
  shows "mm_inv (free2 a n st) \<and> taken st - blocks a n \<subseteq> taken (free2 a n st)"
proof -
  obtain k where k: "k < 2 ^ 25" "a = block_at k" "unat n mod 4096 = 0 \<longrightarrow> k mod 64 = 0" and good: "good_size n"
    using assms(2) by (auto simp: valid_region_def)
  have n: "n \<noteq> 0" "unat n < 2 ^ 31" using good by (simp_all add: good_size_def)
  note pos = blocks_for_pos [OF n(1)]
  have b: "blocks a n = {k..<k + blocks_for n}" using k by (simp add: blocks_block_at)
  have inside: "i < 64 * PhysicalPageListSize st" if "k \<le> i" "i < k + blocks_for n" for i
    using assms(3) that by (auto simp: b taken_def)
  have size: "PhysicalPageListSize st < length (AllocationInfoList st)" using assms(1) by (simp add: mm_inv_def mm_sizes_def)
  obtain F where F: "frees_blocks st F (free2 a n st)" "\<And>i. F i \<Longrightarrow> k \<le> i \<and> i < k + blocks_for n"
  proof (cases "blocks_for n < 56")
    case True
    have "k div 64 < length (AllocationInfoList st)" using inside [of k] pos size by simp
    with free2_small [OF refl pos _ k(1), of st] True
    have "frees_blocks st (\<lambda>i. k \<le> i \<and> i < k + blocks_for n \<and> i div 64 = k div 64) (free2 a n st)"
      by (simp add: k(2))
    then show ?thesis by (rule that) blast
  next
    case False
    then have "unat n mod 4096 = 0" using good by (simp add: good_size_def)
    then obtain m where m: "unat n = 4096 * m" by (auto elim: dvdE simp: mod_eq_0_iff_dvd)
    have "unat n div 64 = 64 * m" "unat n mod 64 = 0" using m by simp_all
    then have bm: "blocks_for n = 64 * m" by (simp add: blocks_for_def)
    obtain q where q: "k = 64 * q" using k(3) \<open>unat n mod 4096 = 0\<close> by (auto elim: dvdE simp: mod_eq_0_iff_dvd)
    have "0 < m" using pos bm by simp
    then obtain p where p: "m = Suc p" by (cases m) auto
    have "64 * q + 64 * p + 63 < 64 * PhysicalPageListSize st" using inside [of "64 * q + 64 * p + 63"] by (simp add: bm q p)
    then have "q + m \<le> length (AllocationInfoList st)" using size p by linarith
    with \<open>0 < m\<close> free2_pages [OF bm \<open>0 < m\<close>, of q st] k(1)
    have "frees_blocks st (\<lambda>i. k \<le> i \<and> i < k + blocks_for n) (free2 a n st)"
      by (simp add: k(2) q bm)
    then show ?thesis by (rule that)
  qed
  show ?thesis
    using taken_frees [OF F(1)] assms(1) F(2) inside b by auto
qed

interpretation mm2: region_allocator mm_inv taken good_size blocks valid_region 0 malloc2 free2
proof
  show "st' = st" if "mm_inv st" "good_size n" "malloc2 n st = (0, st')" for st st' n
  proof -
    have "st' = st \<or> (\<exists>k. k + blocks_for n \<le> 64 * PhysicalPageListSize st \<and> 0 = block_at k)"
      using malloc2_cases [OF that] by blast
    moreover have "0 \<noteq> block_at k" if k: "k + blocks_for n \<le> 64 * PhysicalPageListSize st" for k
    proof -
      have "0 < blocks_for n" using \<open>good_size n\<close> by (intro blocks_for_pos) (simp add: good_size_def)
      then have "k < 64 * PhysicalPageListSize st" using k by linarith
      then have "k < 2 ^ 25" using \<open>mm_inv st\<close> by (simp add: mm_inv_def mm_sizes_def)
      then show ?thesis using block_number(2) [of k] by simp
    qed
    ultimately show ?thesis by blast
  qed
qed (use malloc2_region free2_region in blast)+

end
