(* ===== verification/HeapCorrect.thy ===== *)
theory HeapCorrect
  imports AllocCorrect "HOL-Library.Multiset"
begin

text \<open>
  \<open>malloc\<close> and \<open>free\<close> over the contract of \<open>malloc2\<close> and \<open>free2\<close>: the list of sizes stays sorted, and it
  and the blocks it lists stay allocated and disjoint.
\<close>

section \<open>The search in the list of sizes\<close>

definition sorted_items :: "memlist_item list \<Rightarrow> bool" where
  "sorted_items xs \<longleftrightarrow> sorted_wrt (<) (map mi_base xs)"

lemma sorted_items_less:
  "sorted_items xs \<Longrightarrow> i < j \<Longrightarrow> j < length xs \<Longrightarrow> mi_base (xs ! i) < mi_base (xs ! j)"
  by (auto simp: sorted_items_def sorted_wrt_iff_nth_less)

definition lower_bound :: "memlist_item list \<Rightarrow> u64 \<Rightarrow> nat \<Rightarrow> bool" where
  "lower_bound xs a k \<longleftrightarrow> k \<le> length xs \<and> (\<forall>i<k. mi_base (xs ! i) < a) \<and>
     (\<forall>i. k \<le> i \<longrightarrow> i < length xs \<longrightarrow> a \<le> mi_base (xs ! i))"

lemma closest_region_bound:
  assumes "sorted_items xs" and "0 \<le> low" and "high < int (length xs)" and "low \<le> high + 1"
    and "\<forall>i. int i < low \<longrightarrow> mi_base (xs ! i) < a"
    and "\<forall>i. high < int i \<longrightarrow> i < length xs \<longrightarrow> a \<le> mi_base (xs ! i)"
  shows "lower_bound xs a (nat (closest_region xs a low high))"
  using assms
proof (induction xs a low high rule: closest_region.induct)
  case (1 xs a low high)
  note step = closest_region.simps [of xs a low high]
  show ?case
  proof (cases "low \<le> high")
    case False
    then have high: "high = low - 1" using "1.prems"(4) by simp
    have "closest_region xs a low high = low" by (simp add: step False)
    then show ?thesis
      using "1.prems" high by (auto simp: lower_bound_def)
  next
    case True
    define mid where "mid = low + (high - low) div 2"
    have mid: "low \<le> mid" "mid \<le> high" using True by (auto simp: mid_def)
    obtain m where m: "mid = int m" using mid(1) "1.prems"(2) by (metis nonneg_int_cases order_trans)
    have mlen: "m < length xs" using mid(2) m "1.prems"(3) by linarith
    have less: "mi_base (xs ! i) < mi_base (xs ! m)" if "i < m" for i
      using sorted_items_less [OF "1.prems"(1) that mlen] .
    have greater: "mi_base (xs ! m) < mi_base (xs ! i)" if "m < i" "i < length xs" for i
      using sorted_items_less [OF "1.prems"(1) that] .
    consider "a = mi_base (xs ! m)" | "mi_base (xs ! m) < a" | "a < mi_base (xs ! m)" by fastforce
    then show ?thesis
    proof cases
      case 1
      have "closest_region xs a low high = mid"
        using True 1 by (subst step) (simp add: Let_def mid_def [symmetric] m)
      moreover have "a \<le> mi_base (xs ! i)" if "m \<le> i" "i < length xs" for i
        using greater [of i] that 1 by (cases "i = m") auto
      ultimately show ?thesis using less mlen 1 by (simp add: lower_bound_def m)
    next
      case 2
      have "closest_region xs a low high = closest_region xs a (mid + 1) high"
        using True less_imp_neq [OF 2] 2 by (subst step) (auto simp: Let_def mid_def [symmetric] m)
      moreover have "mi_base (xs ! i) < a" if "int i < mid + 1" for i
        using less [of i] that 2 m by (cases "i = m") auto
      ultimately show ?thesis
        using "1.IH"(1) [OF True mid_def refl] 2 "1.prems" mid m by auto
    next
      case 3
      have "closest_region xs a low high = closest_region xs a low (mid - 1)"
        using True less_imp_neq [OF 3] 3 by (subst step) (auto simp: Let_def mid_def [symmetric] m)
      moreover have "a \<le> mi_base (xs ! i)" if "mid - 1 < int i" "i < length xs" for i
        using greater [of i] that 3 m by (cases "i = m") auto
      ultimately show ?thesis
        using "1.IH"(2) [OF True mid_def refl] 3 "1.prems" mid m by auto
    qed
  qed
qed

lemma findClosestAllocRegion_bound:
  "sorted_items (AllocList st) \<Longrightarrow> lower_bound (AllocList st) a (findClosestAllocRegion st a)"
  unfolding findClosestAllocRegion_def by (rule closest_region_bound) auto

section \<open>What the heap owns\<close>

definition live_items :: "memlist_item list \<Rightarrow> (u64 \<times> u32) list" where
  "live_items xs = map (\<lambda>i. (mi_base i, mi_size i)) (filter (\<lambda>i. mi_size i \<noteq> 0) xs)"

definition list_block :: "mm \<Rightarrow> (u64 \<times> u32) list" where
  "list_block st = (if AllocList_at st = 0 then [] else [(AllocList_at st, of_nat (AllocListMax st * 16))])"

definition owned :: "mm \<Rightarrow> (u64 \<times> u32) list" where
  "owned st = list_block st @ live_items (AllocList st)"

abbreviation owns_blocks :: "mm \<Rightarrow> (u64 \<times> u32) list \<Rightarrow> bool" where
  "owns_blocks st rs \<equiv> owns blocks valid_region (taken st) rs"

definition list_room :: "mm \<Rightarrow> bool" where
  "list_room st \<longleftrightarrow> (if AllocList_at st = 0 then AllocList st = []
     else length (AllocList st) < AllocListMax st \<and> (\<exists>p\<le>20. AllocListMax st = 64 * 2 ^ p))"

definition heap_ok :: "mm \<Rightarrow> bool" where
  "heap_ok st \<longleftrightarrow> mm_inv st \<and> owns_blocks st (owned st) \<and> sorted_items (AllocList st) \<and> list_room st"

lemma owns_mset: "owns region valid T rs \<Longrightarrow> mset qs = mset rs \<Longrightarrow> owns region valid T qs"
  using owns_perm [of region valid T rs qs] mset_eq_setD [of qs rs] mset_eq_imp_distinct_iff [of qs rs]
  by (simp add: owns_def)

lemma live_items_simps [simp]:
  "live_items [] = []" "live_items (xs @ ys) = live_items xs @ live_items ys"
  "live_items (i # xs) = (if mi_size i = 0 then [] else [(mi_base i, mi_size i)]) @ live_items xs"
  by (simp_all add: live_items_def)

lemma malloc2_frame: "malloc2 n st = (a, st') \<Longrightarrow> \<exists>xs. st' = st\<lparr>AllocationInfoList := xs\<rparr>"
  by (auto simp: malloc2_def malloc2_small_def malloc2_large_def Let_def split: if_splits option.splits)
    (metis mm.surjective mm.update_convs(1))+

lemma free2_frame: "\<exists>xs. free2 a n st = st\<lparr>AllocationInfoList := xs\<rparr>"
  unfolding free2_def Let_def by (cases "blocks_for n = 0") (auto intro: exI [of _ "AllocationInfoList st"])

lemma frame_simps [simp]:
  "mm_inv (st\<lparr>AllocList := xs\<rparr>) = mm_inv st" "taken (st\<lparr>AllocList := xs\<rparr>) = taken st"
  "mm_inv (st\<lparr>AllocList_at := p\<rparr>) = mm_inv st" "taken (st\<lparr>AllocList_at := p\<rparr>) = taken st"
  "mm_inv (st\<lparr>AllocListMax := m\<rparr>) = mm_inv st" "taken (st\<lparr>AllocListMax := m\<rparr>) = taken st"
  "mm_inv (st\<lparr>heap := h\<rparr>) = mm_inv st" "taken (st\<lparr>heap := h\<rparr>) = taken st"
  by (simp_all add: mm_inv_def mm_sizes_def taken_def)

lemma realloc2_owns:
  assumes "mm_inv st" and "good_size newsize" and "owns_blocks st ((old, oldsize) # rs)"
    and "realloc2 old oldsize newsize st = (p, st')" and "p \<noteq> 0"
  shows "mm_inv st' \<and> owns_blocks st' ((p, newsize) # rs)"
    and "AllocList st' = AllocList st \<and> AllocListMax st' = AllocListMax st \<and> AllocList_at st' = AllocList_at st"
proof -
  obtain st1 where m: "malloc2 newsize st = (p, st1)"
    and st': "st' = free2 old oldsize (st1\<lparr>heap := copymem p old (nat (min (sint oldsize) (sint newsize))) (heap st1)\<rparr>)"
    using assms(4,5) by (auto simp: realloc2_def split: prod.splits if_splits)
  have 1: "mm_inv st1" "owns_blocks st1 ((p, newsize) # (old, oldsize) # rs)"
    using mm2.owns_alloc [OF assms(1,2) m assms(5,3)] by auto
  then have "owns_blocks st1 ((old, oldsize) # (p, newsize) # rs)" by (elim owns_mset) simp
  then show "mm_inv st' \<and> owns_blocks st' ((p, newsize) # rs)"
    unfolding st' by (intro mm2.owns_dealloc) (simp_all add: 1)
  show "AllocList st' = AllocList st \<and> AllocListMax st' = AllocListMax st \<and> AllocList_at st' = AllocList_at st"
    using malloc2_frame [OF m] free2_frame [of old oldsize "st1\<lparr>heap := copymem p old (nat (min (sint oldsize) (sint newsize))) (heap st1)\<rparr>"]
    by (auto simp: st')
qed

lemma list_size_good:
  assumes "p \<le> 20"
  shows "good_size (of_nat (64 * 2 ^ p * 16))"
proof -
  have "p \<in> {0, 1} \<or> (\<exists>q\<le>18. p = q + 2)" using assms by (auto simp: le_iff_add) presburger
  then show ?thesis
  proof
    assume "p \<in> {0, 1}"
    then show ?thesis by (auto simp: good_size_def blocks_for_def)
  next
    assume "\<exists>q\<le>18. p = q + 2"
    then obtain q where q: "q \<le> 18" "p = q + 2" by blast
    have e: "64 * 2 ^ p * 16 = 4096 * (2 :: nat) ^ q" by (simp add: q(2) power_add)
    have b: "4096 * (2 :: nat) ^ q < 2 ^ 31"
      using power_increasing [of q 18 "2 :: nat"] q(1) by simp
    then have "unat (of_nat (4096 * 2 ^ q) :: u32) = 4096 * 2 ^ q"
      by (simp add: unat_of_nat take_bit_nat_eq_self del: of_nat_mult of_nat_power)
    then show ?thesis unfolding e good_size_def using b by (auto simp: unat_eq_zero [symmetric] simp del: of_nat_mult of_nat_power)
  qed
qed

section \<open>malloc and free keep the heap apart\<close>

lemma first_block:
  assumes "n \<noteq> 0"
  shows "unat (a - BASE_VIRTUAL_ADDRESS) div 64 \<in> blocks a n"
  using blocks_for_pos [OF assms] by (simp add: blocks_def Let_def)

lemma new_base:
  assumes "owns_blocks st ((a, n) # rs)" and "(b, m) \<in> set rs"
  shows "b \<noteq> a"
proof
  assume "b = a"
  have "n \<noteq> 0" "m \<noteq> 0" using assms by (auto simp: owns_def valid_region_def good_size_def)
  then have "blocks a n \<inter> blocks a m \<noteq> {}" using first_block by blast
  then show False using assms \<open>b = a\<close> by (auto simp: owns_Cons)
qed

lemma insert_sorted:
  assumes "sorted_items xs" and "lower_bound xs a k" and "\<forall>i. k \<le> i \<longrightarrow> i < length xs \<longrightarrow> mi_base (xs ! i) \<noteq> a"
  shows "sorted_items (take k xs @ \<lparr>mi_base = a, mi_size = n\<rparr> # drop k xs)"
  unfolding sorted_items_def
  using assms by (intro sorted_wrt_map_insert) (auto simp: sorted_items_def lower_bound_def order_less_le)

lemma replace_sorted:
  assumes "sorted_items xs" and "lower_bound xs a k" and "k < length xs"
  shows "sorted_items (xs[k := \<lparr>mi_base = a, mi_size = n\<rparr>])"
proof -
  let ?ys = "take k xs @ drop (Suc k) xs"
  have "sorted_items ?ys" using assms(1) unfolding sorted_items_def by (rule sorted_wrt_map_remove)
  moreover have "lower_bound ?ys a k"
    using assms by (auto simp: lower_bound_def nth_append min_def)
  moreover have "mi_base (?ys ! i) \<noteq> a" if "k \<le> i" "i < length ?ys" for i
  proof -
    have "?ys ! i = xs ! Suc i" using that assms(3) by (simp add: nth_append min_def)
    moreover have "mi_base (xs ! k) < mi_base (xs ! Suc i)"
      using sorted_items_less [OF assms(1), of k "Suc i"] that assms(3) by simp
    moreover have "a \<le> mi_base (xs ! k)" using assms(2,3) by (simp add: lower_bound_def)
    ultimately show ?thesis by auto
  qed
  ultimately have "sorted_items (take k ?ys @ \<lparr>mi_base = a, mi_size = n\<rparr> # drop k ?ys)"
    by (intro insert_sorted) auto
  then show ?thesis using assms(3) by (simp add: upd_conv_take_nth_drop)
qed

lemma insert_item_ok:
  assumes "mm_inv st" and "owns_blocks st ((a, n) # owned st)" and "sorted_items (AllocList st)" and "list_room st"
    and "AllocList_at st \<noteq> 0" and "lower_bound (AllocList st) a k"
    and "\<not> (k < length (AllocList st) \<and> mi_size (AllocList st ! k) = 0)"
    and "AllocListMax st < 64 * 2 ^ 20" and "AllocList_at (insert_item k \<lparr>mi_base = a, mi_size = n\<rparr> st) \<noteq> 0"
  shows "heap_ok (insert_item k \<lparr>mi_base = a, mi_size = n\<rparr> st)"
proof -
  let ?item = "\<lparr>mi_base = a, mi_size = n\<rparr>" and ?xs = "AllocList st"
  have k: "k \<le> length ?xs" using assms(6) by (simp add: lower_bound_def)
  let ?st = "st\<lparr>AllocList := take k ?xs @ ?item # drop k ?xs\<rparr>"
  have n: "n \<noteq> 0" using assms(2) by (simp add: owns_Cons valid_region_def good_size_def)
  have live: "(mi_base (?xs ! i), mi_size (?xs ! i)) \<in> set (owned st)" if "i < length ?xs" "mi_size (?xs ! i) \<noteq> 0" for i
    using that by (auto simp: owned_def live_items_def)
  have base: "mi_base (?xs ! i) \<noteq> a" if i: "k \<le> i" "i < length ?xs" for i
  proof (cases "i = k")
    case True
    then show ?thesis using new_base [OF assms(2) live [of k]] assms(7) i(2) by auto
  next
    case False
    then have "mi_base (?xs ! k) < mi_base (?xs ! i)" using sorted_items_less [OF assms(3), of k i] i by simp
    moreover have "a \<le> mi_base (?xs ! k)" using assms(6) i by (simp add: lower_bound_def)
    ultimately show ?thesis by auto
  qed
  have sorted: "sorted_items (AllocList ?st)" using insert_sorted [OF assms(3,6), of n] base by simp
  have "mset (live_items (take k ?xs @ drop k ?xs)) = mset (live_items ?xs)" by simp
  then have mset: "mset (live_items (AllocList ?st)) = mset ((a, n) # live_items ?xs)"
    using n by (simp only: mm.simps live_items_simps) simp
  have "list_block ?st = list_block st" by (simp add: list_block_def)
  then have "mset (owned ?st) = mset ((a, n) # owned st)"
    unfolding owned_def mset_append mset by simp
  from owns_mset [OF assms(2) this] have own: "owns_blocks ?st (owned ?st)" by simp
  obtain p where p: "p \<le> 20" "AllocListMax st = 64 * 2 ^ p" and len: "length ?xs < AllocListMax st"
    using assms(4,5) by (auto simp: list_room_def)
  have shift: "insert_item k ?item st = (if Suc (length ?xs) \<ge> AllocListMax st
      then let bytes = of_nat (AllocListMax st * 16); (q, st') = realloc2 (AllocList_at st) bytes (bytes * 2) ?st
           in st'\<lparr>AllocList_at := q, AllocListMax := AllocListMax st' * 2\<rparr> else ?st)"
    using shift_up_insert [OF k, of ?item ?item] by (simp add: insert_item_def Let_def)
  show ?thesis
  proof (cases "Suc (length ?xs) \<ge> AllocListMax st")
    case False
    then show ?thesis
      unfolding shift heap_ok_def using own sorted assms(1,5) p by (auto simp: list_room_def)
  next
    case True
    let ?bytes = "of_nat (AllocListMax st * 16) :: u32"
    obtain q st' where r: "realloc2 (AllocList_at st) ?bytes (?bytes * 2) ?st = (q, st')" by fastforce
    have ins: "insert_item k ?item st = st'\<lparr>AllocList_at := q, AllocListMax := AllocListMax st' * 2\<rparr>"
      using True r by (simp add: shift Let_def)
    then have q: "q \<noteq> 0" using assms(9) by simp
    have p': "Suc p \<le> 20" using p assms(8) by (cases "p = 20") auto
    have bytes: "?bytes * 2 = of_nat (64 * 2 ^ Suc p * 16)" by (simp add: p(2))
    have good: "good_size (?bytes * 2)" unfolding bytes by (rule list_size_good [OF p'])
    have own2: "owns_blocks ?st ((AllocList_at st, ?bytes) # live_items (AllocList ?st))"
      using own assms(5) by (simp add: owned_def list_block_def)
    from realloc2_owns [OF _ good own2 r q] assms(1)
    have st': "mm_inv st'" "owns_blocks st' ((q, ?bytes * 2) # live_items (AllocList ?st))"
      "AllocList st' = AllocList ?st" "AllocListMax st' = AllocListMax st"
      by simp_all
    have "owned (insert_item k ?item st) = (q, ?bytes * 2) # live_items (AllocList ?st)"
      using q by (simp add: ins owned_def list_block_def st'(3,4) mult.assoc)
    moreover have "list_room (insert_item k ?item st)"
      using q p p' len k by (auto simp: ins list_room_def st'(3,4) intro!: exI [of _ "Suc p"])
    ultimately show ?thesis
      unfolding heap_ok_def using st'(1,2) sorted by (simp add: ins st'(3))
  qed
qed

lemma malloc_ok:
  assumes "heap_ok st" and "good_size n" and "AllocListMax st < 64 * 2 ^ 20" and "malloc n st = Some (a, st')"
    and "a \<noteq> 0 \<longrightarrow> AllocList_at st' \<noteq> 0"
  shows "heap_ok st'"
proof -
  have h: "mm_inv st" "owns_blocks st (owned st)" "sorted_items (AllocList st)" "list_room st"
    using assms(1) by (simp_all add: heap_ok_def)
  obtain st1 where m: "malloc2 n st = (a, st1)"
    using assms(4) by (auto simp: malloc_def Let_def split: prod.splits if_splits)
  show ?thesis
  proof (cases "a = 0")
    case True
    then have "st' = st1" using assms(4) m by (simp add: malloc_def)
    then show ?thesis using mm2.alloc_null [OF h(1) assms(2)] m True assms(1) by simp
  next
    case False
    note o = mm2.owns_alloc [OF h(1) assms(2) m False h(2)]
    obtain xs where "st1 = st\<lparr>AllocationInfoList := xs\<rparr>" using malloc2_frame [OF m] by blast
    then have same: "AllocList st1 = AllocList st" "AllocList_at st1 = AllocList_at st" "AllocListMax st1 = AllocListMax st"
      "owned st1 = owned st" by (simp_all add: owned_def list_block_def)
    let ?item = "\<lparr>mi_base = a, mi_size = n\<rparr>"
    have n: "n \<noteq> 0" using assms(2) by (simp add: good_size_def)
    show ?thesis
    proof (cases "AllocList_at st = 0")
      case True
      then have empty: "AllocList st = []" using h(4) by (simp add: list_room_def)
      obtain p st2 where m2: "malloc2 (16 * 64) st1 = (p, st2)" by fastforce
      have st': "st' = st2\<lparr>AllocList_at := p, AllocListMax := 64, AllocList := [?item]\<rparr>"
        using assms(4) m m2 False True by (simp add: malloc_def same split: if_splits)
      then have p: "p \<noteq> 0" using assms(5) False by simp
      have good: "good_size (16 * 64)" using list_size_good [of 0] by simp
      have "owned st = []" using True empty by (simp add: owned_def list_block_def)
      then have "mm_inv st2 \<and> owns_blocks st2 [(p, 16 * 64), (a, n)]"
        using mm2.owns_alloc [OF _ good m2 p, of "[(a, n)]"] o by simp
      then show ?thesis using p n by (auto simp: heap_ok_def st' owned_def list_block_def sorted_items_def list_room_def intro: exI [of _ 0])
    next
      case at: False
      define k where "k = findClosestAllocRegion st1 a"
      have k: "lower_bound (AllocList st) a k"
        using findClosestAllocRegion_bound [of st1 a] h(3) by (simp add: k_def same)
      show ?thesis
      proof (cases "k < length (AllocList st) \<and> mi_size (AllocList st ! k) = 0")
        case True
        have st': "st' = st1\<lparr>AllocList := (AllocList st)[k := ?item]\<rparr>"
          using assms(4) m False at True by (simp add: malloc_def same k_def [symmetric])
        have split: "AllocList st = take k (AllocList st) @ AllocList st ! k # drop (Suc k) (AllocList st)"
          using True by (simp add: id_take_nth_drop)
        have "mset (live_items (AllocList st)) = mset (live_items (take k (AllocList st))) + mset (live_items (drop (Suc k) (AllocList st)))"
          by (subst split) (use True in simp)
        then have "mset (live_items ((AllocList st)[k := ?item])) = mset ((a, n) # live_items (AllocList st))"
          using True n by (simp add: upd_conv_take_nth_drop)
        moreover have "list_block st' = list_block st" by (simp add: list_block_def st' same)
        ultimately have "mset (owned st') = mset ((a, n) # owned st)"
          unfolding owned_def mset_append by (simp add: st')
        from owns_mset [OF _ this] o have "owns_blocks st' (owned st')" by (simp add: st')
        moreover have "sorted_items (AllocList st')"
          using replace_sorted [OF h(3) k] True by (simp add: st')
        ultimately show ?thesis using o h(4) at by (simp add: heap_ok_def st' list_room_def same)
      next
        case ins: False
        then have "st' = insert_item k ?item st1"
          using assms(4) m False at by (simp add: malloc_def Let_def same k_def [symmetric] del: de_Morgan_conj)
        then show ?thesis
          using insert_item_ok [of st1 a n k] o h(3,4) at k ins assms(3,5) False by (simp add: same list_room_def)
      qed
    qed
  qed
qed

lemma free_ok:
  assumes "heap_ok st"
  shows "heap_ok (free a st)" and "AllocList_at (free a st) = AllocList_at st" and "AllocListMax (free a st) = AllocListMax st"
proof -
  have h: "mm_inv st" "owns_blocks st (owned st)" "sorted_items (AllocList st)" "list_room st"
    using assms by (simp_all add: heap_ok_def)
  define i where "i = findClosestAllocRegion st a"
  let ?st = "free2 a (mi_size (AllocList st ! i)) st" and ?gone = "(AllocList st ! i)\<lparr>mi_size := 0\<rparr>"
  obtain xs where "?st = st\<lparr>AllocationInfoList := xs\<rparr>" using free2_frame by blast
  then have same: "AllocList ?st = AllocList st" "AllocList_at ?st = AllocList_at st" "AllocListMax ?st = AllocListMax st"
    by simp_all
  have "heap_ok (free a st) \<and> AllocList_at (free a st) = AllocList_at st \<and> AllocListMax (free a st) = AllocListMax st"
  proof (cases "a \<noteq> 0 \<and> is_alloc st i a")
    case False
    then have "free a st = st" by (auto simp: free_def Let_def i_def)
    then show ?thesis using assms by simp
  next
    case True
    then have i: "i < length (AllocList st)" "mi_size (AllocList st ! i) \<noteq> 0" "mi_base (AllocList st ! i) = a"
      by (simp_all add: is_alloc_def)
    have st': "free a st = ?st\<lparr>AllocList := (AllocList st)[i := ?gone]\<rparr>"
      using True by (simp add: free_def Let_def i_def [symmetric] same)
    have split: "AllocList st = take i (AllocList st) @ AllocList st ! i # drop (Suc i) (AllocList st)"
      using i(1) by (simp add: id_take_nth_drop)
    have "mset (live_items (AllocList st)) = add_mset (a, mi_size (AllocList st ! i))
        (mset (live_items (take i (AllocList st))) + mset (live_items (drop (Suc i) (AllocList st))))"
      by (subst split) (use i in simp)
    then have live: "mset (live_items (AllocList st)) =
        mset ((a, mi_size (AllocList st ! i)) # live_items ((AllocList st)[i := ?gone]))"
      using i(1) by (simp add: upd_conv_take_nth_drop)
    have lb: "list_block (free a st) = list_block st" by (simp add: list_block_def st' same)
    have "mset ((a, mi_size (AllocList st ! i)) # owned (free a st)) = mset (owned st)"
      unfolding owned_def mset_append lb live by (simp add: st')
    from mm2.owns_dealloc [OF h(1) owns_mset [OF h(2) this]]
    have "mm_inv (free a st)" "owns_blocks (free a st) (owned (free a st))" by (simp_all add: st')
    moreover have "map mi_base ((AllocList st)[i := ?gone]) = map mi_base (AllocList st)"
      using i(1) list_update_id [of "map mi_base (AllocList st)" i] by (simp add: map_update)
    then have "sorted_items (AllocList (free a st))" using h(3) by (simp add: sorted_items_def st')
    ultimately show ?thesis using h(4) by (simp add: heap_ok_def list_room_def st' same)
  qed
  then show "heap_ok (free a st)" "AllocList_at (free a st) = AllocList_at st" "AllocListMax (free a st) = AllocListMax st"
    by simp_all
qed

text \<open>
  The runs of a client: requests of a size \<open>malloc2\<close> handles, which may fail, with room for the growth of the list
  and without running out of memory for the list itself, releases and reallocations.
\<close>

inductive heap_run :: "mm \<Rightarrow> mm \<Rightarrow> bool" where
  start: "heap_run st st"
| malloc: "heap_run st st1 \<Longrightarrow> good_size n \<Longrightarrow> AllocListMax st1 < 64 * 2 ^ 20 \<Longrightarrow> malloc n st1 = Some (a, st2) \<Longrightarrow>
    a \<noteq> 0 \<longrightarrow> AllocList_at st2 \<noteq> 0 \<Longrightarrow> heap_run st st2"
| free: "heap_run st st1 \<Longrightarrow> heap_run st (free a st1)"
| realloc: "heap_run st st1 \<Longrightarrow> good_size n \<Longrightarrow> AllocListMax st1 < 64 * 2 ^ 20 \<Longrightarrow> realloc old n st1 = Some (a, st2) \<Longrightarrow>
    a \<noteq> 0 \<longrightarrow> AllocList_at st2 \<noteq> 0 \<Longrightarrow> heap_run st st2"

lemma heap_ok_heap: "heap_ok (st\<lparr>heap := h\<rparr>) = heap_ok st"
  by (simp add: heap_ok_def owned_def list_block_def list_room_def)

lemma realloc_ok:
  assumes "heap_ok st" and "good_size n" and "AllocListMax st < 64 * 2 ^ 20" and "realloc old n st = Some (a, st')"
    and "a \<noteq> 0 \<longrightarrow> AllocList_at st' \<noteq> 0"
  shows "heap_ok st'"
proof (cases "old = 0 \<or> n = 0")
  case True
  then show ?thesis using assms malloc_ok by (auto simp: realloc_def split: if_splits)
next
  case False
  obtain b st1 where m: "malloc n st = Some (b, st1)"
    using False assms(4) by (auto simp: realloc_def Let_def split: if_splits option.splits)
  let ?st2 = "st1\<lparr>heap := copymem b old (nat (min (sint n) (sint (mi_size (AllocList st ! findClosestAllocRegion st old))))) (heap st1)\<rparr>"
  have r: "a = b" "st' = free old ?st2"
    using False assms(4) m by (auto simp: realloc_def Let_def split: if_splits)
  have "AllocList_at (free old ?st2) = AllocList_at st1"
    using free2_frame [of old "mi_size (AllocList ?st2 ! findClosestAllocRegion ?st2 old)" ?st2]
    by (auto simp: free_def Let_def)
  then have "b \<noteq> 0 \<longrightarrow> AllocList_at st1 \<noteq> 0" using assms(5) r by simp
  then have "heap_ok st1" by (rule malloc_ok [OF assms(1-3) m])
  then have "heap_ok ?st2" by (simp only: heap_ok_heap)
  then show ?thesis unfolding r(2) by (rule free_ok(1))
qed

lemma heap_run_ok: "heap_run st st' \<Longrightarrow> heap_ok st \<Longrightarrow> heap_ok st'"
  by (induction rule: heap_run.induct) (blast intro: malloc_ok free_ok(1) realloc_ok)+

text \<open>
  C3: In every run of \<open>malloc\<close>, \<open>free\<close> and \<open>realloc\<close> from a fresh heap, with sizes below 2 GB of at most 55 blocks or whole
  pages, in which there is always memory for the list of sizes (of fewer than \<open>2 ^ 26\<close> entries), the list stays strictly sorted, every block it lists as live is
  marked as used in the bit map, no two live blocks overlap, and the memory of the list itself,
  which grows by reallocation, is used and overlaps none of them.
\<close>

theorem heap_blocks_apart:
  assumes "mm_inv st" and "AllocList st = []" and "AllocList_at st = 0" and "heap_run st st'"
  shows "sorted_items (AllocList st') \<and>
    (\<forall>x \<in> set (AllocList st'). mi_size x \<noteq> 0 \<longrightarrow> blocks (mi_base x) (mi_size x) \<subseteq> taken st') \<and>
    (\<forall>x \<in> set (AllocList st'). \<forall>y \<in> set (AllocList st'). mi_size x \<noteq> 0 \<longrightarrow> mi_size y \<noteq> 0 \<longrightarrow> x \<noteq> y \<longrightarrow>
      blocks (mi_base x) (mi_size x) \<inter> blocks (mi_base y) (mi_size y) = {}) \<and>
    (AllocList_at st' \<noteq> 0 \<longrightarrow>
      blocks (AllocList_at st') (of_nat (AllocListMax st' * 16)) \<subseteq> taken st' \<and>
      (\<forall>x \<in> set (AllocList st'). mi_size x \<noteq> 0 \<longrightarrow>
        blocks (AllocList_at st') (of_nat (AllocListMax st' * 16)) \<inter> blocks (mi_base x) (mi_size x) = {}))"
proof -
  have "heap_ok st"
    using assms(1-3) by (simp add: heap_ok_def owned_def list_block_def list_room_def owns_def sorted_items_def)
  then have h: "owns_blocks st' (owned st')" "sorted_items (AllocList st')"
    using heap_run_ok [OF assms(4)] by (auto simp: heap_ok_def)
  have live: "(mi_base x, mi_size x) \<in> set (owned st')" if "x \<in> set (AllocList st')" "mi_size x \<noteq> 0" for x
    using that by (auto simp: owned_def live_items_def)
  have "blocks (mi_base x) (mi_size x) \<inter> blocks (mi_base y) (mi_size y) = {}"
    if "x \<in> set (AllocList st')" "y \<in> set (AllocList st')" "mi_size x \<noteq> 0" "mi_size y \<noteq> 0" "x \<noteq> y" for x y
  proof -
    have "(mi_base x, mi_size x) \<noteq> (mi_base y, mi_size y)" using that(5) by (auto intro: memlist_item.equality)
    moreover have "pairwise (\<lambda>r q. case_prod blocks r \<inter> case_prod blocks q = {}) (set (owned st'))"
      using h(1) by (simp add: owns_def)
    ultimately show ?thesis
      using pairwiseD [of _ _ "(mi_base x, mi_size x)" "(mi_base y, mi_size y)"] live [OF that(1,3)] live [OF that(2,4)]
      by fastforce
  qed
  moreover have "blocks (mi_base x) (mi_size x) \<subseteq> taken st'" if "x \<in> set (AllocList st')" "mi_size x \<noteq> 0" for x
    using h(1) live [OF that] by (auto simp: owns_def)
  moreover have "blocks (AllocList_at st') (of_nat (AllocListMax st' * 16)) \<subseteq> taken st'"
    "\<forall>x \<in> set (AllocList st'). mi_size x \<noteq> 0 \<longrightarrow>
      blocks (AllocList_at st') (of_nat (AllocListMax st' * 16)) \<inter> blocks (mi_base x) (mi_size x) = {}"
    if "AllocList_at st' \<noteq> 0"
  proof -
    have "owned st' = (AllocList_at st', of_nat (AllocListMax st' * 16)) # live_items (AllocList st')"
      using that by (simp add: owned_def list_block_def)
    with h(1) have o: "blocks (AllocList_at st') (of_nat (AllocListMax st' * 16)) \<subseteq> taken st'"
      "\<forall>q \<in> set (live_items (AllocList st')). blocks (AllocList_at st') (of_nat (AllocListMax st' * 16)) \<inter> case_prod blocks q = {}"
      by (simp_all add: owns_Cons)
    show "blocks (AllocList_at st') (of_nat (AllocListMax st' * 16)) \<subseteq> taken st'" by (rule o(1))
    show "\<forall>x \<in> set (AllocList st'). mi_size x \<noteq> 0 \<longrightarrow>
      blocks (AllocList_at st') (of_nat (AllocListMax st' * 16)) \<inter> blocks (mi_base x) (mi_size x) = {}"
      using o(2) by (auto simp: live_items_def)
  qed
  ultimately show ?thesis using h(2) by blast
qed

lemma example_inv: "mm_inv example_mm"
proof -
  have "i div 64 = 4" if "256 \<le> i" "i < 320" for i :: nat using that by (simp add: page_blocks)
  then show ?thesis by (simp add: mm_inv_def example_sizes) (simp add: example_mm_def used_def)
qed

lemma example_malloc:
  "\<exists>st1 p st2. malloc2 100 example_mm = (block_at 8, st1) \<and> malloc2 1024 st1 = (p, st2) \<and> p \<noteq> 0"
proof -
  obtain a st1 where m: "malloc2 100 example_mm = (a, st1)" by fastforce
  then have small: "malloc2_small 2 example_mm = (a, st1)" by (simp add: malloc2_def example_blocks)
  have "8 < 64 * PhysicalPageListSize example_mm - 64" by (simp add: example_mm_def)
  then have "\<exists>k < 64 * PhysicalPageListSize example_mm - 64. free_run (AllocationInfoList example_mm) k 2"
    using example_runs(1) by blast
  from malloc2_small_spec [OF example_sizes _ _ small, unfolded if_P [OF this]] obtain k where
    k: "free_run (AllocationInfoList example_mm) k 2" "\<forall>i<k. \<not> free_run (AllocationInfoList example_mm) i 2"
      "a = block_at k" "takes_blocks example_mm k 2 st1"
    by auto
  have "\<not> k < 8" using k(1) example_runs(2) by blast
  moreover have "\<not> 8 < k" using k(2) example_runs(1) by blast
  ultimately have "k = 8" by simp
  have u: "used (AllocationInfoList st1) i \<longleftrightarrow> used (AllocationInfoList example_mm) i \<or> 8 \<le> i \<and> i < 8 + 2" for i
    using k(4) unfolding takes_blocks_def \<open>k = 8\<close> by blast
  have used1: "used (AllocationInfoList st1) i \<longleftrightarrow> i < 10" if "i < 192" for i
    unfolding u example_used [OF that] by auto
  have e: "st1 = example_mm\<lparr>AllocationInfoList := AllocationInfoList st1\<rparr>"
    "length (AllocationInfoList st1) = length (AllocationInfoList example_mm)"
    using k(4) unfolding takes_blocks_def by blast+
  have "PhysicalPageListSize st1 = 4" using same_pages [OF e(1)] by (simp add: example_mm_def)
  moreover from this have "mm_sizes st1" using e(2) by (simp add: mm_sizes_def) (simp add: example_mm_def)
  ultimately have st1: "PhysicalPageListSize st1 = 4" "mm_sizes st1" by blast+
  obtain p st2 where m2: "malloc2 1024 st1 = (p, st2)" by fastforce
  have b: "blocks_for 1024 = 16" by (simp add: blocks_for_def)
  then have small2: "malloc2_small 16 st1 = (p, st2)" using m2 by (simp add: malloc2_def)
  have "free_run (AllocationInfoList st1) 10 16" by (auto simp: free_run_def used1)
  then have "\<exists>k < 64 * PhysicalPageListSize st1 - 64. free_run (AllocationInfoList st1) k 16"
    by (intro exI [of _ 10]) (simp add: st1)
  from malloc2_small_spec [OF st1(2) _ _ small2, unfolded if_P [OF this]] obtain j where
    "j < 192" "p = block_at j" by (auto simp: st1)
  then have "p \<noteq> 0" using block_number(2) [of j] by simp
  then show ?thesis using m m2 k(3) \<open>k = 8\<close> by blast
qed

theorem heap_blocks_apart_witness:
  "\<exists>st'. heap_run example_mm st' \<and> length (AllocList st') = 1 \<and>
     blocks (AllocList_at st') (of_nat (AllocListMax st' * 16)) \<inter>
       blocks (mi_base (hd (AllocList st'))) (mi_size (hd (AllocList st'))) = {}"
proof -
  obtain st1 p st2 where m: "malloc2 100 example_mm = (block_at 8, st1)" "malloc2 1024 st1 = (p, st2)" "p \<noteq> 0"
    using example_malloc by blast
  have good: "good_size 100" by (simp add: good_size_def blocks_for_def)
  have a: "block_at 8 \<noteq> 0" using block_number(2) [of 8] by simp
  define st where "st = st2\<lparr>AllocList_at := p, AllocListMax := 64, AllocList := [\<lparr>mi_base = block_at 8, mi_size = 100\<rparr>]\<rparr>"
  have "AllocList_at st1 = 0" using malloc2_frame [OF m(1)] by (auto simp: example_mm_def)
  then have "malloc 100 example_mm = Some (block_at 8, st)" using m a by (simp add: malloc_def st_def)
  moreover have st: "AllocList_at st = p" "AllocList st = [\<lparr>mi_base = block_at 8, mi_size = 100\<rparr>]"
    by (simp_all add: st_def)
  moreover have ex: "AllocListMax example_mm < 64 * 2 ^ 20" "AllocList example_mm = []" "AllocList_at example_mm = 0"
    by (simp_all add: example_mm_def)
  ultimately have run: "heap_run example_mm st"
    using heap_run.malloc [OF heap_run.start good] m(3) by blast
  from heap_blocks_apart [OF example_inv ex(2,3) run] m(3) run show ?thesis
    by (intro exI [of _ st]) (simp add: st)
qed

end
