(* ===== verification/MapSlots.thy ===== *)
theory MapSlots
  imports Prelude
begin

text \<open>
  The mapping window of \<open>mm.c\<close>: every processor has 1024 page-table entries (\<open>mappagetables\<close>), 4 MB of
  virtual memory, in which \<open>mapPhysicalMemory\<close> maps physical pages and from which \<open>unmapPhysicalMemory\<close>
  removes them. The two page tables are there; their allocation at the first use, TLB flushes
  and sizes of 2 GB and more are left out. \<open>None\<close> is the endless loop of the code when nothing
  fits or an address is not in the window. Reads and writes behind the 1024 entries do
  not change the results here: a run that would end there is refused in either case.
\<close>

record map_window =
  mappagetables :: "u64 list"
  cpunr :: u32

definition present :: "u64 list \<Rightarrow> nat \<Rightarrow> bool" where
  "present pt i \<longleftrightarrow> i < length pt \<and> bit (pt ! i) 0"

text \<open>\<open>getcpunr()*0x400000\<close> is an \<open>int\<close>, \<open>c->cpunr*0x400000\<close> a \<open>DWORD\<close>.\<close>

definition MAPPEDMEMORY :: u64 where
  "MAPPEDMEMORY = 0x08000000000"

definition getMappedMemoryBase :: "map_window \<Rightarrow> u64" where
  "getMappedMemoryBase c = MAPPEDMEMORY + signed_take_bit 31 (ucast (cpunr c) * 0x400000)"

definition cpu_window :: "map_window \<Rightarrow> u64" where
  "cpu_window c = MAPPEDMEMORY + ucast (cpunr c * 0x400000)"

definition pages_for :: "u32 \<Rightarrow> nat" where
  "pages_for n = unat n div 4096 + (if unat n mod 4096 \<noteq> 0 then 1 else 0)"

section \<open>Finding free entries\<close>

datatype run = Fits | Blocked | WindowEnd

fun scan_run :: "u64 list \<Rightarrow> nat \<Rightarrow> nat \<Rightarrow> run" where
  "scan_run pt j 0 = Fits"
| "scan_run pt j (Suc needed) =
     (if present pt j then Blocked
      else if j + 1 \<ge> 1024 then WindowEnd
      else scan_run pt (j + 1) needed)"

fun find_run :: "u64 list \<Rightarrow> nat \<Rightarrow> nat \<Rightarrow> nat \<Rightarrow> int" where
  "find_run pt pagecount i 0 = -1"
| "find_run pt pagecount i (Suc n) =
     (if \<not> present pt i
      then (case scan_run pt (i + 1) (pagecount - 1) of
              Fits \<Rightarrow> int i
            | WindowEnd \<Rightarrow> -1
            | Blocked \<Rightarrow> find_run pt pagecount (i + 1) n)
      else find_run pt pagecount (i + 1) n)"

definition mmFindMapPositionForSize :: "map_window \<Rightarrow> u32 \<Rightarrow> int" where
  "mmFindMapPositionForSize c n =
     (if n = 0 then -1 else find_run (mappagetables c) (pages_for n) 0 1024)"

section \<open>Mapping and unmapping\<close>

definition map_entry :: "u64 \<Rightarrow> u64" where
  "map_entry pa = set_bit 2 (set_bit 1 (set_bit 0 pa))"

fun map_pages :: "u64 list \<Rightarrow> nat \<Rightarrow> u64 \<Rightarrow> nat \<Rightarrow> u64 list" where
  "map_pages pt i pa 0 = pt"
| "map_pages pt i pa (Suc n) = map_pages (pt[i := map_entry pa]) (i + 1) (pa + 4096) n"

definition mapPhysicalMemory :: "u64 \<Rightarrow> u64 \<Rightarrow> u32 \<Rightarrow> map_window \<Rightarrow> (u64 \<times> map_window) option" where
  "mapPhysicalMemory pb pa n c =
     (let offset = ucast (pa AND 0xfff) :: u32; totalsize = n + offset;
          pos = mmFindMapPositionForSize c totalsize
      in if pos = -1 then None
         else Some (getMappedMemoryBase c + of_int (pos * 4096) + ucast offset,
           c\<lparr>mappagetables := map_pages (mappagetables c) (nat pos) (pa AND pb) (pages_for totalsize)\<rparr>))"

fun map_list :: "u64 \<Rightarrow> u64 list \<Rightarrow> nat \<Rightarrow> u64 list \<Rightarrow> u64 list" where
  "map_list pb pt i [] = pt"
| "map_list pb pt i (a # as) = map_list pb (pt[i := map_entry (a AND pb)]) (i + 1) as"

definition mapPhysicalMemoryAddresses :: "u64 \<Rightarrow> u64 list \<Rightarrow> map_window \<Rightarrow> (u64 \<times> map_window) option" where
  "mapPhysicalMemoryAddresses pb addresses c =
     (let pos = mmFindMapPositionForSize c (of_nat (length addresses * 4096))
      in if pos = -1 then None
         else Some (cpu_window c + of_int (pos * 4096),
           c\<lparr>mappagetables := map_list pb (mappagetables c) (nat pos) addresses\<rparr>))"

fun unmap_pages :: "u64 list \<Rightarrow> nat \<Rightarrow> nat \<Rightarrow> u64 list" where
  "unmap_pages pt i 0 = pt"
| "unmap_pages pt i (Suc n) = unmap_pages (pt[i := unset_bit 0 (pt ! i)]) (i + 1) n"

definition unmapPhysicalMemory :: "u64 \<Rightarrow> u32 \<Rightarrow> map_window \<Rightarrow> map_window option" where
  "unmapPhysicalMemory va n c =
     (let offset = ucast (va AND 0xfff) :: u32; totalsize = n + offset;
          pos = sint (ucast (drop_bit 12 ((va AND 0xfffffffffffff000) - cpu_window c)) :: u32)
      in if pos < 0 \<or> pos > 1024 then None
         else Some (c\<lparr>mappagetables := unmap_pages (mappagetables c) (nat pos) (pages_for totalsize)\<rparr>))"

section \<open>The search\<close>

definition free_slots :: "u64 list \<Rightarrow> nat \<Rightarrow> nat \<Rightarrow> bool" where
  "free_slots pt i n \<longleftrightarrow> (\<forall>k<n. \<not> present pt (i + k))"

lemma free_slots_Suc: "free_slots pt i (Suc n) \<longleftrightarrow> \<not> present pt i \<and> free_slots pt (Suc i) n"
  by (auto simp: free_slots_def less_Suc_eq_0_disj)

lemma scan_run_spec:
  "case scan_run pt j n of
     Fits \<Rightarrow> free_slots pt j n \<and> (0 < n \<longrightarrow> j + n < 1024)
   | Blocked \<Rightarrow> \<not> free_slots pt j n
   | WindowEnd \<Rightarrow> 1024 \<le> j + n"
proof (induction pt j n rule: scan_run.induct)
  case (2 pt j n)
  then show ?case by (auto simp: free_slots_Suc split: run.splits)
qed (simp add: free_slots_def)

text \<open>The last entry is never part of a run of more than one page.\<close>

definition run_at :: "u64 list \<Rightarrow> nat \<Rightarrow> nat \<Rightarrow> bool" where
  "run_at pt i n \<longleftrightarrow> i < 1024 \<and> free_slots pt i n \<and> (1 < n \<longrightarrow> i + n < 1024)"

lemma find_run_spec:
  assumes "0 < n"
  shows "i + m = 1024 \<Longrightarrow>
    (find_run pt n i m = -1 \<and> (\<forall>k\<ge>i. \<not> run_at pt k n)) \<or>
    (\<exists>k. find_run pt n i m = int k \<and> i \<le> k \<and> run_at pt k n)"
proof (induction m arbitrary: i)
  case 0
  then show ?case by (auto simp: run_at_def)
next
  case (Suc m)
  obtain n' where n: "n = Suc n'" using assms by (cases n) auto
  have not_i: "(\<forall>k\<ge>i. \<not> run_at pt k n) \<longleftrightarrow> \<not> run_at pt i n \<and> (\<forall>k\<ge>Suc i. \<not> run_at pt k n)"
    by (metis Suc_leD le_antisym not_less_eq_eq order_refl)
  note run = scan_run_spec [of pt "Suc i" n']
  have IH: "(find_run pt n (Suc i) m = -1 \<and> (\<forall>k\<ge>Suc i. \<not> run_at pt k n)) \<or>
    (\<exists>k. find_run pt n (Suc i) m = int k \<and> Suc i \<le> k \<and> run_at pt k n)"
    by (rule Suc.IH) (use Suc.prems in simp)
  show ?case
  proof (cases "present pt i \<or> scan_run pt (Suc i) n' = Blocked")
    case True
    then have "\<not> run_at pt i n" using run by (auto simp: run_at_def n free_slots_Suc)
    moreover have "find_run pt n i (Suc m) = find_run pt n (Suc i) m" using True by (auto simp: n)
    ultimately show ?thesis using IH not_i by (auto dest: Suc_leD)
  next
    case False
    then consider "scan_run pt (Suc i) n' = Fits" | "scan_run pt (Suc i) n' = WindowEnd"
      by (cases "scan_run pt (Suc i) n'") auto
    then show ?thesis
    proof cases
      case 1
      then have "run_at pt i n" using run False Suc.prems by (auto simp: run_at_def n free_slots_Suc)
      then show ?thesis using 1 False by (auto simp: n)
    next
      case 2
      then have "1024 \<le> i + n" using run by (simp add: n)
      moreover have "1 < n" using 2 by (cases n') (simp_all add: n)
      ultimately have "\<forall>k\<ge>i. \<not> run_at pt k n" by (auto simp: run_at_def)
      then show ?thesis using 2 False by (simp add: n)
    qed
  qed
qed

section \<open>Mapped memory\<close>

text \<open>What the processor makes of an address in the window.\<close>

definition frame :: "u64 \<Rightarrow> u64" where
  "frame e = push_bit 12 (drop_bit 12 e)"

definition window_translate :: "map_window \<Rightarrow> u64 \<Rightarrow> u64 option" where
  "window_translate c va =
     (let d = unat (va - getMappedMemoryBase c); i = d div 4096
      in if present (mappagetables c) i then Some (frame (mappagetables c ! i) + of_nat (d mod 4096)) else None)"

lemma frame_map_entry: "frame (map_entry pa) = frame pa"
  by (rule bit_eqI) (auto simp: frame_def map_entry_def bit_simps)

lemma map_entry_present: "bit (map_entry pa) 0"
  by (simp add: map_entry_def bit_simps)

lemma frame_idem: "frame (push_bit 12 w) = push_bit 12 w"
  by (rule bit_eqI) (auto simp: frame_def bit_simps)

lemma length_map_pages [simp]: "length (map_pages pt i pa n) = length pt"
  by (induction pt i pa n rule: map_pages.induct) simp_all

lemma nth_map_pages:
  "i + n \<le> length pt \<Longrightarrow> k < length pt \<Longrightarrow> map_pages pt i pa n ! k =
    (if i \<le> k \<and> k < i + n then map_entry (pa + 4096 * of_nat (k - i)) else pt ! k)"
proof (induction pt i pa n rule: map_pages.induct)
  case (2 pt i pa n)
  have "of_nat (k - i) = (1 + of_nat (k - Suc i) :: u64)" if "Suc i \<le> k"
    using that by (metis Suc_diff_Suc Suc_le_lessD of_nat_Suc)
  then show ?case using 2 by (cases "k = i") (auto simp: algebra_simps)
qed auto

lemma length_unmap_pages [simp]: "length (unmap_pages pt i n) = length pt"
  by (induction pt i n rule: unmap_pages.induct) simp_all

lemma nth_unmap_pages:
  "i + n \<le> length pt \<Longrightarrow> k < length pt \<Longrightarrow>
    unmap_pages pt i n ! k = (if i \<le> k \<and> k < i + n then unset_bit 0 (pt ! k) else pt ! k)"
  by (induction pt i n rule: unmap_pages.induct) (auto simp: nth_list_update)

text \<open>A request: the offset in the page, the bytes from the page start, and the window address.\<close>

lemma request_size:
  fixes pa :: u64 and n :: u32
  assumes "unat n < 2 ^ 31"
  shows "unat (n + ucast (pa AND 0xfff)) = unat n + unat (take_bit 12 pa)"
proof -
  have o: "unat (take_bit 12 pa) < 4096" using unat_take_bit_less [of 12 pa] by simp
  have "unat (ucast (take_bit 12 pa) :: u32) = unat (take_bit 12 pa)"
    using o by (simp add: unsigned_ucast_eq take_bit_nat_eq_self)
  then show ?thesis using o assms by (simp add: mask_simps unat_word_ariths)
qed

lemma map_position:
  assumes "length (mappagetables c) = 1024" and "n \<noteq> 0"
  shows "(mmFindMapPositionForSize c n = -1 \<and> (\<forall>k. \<not> run_at (mappagetables c) k (pages_for n))) \<or>
    (\<exists>k. mmFindMapPositionForSize c n = int k \<and> run_at (mappagetables c) k (pages_for n) \<and> k + pages_for n \<le> 1024)"
proof -
  have "unat n \<noteq> 0" using assms(2) by (simp add: unat_eq_zero)
  then have pos: "0 < pages_for n" by (auto simp: pages_for_def)
  have "k + pages_for n \<le> 1024" if "run_at (mappagetables c) k (pages_for n)" for k
    using that pos by (cases "pages_for n = 1") (auto simp: run_at_def)
  then show ?thesis
    using find_run_spec [OF pos, of 0 1024 "mappagetables c"] assms(2) by (auto simp: mmFindMapPositionForSize_def)
qed

lemma window_base:
  assumes "unat (cpunr c) < 512"
  shows "getMappedMemoryBase c = cpu_window c" and "take_bit 12 (cpu_window c) = 0"
    and "cpu_window c AND 0xfffffffffffff000 = cpu_window c"
proof -
  let ?w = "ucast (cpunr c) * 0x400000 :: u64"
  have u: "unat ?w = unat (cpunr c) * 0x400000"
    using assms by (simp add: unat_word_ariths unsigned_ucast_eq take_bit_nat_eq_self)
  have "?w = push_bit 22 (ucast (cpunr c))" by (simp add: push_bit_eq_mult)
  then have low: "\<not> bit ?w k" if "k < 22" for k using that by (simp add: bit_push_bit_iff)
  have high: "\<not> bit ?w k" if "31 \<le> k" for k
  proof -
    have "unat ?w < 2 ^ 31" using u assms by simp
    then have "take_bit 31 ?w = ?w" by (simp only: word_eq_iff_unsigned [where ?'a = nat] unsigned_take_bit_eq take_bit_nat_eq_self)
    then show ?thesis using that by (metis bit_take_bit_iff not_le)
  qed
  have "signed_take_bit 31 ?w = ?w"
    by (rule bit_word_eqI) (auto simp: bit_signed_take_bit_iff min_def high)
  moreover have "ucast (cpunr c * 0x400000) = ?w"
    using u assms by (simp add: word_eq_iff_unsigned [where ?'a = nat] unsigned_ucast_eq unat_word_ariths take_bit_nat_eq_self)
  ultimately show "getMappedMemoryBase c = cpu_window c" by (simp add: getMappedMemoryBase_def cpu_window_def)
  have c: "cpu_window c = push_bit 12 (push_bit 10 (ucast (cpunr c)) + drop_bit 12 MAPPEDMEMORY)"
    using \<open>ucast (cpunr c * 0x400000) = ?w\<close> by (simp add: cpu_window_def push_bit_add MAPPEDMEMORY_def push_bit_eq_mult)
  show "take_bit 12 (cpu_window c) = 0" unfolding c by (rule bit_eqI) (simp add: bit_simps)
  show "cpu_window c AND 0xfffffffffffff000 = cpu_window c"
    unfolding and_page_mask(1) c by (rule frame_idem [unfolded frame_def])
qed

lemma ucast_offset: "ucast (ucast (take_bit 12 pa) :: u32) = take_bit 12 pa" for pa :: u64
proof -
  have "unat (take_bit 12 pa) < 4096" using unat_take_bit_less [of 12 pa] by simp
  then show ?thesis by (simp add: word_eq_iff_unsigned [where ?'a = nat] unsigned_ucast_eq take_bit_nat_eq_self)
qed

lemma small_position:
  assumes "k < 1024"
  shows "sint (ucast (drop_bit 12 (push_bit 12 (of_nat k :: u64))) :: u32) = int k"
proof -
  have u: "unat (of_nat k :: u64) = k" using assms by (simp add: unat_of_nat take_bit_nat_eq_self)
  have "unat (push_bit 12 (of_nat k :: u64)) = 4096 * k"
    using assms by (simp only: unsigned_push_bit_eq u) (simp add: push_bit_eq_mult take_bit_nat_eq_self)
  then have "unat (drop_bit 12 (push_bit 12 (of_nat k :: u64))) = k"
    unfolding unat_drop_bit_eq by (simp add: drop_bit_eq_div)
  then have "drop_bit 12 (push_bit 12 (of_nat k :: u64)) = of_nat k"
    unfolding word_eq_iff_unsigned [where ?'a = nat] u .
  moreover have "(ucast (of_nat k :: u64) :: u32) = of_nat k"
    using assms by (simp add: word_eq_iff_unsigned [where ?'a = nat] unsigned_ucast_eq unat_of_nat take_bit_nat_eq_self)
  moreover have "sint (of_nat k :: u32) = int k"
    using assms int_word_sint [where x = "int k" and ?'a = 32] by simp
  ultimately show ?thesis by (simp only:)
qed

lemma run_length: "run_at pt k n \<Longrightarrow> 0 < n \<Longrightarrow> k + n \<le> 1024"
  by (cases "n = 1") (auto simp: run_at_def)

text \<open>
  C6: \<open>mapPhysicalMemory\<close> maps exactly when some free run of window entries is long enough, where a
  run of several pages may not use the last entry; otherwise the code never returns. Then
  every byte of the request is translated to its physical address, no entry that was present
  changes, and \<open>unmapPhysicalMemory\<close> of the result makes the same entries present as before.
\<close>

theorem map_unmap:
  fixes c :: map_window
  assumes "length (mappagetables c) = 1024" and "unat (cpunr c) < 512" and "n \<noteq> 0" and "unat n < 2 ^ 31"
    and "pb = mask w AND NOT (mask 12)" and "take_bit w pa = pa"
    and pages: "pages = pages_for (n + ucast (pa AND 0xfff))"
  shows "case mapPhysicalMemory pb pa n c of
      None \<Rightarrow> \<forall>k. \<not> run_at (mappagetables c) k pages
    | Some (va, c') \<Rightarrow>
        (\<exists>k. run_at (mappagetables c) k pages) \<and>
        (\<forall>x < unat n. window_translate c' (va + of_nat x) = Some (pa + of_nat x)) \<and>
        (\<forall>i. present (mappagetables c) i \<longrightarrow> mappagetables c' ! i = (mappagetables c) ! i) \<and>
        (\<exists>c''. unmapPhysicalMemory va n c' = Some c'' \<and>
          (\<forall>i. present (mappagetables c'') i \<longleftrightarrow> present (mappagetables c) i))"
proof -
  define slots where "slots = mappagetables c"
  have len: "length slots = 1024" using assms(1) by (simp add: slots_def)
  let ?n = "n + ucast (pa AND 0xfff)"
  let ?o = "unat (take_bit 12 pa)"
  have o: "?o < 4096" using unat_take_bit_less [of 12 pa] by simp
  have size: "unat ?n = unat n + ?o" by (rule request_size [OF assms(4)])
  have "unat n \<noteq> 0" using assms(3) by (simp add: unat_eq_zero)
  then have n0: "?n \<noteq> 0" using size by (auto simp: unat_eq_zero [symmetric])
  have pos: "0 < pages" using size \<open>unat n \<noteq> 0\<close> by (auto simp: pages pages_for_def)
  have cover: "y div 4096 < pages" if "y < unat ?n" for y
  proof -
    have "y div 4096 \<le> unat ?n div 4096" using that by (intro div_le_mono) simp
    moreover have "y div 4096 < unat ?n div 4096" if "unat ?n mod 4096 = 0"
      using \<open>y < unat ?n\<close> that by (simp add: less_mult_imp_div_less mod_0_imp_dvd)
    ultimately show ?thesis by (auto simp: pages pages_for_def)
  qed
  from map_position [OF assms(1) n0] show ?thesis
  proof (elim disjE conjE exE)
    assume "mmFindMapPositionForSize c ?n = -1" "\<forall>k. \<not> run_at (mappagetables c) k (pages_for ?n)"
    then show ?thesis by (simp add: mapPhysicalMemory_def Let_def slots_def pages)
  next
    fix k assume k: "mmFindMapPositionForSize c ?n = int k" "run_at (mappagetables c) k (pages_for ?n)"
      "k + pages_for ?n \<le> 1024"
    have run: "run_at slots k pages" "k + pages \<le> 1024" using k by (simp_all add: slots_def pages)
    define va where "va = cpu_window c + of_nat (4096 * k + ?o)"
    define c' where "c' = c\<lparr>mappagetables := map_pages slots k (pa AND pb) pages\<rparr>"
    note base = window_base [OF assms(2)]
    have res: "mapPhysicalMemory pb pa n c = Some (va, c')"
      using k(1) by (simp add: mapPhysicalMemory_def Let_def va_def c'_def slots_def pages base(1) mask_simps ucast_offset)
    have "bit pa i \<Longrightarrow> i < w" for i using assms(6) by (metis bit_take_bit_iff)
    then have pa: "pa AND pb = frame pa"
      unfolding assms(5) frame_def by (intro bit_eqI) (auto simp: bit_simps)
    have entry: "mappagetables c' ! i = (if k \<le> i \<and> i < k + pages
        then map_entry (frame pa + 4096 * of_nat (i - k)) else slots ! i)" if "i < 1024" for i
      using nth_map_pages [of k pages slots i "pa AND pb"] run(2) that len by (simp add: c'_def pa)
    have len': "length (mappagetables c') = 1024" by (simp add: c'_def len)
    have cpu: "cpunr c' = cpunr c" "cpu_window c' = cpu_window c" "getMappedMemoryBase c' = cpu_window c"
      by (simp_all add: c'_def cpu_window_def getMappedMemoryBase_def base(1) [unfolded cpu_window_def getMappedMemoryBase_def])
    have translate: "window_translate c' (va + of_nat x) = Some (pa + of_nat x)" if x: "x < unat n" for x
    proof -
      have y: "?o + x < unat ?n" using x size by simp
      define q where "q = (?o + x) div 4096"
      define r where "r = (?o + x) mod 4096"
      have qr: "?o + x = 4096 * q + r" "r < 4096" by (simp_all add: q_def r_def)
      have q: "q < pages" unfolding q_def by (rule cover [OF y])
      have d: "4096 * k + ?o + x = 4096 * (k + q) + r" using qr(1) by simp
      have "4096 * (k + q) + r < 2 ^ 64" using q run(2) qr(2) by simp
      then have "unat (of_nat (4096 * k + ?o + x) :: u64) = 4096 * (k + q) + r"
        unfolding d by (simp add: unat_of_nat take_bit_nat_eq_self del: of_nat_add of_nat_mult)
      moreover have "va + of_nat x - cpu_window c = of_nat (4096 * k + ?o + x)" by (simp add: va_def)
      ultimately have u: "unat (va + of_nat x - cpu_window c) = 4096 * (k + q) + r" by (simp only:)
      have e: "mappagetables c' ! (k + q) = map_entry (frame pa + 4096 * of_nat q)"
        using entry [of "k + q"] q run(2) by simp
      have "frame pa + 4096 * of_nat q = push_bit 12 (drop_bit 12 pa + of_nat q)"
        by (simp add: frame_def push_bit_add push_bit_eq_mult [of 12 "of_nat q"])
      then have f: "frame (map_entry (frame pa + 4096 * of_nat q)) = frame pa + 4096 * of_nat q"
        by (simp only: frame_map_entry frame_idem)
      have "frame pa + 4096 * of_nat q + of_nat r = frame pa + of_nat (?o + x)" by (simp add: qr(1))
      also have "\<dots> = pa + of_nat x"
        using bits_ident [of 12 pa] by (simp add: frame_def add.assoc [symmetric])
      finally have "frame pa + 4096 * of_nat q + of_nat r = pa + of_nat x" .
      moreover have "present (mappagetables c') (k + q)"
        using q run(2) by (simp add: present_def len' e map_entry_present)
      moreover have "(4096 * (k + q) + r) div 4096 = k + q" "(4096 * (k + q) + r) mod 4096 = r"
        using qr(2) mod_mult_self4 [of 4096 "k + q" r] by simp_all
      ultimately show ?thesis by (simp only: window_translate_def Let_def cpu(3) u e f if_True)
    qed
    have kept: "mappagetables c' ! i = slots ! i" if "present slots i" for i
    proof -
      have i: "i < 1024" using that len by (simp add: present_def)
      have "\<not> (k \<le> i \<and> i < k + pages)"
        using run(1) that by (auto simp: run_at_def free_slots_def le_iff_add)
      then show ?thesis unfolding entry [OF i] by (rule if_not_P)
    qed
    have "cpu_window c = push_bit 12 (drop_bit 12 (cpu_window c))"
      using base(3) unfolding and_page_mask(1) by simp
    then have va: "va = push_bit 12 (drop_bit 12 (cpu_window c) + of_nat k) + take_bit 12 pa"
      by (simp add: va_def push_bit_add push_bit_eq_mult [of 12 "of_nat k"] add.assoc)
    have low: "take_bit 12 va = take_bit 12 pa"
      and high: "push_bit 12 (drop_bit 12 va) = push_bit 12 (drop_bit 12 (cpu_window c) + of_nat k)"
      unfolding va by (rule take_bit_push_add; simp)+
    have "k < 1024" using run(1) by (simp add: run_at_def)
    have "push_bit 12 (drop_bit 12 (cpu_window c) + of_nat k) - cpu_window c = push_bit 12 (of_nat k)"
      using \<open>cpu_window c = push_bit 12 _\<close> by (simp add: push_bit_add)
    then have at: "sint (ucast (drop_bit 12 ((va AND 0xfffffffffffff000) - cpu_window c)) :: u32) = int k"
      unfolding and_page_mask(1) high by (simp only: small_position [OF \<open>k < 1024\<close>])
    define c'' where "c'' = c'\<lparr>mappagetables := unmap_pages (mappagetables c') k pages\<rparr>"
    have "unmapPhysicalMemory va n c' = Some c''"
      using \<open>k < 1024\<close> at by (simp add: unmapPhysicalMemory_def Let_def cpu(2) c''_def pages mask_simps low)
    moreover have "present (mappagetables c'') i \<longleftrightarrow> present slots i" for i
    proof (cases "i < 1024")
      case True
      then have "mappagetables c'' ! i = (if k \<le> i \<and> i < k + pages then unset_bit 0 (mappagetables c' ! i) else slots ! i)"
        using nth_unmap_pages [of k pages "mappagetables c'" i] run(2) len' entry by (simp add: c''_def)
      moreover have "\<not> present slots i" if "k \<le> i" "i < k + pages"
        using run(1) that by (auto simp: run_at_def free_slots_def le_iff_add)
      ultimately show ?thesis using True len' len
        by (auto simp: present_def c''_def bit_simps)
    qed (simp add: present_def c''_def len' len)
    ultimately show ?thesis using res run(1) translate kept by (auto simp: slots_def)
  qed
qed

theorem map_unmap_witness:
  "\<exists>va c'. mapPhysicalMemory 0xFFFFFF000 0x12345678 0x2000 \<lparr>mappagetables = replicate 1024 0, cpunr = 3\<rparr> = Some (va, c') \<and>
     (\<forall>x < 0x2000. window_translate c' (va + of_nat x) = Some (0x12345678 + of_nat x))"
proof -
  define c where "c = \<lparr>mappagetables = replicate 1024 0, cpunr = 3\<rparr>"
  have c: "mappagetables c = replicate 1024 0" "cpunr c = 3" by (simp_all add: c_def)
  have pb: "(0xFFFFFF000 :: u64) = mask 36 AND NOT (mask 12)" by (simp add: mask_eq_exp_minus_1)
  have pa: "take_bit 36 0x12345678 = (0x12345678 :: u64)" by simp
  have pages: "pages_for (0x2000 + ucast ((0x12345678 :: u64) AND 0xfff)) = 3" by (simp add: pages_for_def)
  have "\<not> present (replicate 1024 0) i" for i by (simp add: present_def)
  then have "run_at (mappagetables c) 0 3" by (simp add: run_at_def free_slots_def c)
  then have some: "\<exists>k. run_at (mappagetables c) k 3" ..
  have pre: "length (mappagetables c) = 1024" "unat (cpunr c) < 512" "(0x2000 :: u32) \<noteq> 0" "unat (0x2000 :: u32) < 2 ^ 31"
    by (simp_all add: c)
  from map_unmap [OF pre pb pa pages [symmetric]] some show ?thesis
    unfolding c_def [symmetric] by (auto split: option.splits)
qed

end
