(* ===== verification/Locks.thy ===== *)
theory Locks
  imports Prelude
begin

text \<open>
  The locks of \<open>common.c\<close> and the \<open>spinlock\<close> of \<open>commona.asm\<close> they use: the critical section that
  a CPU may enter again while it holds it (\<open>csEnter\<close>, \<open>csLeave\<close>), and the lock for many readers
  or one writer (\<open>mrew...\<close>). Each C function is a function from the next instruction, a program
  counter, and the shared memory to what follows; every access to shared memory is a step of
  its own, and the steps of the CPUs interleave in any order. No instruction left (\<open>None\<close>) is
  the return. The debug branches are left out. The memory keeps the order of the writes, as the
  volatile fields and the processor make it.
\<close>

section \<open>The spin lock\<close>

text \<open>\<open>lock bts\<close> takes the lock when bit 0 was clear; otherwise the field is read until it is 0.\<close>

datatype spin_pc = Spin_bts | Spin_wait

fun spinlock :: "spin_pc \<Rightarrow> u32 \<Rightarrow> spin_pc option \<times> u32" where
  "spinlock Spin_bts v = (if bit v 0 then Some Spin_wait else None, set_bit 0 v)"
| "spinlock Spin_wait v = (Some (if v = 0 then Spin_bts else Spin_wait), v)"

section \<open>Critical sections\<close>

text \<open>\<open>lockcount++\<close> on the largest \<open>int\<close> is undefined in C and has no step here.\<close>

record critical_section =
  locked :: u32
  cs_apicid :: int
  lockcount :: int

datatype enter_pc =
    Enter_locked | Enter_owner | Enter_count | Enter_count_write int
  | Enter_spin spin_pc | Enter_first | Enter_apicid

datatype leave_pc =
    Leave_locked | Leave_owner | Leave_count | Leave_count_write int
  | Leave_test | Leave_apicid | Leave_unlock | Leave_hang

text \<open>
  \<open>csEnter\<close> and \<open>csLeave\<close> of the CPU with the number \<open>apicid\<close>; \<open>Leave_hang\<close> is the endless loop for a
  CPU that does not own the section.
\<close>

fun csEnter :: "int \<Rightarrow> enter_pc \<Rightarrow> critical_section \<Rightarrow> (enter_pc option \<times> critical_section) option" where
  "csEnter apicid Enter_locked cs =
     Some (Some (if locked cs \<noteq> 0 then Enter_owner else Enter_spin Spin_bts), cs)"
| "csEnter apicid Enter_owner cs =
     Some (Some (if cs_apicid cs = apicid then Enter_count else Enter_spin Spin_bts), cs)"
| "csEnter apicid Enter_count cs =
     (if lockcount cs < 2 ^ 31 - 1 then Some (Some (Enter_count_write (lockcount cs + 1)), cs) else None)"
| "csEnter apicid (Enter_count_write v) cs = Some (None, cs\<lparr>lockcount := v\<rparr>)"
| "csEnter apicid (Enter_spin p) cs =
     (let (p', v) = spinlock p (locked cs)
      in Some (Some (case p' of Some q \<Rightarrow> Enter_spin q | None \<Rightarrow> Enter_first), cs\<lparr>locked := v\<rparr>))"
| "csEnter apicid Enter_first cs = Some (Some Enter_apicid, cs\<lparr>lockcount := 1\<rparr>)"
| "csEnter apicid Enter_apicid cs = Some (None, cs\<lparr>cs_apicid := apicid\<rparr>)"

fun csLeave :: "int \<Rightarrow> leave_pc \<Rightarrow> critical_section \<Rightarrow> (leave_pc option \<times> critical_section) option" where
  "csLeave apicid Leave_locked cs = Some (Some (if locked cs \<noteq> 0 then Leave_owner else Leave_hang), cs)"
| "csLeave apicid Leave_owner cs = Some (Some (if cs_apicid cs = apicid then Leave_count else Leave_hang), cs)"
| "csLeave apicid Leave_count cs = Some (Some (Leave_count_write (lockcount cs - 1)), cs)"
| "csLeave apicid (Leave_count_write v) cs = Some (Some Leave_test, cs\<lparr>lockcount := v\<rparr>)"
| "csLeave apicid Leave_test cs = Some (if lockcount cs = 0 then Some Leave_apicid else None, cs)"
| "csLeave apicid Leave_apicid cs = Some (Some Leave_unlock, cs\<lparr>cs_apicid := -1\<rparr>)"
| "csLeave apicid Leave_unlock cs = Some (None, cs\<lparr>locked := 0\<rparr>)"
| "csLeave apicid Leave_hang cs = Some (Some Leave_hang, cs)"

text \<open>
  \<open>getAPICID\<close> takes the 8 bits of the initial APIC number from the \<open>ebx\<close> that \<open>cpuid\<close> 1 answers
  (an argument), and \<open>csEnter\<close> adds one.
\<close>

definition getAPICID :: "u32 \<Rightarrow> u32" where
  "getAPICID ebx = drop_bit 24 ebx + 1"

definition cs_id :: "u32 \<Rightarrow> int" where
  "cs_id ebx = sint (getAPICID ebx + 1)"

text \<open>
  A CPU outside the two functions may call either of them at any time. \<open>depth\<close> counts the
  returns of \<open>csEnter\<close> less those of \<open>csLeave\<close>: a CPU is inside the section while it is positive.
\<close>

datatype cs_pc = Outside | Entering enter_pc | Leaving leave_pc

record cs_cpu =
  cs_pc :: cs_pc
  depth :: nat

record cs_system =
  section_state :: critical_section
  cs_cpus :: "nat \<Rightarrow> cs_cpu"

inductive cs_local :: "int \<Rightarrow> cs_cpu \<times> critical_section \<Rightarrow> cs_cpu \<times> critical_section \<Rightarrow> bool" for apicid where
  call_enter: "cs_local apicid (\<lparr>cs_pc = Outside, depth = d\<rparr>, cs) (\<lparr>cs_pc = Entering Enter_locked, depth = d\<rparr>, cs)"
| call_leave: "cs_local apicid (\<lparr>cs_pc = Outside, depth = d\<rparr>, cs) (\<lparr>cs_pc = Leaving Leave_locked, depth = d\<rparr>, cs)"
| enter: "csEnter apicid p cs = Some (Some q, cs') \<Longrightarrow>
    cs_local apicid (\<lparr>cs_pc = Entering p, depth = d\<rparr>, cs) (\<lparr>cs_pc = Entering q, depth = d\<rparr>, cs')"
| entered: "csEnter apicid p cs = Some (None, cs') \<Longrightarrow>
    cs_local apicid (\<lparr>cs_pc = Entering p, depth = d\<rparr>, cs) (\<lparr>cs_pc = Outside, depth = d + 1\<rparr>, cs')"
| leave: "csLeave apicid p cs = Some (Some q, cs') \<Longrightarrow>
    cs_local apicid (\<lparr>cs_pc = Leaving p, depth = d\<rparr>, cs) (\<lparr>cs_pc = Leaving q, depth = d\<rparr>, cs')"
| left: "csLeave apicid p cs = Some (None, cs') \<Longrightarrow>
    cs_local apicid (\<lparr>cs_pc = Leaving p, depth = d\<rparr>, cs) (\<lparr>cs_pc = Outside, depth = d - 1\<rparr>, cs')"

text \<open>The CPUs \<open>C\<close>, whose answers to \<open>cpuid\<close> are \<open>ebx\<close>.\<close>

inductive cs_reachable :: "nat set \<Rightarrow> (nat \<Rightarrow> u32) \<Rightarrow> cs_system \<Rightarrow> bool" for C ebx where
  start: "cs_reachable C ebx \<lparr>section_state = \<lparr>locked = 0, cs_apicid = 0, lockcount = 0\<rparr>,
    cs_cpus = \<lambda>_. \<lparr>cs_pc = Outside, depth = 0\<rparr>\<rparr>"
| step: "cs_reachable C ebx s \<Longrightarrow> c \<in> C \<Longrightarrow>
    cs_local (cs_id (ebx c)) (cs_cpus s c, section_state s) (l, cs) \<Longrightarrow>
    cs_reachable C ebx \<lparr>section_state = cs, cs_cpus = (cs_cpus s)(c := l)\<rparr>"

section \<open>Many readers or one writer\<close>

record mrew =
  mrew_lock :: u32
  readers :: u32
  writers :: u32

datatype read_pc =
  Read_spin spin_pc | Read_test | Read_retry | Read_count | Read_count_write u32 | Read_unlock

datatype end_read_pc = End_read_count | End_read_count_write u32

datatype write_pc =
    Write_spin spin_pc | Write_test_readers | Write_test_writers | Write_retry
  | Write_count | Write_count_write u32 | Write_unlock

fun mrewStartRead :: "read_pc \<Rightarrow> mrew \<Rightarrow> read_pc option \<times> mrew" where
  "mrewStartRead (Read_spin p) m =
     (let (p', v) = spinlock p (mrew_lock m)
      in (Some (case p' of Some q \<Rightarrow> Read_spin q | None \<Rightarrow> Read_test), m\<lparr>mrew_lock := v\<rparr>))"
| "mrewStartRead Read_test m = (Some (if writers m \<noteq> 0 then Read_retry else Read_count), m)"
| "mrewStartRead Read_retry m = (Some (Read_spin Spin_bts), m\<lparr>mrew_lock := 0\<rparr>)"
| "mrewStartRead Read_count m = (Some (Read_count_write (readers m + 1)), m)"
| "mrewStartRead (Read_count_write v) m = (Some Read_unlock, m\<lparr>readers := v\<rparr>)"
| "mrewStartRead Read_unlock m = (None, m\<lparr>mrew_lock := 0\<rparr>)"

fun mrewEndRead :: "end_read_pc \<Rightarrow> mrew \<Rightarrow> end_read_pc option \<times> mrew" where
  "mrewEndRead End_read_count m = (Some (End_read_count_write (readers m - 1)), m)"
| "mrewEndRead (End_read_count_write v) m = (None, m\<lparr>readers := v\<rparr>)"

fun mrewStartWrite :: "write_pc \<Rightarrow> mrew \<Rightarrow> write_pc option \<times> mrew" where
  "mrewStartWrite (Write_spin p) m =
     (let (p', v) = spinlock p (mrew_lock m)
      in (Some (case p' of Some q \<Rightarrow> Write_spin q | None \<Rightarrow> Write_test_readers), m\<lparr>mrew_lock := v\<rparr>))"
| "mrewStartWrite Write_test_readers m = (Some (if readers m \<noteq> 0 then Write_retry else Write_test_writers), m)"
| "mrewStartWrite Write_test_writers m = (Some (if writers m \<noteq> 0 then Write_retry else Write_count), m)"
| "mrewStartWrite Write_retry m = (Some (Write_spin Spin_bts), m\<lparr>mrew_lock := 0\<rparr>)"
| "mrewStartWrite Write_count m = (Some (Write_count_write (writers m + 1)), m)"
| "mrewStartWrite (Write_count_write v) m = (Some Write_unlock, m\<lparr>writers := v\<rparr>)"
| "mrewStartWrite Write_unlock m = (None, m\<lparr>mrew_lock := 0\<rparr>)"

definition mrewEndWrite :: "mrew \<Rightarrow> mrew" where
  "mrewEndWrite m = m\<lparr>writers := 0\<rparr>"

text \<open>A CPU ends what it began: \<open>Call_end\<close> calls the end function of its role.\<close>

datatype mrew_pc =
    Idle | Starting_read read_pc | Reading | Ending_read end_read_pc
  | Starting_write write_pc | Writing

datatype mrew_event = Call_read | Call_write | Call_end | Continue

fun mrew_local :: "mrew_event \<Rightarrow> mrew_pc \<times> mrew \<Rightarrow> (mrew_pc \<times> mrew) option" where
  "mrew_local Call_read (Idle, m) = Some (Starting_read (Read_spin Spin_bts), m)"
| "mrew_local Call_write (Idle, m) = Some (Starting_write (Write_spin Spin_bts), m)"
| "mrew_local Call_end (Reading, m) = Some (Ending_read End_read_count, m)"
| "mrew_local Call_end (Writing, m) = Some (Idle, mrewEndWrite m)"
| "mrew_local Continue (Starting_read p, m) =
     (let (q, m') = mrewStartRead p m in Some (case q of None \<Rightarrow> Reading | Some p' \<Rightarrow> Starting_read p', m'))"
| "mrew_local Continue (Ending_read p, m) =
     (let (q, m') = mrewEndRead p m in Some (case q of None \<Rightarrow> Idle | Some p' \<Rightarrow> Ending_read p', m'))"
| "mrew_local Continue (Starting_write p, m) =
     (let (q, m') = mrewStartWrite p m in Some (case q of None \<Rightarrow> Writing | Some p' \<Rightarrow> Starting_write p', m'))"
| "mrew_local _ _ = None"

definition mrew_start :: "(nat \<Rightarrow> mrew_pc) \<times> mrew" where
  "mrew_start = (\<lambda>_. Idle, \<lparr>mrew_lock = 0, readers = 0, writers = 0\<rparr>)"

text \<open>A schedule says which CPU makes the next step.\<close>

fun mrew_run :: "(nat \<times> mrew_event) list \<Rightarrow> (nat \<Rightarrow> mrew_pc) \<times> mrew \<Rightarrow> ((nat \<Rightarrow> mrew_pc) \<times> mrew) option" where
  "mrew_run [] s = Some s"
| "mrew_run ((c, e) # es) (f, m) =
     (case mrew_local e (f c, m) of None \<Rightarrow> None | Some (p, m') \<Rightarrow> mrew_run es (f(c := p), m'))"

end
