(* ===== verification/LocksCorrect.thy ===== *)
theory LocksCorrect
  imports Locks
begin

text \<open>
  The locks of \<open>Locks\<close>: mutual exclusion of the critical section over all interleavings, by an
  invariant of the reachable states, and its failure when two CPUs have the same APIC number.
\<close>

section \<open>The critical section\<close>

text \<open>The owner is the CPU inside, from the \<open>bts\<close> that took the lock to the write that frees it.\<close>

definition owner :: "cs_cpu \<Rightarrow> bool" where
  "owner l \<longleftrightarrow> 0 < depth l \<or> cs_pc l = Entering Enter_first \<or> cs_pc l = Entering Enter_apicid"

text \<open>What holds of a CPU with the number \<open>i\<close>, by its next instruction.\<close>

fun cs_ok :: "int \<Rightarrow> nat \<Rightarrow> cs_pc \<Rightarrow> int \<Rightarrow> int \<Rightarrow> bool" where
  "cs_ok i d Outside a n \<longleftrightarrow> (if d = 0 then a \<noteq> i else a = i \<and> n = int d)"
| "cs_ok i d (Entering Enter_locked) a n \<longleftrightarrow> (if d = 0 then a \<noteq> i else a = i \<and> n = int d)"
| "cs_ok i d (Entering Enter_owner) a n \<longleftrightarrow> (if d = 0 then a \<noteq> i else a = i \<and> n = int d)"
| "cs_ok i d (Entering Enter_count) a n \<longleftrightarrow> 0 < d \<and> a = i \<and> n = int d"
| "cs_ok i d (Entering (Enter_count_write v)) a n \<longleftrightarrow> 0 < d \<and> a = i \<and> n = int d \<and> v = int d + 1"
| "cs_ok i d (Entering (Enter_spin p)) a n \<longleftrightarrow> d = 0 \<and> a \<noteq> i"
| "cs_ok i d (Entering Enter_first) a n \<longleftrightarrow> d = 0 \<and> a \<noteq> i"
| "cs_ok i d (Entering Enter_apicid) a n \<longleftrightarrow> d = 0 \<and> a \<noteq> i \<and> n = 1"
| "cs_ok i d (Leaving Leave_locked) a n \<longleftrightarrow> (if d = 0 then a \<noteq> i else a = i \<and> n = int d)"
| "cs_ok i d (Leaving Leave_owner) a n \<longleftrightarrow> (if d = 0 then a \<noteq> i else a = i \<and> n = int d)"
| "cs_ok i d (Leaving Leave_count) a n \<longleftrightarrow> 0 < d \<and> a = i \<and> n = int d"
| "cs_ok i d (Leaving (Leave_count_write v)) a n \<longleftrightarrow> 0 < d \<and> a = i \<and> v = int d - 1"
| "cs_ok i d (Leaving Leave_test) a n \<longleftrightarrow> 0 < d \<and> a = i \<and> n = int d - 1"
| "cs_ok i d (Leaving Leave_apicid) a n \<longleftrightarrow> d = 1 \<and> a = i"
| "cs_ok i d (Leaving Leave_unlock) a n \<longleftrightarrow> d = 1 \<and> a \<noteq> i"
| "cs_ok i d (Leaving Leave_hang) a n \<longleftrightarrow> d = 0 \<and> a \<noteq> i"

abbreviation cpu_ok :: "int \<Rightarrow> cs_cpu \<Rightarrow> critical_section \<Rightarrow> bool" where
  "cpu_ok i l cs \<equiv> cs_ok i (depth l) (cs_pc l) (cs_apicid cs) (lockcount cs)"

text \<open>A CPU that is not the owner only relies on the section not carrying its number.\<close>

lemma cpu_ok_not_owner: "\<not> owner l \<Longrightarrow> cpu_ok i l cs \<Longrightarrow> cs_apicid cs' \<noteq> i \<Longrightarrow> cpu_ok i l cs'"
  by (cases "(i, depth l, cs_pc l, cs_apicid cs, lockcount cs)" rule: cs_ok.cases) (auto simp: owner_def)

lemma cpu_ok_not_owner_apicid: "\<not> owner l \<Longrightarrow> cpu_ok i l cs \<Longrightarrow> cs_apicid cs \<noteq> i"
  by (cases "(i, depth l, cs_pc l, cs_apicid cs, lockcount cs)" rule: cs_ok.cases) (auto simp: owner_def)

definition cs_inv :: "nat set \<Rightarrow> (nat \<Rightarrow> u32) \<Rightarrow> cs_system \<Rightarrow> bool" where
  "cs_inv C ebx s \<longleftrightarrow>
     (\<forall>c \<in> C. cpu_ok (cs_id (ebx c)) (cs_cpus s c) (section_state s)) \<and>
     (\<forall>c \<in> C. \<forall>d \<in> C. owner (cs_cpus s c) \<longrightarrow> owner (cs_cpus s d) \<longrightarrow> c = d) \<and>
     locked (section_state s) = (if \<exists>c \<in> C. owner (cs_cpus s c) then 1 else 0)"

text \<open>
  One step of one CPU: a CPU that is not the owner changes nothing the others rely on, except
  that it may take the free lock.
\<close>

definition cs_effect :: "int \<Rightarrow> cs_cpu \<Rightarrow> critical_section \<Rightarrow> cs_cpu \<Rightarrow> critical_section \<Rightarrow> bool" where
  "cs_effect i l cs l' cs' \<longleftrightarrow> cpu_ok i l' cs' \<and>
     (if owner l then locked cs' = (if owner l' then 1 else 0) \<and> cs_apicid cs' \<in> {cs_apicid cs, i, -1}
      else cs_apicid cs' = cs_apicid cs \<and> lockcount cs' = lockcount cs \<and>
        (if owner l' then locked cs = 0 \<and> locked cs' = 1 else locked cs' = locked cs))"

lemma spinlock_01:
  "spinlock p 0 = (case p of Spin_bts \<Rightarrow> (None, 1) | Spin_wait \<Rightarrow> (Some Spin_bts, 0))"
  "spinlock p 1 = (Some Spin_wait, 1)"
  by (cases p; simp add: set_bit_eq_or)+

lemma csEnter_effect:
  assumes "csEnter i p cs = Some (p', cs')" and "cpu_ok i \<lparr>cs_pc = Entering p, depth = d\<rparr> cs"
    and "i \<noteq> -1" and "locked cs = 0 \<or> locked cs = 1" and "owner \<lparr>cs_pc = Entering p, depth = d\<rparr> \<Longrightarrow> locked cs = 1"
  shows "cs_effect i \<lparr>cs_pc = Entering p, depth = d\<rparr> cs
    (case p' of None \<Rightarrow> \<lparr>cs_pc = Outside, depth = d + 1\<rparr> | Some q \<Rightarrow> \<lparr>cs_pc = Entering q, depth = d\<rparr>) cs'"
proof (cases p)
  case (Enter_spin q)
  then show ?thesis using assms(1,2,4)
    by (auto simp: owner_def cs_effect_def spinlock_01 split: spin_pc.splits)
qed (use assms in \<open>auto simp: owner_def cs_effect_def split: if_splits\<close>)

lemma csLeave_effect:
  assumes "csLeave i p cs = Some (p', cs')" and "cpu_ok i \<lparr>cs_pc = Leaving p, depth = d\<rparr> cs"
    and "i \<noteq> -1" and "locked cs = 0 \<or> locked cs = 1" and "owner \<lparr>cs_pc = Leaving p, depth = d\<rparr> \<Longrightarrow> locked cs = 1"
  shows "cs_effect i \<lparr>cs_pc = Leaving p, depth = d\<rparr> cs
    (case p' of None \<Rightarrow> \<lparr>cs_pc = Outside, depth = d - 1\<rparr> | Some q \<Rightarrow> \<lparr>cs_pc = Leaving q, depth = d\<rparr>) cs'"
  using assms by (cases p) (auto simp: owner_def cs_effect_def split: if_splits)

lemma cs_local_effect:
  assumes "cs_local i (l, cs) (l', cs')" and "cpu_ok i l cs" and "i \<noteq> -1"
    and "locked cs = 0 \<or> locked cs = 1" and "owner l \<Longrightarrow> locked cs = 1"
  shows "cs_effect i l cs l' cs'"
  using assms
proof (cases rule: cs_local.cases)
  case (enter p q d)
  then show ?thesis using csEnter_effect [of i p cs "Some q"] assms(2-5) by simp
next
  case (entered p d)
  then show ?thesis using csEnter_effect [of i p cs None] assms(2-5) by simp
next
  case (leave p q d)
  then show ?thesis using csLeave_effect [of i p cs "Some q"] assms(2-5) by simp
next
  case (left p d)
  then show ?thesis using csLeave_effect [of i p cs None] assms(2-5) by simp
qed (auto simp: cs_effect_def owner_def)

lemma cs_id_eq: "cs_id a = int (unat (drop_bit 24 a)) + 2"
proof -
  define k where "k = unat (drop_bit 24 a)"
  have "unat a < 2 ^ 32" using unsigned_less [of a] by simp
  then have "k < 256"
    unfolding k_def unat_drop_bit_eq by (simp add: drop_bit_eq_div less_mult_imp_div_less)
  moreover have "getAPICID a + 1 = word_of_int (int (k + 2))" by (simp add: getAPICID_def k_def)
  ultimately show ?thesis
    using int_word_sint [where x = "int (k + 2)" and ?'a = 32] unfolding cs_id_def k_def [symmetric] by simp
qed

lemma cs_id_inj: "drop_bit 24 (a :: u32) \<noteq> drop_bit 24 b \<Longrightarrow> cs_id a \<noteq> cs_id b"
  by (simp add: cs_id_eq word_uint_eq_iff)

lemma cs_id_valid: "cs_id a \<noteq> -1" "cs_id a \<noteq> 0"
proof -
  have "0 \<le> int (unat (drop_bit 24 a))" by (rule of_nat_0_le_iff)
  then show "cs_id a \<noteq> -1" "cs_id a \<noteq> 0" unfolding cs_id_eq by linarith+
qed

lemma cs_inv_step:
  assumes "cs_inv C ebx s" and "inj_on (\<lambda>c. drop_bit 24 (ebx c)) C" and "c \<in> C"
    and "cs_local (cs_id (ebx c)) (cs_cpus s c, section_state s) (l, cs)"
  shows "cs_inv C ebx \<lparr>section_state = cs, cs_cpus = (cs_cpus s)(c := l)\<rparr>"
proof -
  let ?o = "\<lambda>d. owner (cs_cpus s d)"
  have ok: "cpu_ok (cs_id (ebx d)) (cs_cpus s d) (section_state s)" if "d \<in> C" for d
    using assms(1) that by (simp add: cs_inv_def)
  have one: "d = e" if "d \<in> C" "e \<in> C" "?o d" "?o e" for d e using assms(1) that by (simp add: cs_inv_def)
  have lock: "locked (section_state s) = (if \<exists>c \<in> C. ?o c then 1 else 0)" using assms(1) by (simp add: cs_inv_def)
  have "cs_effect (cs_id (ebx c)) (cs_cpus s c) (section_state s) l cs"
    using cs_local_effect [OF assms(4) ok [OF assms(3)] cs_id_valid(1)] lock assms(3) by (auto split: if_splits)
  note eff = this [unfolded cs_effect_def]
  have "cpu_ok (cs_id (ebx d)) (cs_cpus s d) cs" if d: "d \<in> C" "d \<noteq> c" for d
  proof (cases "?o d")
    case True
    then have "\<not> ?o c" using one d assms(3) by blast
    then show ?thesis using eff ok [OF d(1)] by simp
  next
    case False
    have "cs_id (ebx d) \<noteq> cs_id (ebx c)"
      using assms(2,3) d by (intro cs_id_inj) (auto dest: inj_onD)
    moreover have "cs_apicid (section_state s) \<noteq> cs_id (ebx d)"
      by (rule cpu_ok_not_owner_apicid [OF False ok [OF d(1)]])
    ultimately have "cs_apicid cs \<noteq> cs_id (ebx d)"
      using eff cs_id_valid(1) [of "ebx d"] by (auto split: if_splits)
    then show ?thesis by (rule cpu_ok_not_owner [OF False ok [OF d(1)]])
  qed
  moreover have "locked cs = (if \<exists>d \<in> C. owner (((cs_cpus s)(c := l)) d) then 1 else 0)"
    using eff lock one assms(3) by (auto split: if_splits) metis
  moreover have "d = e" if "d \<in> C" "e \<in> C" "owner (((cs_cpus s)(c := l)) d)" "owner (((cs_cpus s)(c := l)) e)" for d e
    using that eff lock one assms(3) by (auto split: if_splits)
  ultimately show ?thesis unfolding cs_inv_def using eff by auto
qed

lemma cs_reachable_inv:
  assumes "cs_reachable C ebx s" and "inj_on (\<lambda>c. drop_bit 24 (ebx c)) C"
  shows "cs_inv C ebx s"
  using assms(1)
proof (induction rule: cs_reachable.induct)
  case start
  have "cs_id (ebx c) \<noteq> 0" for c by (rule cs_id_valid)
  then show ?case by (auto simp: cs_inv_def owner_def)
next
  case (step s c l cs)
  then show ?case by (intro cs_inv_step assms(2))
qed

text \<open>Runs of \<open>csEnter\<close> that no other CPU interrupts.\<close>

lemma cs_reachable_step:
  "cs_reachable C ebx \<lparr>section_state = cs, cs_cpus = f\<rparr> \<Longrightarrow> c \<in> C \<Longrightarrow>
   cs_local (cs_id (ebx c)) (f c, cs) (l, cs') \<Longrightarrow>
   cs_reachable C ebx \<lparr>section_state = cs', cs_cpus = f(c := l)\<rparr>"
  using cs_reachable.step [of C ebx "\<lparr>section_state = cs, cs_cpus = f\<rparr>"] by simp

lemma csEnter_free:
  assumes "cs_reachable C ebx \<lparr>section_state = cs, cs_cpus = f\<rparr>" and "c \<in> C"
    and "f c = \<lparr>cs_pc = Outside, depth = 0\<rparr>" and "locked cs = 0"
  shows "cs_reachable C ebx \<lparr>section_state = \<lparr>locked = 1, cs_apicid = cs_id (ebx c), lockcount = 1\<rparr>,
    cs_cpus = f(c := \<lparr>cs_pc = Outside, depth = 1\<rparr>)\<rparr>"
proof -
  let ?cpu = "\<lambda>p. \<lparr>cs_pc = p, depth = 0\<rparr>"
  note go = cs_reachable_step [OF _ assms(2)]
  have call: "cs_reachable C ebx \<lparr>section_state = cs, cs_cpus = f(c := ?cpu (Entering Enter_locked))\<rparr>"
    by (rule go [OF assms(1)]) (simp add: assms(3) cs_local.call_enter)
  have spin: "cs_reachable C ebx \<lparr>section_state = cs, cs_cpus = f(c := ?cpu (Entering (Enter_spin Spin_bts)))\<rparr>"
    using go [OF call, of "?cpu (Entering (Enter_spin Spin_bts))" cs] assms(4) by (simp add: cs_local.enter)
  have first: "cs_reachable C ebx \<lparr>section_state = cs\<lparr>locked := 1\<rparr>, cs_cpus = f(c := ?cpu (Entering Enter_first))\<rparr>"
    using go [OF spin, of "?cpu (Entering Enter_first)" "cs\<lparr>locked := 1\<rparr>"] assms(4)
    by (simp add: cs_local.enter spinlock_01)
  have apicid: "cs_reachable C ebx \<lparr>section_state = cs\<lparr>locked := 1, lockcount := 1\<rparr>, cs_cpus = f(c := ?cpu (Entering Enter_apicid))\<rparr>"
    using go [OF first, of "?cpu (Entering Enter_apicid)" "cs\<lparr>locked := 1, lockcount := 1\<rparr>"]
    by (simp add: cs_local.enter)
  show ?thesis
    using go [OF apicid, of "\<lparr>cs_pc = Outside, depth = 1\<rparr>" "\<lparr>locked = 1, cs_apicid = cs_id (ebx c), lockcount = 1\<rparr>"]
      cs_local.entered [of "cs_id (ebx c)" Enter_apicid "cs\<lparr>locked := 1, lockcount := 1\<rparr>" _ 0]
    by (cases cs) simp
qed

lemma csEnter_again:
  assumes "cs_reachable C ebx \<lparr>section_state = cs, cs_cpus = f\<rparr>" and "c \<in> C"
    and "f c = \<lparr>cs_pc = Outside, depth = d\<rparr>" and "locked cs \<noteq> 0" and "cs_apicid cs = cs_id (ebx c)"
    and "lockcount cs < 2 ^ 31 - 1"
  shows "cs_reachable C ebx \<lparr>section_state = cs\<lparr>lockcount := lockcount cs + 1\<rparr>,
    cs_cpus = f(c := \<lparr>cs_pc = Outside, depth = d + 1\<rparr>)\<rparr>"
proof -
  let ?cpu = "\<lambda>p. \<lparr>cs_pc = p, depth = d\<rparr>"
  let ?count = "Enter_count_write (lockcount cs + 1)"
  note go = cs_reachable_step [OF _ assms(2)]
  have call: "cs_reachable C ebx \<lparr>section_state = cs, cs_cpus = f(c := ?cpu (Entering Enter_locked))\<rparr>"
    by (rule go [OF assms(1)]) (simp add: assms(3) cs_local.call_enter)
  have own: "cs_reachable C ebx \<lparr>section_state = cs, cs_cpus = f(c := ?cpu (Entering Enter_owner))\<rparr>"
    using go [OF call, of "?cpu (Entering Enter_owner)" cs] assms(4) by (simp add: cs_local.enter)
  have incr: "cs_reachable C ebx \<lparr>section_state = cs, cs_cpus = f(c := ?cpu (Entering Enter_count))\<rparr>"
    using go [OF own, of "?cpu (Entering Enter_count)" cs] assms(5) by (simp add: cs_local.enter)
  have wr: "cs_reachable C ebx \<lparr>section_state = cs, cs_cpus = f(c := ?cpu (Entering ?count))\<rparr>"
    using go [OF incr, of "?cpu (Entering ?count)" cs] assms(6) by (simp add: cs_local.enter)
  show ?thesis
    using go [OF wr, of "\<lparr>cs_pc = Outside, depth = d + 1\<rparr>" "cs\<lparr>lockcount := lockcount cs + 1\<rparr>"]
      cs_local.entered [of "cs_id (ebx c)" ?count cs _ d]
    by simp
qed

text \<open>
  C4: In every interleaving of CPUs with different APIC numbers at most one CPU is inside the
  critical section. While it runs outside the two functions the section is marked as locked,
  carries its number and counts how often it entered; only a CPU that is not inside runs into
  the endless loop of \<open>csLeave\<close>; and the lock is free when nobody is in it.
\<close>

theorem csEnter_excludes:
  assumes "cs_reachable C ebx s" and "inj_on (\<lambda>c. drop_bit 24 (ebx c)) C" and "c \<in> C"
  shows "(0 < depth (cs_cpus s c) \<longrightarrow> locked (section_state s) = 1 \<and>
        (\<forall>d \<in> C. d \<noteq> c \<longrightarrow> depth (cs_cpus s d) = 0) \<and>
        (cs_pc (cs_cpus s c) = Outside \<longrightarrow>
          cs_apicid (section_state s) = cs_id (ebx c) \<and> lockcount (section_state s) = int (depth (cs_cpus s c)))) \<and>
    (cs_pc (cs_cpus s c) = Leaving Leave_hang \<longrightarrow> depth (cs_cpus s c) = 0) \<and>
    ((\<forall>d \<in> C. cs_cpus s d = \<lparr>cs_pc = Outside, depth = 0\<rparr>) \<longrightarrow> locked (section_state s) = 0)"
proof -
  note inv = cs_reachable_inv [OF assms(1,2), unfolded cs_inv_def]
  have ok: "cpu_ok (cs_id (ebx c)) (cs_cpus s c) (section_state s)" using inv assms(3) by blast
  have "locked (section_state s) = 1 \<and> depth (cs_cpus s d) = 0"
    if "0 < depth (cs_cpus s c)" "d \<in> C" "d \<noteq> c" for d
    using inv assms(3) that by (auto simp: owner_def split: if_splits)
  moreover have "locked (section_state s) = 1" if "0 < depth (cs_cpus s c)"
    using inv assms(3) that by (auto simp: owner_def split: if_splits)
  moreover have "locked (section_state s) = 0" if "\<forall>d \<in> C. cs_cpus s d = \<lparr>cs_pc = Outside, depth = 0\<rparr>"
    using inv that by (simp add: owner_def)
  ultimately show ?thesis using ok by auto
qed

theorem csEnter_excludes_witness:
  "\<exists>s. cs_reachable {0, 1} (\<lambda>c. of_nat c * 0x1000000) s \<and> depth (cs_cpus s 0) = 2 \<and>
     lockcount (section_state s) = 2 \<and> depth (cs_cpus s 1) = 0"
proof -
  define ebx :: "nat \<Rightarrow> u32" where "ebx = (\<lambda>c. of_nat c * 0x1000000)"
  have inj: "inj_on (\<lambda>c. drop_bit 24 (ebx c)) {0, Suc 0}" by (simp add: ebx_def)
  note one = csEnter_free [OF cs_reachable.start, of 0 "{0, 1}" ebx, simplified]
  note two = csEnter_again [OF one, of 0 1, simplified]
  show ?thesis
    using csEnter_excludes [OF two inj, of 0] two unfolding ebx_def [symmetric] by auto
qed

text \<open>
  When two CPUs answer the same 8 bits, the second one takes the section of the first for its
  own: both can be inside at the same time.
\<close>

theorem csEnter_same_number:
  assumes "c \<in> C" and "d \<in> C" and "c \<noteq> d" and "drop_bit 24 (ebx c) = drop_bit 24 (ebx d)"
  shows "\<exists>s. cs_reachable C ebx s \<and> cs_cpus s c = \<lparr>cs_pc = Outside, depth = 1\<rparr> \<and>
    cs_cpus s d = \<lparr>cs_pc = Outside, depth = 1\<rparr>"
proof -
  have id: "cs_id (ebx c) = cs_id (ebx d)" using assms(4) by (simp add: cs_id_eq)
  note one = csEnter_free [OF cs_reachable.start assms(1), of ebx, simplified]
  have "cs_reachable C ebx \<lparr>section_state = \<lparr>locked = 1, cs_apicid = cs_id (ebx d), lockcount = 2\<rparr>,
      cs_cpus = (\<lambda>_. \<lparr>cs_pc = Outside, depth = 0\<rparr>)(c := \<lparr>cs_pc = Outside, depth = 1\<rparr>,
        d := \<lparr>cs_pc = Outside, depth = 1\<rparr>)\<rparr>"
    using csEnter_again [OF one assms(2), of 0] assms(3) id by simp
  then show ?thesis using assms(3) by fastforce
qed

theorem csEnter_same_number_witness:
  "\<exists>s. cs_reachable {0, 256} (\<lambda>c. of_nat c * 0x1000000) s \<and> 0 < depth (cs_cpus s 0) \<and> 0 < depth (cs_cpus s 256)"
proof -
  have "\<exists>s. cs_reachable {0, 256} (\<lambda>c. of_nat c * 0x1000000) s \<and> cs_cpus s 0 = \<lparr>cs_pc = Outside, depth = 1\<rparr> \<and>
      cs_cpus s 256 = \<lparr>cs_pc = Outside, depth = 1\<rparr>"
    by (rule csEnter_same_number) simp_all
  then show ?thesis by auto
qed

section \<open>Many readers or one writer\<close>

definition mrew_holds :: "mrew_pc \<Rightarrow> bool" where
  "mrew_holds p \<longleftrightarrow> (case p of Starting_read q \<Rightarrow> (case q of Read_spin _ \<Rightarrow> False | _ \<Rightarrow> True)
     | Starting_write q \<Rightarrow> (case q of Write_spin _ \<Rightarrow> False | _ \<Rightarrow> True) | _ \<Rightarrow> False)"

definition mrew_writes :: "mrew_pc \<Rightarrow> bool" where
  "mrew_writes p \<longleftrightarrow> p = Writing \<or> p = Starting_write Write_unlock"

definition mrew_inv :: "(nat \<Rightarrow> mrew_pc) \<times> mrew \<Rightarrow> bool" where
  "mrew_inv s \<longleftrightarrow> (case s of (f, m) \<Rightarrow>
     (\<forall>c d. mrew_holds (f c) \<longrightarrow> mrew_holds (f d) \<longrightarrow> c = d) \<and>
     (\<forall>c d. mrew_writes (f c) \<longrightarrow> mrew_writes (f d) \<longrightarrow> c = d) \<and>
     mrew_lock m = (if \<exists>c. mrew_holds (f c) then 1 else 0) \<and>
     writers m = (if \<exists>c. mrew_writes (f c) then 1 else 0) \<and>
     (\<forall>c. f c = Starting_write Write_count \<longrightarrow> writers m = 0) \<and>
     (\<forall>c v. f c = Starting_write (Write_count_write v) \<longrightarrow> writers m = 0 \<and> v = 1))"

text \<open>The effect of a step on the lock and the writers.\<close>

definition mrew_effect :: "mrew_pc \<Rightarrow> mrew \<Rightarrow> mrew_pc \<Rightarrow> mrew \<Rightarrow> bool" where
  "mrew_effect p m q m' \<longleftrightarrow>
     (if mrew_holds p then mrew_lock m' = (if mrew_holds q then 1 else 0)
      else if mrew_holds q then mrew_lock m = 0 \<and> mrew_lock m' = 1 else mrew_lock m' = mrew_lock m) \<and>
     (if mrew_writes p then writers m' = (if mrew_writes q then 1 else 0)
      else if mrew_writes q then mrew_holds p \<and> writers m = 0 \<and> writers m' = 1 else writers m' = writers m) \<and>
     (q = Starting_write Write_count \<longrightarrow> mrew_holds p \<and> writers m' = 0) \<and>
     (\<forall>v. q = Starting_write (Write_count_write v) \<longrightarrow> mrew_holds p \<and> writers m' = 0 \<and> v = 1)"

lemma mrew_local_effect:
  assumes "mrew_local e (p, m) = Some (q, m')" and "mrew_lock m = 0 \<or> mrew_lock m = 1"
    and "mrew_holds p \<Longrightarrow> mrew_lock m = 1" and "mrew_writes p \<Longrightarrow> writers m = 1"
    and "p = Starting_write Write_count \<Longrightarrow> writers m = 0"
    and "\<And>v. p = Starting_write (Write_count_write v) \<Longrightarrow> writers m = 0 \<and> v = 1"
  shows "mrew_effect p m q m'"
proof (cases "(e, p, m)" rule: mrew_local.cases [case_names call_r call_w end_r end_w cont_r cont_e cont_w])
  case (cont_r r m1)
  then show ?thesis using assms
    by (cases r) (auto simp: mrew_effect_def mrew_holds_def mrew_writes_def spinlock_01 split: spin_pc.splits if_splits)
next
  case (cont_w r m1)
  then show ?thesis using assms
    by (cases r) (auto simp: mrew_effect_def mrew_holds_def mrew_writes_def spinlock_01 split: spin_pc.splits if_splits)
next
  case (cont_e r m1)
  then show ?thesis using assms
    by (cases r) (auto simp: mrew_effect_def mrew_holds_def mrew_writes_def)
qed (use assms in \<open>auto simp: mrew_effect_def mrew_holds_def mrew_writes_def mrewEndWrite_def\<close>)

lemma mrew_step_inv:
  assumes "mrew_inv (f, m)" and "mrew_local e (f c, m) = Some (q, m')"
  shows "mrew_inv (f(c := q), m')"
proof -
  have inv: "mrew_holds (f d) \<Longrightarrow> mrew_holds (f d') \<Longrightarrow> d = d'" "mrew_writes (f d) \<Longrightarrow> mrew_writes (f d') \<Longrightarrow> d = d'"
    "mrew_lock m = (if \<exists>d. mrew_holds (f d) then 1 else 0)" "writers m = (if \<exists>d. mrew_writes (f d) then 1 else 0)"
    "f d = Starting_write Write_count \<Longrightarrow> writers m = 0"
    "f d = Starting_write (Write_count_write v) \<Longrightarrow> writers m = 0 \<and> v = 1" for d d' v
    using assms(1) unfolding mrew_inv_def prod.case by blast+
  have waiting: "mrew_holds (f d)" if "f d = Starting_write Write_count \<or> f d = Starting_write (Write_count_write v)" for d v
    using that by (auto simp: mrew_holds_def)
  have "mrew_lock m = 0 \<or> mrew_lock m = 1" "mrew_holds (f c) \<Longrightarrow> mrew_lock m = 1" "mrew_writes (f c) \<Longrightarrow> writers m = 1"
    using inv(3,4) by (auto split: if_splits)
  then have "mrew_effect (f c) m q m'" by (rule mrew_local_effect [OF assms(2) _ _ _ inv(5,6)])
  note eff = this [unfolded mrew_effect_def]
  have keep: "writers m' = 0" if "d \<noteq> c" "mrew_holds (f d)" "writers m = 0" for d
  proof -
    have "\<not> mrew_holds (f c)" using inv(1) that(1,2) by blast
    moreover have "\<not> mrew_writes (f c)" using inv(4) that(3) by (auto split: if_splits)
    ultimately show ?thesis using eff that(3) by (auto split: if_splits)
  qed
  have "d = d'" if "mrew_holds ((f(c := q)) d)" "mrew_holds ((f(c := q)) d')" for d d'
    using that eff inv(1,3) by (auto split: if_splits)
  moreover have "d = d'" if "mrew_writes ((f(c := q)) d)" "mrew_writes ((f(c := q)) d')" for d d'
    using that eff inv(2,4) by (auto split: if_splits)
  moreover have "mrew_lock m' = (if \<exists>d. mrew_holds ((f(c := q)) d) then 1 else 0)"
    using eff inv(1,3) by (auto split: if_splits) metis+
  moreover have "writers m' = (if \<exists>d. mrew_writes ((f(c := q)) d) then 1 else 0)"
    using eff inv(2,4) by (auto split: if_splits) metis+
  moreover have "writers m' = 0" if "(f(c := q)) d = Starting_write Write_count" for d
    using that eff inv(5) [of d] waiting [of d] keep [of d] by (cases "d = c") auto
  moreover have "writers m' = 0 \<and> v = 1" if "(f(c := q)) d = Starting_write (Write_count_write v)" for d v
    using that eff inv(6) [of d v] waiting [of d v] keep [of d] by (cases "d = c") auto
  ultimately show ?thesis unfolding mrew_inv_def prod.case by (intro conjI allI impI) blast+
qed

lemma mrew_run_inv: "mrew_inv s \<Longrightarrow> mrew_run es s = Some t \<Longrightarrow> mrew_inv t"
proof (induction es s rule: mrew_run.induct)
  case (2 c e es f m)
  then show ?case using mrew_step_inv [of f m e c] by (auto split: option.splits)
qed simp

text \<open>
  C32: Two CPUs never write at the same time under the lock for many readers or one writer.
  The reader count, however, is not protected: \<open>mrewEndRead\<close> decrements it without the lock, so
  that the increment of \<open>mrewStartRead\<close> in between is lost, and a writer enters next to a reader.
\<close>

theorem mrew_writer_beside_reader:
  shows "(mrew_run es mrew_start = Some (f, m) \<longrightarrow> f c = Writing \<longrightarrow> f d = Writing \<longrightarrow> c = d) \<and>
    (\<exists>es f m. mrew_run es mrew_start = Some (f, m) \<and> f 0 = Writing \<and> f 1 = Reading)"
proof -
  have "mrew_inv mrew_start" by (simp add: mrew_inv_def mrew_start_def mrew_holds_def mrew_writes_def)
  then have "c = d" if "mrew_run es mrew_start = Some (f, m)" "f c = Writing" "f d = Writing"
    using mrew_run_inv [of mrew_start es "(f, m)"] that by (auto simp: mrew_inv_def mrew_writes_def)
  moreover
  let ?go = "\<lambda>c n. replicate n (c, Continue)"
  let ?es = "(0, Call_read) # ?go 0 5 @ [(0, Call_end), (1, Call_read)] @ ?go 1 2 @ ?go 0 1 @ ?go 1 3 @
    ?go 0 1 @ (0, Call_write) # ?go 0 6"
  have "\<exists>f m. mrew_run ?es mrew_start = Some (f, m) \<and> f 0 = Writing \<and> f 1 = Reading"
    by (simp add: mrew_start_def numeral_eq_Suc spinlock_01 set_bit_eq_or)
  ultimately show ?thesis by blast
qed

theorem mrew_writer_beside_reader_witness:
  "\<exists>f m. mrew_run ((0, Call_write) # replicate 6 (0, Continue)) mrew_start = Some (f, m) \<and> f 0 = Writing \<and>
     (\<forall>d. f d = Writing \<longrightarrow> d = 0)"
proof -
  have "\<exists>f m. mrew_run ((0, Call_write) # replicate 6 (0, Continue)) mrew_start = Some (f, m) \<and> f 0 = Writing"
    by (simp add: mrew_start_def numeral_eq_Suc spinlock_01 set_bit_eq_or)
  then show ?thesis using mrew_writer_beside_reader by blast
qed

end
