(* ===== verification/PageEvents.thy ===== *)
theory PageEvents
  imports GuestPaging
begin

text \<open>
  What DBVM records of a processor (\<open>eptstructs.h\<close>, and \<open>fillPageEventBasic\<close>, \<open>saveStack\<close> and
  \<open>recordState\<close> of \<open>epthandler.c\<close>): the event of a watched page, which is also the state of a
  thread that is kept in a loop. An exit state is the state of \<open>Vmcs\<close> with the registers and
  members of \<open>tcpuinfo\<close> that only these functions use.
\<close>

text \<open>Why a processor runs in single steps; the number is an index of the list in question.\<close>

datatype step_reason =
    SSR_HANDLEWATCH nat
  | SSR_HANDLECLOAK nat
  | SSR_HANDLESOFTWAREBREAKPOINT nat
  | SSR_STEPANDBREAK nat


type_synonym fxsave64 = "u8 list"

record exit_state =
  vm :: vm_state
  r8 :: u64
  r9 :: u64
  r10 :: u64
  r11 :: u64
  r12 :: u64
  r13 :: u64
  r14 :: u64
  r15 :: u64
  dr0 :: u64
  dr1 :: u64
  dr2 :: u64
  dr3 :: u64
  dr6 :: u64
  cr8 :: u32
  gs_base_kernel :: u64
  fxsave :: fxsave64
  step_Method :: nat
  step_Reasons :: "step_reason list"

abbreviation "vm_guest_physical_address \<equiv> 0x2400 :: nat"
abbreviation "vm_exit_qualification \<equiv> 0x6400 :: nat"
abbreviation "vm_guest_linear_address \<equiv> 0x640a :: nat"
abbreviation "vm_guest_dr7 \<equiv> 0x681a :: nat"
abbreviation "vm_pending_debug_exceptions \<equiv> 0x6822 :: nat"

definition vm_set :: "nat \<Rightarrow> u64 \<Rightarrow> exit_state \<Rightarrow> exit_state" where
  "vm_set f v x = x\<lparr>vm := vmwrite f v (vm x)\<rparr>"

record page_event_basic =
  VirtualAddress :: u64
  PhysicalAddress :: u64
  pe_CR3 :: u64
  pe_FSBASE :: u64
  pe_GSBASE :: u64
  pe_GSBASE_KERNEL :: u64
  pe_FLAGS :: u64
  pe_RAX :: u64
  pe_RBX :: u64
  pe_RCX :: u64
  pe_RDX :: u64
  pe_RSI :: u64
  pe_RDI :: u64
  pe_R8 :: u64
  pe_R9 :: u64
  pe_R10 :: u64
  pe_R11 :: u64
  pe_R12 :: u64
  pe_R13 :: u64
  pe_R14 :: u64
  pe_R15 :: u64
  pe_RBP :: u64
  pe_RSP :: u64
  pe_RIP :: u64
  pe_DR0 :: u64
  pe_DR1 :: u64
  pe_DR2 :: u64
  pe_DR3 :: u64
  pe_DR6 :: u64
  pe_DR7 :: u64
  pe_CS :: u16
  pe_DS :: u16
  pe_ES :: u16
  pe_SS :: u16
  pe_FS :: u16
  pe_GS :: u16
  pe_Count :: u32

definition fillPageEventBasic :: "exit_state \<Rightarrow> page_event_basic" where
  "fillPageEventBasic x = (let s = vm x in
     \<lparr>VirtualAddress = vmread vm_guest_linear_address s,
      PhysicalAddress = vmread vm_guest_physical_address s,
      pe_CR3 = vmread vm_guest_cr3 s,
      pe_FSBASE = vmread vm_guest_fs_base s,
      pe_GSBASE = vmread vm_guest_gs_base s,
      pe_GSBASE_KERNEL = gs_base_kernel x,
      pe_FLAGS = vmread vm_guest_rflags s,
      pe_RAX = rax s, pe_RBX = rbx s, pe_RCX = rcx s, pe_RDX = rdx s, pe_RSI = rsi s, pe_RDI = rdi s,
      pe_R8 = r8 x, pe_R9 = r9 x, pe_R10 = r10 x, pe_R11 = r11 x,
      pe_R12 = r12 x, pe_R13 = r13 x, pe_R14 = r14 x, pe_R15 = r15 x,
      pe_RBP = rbp s, pe_RSP = vmread vm_guest_rsp s, pe_RIP = vmread vm_guest_rip s,
      pe_DR0 = dr0 x, pe_DR1 = dr1 x, pe_DR2 = dr2 x, pe_DR3 = dr3 x,
      pe_DR6 = dr6 x, pe_DR7 = vmread vm_guest_dr7 s,
      pe_CS = ucast (vmread vm_guest_cs s), pe_DS = ucast (vmread vm_guest_ds s),
      pe_ES = ucast (vmread vm_guest_es s), pe_SS = ucast (vmread vm_guest_ss s),
      pe_FS = ucast (vmread vm_guest_fs s), pe_GS = ucast (vmread vm_guest_gs s),
      pe_Count = 0\<rparr>)"

text \<open>
  The 4096 bytes at the stack pointer: when the second page of them is missing, those before it,
  and zeros. When the first page is missing the size is negative unless the stack pointer is at its
  start, and \<open>copymem\<close> takes it for a \<open>size_t\<close>: it leaves the buffer and the mapping (\<open>None\<close>).
\<close>

definition saveStack :: "vm_env \<Rightarrow> vm_state \<Rightarrow> u8 list option" where
  "saveStack env s =
     (let rsp = vmread vm_guest_rsp s
      in case mapVMmemory env s rsp 4096 of
           Inr gueststack \<Rightarrow> Some (map (\<lambda>i. pmem s (gueststack i)) [0..<4096])
         | Inl (error, pagefaultaddress) \<Rightarrow>
             if error = 2 then
               let size = sint (ucast (pagefaultaddress - rsp) :: u32)
               in if size < 0 then None
                  else (case getPhysicalAddressVM env s rsp of
                          Some p \<Rightarrow> Some (map (\<lambda>i. pmem s (p + of_nat i)) [0..<nat size] @ replicate (4096 - nat size) 0)
                        | None \<Rightarrow> Some (replicate 4096 0))
             else Some (replicate 4096 0))"

text \<open>The union of the four kinds of entries; the kind is bits 2 and 3 of the options of a watch.\<close>

datatype page_event =
    PE_BASIC (event_basic: page_event_basic)
  | PE_EXTENDED (event_basic: page_event_basic) (event_fpudata: fxsave64)
  | PE_BASICSTACK (event_basic: page_event_basic) (event_stack: "u8 list")
  | PE_EXTENDEDSTACK (event_basic: page_event_basic) (event_fpudata: fxsave64) (event_stack: "u8 list")

definition sizeof_event :: "nat \<Rightarrow> nat" where
  "sizeof_event datatype =
     (if datatype = 0 then 256 else if datatype = 1 then 768 else if datatype = 2 then 4352 else 4864)"

definition recordState :: "vm_env \<Rightarrow> nat \<Rightarrow> exit_state \<Rightarrow> page_event option" where
  "recordState env datatype x =
     (if datatype = 0 then Some (PE_BASIC (fillPageEventBasic x))
      else if datatype = 1 then Some (PE_EXTENDED (fillPageEventBasic x) (fxsave x))
      else if datatype = 2 then map_option (PE_BASICSTACK (fillPageEventBasic x)) (saveStack env (vm x))
      else map_option (PE_EXTENDEDSTACK (fillPageEventBasic x) (fxsave x)) (saveStack env (vm x)))"

text \<open>One more occurrence of an event.\<close>

definition count_event :: "page_event_basic \<Rightarrow> page_event_basic" where
  "count_event peb = peb\<lparr>pe_Count := pe_Count peb + 1\<rparr>"

lemma vm_set_simps [simp]:
  "vm (vm_set f v x) = vmwrite f v (vm x)" "r8 (vm_set f v x) = r8 x" "r9 (vm_set f v x) = r9 x"
  "r10 (vm_set f v x) = r10 x" "r11 (vm_set f v x) = r11 x" "r12 (vm_set f v x) = r12 x"
  "r13 (vm_set f v x) = r13 x" "r14 (vm_set f v x) = r14 x" "r15 (vm_set f v x) = r15 x"
  "cr8 (vm_set f v x) = cr8 x" "fxsave (vm_set f v x) = fxsave x"
  "step_Method (vm_set f v x) = step_Method x" "step_Reasons (vm_set f v x) = step_Reasons x"
  by (simp_all add: vm_set_def)

lemma count_event_simps [simp]:
  "pe_CR3 (count_event e) = pe_CR3 e" "pe_RIP (count_event e) = pe_RIP e" "pe_RAX (count_event e) = pe_RAX e"
  "pe_RSP (count_event e) = pe_RSP e" "pe_Count (count_event e) = pe_Count e + 1"
  by (simp_all add: count_event_def)

end
