(* ===== verification/SingleStep.thy ===== *)
theory SingleStep
  imports PageEvents
begin

text \<open>
  Running one instruction of the guest (\<open>vmxsetup.c\<close>, Intel): with the monitor trap flag, or where
  the processor lacks it with an exit at the next interrupt window, and \<open>handleSingleStep\<close> of
  \<open>vmeventhandler.c\<close>, which calls the handlers of the reasons from the last to the first.
\<close>

record step_env =
  IA32_VMX_PROCBASED_CTLS :: u64
  IA32_VMX_TRUE_PROCBASED_CTLS :: u64
  default1canbe0 :: bool

abbreviation "PBEF_INTERRUPT_WINDOW_EXITING \<equiv> 4 :: u64"
abbreviation "PBEF_MONITOR_TRAP_FLAG \<equiv> 0x8000000 :: u64"

definition vmx_enableProcBasedFeature :: "step_env \<Rightarrow> u64 \<Rightarrow> exit_state \<Rightarrow> bool \<times> exit_state" where
  "vmx_enableProcBasedFeature se pbf x =
     (if drop_bit 32 (IA32_VMX_PROCBASED_CTLS se) AND pbf = pbf
      then (True, vm_set vm_execution_controls_cpu (vmread vm_execution_controls_cpu (vm x) OR pbf) x)
      else (False, x))"

definition vmx_disableProcBasedFeature :: "step_env \<Rightarrow> u64 \<Rightarrow> exit_state \<Rightarrow> bool \<times> exit_state" where
  "vmx_disableProcBasedFeature se pbf x =
     (let ctls = (if default1canbe0 se then IA32_VMX_TRUE_PROCBASED_CTLS se else IA32_VMX_PROCBASED_CTLS se)
      in if ctls AND pbf \<noteq> 0 then (False, x)
         else (True, vm_set vm_execution_controls_cpu
           (vmread vm_execution_controls_cpu (vm x) AND take_bit 32 (NOT pbf)) x))"

definition vmx_addSingleSteppingReason :: "step_reason \<Rightarrow> exit_state \<Rightarrow> exit_state" where
  "vmx_addSingleSteppingReason r x = x\<lparr>step_Reasons := step_Reasons x @ [r]\<rparr>"

definition vmx_enableSingleStepMode :: "step_env \<Rightarrow> exit_state \<Rightarrow> bool \<times> exit_state" where
  "vmx_enableSingleStepMode se x =
     (let (ok, x1) = vmx_enableProcBasedFeature se PBEF_MONITOR_TRAP_FLAG x
      in if ok then (True, x1\<lparr>step_Method := 1\<rparr>)
         else
           let (ok, x1) = vmx_enableProcBasedFeature se PBEF_INTERRUPT_WINDOW_EXITING (x\<lparr>step_Method := 2\<rparr>)
           in if \<not> ok then (False, x1)
              else (True, if drop_bit 31 (vmread vm_entry_interruptioninfo (vm x1)) = 0
                then vm_set vm_guest_interruptability_state 2 x1 else x1))"

definition vmx_disableSingleStepMode :: "step_env \<Rightarrow> exit_state \<Rightarrow> bool \<times> exit_state" where
  "vmx_disableSingleStepMode se x =
     (let (r, x) = (if step_Method x = 1 then vmx_disableProcBasedFeature se PBEF_MONITOR_TRAP_FLAG x else (False, x))
      in if step_Method x = 2 then vmx_disableProcBasedFeature se PBEF_INTERRUPT_WINDOW_EXITING x else (r, x))"

text \<open>
  The mode this sets: the monitor trap flag where the processor lets it be set, else the exit at an interrupt window
  where it lets that be set. The mode is in these two fields, so what does not write them keeps it.
\<close>

definition stepping :: "step_env \<Rightarrow> exit_state \<Rightarrow> bool" where
  "stepping se x \<longleftrightarrow>
     (let allowed = drop_bit 32 (IA32_VMX_PROCBASED_CTLS se); ctls = vmread vm_execution_controls_cpu (vm x)
      in if bit allowed 27 then step_Method x = 1 \<and> bit ctls 27 else step_Method x = 2 \<and> (bit allowed 2 \<longrightarrow> bit ctls 2))"

lemma and_one_bit:
  fixes w :: u64
  shows "w AND PBEF_MONITOR_TRAP_FLAG = PBEF_MONITOR_TRAP_FLAG \<longleftrightarrow> bit w 27"
    and "w AND PBEF_INTERRUPT_WINDOW_EXITING = PBEF_INTERRUPT_WINDOW_EXITING \<longleftrightarrow> bit w 2"
proof -
  have one: "w AND push_bit n 1 = push_bit n 1 \<longleftrightarrow> bit w n" if "n < 64" for n
    using that by (subst bit_eq_iff) (auto simp: bit_simps)
  show "w AND PBEF_MONITOR_TRAP_FLAG = PBEF_MONITOR_TRAP_FLAG \<longleftrightarrow> bit w 27"
    "w AND PBEF_INTERRUPT_WINDOW_EXITING = PBEF_INTERRUPT_WINDOW_EXITING \<longleftrightarrow> bit w 2"
    using one [of 27] one [of 2] by simp_all
qed

lemma stepping_enabled: "stepping se (snd (vmx_enableSingleStepMode se x))"
  by (simp add: stepping_def vmx_enableSingleStepMode_def vmx_enableProcBasedFeature_def and_one_bit Let_def bit_iff_odd_drop_bit [of 0x8000000]
      bit_simps)

lemma stepping_kept [simp]:
  "stepping se (vmx_addSingleSteppingReason r x) \<longleftrightarrow> stepping se x"
  "stepping se (vm_set vm_guest_interruptability_state v x) \<longleftrightarrow> stepping se x"
  by (simp_all add: stepping_def vmx_addSingleSteppingReason_def)

text \<open>
  The handler of a reason works on the state of the processor and on shared lists; \<open>None\<close> is a
  handler that does not return. The handlers add no reasons, as the loop takes the last one off.
\<close>

fun handle_reasons :: "(step_reason \<Rightarrow> exit_state \<times> 'l \<Rightarrow> (exit_state \<times> 'l) option) \<Rightarrow> nat \<Rightarrow> exit_state \<times> 'l \<Rightarrow> (exit_state \<times> 'l) option" where
  "handle_reasons handler 0 s = Some s"
| "handle_reasons handler (Suc i) s =
     (case handler (step_Reasons (fst s) ! i) s of
        None \<Rightarrow> None
      | Some (x, l) \<Rightarrow> handle_reasons handler i (x\<lparr>step_Reasons := take i (step_Reasons x)\<rparr>, l))"

definition handleSingleStep :: "step_env \<Rightarrow> (step_reason \<Rightarrow> exit_state \<times> 'l \<Rightarrow> (exit_state \<times> 'l) option) \<Rightarrow> exit_state \<times> 'l \<Rightarrow> (exit_state \<times> 'l) option" where
  "handleSingleStep se handler s =
     map_option (\<lambda>(x, l). (snd (vmx_disableSingleStepMode se x), l))
       (handle_reasons handler (length (step_Reasons (fst s))) s)"

end
