(* ===== verification/BrokenThreads.thy ===== *)
theory BrokenThreads
  imports SingleStep
begin

text \<open>
  Threads of the guest that a watch has stopped (\<open>epthandler.c\<close>, Intel). Their state is kept in
  \<open>BrokenThreadList\<close> while they run in a loop of \<open>int3\<close> that the client has chosen, with the index
  of the list in \<open>rax\<close>; each \<open>int3\<close> enters \<open>ept_handleSoftwareBreakpoint\<close>, which resumes the thread
  once the client has asked for it. Every function holds \<open>BrokenThreadListCS\<close> and is one step.
\<close>

type_synonym page_event_extended = "page_event_basic \<times> fxsave64"

text \<open>\<open>inuse\<close> is 1 for a thread in its loop and 2 for one that was lost; \<open>continueMethod\<close> 1 is a step, 2 is run.\<close>

record broken_thread =
  inuse :: int
  continueMethod :: int
  watchid :: int
  UserModeLoop :: u64
  KernelModeLoop :: u64
  thread_state :: page_event_extended

text \<open>
  The entries are those the memory has room for, which is not what \<open>BrokenThreadListSize\<close> says.
  An answer of the memory manager is \<open>None\<close> when there is no memory, and else what is in it.
\<close>

record thread_list =
  BrokenThreadList :: "broken_thread list option"
  BrokenThreadListSize :: nat
  BrokenThreadListPos :: nat

type_synonym heap_answer = "(nat \<Rightarrow> broken_thread) option"

datatype thread_error = NullPointer | BeyondBuffer | EndlessLoop

definition sizeof_thread :: nat where
  "sizeof_thread = 800"

section \<open>Adding a thread\<close>

definition allocate_threads :: "heap_answer \<Rightarrow> thread_list \<Rightarrow> thread_list" where
  "allocate_threads mem ts =
     (if BrokenThreadList ts = None
      then ts\<lparr>BrokenThreadList := map_option (\<lambda>junk. map junk [0..<8]) mem,
        BrokenThreadListSize := 8, BrokenThreadListPos := 0\<rparr>
      else ts)"

text \<open>\<open>realloc\<close> to \<open>BrokenThreadListSize + sizeof (BrokenThreadEntry) * 32\<close> bytes.\<close>

definition grow_threads :: "heap_answer \<Rightarrow> thread_list \<Rightarrow> thread_list" where
  "grow_threads mem ts =
     (if BrokenThreadListPos ts \<ge> BrokenThreadListSize ts
      then let n = (BrokenThreadListSize ts + sizeof_thread * 32) div sizeof_thread;
             old = (case BrokenThreadList ts of Some xs \<Rightarrow> take n xs | None \<Rightarrow> [])
           in ts\<lparr>BrokenThreadList := map_option (\<lambda>junk. old @ map junk [length old..<n]) mem,
                BrokenThreadListSize := BrokenThreadListSize ts + 32\<rparr>
      else ts)"

text \<open>The first unused entry from \<open>i\<close> on among the next \<open>n\<close>.\<close>

fun scan_unused :: "broken_thread list \<Rightarrow> nat \<Rightarrow> nat \<Rightarrow> thread_error + nat option" where
  "scan_unused xs i 0 = Inr None"
| "scan_unused xs i (Suc n) =
     (if i \<ge> length xs then Inl BeyondBuffer
      else if inuse (xs ! i) = 0 then Inr (Some i) else scan_unused xs (Suc i) n)"

definition add_thread :: "heap_answer \<Rightarrow> broken_thread \<Rightarrow> thread_list \<Rightarrow> thread_error + nat \<times> thread_list" where
  "add_thread mem e ts =
     (let ts = grow_threads mem (allocate_threads mem ts)
      in case BrokenThreadList ts of
           None \<Rightarrow> Inl NullPointer
         | Some xs \<Rightarrow> (case scan_unused xs 0 (BrokenThreadListPos ts) of
             Inl err \<Rightarrow> Inl err
           | Inr (Some i) \<Rightarrow> Inr (i, ts\<lparr>BrokenThreadList := Some (xs[i := e])\<rparr>)
           | Inr None \<Rightarrow>
               let i = BrokenThreadListPos ts
               in if i \<ge> length xs then Inl BeyondBuffer
                  else Inr (i, ts\<lparr>BrokenThreadList := Some (xs[i := e]), BrokenThreadListPos := i + 1\<rparr>)))"

text \<open>
  The part of \<open>ept_handleWatchEvent\<close> that stops the thread of an exit for the watch \<open>ID\<close>, whose
  loops are \<open>u\<close> and \<open>k\<close>.
\<close>

definition break_thread :: "heap_answer \<Rightarrow> nat \<Rightarrow> u64 \<Rightarrow> u64 \<Rightarrow> u64 \<Rightarrow> exit_state \<times> thread_list \<Rightarrow> thread_error + exit_state \<times> thread_list" where
  "break_thread mem ID u k newRIP = (\<lambda>(x, ts).
     (let e = \<lparr>inuse = 1, continueMethod = 0, watchid = int ID, UserModeLoop = u, KernelModeLoop = k,
        thread_state = (fillPageEventBasic x, fxsave x)\<rparr>;
          x = vm_set vm_guest_rip newRIP x
      in case add_thread mem e ts of
           Inl err \<Rightarrow> Inl err
         | Inr (i, ts) \<Rightarrow> Inr (x\<lparr>vm := (vm x)\<lparr>rax := of_nat i\<rparr>\<rparr>, ts)))"

section \<open>The requests of the client\<close>

text \<open>
  All of them test the index against \<open>BrokenThreadListPos\<close> first: 1 is out of range, 2 not in
  use. \<open>thread_at\<close> is the memory behind an index in that range.
\<close>

definition thread_at :: "thread_list \<Rightarrow> nat \<Rightarrow> broken_thread" where
  "thread_at ts i = the (BrokenThreadList ts) ! i"

definition put_thread :: "nat \<Rightarrow> broken_thread \<Rightarrow> thread_list \<Rightarrow> thread_list" where
  "put_thread i e ts = ts\<lparr>BrokenThreadList := map_option (\<lambda>xs. xs[i := e]) (BrokenThreadList ts)\<rparr>"

definition ept_getBrokenThreadListCount :: "thread_list \<Rightarrow> nat" where
  "ept_getBrokenThreadListCount ts = BrokenThreadListPos ts"

definition entry_error :: "int \<Rightarrow> thread_list \<Rightarrow> nat" where
  "entry_error n ts =
     (if 0 \<le> n \<and> n < int (BrokenThreadListPos ts)
      then if inuse (thread_at ts (nat n)) \<noteq> 0 then 0 else 2 else 1)"

definition thread_status :: "broken_thread \<Rightarrow> int" where
  "thread_status e = inuse e OR push_bit 8 (continueMethod e)"

record thread_summary =
  WatchID :: int
  Status :: int
  sum_CR3 :: u64
  sum_FSBASE :: u64
  sum_GSBASE :: u64
  sum_GSBASE_KERNEL :: u64
  sum_CS :: u16
  sum_RIP :: u64
  heartbeat :: u32

definition ept_getBrokenThreadEntryShort :: "int \<Rightarrow> thread_list \<Rightarrow> nat + thread_summary" where
  "ept_getBrokenThreadEntryShort n ts =
     (if entry_error n ts \<noteq> 0 then Inl (entry_error n ts)
      else let e = thread_at ts (nat n); b = fst (thread_state e) in
        Inr \<lparr>WatchID = watchid e, Status = thread_status e, sum_CR3 = pe_CR3 b, sum_FSBASE = pe_FSBASE b,
          sum_GSBASE = pe_GSBASE b, sum_GSBASE_KERNEL = pe_GSBASE_KERNEL b, sum_CS = pe_CS b,
          sum_RIP = pe_RIP b, heartbeat = pe_Count b\<rparr>)"

definition ept_getBrokenThreadEntryFull :: "int \<Rightarrow> thread_list \<Rightarrow> nat + int \<times> int \<times> page_event_extended" where
  "ept_getBrokenThreadEntryFull n ts =
     (if entry_error n ts \<noteq> 0 then Inl (entry_error n ts)
      else let e = thread_at ts (nat n) in Inr (watchid e, thread_status e, thread_state e))"

definition ept_setBrokenThreadEntryFull :: "int \<Rightarrow> page_event_extended \<Rightarrow> thread_list \<Rightarrow> nat \<times> thread_list" where
  "ept_setBrokenThreadEntryFull n entry ts =
     (if entry_error n ts \<noteq> 0 then (entry_error n ts, ts)
      else (0, put_thread (nat n) ((thread_at ts (nat n))\<lparr>thread_state := entry\<rparr>) ts))"

definition ept_resumeBrokenThread :: "int \<Rightarrow> int \<Rightarrow> thread_list \<Rightarrow> nat \<times> thread_list" where
  "ept_resumeBrokenThread n method ts =
     (if entry_error n ts \<noteq> 0 then (entry_error n ts, ts)
      else let e = thread_at ts (nat n) in
        if inuse e = 2 then (4, put_thread (nat n) (e\<lparr>inuse := 0\<rparr>) ts)
        else if continueMethod e = 0
          then (0, put_thread (nat n) (e\<lparr>continueMethod := method, watchid := -1\<rparr>) ts)
          else (3, ts))"

section \<open>The loop of a stopped thread\<close>

text \<open>The registers \<open>ept_handleFrozenThread\<close> loads; the flags stay those of the loop.\<close>

definition load_registers :: "page_event_extended \<Rightarrow> exit_state \<Rightarrow> exit_state" where
  "load_registers st x =
     (let b = fst st;
          x = vm_set vm_guest_interruptability_state 1 (vm_set vm_guest_rsp (pe_RSP b) (vm_set vm_guest_rip (pe_RIP b) x))
      in x\<lparr>vm := (vm x)\<lparr>rax := pe_RAX b, rbx := pe_RBX b, rcx := pe_RCX b, rdx := pe_RDX b,
             rsi := pe_RSI b, rdi := pe_RDI b, rbp := pe_RBP b\<rparr>,
           r8 := pe_R8 b, r9 := pe_R9 b, r10 := pe_R10 b, r11 := pe_R11 b,
           r12 := pe_R12 b, r13 := pe_R13 b, r14 := pe_R14 b, r15 := pe_R15 b, fxsave := snd st\<rparr>)"

definition ept_handleFrozenThread :: "step_env \<Rightarrow> nat \<Rightarrow> exit_state \<times> thread_list \<Rightarrow> exit_state \<times> thread_list" where
  "ept_handleFrozenThread se n = (\<lambda>(x, ts).
     (let e = thread_at ts n; e = e\<lparr>thread_state := apfst count_event (thread_state e)\<rparr>
      in if continueMethod e = 0 then (x, put_thread n e ts)
         else
           let x = load_registers (thread_state e) x
           in if continueMethod e = 1
              then (vmx_addSingleSteppingReason (SSR_STEPANDBREAK n) (snd (vmx_enableSingleStepMode se x)),
                put_thread n (e\<lparr>watchid := -1\<rparr>) ts)
              else (vm_set vm_guest_interruptability_state 1 x,
                put_thread n (e\<lparr>inuse := 0, continueMethod := 0\<rparr>) ts)))"

text \<open>The entry of the thread of an exit: in use, the same \<open>cr3\<close>, a loop at \<open>rip\<close>, and its index in \<open>rax\<close>.\<close>

definition is_thread_of :: "exit_state \<Rightarrow> thread_list \<Rightarrow> nat \<Rightarrow> bool" where
  "is_thread_of x ts i \<longleftrightarrow>
     (let e = thread_at ts i; rip = vmread vm_guest_rip (vm x)
      in inuse e \<noteq> 0 \<and> vmread vm_guest_cr3 (vm x) = pe_CR3 (fst (thread_state e)) \<and>
         (rip = KernelModeLoop e \<or> rip = UserModeLoop e) \<and> rax (vm x) = of_nat i)"

text \<open>
  The part of \<open>ept_handleSoftwareBreakpoint\<close> for stopped threads: whether the exit was one. An
  instruction that is not mapped, which cannot be, is the caller's.
\<close>

definition handle_thread_breakpoint :: "step_env \<Rightarrow> exit_state \<times> thread_list \<Rightarrow> bool \<times> exit_state \<times> thread_list" where
  "handle_thread_breakpoint se = (\<lambda>(x, ts).
     (if BrokenThreadList ts = None then (False, x, ts)
      else case List.find (is_thread_of x ts) [0..<BrokenThreadListPos ts] of
             None \<Rightarrow> (False, x, ts)
           | Some i \<Rightarrow> (True, ept_handleFrozenThread se i (x, ts))))"

text \<open>After the single step of a thread: back into the loop if it can be stopped here, else it is lost.\<close>

definition kernelmode :: "exit_state \<Rightarrow> bool" where
  "kernelmode x \<longleftrightarrow> drop_bit 5 (vmread vm_guest_cs_access_rights (vm x)) AND 3 = 0"

definition ept_handleStepAndBreak :: "nat \<Rightarrow> exit_state \<times> thread_list \<Rightarrow> thread_error + exit_state \<times> thread_list" where
  "ept_handleStepAndBreak n = (\<lambda>(x, ts).
     (let e = thread_at ts n; lost = put_thread n (e\<lparr>inuse := 2, continueMethod := 0\<rparr>) ts
      in if cr8 x = 0 \<and> bit (vmread vm_guest_rflags (vm x)) 9
         then if n \<ge> BrokenThreadListPos ts then Inl EndlessLoop
           else
             let newRIP = (if continueMethod e = 1 then if kernelmode x then KernelModeLoop e else UserModeLoop e else 0)
             in if newRIP \<noteq> 0
                then let e = e\<lparr>thread_state := (fillPageEventBasic x, fxsave x), continueMethod := 0\<rparr>;
                         x = vm_set vm_guest_rip newRIP x
                     in Inr (x\<lparr>vm := (vm x)\<lparr>rax := of_nat n\<rparr>\<rparr>, put_thread n e ts)
                else Inr (x, lost)
         else Inr (x, lost)))"

end
