(* ===== verification/ThreadsCorrect.thy ===== *)
theory ThreadsCorrect
  imports BrokenThreads
begin

text \<open>
  The list of stopped threads of \<open>BrokenThreads\<close> as a partial map from indexes to threads: adding
  a thread, the requests and the loop of \<open>int3\<close> are its updates. A stopped thread (\<open>parked\<close>)
  keeps its state whatever happens to the others, and gets it back when it is resumed.
\<close>

section \<open>The list as a map\<close>

definition threads_of :: "thread_list \<Rightarrow> nat \<Rightarrow> broken_thread option" where
  "threads_of ts i =
     (if i < BrokenThreadListPos ts \<and> inuse (thread_at ts i) \<noteq> 0 then Some (thread_at ts i) else None)"

text \<open>The sizes the list has: 8 entries, and memory for 32 when it believes in 40.\<close>

definition threads_ok :: "thread_list \<Rightarrow> bool" where
  "threads_ok ts \<longleftrightarrow> (case BrokenThreadList ts of
     None \<Rightarrow> BrokenThreadListPos ts = 0 \<and> BrokenThreadListSize ts = 0
   | Some xs \<Rightarrow> BrokenThreadListPos ts \<le> length xs \<and>
       (BrokenThreadListSize ts = 8 \<and> length xs = 8 \<or> BrokenThreadListSize ts = 40 \<and> length xs = 32))"

abbreviation no_threads :: thread_list where
  "no_threads \<equiv> \<lparr>BrokenThreadList = None, BrokenThreadListSize = 0, BrokenThreadListPos = 0\<rparr>"

lemma threads_ok_empty: "threads_ok no_threads"
  by (simp add: threads_ok_def)

lemma threads_ok_bound: "threads_ok ts \<Longrightarrow> BrokenThreadListPos ts \<le> 32"
  by (auto simp: threads_ok_def split: option.splits)

lemma threads_of_bound: "threads_ok ts \<Longrightarrow> threads_of ts n = Some e \<Longrightarrow> n < 32"
  using threads_ok_bound [of ts] by (simp add: threads_of_def split: if_splits)

lemma put_thread_fields [simp]:
  "BrokenThreadListPos (put_thread n e ts) = BrokenThreadListPos ts"
  "BrokenThreadListSize (put_thread n e ts) = BrokenThreadListSize ts"
  "BrokenThreadList (put_thread n e ts) = None \<longleftrightarrow> BrokenThreadList ts = None"
  by (simp_all add: put_thread_def)

lemma threads_ok_put: "threads_ok ts \<Longrightarrow> threads_ok (put_thread n e ts)"
  by (auto simp: threads_ok_def put_thread_def split: option.splits)

lemma threads_of_put:
  assumes "threads_ok ts" and "n < BrokenThreadListPos ts"
  shows "threads_of (put_thread n e ts) = (threads_of ts)(n := if inuse e = 0 then None else Some e)"
proof -
  obtain xs where "BrokenThreadList ts = Some xs" "n < length xs"
    using assms by (auto simp: threads_ok_def split: option.splits)
  then show ?thesis
    using assms(2) by (auto simp: threads_of_def thread_at_def put_thread_def)
qed

lemma threads_of_Some:
  "threads_of ts n = Some e \<Longrightarrow> n < BrokenThreadListPos ts \<and> thread_at ts n = e \<and> inuse e \<noteq> 0"
  by (simp add: threads_of_def split: if_splits)

lemma entry_error_threads:
  "entry_error (int n) ts = 0 \<longleftrightarrow> threads_of ts n \<noteq> None"
  by (simp add: entry_error_def threads_of_def)

section \<open>Adding a thread\<close>

lemma scan_unused_spec:
  "i + n \<le> length xs \<Longrightarrow>
     (case scan_unused xs i n of
        Inl err \<Rightarrow> False
      | Inr None \<Rightarrow> \<forall>j \<in> {i ..< i + n}. inuse (xs ! j) \<noteq> 0
      | Inr (Some k) \<Rightarrow> i \<le> k \<and> k < i + n \<and> inuse (xs ! k) = 0 \<and> (\<forall>j \<in> {i ..< k}. inuse (xs ! j) \<noteq> 0))"
proof (induction n arbitrary: i)
  case (Suc n)
  have seg: "{i ..< k} = insert i {Suc i ..< k}" if "i < k" for k using that by auto
  show ?case
  proof (cases "inuse (xs ! i) = 0")
    case False
    then have "scan_unused xs i (Suc n) = scan_unused xs (Suc i) n" using Suc.prems by simp
    then show ?thesis
      using Suc.IH [of "Suc i"] Suc.prems False by (simp add: seg split: sum.splits option.splits)
  qed (use Suc.prems in simp)
qed simp

text \<open>What the allocation and the growth leave: the same threads, and room as far as it goes.\<close>

lemma grown_threads:
  fixes junk :: "nat \<Rightarrow> broken_thread"
  assumes "threads_ok ts"
  defines "ts' \<equiv> grow_threads (Some junk) (allocate_threads (Some junk) ts)"
  shows "threads_ok ts'" and "threads_of ts' = threads_of ts"
    and "BrokenThreadListPos ts' = BrokenThreadListPos ts"
    and "\<exists>xs. BrokenThreadList ts' = Some xs \<and> (BrokenThreadListPos ts < 32 \<longrightarrow> BrokenThreadListPos ts < length xs)"
proof -
  consider "BrokenThreadList ts = None" | xs where "BrokenThreadList ts = Some xs" by blast
  then have "threads_ok ts' \<and> threads_of ts' = threads_of ts \<and> BrokenThreadListPos ts' = BrokenThreadListPos ts \<and>
    (\<exists>xs. BrokenThreadList ts' = Some xs \<and> (BrokenThreadListPos ts < 32 \<longrightarrow> BrokenThreadListPos ts < length xs))"
  proof cases
    case 1
    then have "ts' = ts\<lparr>BrokenThreadList := Some (map junk [0..<8]), BrokenThreadListSize := 8, BrokenThreadListPos := 0\<rparr>"
      by (simp add: ts'_def allocate_threads_def grow_threads_def)
    then show ?thesis using 1 assms(1) by (auto simp: threads_ok_def threads_of_def)
  next
    case 2
    then have alloc: "allocate_threads (Some junk) ts = ts" by (simp add: allocate_threads_def)
    show ?thesis
    proof (cases "BrokenThreadListPos ts \<ge> BrokenThreadListSize ts")
      case True
      then have sz: "BrokenThreadListSize ts = 8" "BrokenThreadListPos ts = 8" "length xs = 8"
        using assms(1) 2 by (auto simp: threads_ok_def)
      then have "ts' = ts\<lparr>BrokenThreadList := Some (xs @ map junk [8..<32]), BrokenThreadListSize := 40\<rparr>"
        using 2 by (simp add: ts'_def alloc grow_threads_def sizeof_thread_def)
      then show ?thesis using 2 sz by (auto simp: threads_ok_def threads_of_def thread_at_def nth_append)
    next
      case False
      then have "ts' = ts" by (simp add: ts'_def alloc grow_threads_def)
      then show ?thesis using 2 False assms(1) by (auto simp: threads_ok_def)
    qed
  qed
  then show "threads_ok ts'" "threads_of ts' = threads_of ts" "BrokenThreadListPos ts' = BrokenThreadListPos ts"
    "\<exists>xs. BrokenThreadList ts' = Some xs \<and> (BrokenThreadListPos ts < 32 \<longrightarrow> BrokenThreadListPos ts < length xs)"
    by blast+
qed

lemma add_thread_map:
  assumes ok: "threads_ok ts" and e: "inuse e \<noteq> 0"
  shows "case add_thread (Some junk) e ts of
      Inl err \<Rightarrow> err = BeyondBuffer \<and> (\<forall>i < 32. threads_of ts i \<noteq> None)
    | Inr (i, ts') \<Rightarrow> threads_ok ts' \<and> threads_of ts i = None \<and> (\<forall>j < i. threads_of ts j \<noteq> None) \<and>
        threads_of ts' = (threads_of ts)(i \<mapsto> e)"
proof -
  define g where "g = grow_threads (Some junk) (allocate_threads (Some junk) ts)"
  note grown = grown_threads [OF ok, of junk, folded g_def]
  obtain xs where xs: "BrokenThreadList g = Some xs" "BrokenThreadListPos ts < 32 \<longrightarrow> BrokenThreadListPos ts < length xs"
    using grown(4) by blast
  let ?n = "BrokenThreadListPos ts"
  have len: "?n \<le> length xs" using grown(1,3) xs(1) by (simp add: threads_ok_def)
  have of: "threads_of ts i = (if i < ?n \<and> inuse (xs ! i) \<noteq> 0 then Some (xs ! i) else None)" for i
    by (subst grown(2) [symmetric]) (simp add: threads_of_def thread_at_def xs(1) grown(3))
  note scan = scan_unused_spec [of 0 ?n xs, simplified, OF len]
  have add: "add_thread (Some junk) e ts = (case scan_unused xs 0 ?n of
             Inl err \<Rightarrow> Inl err
           | Inr (Some i) \<Rightarrow> Inr (i, put_thread i e g)
           | Inr None \<Rightarrow> if ?n \<ge> length xs then Inl BeyondBuffer
                  else Inr (?n, put_thread ?n e g\<lparr>BrokenThreadListPos := ?n + 1\<rparr>))"
    unfolding add_thread_def g_def [symmetric] Let_def xs(1) grown(3) option.case
    by (auto simp: xs(1) put_thread_def split: sum.splits option.splits)
  show ?thesis
  proof (cases "scan_unused xs 0 ?n")
    case (Inr r)
    show ?thesis
    proof (cases r)
      case None
      then have all: "\<forall>i < ?n. threads_of ts i \<noteq> None" using scan Inr of by auto
      show ?thesis
      proof (cases "?n \<ge> length xs")
        case True
        then have "?n = 32" using xs(2) threads_ok_bound [OF ok] by linarith
        then show ?thesis using add Inr None True all by simp
      next
        case False
        let ?ts = "put_thread ?n e g\<lparr>BrokenThreadListPos := ?n + 1\<rparr>"
        have "threads_ok ?ts" using grown(1,3) xs(1) False by (auto simp: threads_ok_def put_thread_def)
        moreover have "threads_of ?ts i = (if i < Suc ?n \<and> inuse (xs[?n := e] ! i) \<noteq> 0 then Some (xs[?n := e] ! i) else None)" for i
          by (simp add: threads_of_def thread_at_def put_thread_def xs(1))
        then have "threads_of ?ts = (threads_of ts)(?n \<mapsto> e)"
          using False e by (auto simp: of fun_eq_iff nth_list_update less_Suc_eq)
        ultimately show ?thesis using add Inr None False all by (simp add: of)
      qed
    next
      case (Some i)
      then have i: "i < ?n" "inuse (xs ! i) = 0" "\<forall>j<i. inuse (xs ! j) \<noteq> 0" using scan Inr by auto
      then have "threads_of (put_thread i e g) = (threads_of ts)(i \<mapsto> e)"
        using threads_of_put [OF grown(1), of i e] grown(2,3) e by simp
      then show ?thesis using add Inr Some threads_ok_put [OF grown(1)] i by (auto simp: of)
    qed
  qed (use scan in simp)
qed

section \<open>The state of a stopped thread\<close>

text \<open>
  The registers that stopping a thread saves and resuming it loads, in the processor and in an entry. The flags are
  not among them: they are saved, but on Intel never loaded.
\<close>

definition registers :: "exit_state \<Rightarrow> u64 list \<times> fxsave64" where
  "registers x = (let s = vm x in
     ([rax s, rbx s, rcx s, rdx s, rsi s, rdi s, rbp s, r8 x, r9 x, r10 x, r11 x, r12 x, r13 x, r14 x, r15 x,
       vmread vm_guest_rsp s, vmread vm_guest_rip s], fxsave x))"

definition saved_registers :: "page_event_extended \<Rightarrow> u64 list \<times> fxsave64" where
  "saved_registers st = (let b = fst st in
     ([pe_RAX b, pe_RBX b, pe_RCX b, pe_RDX b, pe_RSI b, pe_RDI b, pe_RBP b, pe_R8 b, pe_R9 b, pe_R10 b, pe_R11 b,
       pe_R12 b, pe_R13 b, pe_R14 b, pe_R15 b, pe_RSP b, pe_RIP b], snd st))"

lemma registers_load: "registers (load_registers st x) = saved_registers st"
  by (simp add: registers_def saved_registers_def load_registers_def Let_def)

lemma registers_single_step [simp]:
  "registers (snd (vmx_enableSingleStepMode se x)) = registers x"
  "step_Reasons (snd (vmx_enableSingleStepMode se x)) = step_Reasons x"
  "registers (vmx_addSingleSteppingReason r x) = registers x"
  "step_Reasons (vmx_addSingleSteppingReason r x) = step_Reasons x @ [r]"
  "registers (vm_set vm_guest_interruptability_state v x) = registers x"
  "step_Reasons (load_registers st x) = step_Reasons x"
  by (simp_all add: vmx_enableSingleStepMode_def vmx_enableProcBasedFeature_def vmx_addSingleSteppingReason_def
      registers_def load_registers_def Let_def)

lemma flags_kept [simp]:
  "vmread vm_guest_rflags (vm (snd (vmx_enableSingleStepMode se x))) = vmread vm_guest_rflags (vm x)"
  "vmread vm_guest_rflags (vm (vmx_addSingleSteppingReason r x)) = vmread vm_guest_rflags (vm x)"
  "vmread vm_guest_rflags (vm (load_registers st x)) = vmread vm_guest_rflags (vm x)"
  by (simp_all add: vmx_enableSingleStepMode_def vmx_enableProcBasedFeature_def vmx_addSingleSteppingReason_def
      load_registers_def Let_def)

lemma saved_registers_fill: "saved_registers (fillPageEventBasic x, fxsave x) = registers x"
  by (simp add: registers_def saved_registers_def fillPageEventBasic_def Let_def)

lemma saved_registers_count: "saved_registers (apfst count_event st) = saved_registers st"
  by (cases st) (simp add: saved_registers_def count_event_def)

text \<open>
  Entry \<open>n\<close> holds the thread that was stopped in the state \<open>x\<close>, with the loops \<open>u\<close> and \<open>k\<close>, and
  \<open>in_loop\<close> is the exit of its \<open>int3\<close>.
\<close>

definition parked :: "nat \<Rightarrow> exit_state \<Rightarrow> u64 \<Rightarrow> u64 \<Rightarrow> thread_list \<Rightarrow> bool" where
  "parked n x u k ts \<longleftrightarrow> (case threads_of ts n of None \<Rightarrow> False
     | Some e \<Rightarrow> inuse e = 1 \<and> continueMethod e = 0 \<and> UserModeLoop e = u \<and> KernelModeLoop e = k \<and>
         saved_registers (thread_state e) = registers x \<and>
         pe_CR3 (fst (thread_state e)) = vmread vm_guest_cr3 (vm x))"

definition in_loop :: "nat \<Rightarrow> exit_state \<Rightarrow> u64 \<Rightarrow> u64 \<Rightarrow> exit_state \<Rightarrow> bool" where
  "in_loop n x u k x' \<longleftrightarrow> rax (vm x') = of_nat n \<and> vmread vm_guest_rip (vm x') \<in> {u, k} \<and>
     vmread vm_guest_cr3 (vm x') = vmread vm_guest_cr3 (vm x)"

lemma parkedE:
  assumes "parked n x u k ts"
  obtains e where "threads_of ts n = Some e" "inuse e = 1" "continueMethod e = 0" "UserModeLoop e = u" "KernelModeLoop e = k"
    "saved_registers (thread_state e) = registers x" "pe_CR3 (fst (thread_state e)) = vmread vm_guest_cr3 (vm x)"
  using assms by (auto simp: parked_def split: option.splits)

lemma threads_of_put_other: "n \<noteq> m \<Longrightarrow> threads_of (put_thread m e ts) n = threads_of ts n"
  by (cases "BrokenThreadList ts") (simp_all add: threads_of_def put_thread_def thread_at_def)

lemma parked_cong: "threads_of ts' n = threads_of ts n \<Longrightarrow> parked n x u k ts' \<longleftrightarrow> parked n x u k ts"
  by (simp add: parked_def)

lemma break_thread_parks:
  assumes "threads_ok ts" and "break_thread (Some junk) ID u k newRIP (x, ts) = Inr (x', ts')" and "newRIP \<in> {u, k}"
  shows "\<exists>n < 32. threads_of ts n = None \<and> threads_ok ts' \<and> parked n x u k ts' \<and> in_loop n x u k x' \<and>
    (\<forall>m. m \<noteq> n \<longrightarrow> threads_of ts' m = threads_of ts m)"
proof -
  let ?e = "\<lparr>inuse = 1, continueMethod = 0, watchid = int ID, UserModeLoop = u, KernelModeLoop = k,
    thread_state = (fillPageEventBasic x, fxsave x)\<rparr>"
  obtain n where n: "add_thread (Some junk) ?e ts = Inr (n, ts')"
    and x': "x' = (vm_set vm_guest_rip newRIP x)\<lparr>vm := (vm (vm_set vm_guest_rip newRIP x))\<lparr>rax := of_nat n\<rparr>\<rparr>"
    using assms(2) by (auto simp: break_thread_def Let_def split: sum.splits)
  have map: "threads_ok ts'" "threads_of ts n = None" "threads_of ts' = (threads_of ts)(n \<mapsto> ?e)"
    using add_thread_map [OF assms(1), of ?e junk] n by simp_all
  have "n < 32" using threads_of_bound [OF map(1), of n ?e] map(3) by simp
  moreover have "parked n x u k ts'"
    using saved_registers_fill [of x] map(3) by (simp add: parked_def) (simp add: fillPageEventBasic_def Let_def)
  moreover have "in_loop n x u k x'" using assms(3) by (auto simp: in_loop_def x')
  ultimately show ?thesis using map by auto
qed

text \<open>The \<open>int3\<close> of a thread finds its entry, and no other thread's.\<close>

lemma thread_breakpoint:
  assumes ok: "threads_ok ts" and e: "threads_of ts n = Some e" and cr3: "pe_CR3 (fst (thread_state e)) = vmread vm_guest_cr3 (vm x)"
    and loop: "in_loop n x (UserModeLoop e) (KernelModeLoop e) x'"
  shows "handle_thread_breakpoint se (x', ts) = (True, ept_handleFrozenThread se n (x', ts))"
proof -
  have bound: "i < 32" if "i < BrokenThreadListPos ts" for i using threads_ok_bound [OF ok] that by linarith
  have n: "n < BrokenThreadListPos ts" "thread_at ts n = e" "inuse e \<noteq> 0" using threads_of_Some [OF e] by blast+
  have unique: "i = n" if "i < BrokenThreadListPos ts" "is_thread_of x' ts i" for i
  proof -
    have "of_nat i = (of_nat n :: u64)" using that(2) loop by (simp add: is_thread_of_def in_loop_def Let_def)
    moreover have "unat (of_nat j :: u64) = j" if "j < 32" for j
      using that by (simp add: unat_of_nat take_bit_nat_eq_self)
    ultimately show ?thesis using bound [OF that(1)] bound [OF n(1)] by metis
  qed
  have "\<not> is_thread_of x' ts i" if "i < n" for i using unique [of i] that n(1) by auto
  moreover have "is_thread_of x' ts n" using n loop cr3 by (auto simp: is_thread_of_def in_loop_def Let_def)
  ultimately have "List.find (is_thread_of x' ts) [0..<BrokenThreadListPos ts] = Some n"
    unfolding find_Some_iff using n(1) by (intro exI [of _ n]) simp
  moreover have "BrokenThreadList ts \<noteq> None" using ok n(1) by (auto simp: threads_ok_def split: option.splits)
  ultimately show ?thesis by (simp add: handle_thread_breakpoint_def)
qed

lemma parked_resumed:
  assumes ok: "threads_ok ts" and parked: "parked n x u k ts" and m: "m \<noteq> 0"
    and loop: "in_loop n x u k x'"
  shows "\<exists>ts1 x1 ts2. ept_resumeBrokenThread (int n) m ts = (0, ts1) \<and>
    handle_thread_breakpoint se (x', ts1) = (True, x1, ts2) \<and> registers x1 = registers x \<and> threads_ok ts2 \<and>
    vmread vm_guest_rflags (vm x1) = vmread vm_guest_rflags (vm x') \<and>
    (\<forall>i. i \<noteq> n \<longrightarrow> threads_of ts2 i = threads_of ts i) \<and>
    (if m = 1 then stepping se x1 \<and> step_Reasons x1 = step_Reasons x' @ [SSR_STEPANDBREAK n] \<and>
        (\<exists>e. threads_of ts2 n = Some e \<and> inuse e = 1 \<and> continueMethod e = 1 \<and> UserModeLoop e = u \<and> KernelModeLoop e = k)
     else threads_of ts2 n = None \<and> vmread vm_guest_interruptability_state (vm x1) = 1)"
proof -
  obtain e where e: "threads_of ts n = Some e" "inuse e = 1" "continueMethod e = 0" "UserModeLoop e = u" "KernelModeLoop e = k"
    "saved_registers (thread_state e) = registers x" "pe_CR3 (fst (thread_state e)) = vmread vm_guest_cr3 (vm x)"
    using parked by (rule parkedE)
  have n: "n < BrokenThreadListPos ts" "thread_at ts n = e" using threads_of_Some [OF e(1)] by simp_all
  define e1 where "e1 = e\<lparr>continueMethod := m, watchid := -1\<rparr>"
  define ts1 where "ts1 = put_thread n e1 ts"
  have ok1: "threads_ok ts1" unfolding ts1_def by (rule threads_ok_put [OF ok])
  have of1: "threads_of ts1 = (threads_of ts)(n \<mapsto> e1)"
    unfolding ts1_def using threads_of_put [OF ok n(1), of e1] e(2) by (simp add: e1_def)
  have n1: "n < BrokenThreadListPos ts1" "thread_at ts1 n = e1" using threads_of_Some [of ts1 n e1] of1 by simp_all
  have resume: "ept_resumeBrokenThread (int n) m ts = (0, ts1)"
    using entry_error_threads [of n ts] e(1-3) n(2) by (simp add: ept_resumeBrokenThread_def ts1_def e1_def)
  have bp: "handle_thread_breakpoint se (x', ts1) = (True, ept_handleFrozenThread se n (x', ts1))"
    by (rule thread_breakpoint [OF ok1, of n e1 x]) (use of1 e loop in \<open>simp_all add: e1_def\<close>)
  define e2 where "e2 = e1\<lparr>thread_state := apfst count_event (thread_state e1)\<rparr>"
  have regs: "registers (load_registers (thread_state e2) x') = registers x"
    by (simp add: registers_load e2_def saved_registers_count) (simp add: e1_def e)
  have same: "i \<noteq> n \<Longrightarrow> threads_of (put_thread n e' ts1) i = threads_of ts i" for i e'
    by (simp add: threads_of_put_other of1)
  show ?thesis
  proof (cases "m = 1")
    case True
    let ?x1 = "vmx_addSingleSteppingReason (SSR_STEPANDBREAK n) (snd (vmx_enableSingleStepMode se (load_registers (thread_state e2) x')))"
    have "ept_handleFrozenThread se n (x', ts1) = (?x1, put_thread n (e2\<lparr>watchid := -1\<rparr>) ts1)"
      using n1(2) True by (simp add: ept_handleFrozenThread_def Let_def e2_def e1_def)
    moreover have "registers ?x1 = registers x" "step_Reasons ?x1 = step_Reasons x' @ [SSR_STEPANDBREAK n]"
      "vmread vm_guest_rflags (vm ?x1) = vmread vm_guest_rflags (vm x')" "stepping se ?x1"
      by (simp_all add: regs stepping_enabled)
    moreover have "threads_of (put_thread n (e2\<lparr>watchid := -1\<rparr>) ts1) n = Some (e2\<lparr>watchid := -1\<rparr>)"
      using threads_of_put [OF ok1 n1(1), of "e2\<lparr>watchid := -1\<rparr>"] e(2) by (simp add: e2_def e1_def)
    ultimately show ?thesis
      using resume bp same threads_ok_put [OF ok1] True e by (simp add: e2_def e1_def)
  next
    case False
    let ?x1 = "vm_set vm_guest_interruptability_state 1 (load_registers (thread_state e2) x')"
    have "ept_handleFrozenThread se n (x', ts1) = (?x1, put_thread n (e2\<lparr>inuse := 0, continueMethod := 0\<rparr>) ts1)"
      using n1(2) False m by (simp add: ept_handleFrozenThread_def Let_def e2_def e1_def)
    moreover have "registers ?x1 = registers x" "vmread vm_guest_rflags (vm ?x1) = vmread vm_guest_rflags (vm x')"
      by (simp_all add: regs)
    moreover have "threads_of (put_thread n (e2\<lparr>inuse := 0, continueMethod := 0\<rparr>) ts1) n = None"
      using threads_of_put [OF ok1 n1(1), of "e2\<lparr>inuse := 0, continueMethod := 0\<rparr>"] by simp
    ultimately show ?thesis
      using resume bp same threads_ok_put [OF ok1] False by simp
  qed
qed

section \<open>Runs\<close>

text \<open>
  What can happen to the list: a watch stops a thread, a request of the client, the \<open>int3\<close> of a thread,
  the end of its single step. \<open>targets\<close> are the requests and steps for entry \<open>n\<close>.
\<close>

datatype thread_op =
    Stop_thread "nat \<Rightarrow> broken_thread" nat u64 u64 u64 exit_state
  | Set_thread int page_event_extended
  | Resume_thread int int
  | Int3 exit_state
  | Stepped nat exit_state

fun thread_step :: "step_env \<Rightarrow> thread_op \<Rightarrow> thread_list \<Rightarrow> thread_error + thread_list" where
  "thread_step se (Stop_thread junk ID u k newRIP x) ts = map_sum id snd (break_thread (Some junk) ID u k newRIP (x, ts))"
| "thread_step se (Set_thread n st) ts = Inr (snd (ept_setBrokenThreadEntryFull n st ts))"
| "thread_step se (Resume_thread n m) ts = Inr (snd (ept_resumeBrokenThread n m ts))"
| "thread_step se (Int3 x) ts = Inr (snd (snd (handle_thread_breakpoint se (x, ts))))"
| "thread_step se (Stepped n x) ts = map_sum id snd (ept_handleStepAndBreak n (x, ts))"

fun targets :: "thread_op \<Rightarrow> nat \<Rightarrow> bool" where
  "targets (Set_thread m st) n \<longleftrightarrow> m = int n"
| "targets (Resume_thread m c) n \<longleftrightarrow> m = int n"
| "targets (Stepped m x) n \<longleftrightarrow> m = n"
| "targets _ n \<longleftrightarrow> False"

fun thread_run :: "step_env \<Rightarrow> thread_op list \<Rightarrow> thread_list \<Rightarrow> thread_error + thread_list" where
  "thread_run se [] ts = Inr ts"
| "thread_run se (op # ops) ts = (case thread_step se op ts of Inl err \<Rightarrow> Inl err | Inr ts' \<Rightarrow> thread_run se ops ts')"

lemma parked_count:
  assumes "threads_ok ts" and "parked n x u k ts"
  shows "parked n x u k (put_thread n ((thread_at ts n)\<lparr>thread_state := apfst count_event (thread_state (thread_at ts n))\<rparr>) ts)"
proof -
  obtain e where e: "threads_of ts n = Some e" "inuse e = 1" "continueMethod e = 0" "UserModeLoop e = u" "KernelModeLoop e = k"
    "saved_registers (thread_state e) = registers x" "pe_CR3 (fst (thread_state e)) = vmread vm_guest_cr3 (vm x)"
    using assms(2) by (rule parkedE)
  then show ?thesis
    using threads_of_Some [OF e(1)] threads_of_put [OF assms(1)] by (simp add: parked_def saved_registers_count)
qed

lemma thread_step_ok:
  assumes "threads_ok ts" and "thread_step se op ts = Inr ts'"
  shows "threads_ok ts'"
proof (cases op)
  case (Stop_thread junk ID u k newRIP x)
  then obtain y where "break_thread (Some junk) ID u k newRIP (x, ts) = Inr (y, ts')"
    using assms(2) by (auto simp: map_sum_def split: sum.splits)
  then obtain e n where "add_thread (Some junk) e ts = Inr (n, ts')" "inuse e \<noteq> 0"
    by (auto simp: break_thread_def Let_def split: sum.splits)
  then show ?thesis using add_thread_map [OF assms(1), of e junk] by simp
qed (use assms in \<open>auto simp: map_sum_def threads_ok_put ept_setBrokenThreadEntryFull_def ept_resumeBrokenThread_def
    handle_thread_breakpoint_def ept_handleFrozenThread_def ept_handleStepAndBreak_def Let_def
    split: sum.splits option.splits if_splits\<close>)

lemma parked_step:
  assumes ok: "threads_ok ts" and parked: "parked n x u k ts" and other: "\<not> targets op n"
    and step: "thread_step se op ts = Inr ts'"
  shows "parked n x u k ts'"
proof -
  obtain e where e: "threads_of ts n = Some e" "continueMethod e = 0" using parked by (rule parkedE)
  have keep: "parked n x u k (put_thread m e' ts)" if "m \<noteq> n" for m e'
    using parked parked_cong [OF threads_of_put_other, of n m] that by blast
  show ?thesis
  proof (cases op)
    case (Stop_thread junk ID u' k' newRIP y)
    then obtain z where "break_thread (Some junk) ID u' k' newRIP (y, ts) = Inr (z, ts')"
      using step by (auto simp: map_sum_def split: sum.splits)
    then obtain e' m where "add_thread (Some junk) e' ts = Inr (m, ts')" "inuse e' \<noteq> 0"
      by (auto simp: break_thread_def Let_def split: sum.splits)
    then have "threads_of ts m = None" "threads_of ts' = (threads_of ts)(m \<mapsto> e')"
      using add_thread_map [OF ok, of e' junk] by simp_all
    then have "threads_of ts' n = threads_of ts n" using e(1) by auto
    then show ?thesis using parked parked_cong by blast
  next
    case (Set_thread m st)
    then have "nat m \<noteq> n" if "entry_error m ts = 0"
      using other that by (auto simp: entry_error_def split: if_splits)
    then show ?thesis using Set_thread step parked keep by (auto simp: ept_setBrokenThreadEntryFull_def)
  next
    case (Resume_thread m c)
    then have "nat m \<noteq> n" if "entry_error m ts = 0"
      using other that by (auto simp: entry_error_def split: if_splits)
    then show ?thesis
      using Resume_thread step parked keep by (auto simp: ept_resumeBrokenThread_def Let_def split: if_splits)
  next
    case (Int3 y)
    have "parked n x u k (snd (ept_handleFrozenThread se m (y, ts)))" for m
      using keep [of m] parked_count [OF ok parked] threads_of_Some [OF e(1)] e(2)
      by (cases "m = n") (simp_all add: ept_handleFrozenThread_def Let_def)
    then show ?thesis
      using Int3 step parked by (auto simp: handle_thread_breakpoint_def split: option.splits if_splits)
  next
    case (Stepped m y)
    then show ?thesis
      using step keep [of m] other
      by (auto simp: ept_handleStepAndBreak_def Let_def map_sum_def split: sum.splits if_splits)
  qed
qed

lemma parked_run:
  "threads_ok ts \<Longrightarrow> parked n x u k ts \<Longrightarrow> \<forall>op \<in> set ops. \<not> targets op n \<Longrightarrow> thread_run se ops ts = Inr ts' \<Longrightarrow>
     threads_ok ts' \<and> parked n x u k ts'"
proof (induction ops arbitrary: ts)
  case (Cons op ops)
  then obtain ts1 where "thread_step se op ts = Inr ts1" "thread_run se ops ts1 = Inr ts'" by (auto split: sum.splits)
  then show ?case
    using Cons.IH [of ts1] Cons.prems thread_step_ok [of ts se op ts1] parked_step [of ts n x u k op se ts1] by auto
qed simp

section \<open>Properties\<close>

text \<open>
  C16: A watch that stops a thread puts it into the first unused entry and into its loop, and leaves
  the other threads alone. There is room for 32 threads although \<open>BrokenThreadListSize\<close> says 40:
  with 32 stopped threads the next one is written behind the buffer.
\<close>

theorem break_thread_room:
  assumes "threads_ok ts" and "newRIP \<in> {u, k}"
  shows "case break_thread (Some junk) ID u k newRIP (x, ts) of
      Inl err \<Rightarrow> err = BeyondBuffer \<and> (\<forall>i < 32. threads_of ts i \<noteq> None)
    | Inr (x', ts') \<Rightarrow> threads_ok ts' \<and> (\<exists>n < 32. threads_of ts n = None \<and> (\<forall>i < n. threads_of ts i \<noteq> None) \<and>
        parked n x u k ts' \<and> in_loop n x u k x' \<and> (\<forall>i. i \<noteq> n \<longrightarrow> threads_of ts' i = threads_of ts i))"
proof (cases "break_thread (Some junk) ID u k newRIP (x, ts)")
  case (Inl err)
  then obtain e where "add_thread (Some junk) e ts = Inl err" "inuse e \<noteq> 0"
    by (auto simp: break_thread_def Let_def split: sum.splits)
  then show ?thesis using add_thread_map [OF assms(1), of e junk] Inl by simp
next
  case (Inr r)
  obtain x' ts' where r: "r = (x', ts')" by fastforce
  obtain e i where "add_thread (Some junk) e ts = Inr (i, ts')" "inuse e \<noteq> 0"
    using Inr r by (auto simp: break_thread_def Let_def split: sum.splits)
  then have first: "\<forall>j < i. threads_of ts j \<noteq> None" "threads_of ts i = None" "threads_of ts' i \<noteq> None"
    using add_thread_map [OF assms(1), of e junk] by simp_all
  obtain n where n: "n < 32" "threads_of ts n = None" "threads_ok ts'" "parked n x u k ts'" "in_loop n x u k x'"
    "\<forall>m. m \<noteq> n \<longrightarrow> threads_of ts' m = threads_of ts m"
    using break_thread_parks [OF assms(1) _ assms(2)] Inr r by blast
  then have "i = n" using first by metis
  then show ?thesis using n first Inr r by auto
qed

text \<open>
  C8: A thread that a watch has stopped gets its registers back. Whatever happens to other
  threads and however often it runs through its loop in the meantime, the request to run it
  succeeds, and its next \<open>int3\<close> loads the general registers, the instruction pointer and the floating point
  state it had and frees its entry. The flags are not loaded: it runs on with those of the loop, whatever the
  instruction it was stopped at left in them.
\<close>

theorem stopped_thread_resumes:
  assumes "threads_ok ts" and "break_thread (Some junk) ID u k newRIP (x, ts) = Inr (x1, ts1)" and "newRIP \<in> {u, k}"
    and "\<forall>op \<in> set ops. \<not> targets op (unat (rax (vm x1)))" and "thread_run se ops ts1 = Inr ts2"
    and "in_loop (unat (rax (vm x1))) x u k x2" and "m \<noteq> 0" and "m \<noteq> 1"
  shows "\<exists>ts3 x3 ts4. ept_resumeBrokenThread (int (unat (rax (vm x1)))) m ts2 = (0, ts3) \<and>
    handle_thread_breakpoint se (x2, ts3) = (True, x3, ts4) \<and> registers x3 = registers x \<and>
    vmread vm_guest_rflags (vm x3) = vmread vm_guest_rflags (vm x2) \<and>
    threads_of ts4 = (threads_of ts2)(unat (rax (vm x1)) := None)"
proof -
  obtain n where n: "n < 32" "threads_ok ts1" "parked n x u k ts1" "in_loop n x u k x1"
    using break_thread_parks [OF assms(1-3)] by blast
  then have "rax (vm x1) = of_nat n" by (simp add: in_loop_def)
  then have eq: "unat (rax (vm x1)) = n" using n(1) by (simp add: unat_of_nat take_bit_nat_eq_self)
  have "threads_ok ts2" "parked n x u k ts2" using parked_run [OF n(2,3)] assms(4,5) eq by simp_all
  from parked_resumed [OF this assms(7) assms(6) [unfolded eq], of se] assms(8) obtain ts3 x3 ts4 where
    r: "ept_resumeBrokenThread (int n) m ts2 = (0, ts3)" "handle_thread_breakpoint se (x2, ts3) = (True, x3, ts4)"
      "registers x3 = registers x" "vmread vm_guest_rflags (vm x3) = vmread vm_guest_rflags (vm x2)" and map: "\<forall>i. i \<noteq> n \<longrightarrow> threads_of ts4 i = threads_of ts2 i" "threads_of ts4 n = None"
    by auto
  have "threads_of ts4 = (threads_of ts2)(n := None)" using map by (simp add: fun_eq_iff)
  then show ?thesis unfolding eq using r by blast
qed

text \<open>
  C17: The request for a single step loads the registers as well, and sets the processor into
  single-step mode with the thread as the reason. After the instruction the thread is stopped again with
  its new state, in the loop for its mode; where it cannot be stopped, with interrupts off
  or without such a loop, it is lost and runs on, and the next request only frees its entry.
\<close>

theorem stopped_thread_steps:
  assumes "threads_ok ts" and "parked n x u k ts" and "in_loop n x u k x1"
  shows "\<exists>ts1 x2 ts2 x4 ts4. ept_resumeBrokenThread (int n) 1 ts = (0, ts1) \<and>
    handle_thread_breakpoint se (x1, ts1) = (True, x2, ts2) \<and> registers x2 = registers x \<and>
    stepping se x2 \<and> step_Reasons x2 = step_Reasons x1 @ [SSR_STEPANDBREAK n] \<and>
    ept_handleStepAndBreak n (x3, ts2) = Inr (x4, ts4) \<and>
    (if cr8 x3 = 0 \<and> bit (vmread vm_guest_rflags (vm x3)) 9 \<and> (if kernelmode x3 then k else u) \<noteq> 0
     then parked n x3 u k ts4 \<and> in_loop n x3 u k x4
     else x4 = x3 \<and> fst (ept_resumeBrokenThread (int n) m ts4) = 4 \<and>
       threads_of (snd (ept_resumeBrokenThread (int n) m ts4)) = (threads_of ts)(n := None))"
proof -
  have "1 \<noteq> (0 :: int)" by simp
  from parked_resumed [OF assms(1,2) this assms(3), of se] obtain ts1 x2 ts2 e where
    resume: "ept_resumeBrokenThread (int n) 1 ts = (0, ts1)" "handle_thread_breakpoint se (x1, ts1) = (True, x2, ts2)"
      "registers x2 = registers x" "stepping se x2" "step_Reasons x2 = step_Reasons x1 @ [SSR_STEPANDBREAK n]" and
    ok: "threads_ok ts2" and others: "\<forall>i. i \<noteq> n \<longrightarrow> threads_of ts2 i = threads_of ts i" and
    e: "threads_of ts2 n = Some e" "inuse e = 1" "continueMethod e = 1" "UserModeLoop e = u" "KernelModeLoop e = k"
    by auto
  have n: "n < BrokenThreadListPos ts2" "thread_at ts2 n = e" using threads_of_Some [OF e(1)] by simp_all
  note put = threads_of_put [OF ok n(1)]
  let ?loop = "if kernelmode x3 then k else u"
  show ?thesis
  proof (cases "cr8 x3 = 0 \<and> bit (vmread vm_guest_rflags (vm x3)) 9 \<and> ?loop \<noteq> 0")
    case True
    let ?e = "e\<lparr>thread_state := (fillPageEventBasic x3, fxsave x3), continueMethod := 0\<rparr>"
    let ?x4 = "(vm_set vm_guest_rip ?loop x3)\<lparr>vm := (vm (vm_set vm_guest_rip ?loop x3))\<lparr>rax := of_nat n\<rparr>\<rparr>"
    have "ept_handleStepAndBreak n (x3, ts2) = Inr (?x4, put_thread n ?e ts2)"
      using True n e by (auto simp: ept_handleStepAndBreak_def Let_def split: if_splits)
    moreover have "parked n x3 u k (put_thread n ?e ts2)"
      using put [of ?e] e saved_registers_fill [of x3] by (simp add: parked_def) (simp add: fillPageEventBasic_def Let_def)
    moreover have "in_loop n x3 u k ?x4" by (simp add: in_loop_def)
    ultimately show ?thesis using resume True by auto
  next
    case False
    let ?e = "e\<lparr>inuse := 2, continueMethod := 0\<rparr>"
    let ?ts = "put_thread n ?e ts2"
    have lost: "ept_handleStepAndBreak n (x3, ts2) = Inr (x3, ?ts)"
      using False n e by (auto simp: ept_handleStepAndBreak_def Let_def)
    have "threads_of ?ts = (threads_of ts2)(n \<mapsto> ?e)" using put [of ?e] by simp
    moreover from this have "thread_at ?ts n = ?e" using threads_of_Some [of ?ts n ?e] by simp
    ultimately have "ept_resumeBrokenThread (int n) m ?ts = (4, put_thread n (?e\<lparr>inuse := 0\<rparr>) ?ts)"
      using entry_error_threads [of n ?ts] by (simp add: ept_resumeBrokenThread_def Let_def)
    moreover have "threads_of (put_thread n (?e\<lparr>inuse := 0\<rparr>) ?ts) = (threads_of ts)(n := None)"
      using threads_of_put [OF threads_ok_put [OF ok, of n ?e], of n "?e\<lparr>inuse := 0\<rparr>"] n(1) others put [of ?e]
      by (auto simp: fun_eq_iff)
    ultimately show ?thesis using resume lost False by auto
  qed
qed

section \<open>Examples\<close>

text \<open>A user thread with interrupts on, and its exits.\<close>

definition example_exit :: exit_state where
  "example_exit = \<lparr>vm = blank_state\<lparr>vmcs := (vmcs blank_state)(vm_guest_rip := 0x401000, vm_guest_rsp := 0x7f00,
       vm_guest_rflags := 0x202, vm_guest_cs_access_rights := 0xa0fb)\<rparr>,
     r8 = 8, r9 = 9, r10 = 10, r11 = 11, r12 = 12, r13 = 13, r14 = 14, r15 = 15,
     dr0 = 0, dr1 = 0, dr2 = 0, dr3 = 0, dr6 = 0xffff0ff0, cr8 = 0, gs_base_kernel = 0,
     fxsave = [], step_Method = 0, step_Reasons = []\<rparr>"

text \<open>What is in new memory, a processor with the monitor trap flag, and a state the client sets.\<close>

definition example_state :: page_event_extended where
  "example_state = (fillPageEventBasic example_exit, [])"

definition example_junk :: "nat \<Rightarrow> broken_thread" where
  "example_junk i = \<lparr>inuse = 0, continueMethod = 0, watchid = 0, UserModeLoop = 0, KernelModeLoop = 0, thread_state = example_state\<rparr>"

definition example_step :: step_env where
  "example_step = \<lparr>IA32_VMX_PROCBASED_CTLS = 0x0800000000000000, IA32_VMX_TRUE_PROCBASED_CTLS = 0, default1canbe0 = True\<rparr>"

lemma threads_of_empty [simp]: "threads_of no_threads n = None"
  by (simp add: threads_of_def)

lemma add_thread_next:
  assumes "threads_ok ts" and "inuse e \<noteq> 0" and "\<forall>i. threads_of ts i \<noteq> None \<longleftrightarrow> i < k" and "k < 32"
  shows "\<exists>ts'. add_thread (Some junk) e ts = Inr (k, ts') \<and> threads_ok ts' \<and> threads_of ts' = (threads_of ts)(k \<mapsto> e)"
proof (cases "add_thread (Some junk) e ts")
  case (Inl err)
  then show ?thesis using add_thread_map [OF assms(1,2), of junk] assms(3,4) by force
next
  case (Inr r)
  then obtain i ts' where r: "r = (i, ts')" "threads_ok ts'" "threads_of ts i = None" "\<forall>j < i. threads_of ts j \<noteq> None"
    "threads_of ts' = (threads_of ts)(i \<mapsto> e)"
    using add_thread_map [OF assms(1,2), of junk] by (cases r) auto
  moreover have "\<not> i < k" using r(3) assms(3) by blast
  moreover have "\<not> k < i" using r(4) assms(3) by blast
  ultimately have "i = k" by simp
  then show ?thesis using Inr r by simp
qed

lemma break_thread_next:
  assumes "threads_ok ts" and "\<forall>i. threads_of ts i \<noteq> None \<longleftrightarrow> i < k" and "k < 32"
  shows "\<exists>x' ts'. break_thread (Some junk) ID u l newRIP (x, ts) = Inr (x', ts') \<and> threads_ok ts' \<and>
    (\<forall>i. threads_of ts' i \<noteq> None \<longleftrightarrow> i < Suc k)"
proof -
  let ?e = "\<lparr>inuse = 1, continueMethod = 0, watchid = int ID, UserModeLoop = u, KernelModeLoop = l,
    thread_state = (fillPageEventBasic x, fxsave x)\<rparr>"
  obtain ts' where "add_thread (Some junk) ?e ts = Inr (k, ts')" "threads_ok ts'" "threads_of ts' = (threads_of ts)(k \<mapsto> ?e)"
    using add_thread_next [OF assms(1) _ assms(2,3), of ?e] by auto
  then show ?thesis using assms(2) by (auto simp: break_thread_def Let_def)
qed

text \<open>32 threads stop one after the other.\<close>

lemma stop_threads:
  "k \<le> 32 \<Longrightarrow> threads_ok ts \<Longrightarrow> \<forall>i. threads_of ts i \<noteq> None \<longleftrightarrow> i < 32 - k \<Longrightarrow>
    \<exists>ts'. thread_run se (replicate k (Stop_thread junk ID u l newRIP x)) ts = Inr ts' \<and> threads_ok ts' \<and>
      (\<forall>i. threads_of ts' i \<noteq> None \<longleftrightarrow> i < 32)"
proof (induction k arbitrary: ts)
  case (Suc k)
  have "32 - Suc k < 32" "Suc (32 - Suc k) = 32 - k" using Suc.prems(1) by simp_all
  then obtain x' ts1 where step: "break_thread (Some junk) ID u l newRIP (x, ts) = Inr (x', ts1)" and
    ts1: "threads_ok ts1" "\<forall>i. threads_of ts1 i \<noteq> None \<longleftrightarrow> i < 32 - k"
    using break_thread_next [OF Suc.prems(2,3)] by metis
  have "k \<le> 32" using Suc.prems(1) by simp
  from Suc.IH [OF this ts1] show ?case by (simp add: step del: not_None_eq)
qed simp

theorem break_thread_room_witness:
  "\<exists>ts. thread_run example_step (replicate 32 (Stop_thread example_junk 0 0x1000 0x2000 0x1000 example_exit)) no_threads = Inr ts \<and>
     break_thread (Some example_junk) 0 0x1000 0x2000 0x1000 (example_exit, ts) = Inl BeyondBuffer"
proof -
  obtain ts where ts: "thread_run example_step (replicate 32 (Stop_thread example_junk 0 0x1000 0x2000 0x1000 example_exit)) no_threads = Inr ts"
    "threads_ok ts" "\<forall>i. threads_of ts i \<noteq> None \<longleftrightarrow> i < 32"
    using stop_threads [OF _ threads_ok_empty, where k = 32 and junk = example_junk and ID = 0 and u = "0x1000" and l = "0x2000" and newRIP = "0x1000" and x = example_exit and se = example_step] by auto
  have used: "threads_of ts n \<noteq> None" if "n < 32" for n using ts(3) that by blast
  have "(0x1000 :: u64) \<in> {0x1000, 0x2000}" by simp
  note room = break_thread_room [OF ts(2) this, where junk = example_junk and ID = 0 and x = example_exit]
  have "break_thread (Some example_junk) 0 0x1000 0x2000 0x1000 (example_exit, ts) = Inl BeyondBuffer"
  proof (cases "break_thread (Some example_junk) 0 0x1000 0x2000 0x1000 (example_exit, ts)")
    case (Inr r)
    then show ?thesis using room used by (cases r) (auto simp del: not_None_eq)
  qed (use room in simp)
  then show ?thesis using ts(1) by blast
qed

lemma example_stopped:
  "\<exists>x ts. break_thread (Some junk) 0 0x1000 0x2000 0x1000 (example_exit, no_threads) = Inr (x, ts) \<and> threads_ok ts \<and>
     parked 0 example_exit 0x1000 0x2000 ts \<and> in_loop 0 example_exit 0x1000 0x2000 x \<and> rax (vm x) = 0"
proof -
  obtain x ts where b: "break_thread (Some junk) 0 0x1000 0x2000 0x1000 (example_exit, no_threads) = Inr (x, ts)"
    "\<forall>i. threads_of ts i \<noteq> None \<longleftrightarrow> i < Suc 0"
    using break_thread_next [OF threads_ok_empty, of 0 junk 0 "0x1000" "0x2000" "0x1000" example_exit] by auto
  obtain n where n: "threads_ok ts" "parked n example_exit 0x1000 0x2000 ts" "in_loop n example_exit 0x1000 0x2000 x"
    using break_thread_parks [OF threads_ok_empty b(1)] by auto
  have "n = 0" using n(2) b(2) by (auto elim: parkedE)
  then show ?thesis using b(1) n by (auto simp: in_loop_def)
qed

theorem stopped_thread_resumes_witness:
  "\<exists>x ts ts1 ts2 x3 ts3. break_thread (Some example_junk) 0 0x1000 0x2000 0x1000 (example_exit, no_threads) = Inr (x, ts) \<and>
     thread_run example_step [Int3 x, Set_thread 7 example_state, Int3 x] ts = Inr ts1 \<and> ept_resumeBrokenThread 0 2 ts1 = (0, ts2) \<and>
     handle_thread_breakpoint example_step (x, ts2) = (True, x3, ts3) \<and> vmread vm_guest_rip (vm x3) = 0x401000 \<and>
     r15 x3 = 15 \<and> vmread vm_guest_rflags (vm x3) = vmread vm_guest_rflags (vm x)"
proof -
  obtain x ts where x: "break_thread (Some example_junk) 0 0x1000 0x2000 0x1000 (example_exit, no_threads) = Inr (x, ts)"
    "in_loop 0 example_exit 0x1000 0x2000 x" "rax (vm x) = 0"
    using example_stopped [of example_junk] by blast
  let ?ops = "[Int3 x, Set_thread 7 example_state, Int3 x]"
  obtain ts1 where run: "thread_run example_step ?ops ts = Inr ts1" by simp
  have "\<exists>ts3 x3 ts4. ept_resumeBrokenThread (int (unat (rax (vm x)))) 2 ts1 = (0, ts3) \<and>
    handle_thread_breakpoint example_step (x, ts3) = (True, x3, ts4) \<and> registers x3 = registers example_exit \<and>
    vmread vm_guest_rflags (vm x3) = vmread vm_guest_rflags (vm x) \<and> threads_of ts4 = (threads_of ts1)(unat (rax (vm x)) := None)"
    by (rule stopped_thread_resumes [OF threads_ok_empty x(1) _ _ run]) (use x in simp_all)
  then obtain ts2 x3 ts3 where "ept_resumeBrokenThread 0 2 ts1 = (0, ts2)" "handle_thread_breakpoint example_step (x, ts2) = (True, x3, ts3)"
    "registers x3 = registers example_exit" "vmread vm_guest_rflags (vm x3) = vmread vm_guest_rflags (vm x)"
    using x(3) by auto
  moreover from this have "vmread vm_guest_rip (vm x3) = 0x401000" "r15 x3 = 15"
    by (simp_all add: registers_def Let_def) (simp_all add: example_exit_def vmread_def)
  ultimately show ?thesis using x(1) run by blast
qed

theorem stopped_thread_steps_witness:
  "\<exists>x ts x2 ts1 x4 ts2. parked 0 example_exit 0x1000 0x2000 ts \<and>
     handle_thread_breakpoint example_step (x, snd (ept_resumeBrokenThread 0 1 ts)) = (True, x2, ts1) \<and>
     step_Method x2 = 1 \<and> step_Reasons x2 = step_Reasons x @ [SSR_STEPANDBREAK 0] \<and>
     ept_handleStepAndBreak 0 (vm_set vm_guest_rip 0x401002 example_exit, ts1) = Inr (x4, ts2) \<and>
     parked 0 (vm_set vm_guest_rip 0x401002 example_exit) 0x1000 0x2000 ts2"
proof -
  let ?x3 = "vm_set vm_guest_rip 0x401002 example_exit"
  obtain x ts where x: "threads_ok ts" "parked 0 example_exit 0x1000 0x2000 ts" "in_loop 0 example_exit 0x1000 0x2000 x"
    using example_stopped by blast
  have "cr8 ?x3 = 0 \<and> bit (vmread vm_guest_rflags (vm ?x3)) 9 \<and> (if kernelmode ?x3 then 0x2000 else 0x1000 :: u64) \<noteq> 0"
    by (simp add: example_exit_def) (simp add: vmread_def)
  then obtain ts1 x2 ts2 x4 ts4 where "ept_resumeBrokenThread 0 1 ts = (0, ts1)"
    "handle_thread_breakpoint example_step (x, ts1) = (True, x2, ts2)" "stepping example_step x2" "step_Reasons x2 = step_Reasons x @ [SSR_STEPANDBREAK 0]"
    "ept_handleStepAndBreak 0 (?x3, ts2) = Inr (x4, ts4)" "parked 0 ?x3 0x1000 0x2000 ts4"
    using stopped_thread_steps [OF x, where se = example_step and ?x3.0 = ?x3 and m = 1] by auto
  moreover from this(1) have "ts1 = snd (ept_resumeBrokenThread 0 1 ts)" by simp
  moreover have "step_Method x2 = 1" using \<open>stepping example_step x2\<close>
    by (simp add: stepping_def example_step_def bit_iff_odd_drop_bit [of "0x8000000"])
  ultimately show ?thesis using x(2) by blast
qed

end
