(* ===== verification/Ept.thy ===== *)
theory Ept
  imports Mtrr Alloc
begin

text \<open>
  The extended page tables of \<open>epthandler.c\<close>: \<open>EPTMapPhysicalMemory\<close>, and the walk the processor
  makes through the tables. Physical memory is a function from the addresses of 8-byte words
  to their contents; a table is mapped, read and written through its physical address
  (\<open>MapSlots\<close> has the mapping). A table that \<open>EPTMapPhysicalMemory\<close> adds comes from \<open>malloc2\<close> and is
  found by \<open>VirtualToPhysical\<close>, an argument. \<open>None\<close> is the write to address 0 when \<open>malloc2\<close>
  has no page, or the deliberate endless loop when no memory type covers a page.
\<close>

record ept_memory =
  ept_mm :: mm
  qwords :: "u64 \<Rightarrow> u64"

text \<open>What the start of the hypervisor finds out about the processor.\<close>

record ept_config =
  MAXPHYADDRMASKPB :: u64
  VirtualToPhysical :: "u64 \<Rightarrow> u64"
  has_EPT_1GBsupport :: bool
  has_EPT_2MBSupport :: bool
  MTRRDefType :: int
  mtrr_ranges :: memranges

section \<open>Entries\<close>

text \<open>
  The bits of an entry: \<open>RA\<close> 0, \<open>WA\<close> 1, \<open>XA\<close> 2, \<open>MEMTYPE\<close> 3 to 5, \<open>BIG\<close> 7. The table of level 4
  is the PML4, that of level 1 the page table.
\<close>

definition level_shift :: "nat \<Rightarrow> nat" where
  "level_shift l = 9 * l + 3"

text \<open>\<open>VirtualAddressToIndexes\<close> for one level.\<close>

definition table_index :: "nat \<Rightarrow> u64 \<Rightarrow> u64" where
  "table_index l a = drop_bit (level_shift l) a AND 0x1ff"

definition entry_address :: "u64 \<Rightarrow> nat \<Rightarrow> u64 \<Rightarrow> u64" where
  "entry_address t l a = t + 8 * table_index l a"

definition full_access :: "u64 \<Rightarrow> u64" where
  "full_access e = set_bit 2 (set_bit 1 (set_bit 0 e))"

definition set_memtype :: "int \<Rightarrow> u64 \<Rightarrow> u64" where
  "set_memtype t e = (e AND NOT 0x38) OR push_bit 3 (word_of_int t AND 7)"

definition write_entry :: "u64 \<Rightarrow> u64 \<Rightarrow> ept_memory \<Rightarrow> ept_memory" where
  "write_entry ea e s = s\<lparr>qwords := (qwords s)(ea := e)\<rparr>"

section \<open>EPTMapPhysicalMemory\<close>

text \<open>A new table: \<open>malloc2(4096)\<close>, \<open>zeromemory\<close>, and the entry that points to it.\<close>

definition link_table :: "ept_config \<Rightarrow> u64 \<Rightarrow> ept_memory \<Rightarrow> ept_memory option" where
  "link_table cfg ea s =
     (let (temp, m) = malloc2 4096 (ept_mm s); t = VirtualToPhysical cfg temp
      in if temp = 0 then None
         else Some (write_entry ea (full_access (t AND MAXPHYADDRMASKPB cfg))
           (s\<lparr>ept_mm := m, qwords := (\<lambda>x. if x - t < 4096 then 0 else qwords s x)\<rparr>)))"

definition map_pml4 :: "ept_config \<Rightarrow> u64 \<Rightarrow> ept_memory \<Rightarrow> ept_memory option" where
  "map_pml4 cfg ea s = (if bit (qwords s ea) 0 then Some s else link_table cfg ea s)"

text \<open>
  A level that can hold large pages: whether the page is mapped at this level already, which
  ends the function.
\<close>

definition map_large :: "ept_config \<Rightarrow> bool \<Rightarrow> nat \<Rightarrow> u64 \<Rightarrow> bool \<Rightarrow> u64 \<Rightarrow> ept_memory \<Rightarrow> (bool \<times> ept_memory) option" where
  "map_large cfg has_large l physicalAddress forcesmallpage ea s =
     (let s = (if forcesmallpage \<and> bit (qwords s ea) 0 \<and> bit (qwords s ea) 7 then write_entry ea 0 s else s)
      in if bit (qwords s ea) 0 then Some (False, s)
         else
           let start = physicalAddress AND NOT (mask (level_shift l)) AND MAXPHYADDRMASKPB cfg;
               (fullmap, memtype) = getMTRRMapInfo (MTRRDefType cfg) (mtrr_ranges cfg) start (push_bit (level_shift l) 1)
           in if has_large \<and> \<not> forcesmallpage \<and> fullmap
              then Some (True, write_entry ea (set_memtype memtype (set_bit 7 (full_access start))) s)
              else map_option (Pair False) (link_table cfg ea s))"

definition map_page :: "ept_config \<Rightarrow> u64 \<Rightarrow> u64 \<Rightarrow> ept_memory \<Rightarrow> ept_memory option" where
  "map_page cfg physicalAddress ea s =
     (if bit (qwords s ea) 0 then Some (write_entry ea (full_access (qwords s ea)) s)
      else
        let start = physicalAddress AND MAXPHYADDRMASKPB cfg;
            (fullmap, memtype) = getMTRRMapInfo (MTRRDefType cfg) (mtrr_ranges cfg) start 0x1000
        in if \<not> fullmap then None
           else Some (write_entry ea (set_memtype memtype (full_access start)) s))"

text \<open>The function itself, for the CPU whose \<open>EPTPML4\<close> is \<open>pml4\<close>; it returns the address of the entry.\<close>

definition EPTMapPhysicalMemory :: "ept_config \<Rightarrow> u64 \<Rightarrow> u64 \<Rightarrow> bool \<Rightarrow> ept_memory \<Rightarrow> (u64 \<times> ept_memory) option" where
  "EPTMapPhysicalMemory cfg pml4 physicalAddress forcesmallpage s =
     (let next_table = (\<lambda>ea s. qwords s ea AND MAXPHYADDRMASKPB cfg);
          pml4e = entry_address pml4 4 physicalAddress
      in do {
        s \<leftarrow> map_pml4 cfg pml4e s;
        let pdpte = entry_address (next_table pml4e s) 3 physicalAddress;
        (mapped, s) \<leftarrow> map_large cfg (has_EPT_1GBsupport cfg) 3 physicalAddress forcesmallpage pdpte s;
        if mapped then Some (pdpte, s)
        else do {
          let pde = entry_address (next_table pdpte s) 2 physicalAddress;
          (mapped, s) \<leftarrow> map_large cfg (has_EPT_2MBSupport cfg) 2 physicalAddress forcesmallpage pde s;
          if mapped then Some (pde, s)
          else do {
            let pte = entry_address (next_table pde s) 1 physicalAddress;
            s \<leftarrow> map_page cfg physicalAddress pte s;
            Some (pte, s)
          }
        }
      })"

section \<open>The walk of the processor\<close>

text \<open>
  The walk ends at a large or a level-1 entry, and fails at an entry that allows nothing. It
  gives the level, the address of the last entry, the entry and the accesses that every entry
  on the way allows.
\<close>

type_synonym ept_leaf = "nat \<times> u64 \<times> u64 \<times> u64"

primrec ept_walk :: "u64 \<Rightarrow> (u64 \<Rightarrow> u64) \<Rightarrow> u64 \<Rightarrow> nat \<Rightarrow> u64 \<Rightarrow> u64 \<Rightarrow> ept_leaf option" where
  "ept_walk pb q a 0 t access = None"
| "ept_walk pb q a (Suc l) t access =
     (let ea = entry_address t (Suc l) a; e = q ea
      in if e AND 7 = 0 then None
         else if l = 0 \<or> l < 3 \<and> bit e 7 then Some (Suc l, ea, e, access AND e)
         else ept_walk pb q a l (e AND pb) (access AND e))"

text \<open>The translation of an address for the CPU with the given PML4: address, access and memory type.\<close>

definition ept_translate :: "u64 \<Rightarrow> (u64 \<Rightarrow> u64) \<Rightarrow> u64 \<Rightarrow> u64 \<Rightarrow> (u64 \<times> u64 \<times> u64) option" where
  "ept_translate pb q pml4 a =
     (case ept_walk pb q a 4 pml4 7 of None \<Rightarrow> None
      | Some (l, ea, e, access) \<Rightarrow>
          Some ((e AND pb AND NOT (mask (level_shift l))) OR take_bit (level_shift l) a, access, drop_bit 3 e AND 7))"

end
