(* ===== verification/Watch.thy ===== *)
theory Watch
  imports Ept BrokenThreads
begin

text \<open>
  Watches (\<open>epthandler.c\<close>, Intel): \<open>ept_watch_activate\<close> takes accesses to a page away in the
  extended page tables of every processor; an access then exits to \<open>ept_handleWatchEvent\<close>, which
  records it or stops the thread, gives the page back for one instruction, and
  \<open>ept_handleWatchEventAfterStep\<close> takes the accesses away again. The entry a processor has for a
  watch is kept as its physical address, 0 for \<open>NULL\<close>; the global window it is mapped through is
  not modelled. The redirection of breakpoints past the IDT (\<open>int1redirection_idtbypass\<close>) is off.
\<close>

section \<open>State\<close>

text \<open>
  A log: the descriptor, and the entries its memory has room for. An answer of the memory
  manager is \<open>None\<close> when there is no memory.
\<close>

record event_log =
  log_ID :: u32
  maxNumberOfEntries :: u32
  numberOfEntries :: u32
  missedEntries :: u32
  entryType :: u32
  log_pe :: "page_event list"

record ept_watch =
  watch_PhysicalAddress :: u64
  watch_Size :: int
  watch_Type :: int
  watch_Options :: u32
  LoopUserMode :: u64
  LoopKernelMode :: u64
  Active :: int
  CopyInProgress :: int
  Log :: "event_log option"

record watch_cpu =
  EPTPML4 :: u64
  eptWatchEntries :: "nat \<Rightarrow> u64"
  eptWatchListLength :: int
  eptUpdated :: bool
  BPAfterStep :: bool
  BPCausedByDBVM :: bool

text \<open>What is kept about the last event for debugging.\<close>

record watch_log_data =
  seen_physicalAddress :: u64
  initialID :: nat
  actualID :: nat
  seen_rip :: u64
  seen_data :: u64
  cacheIssue :: bool
  skipped :: int

text \<open>\<open>eptWatchListSize\<close> is the length of the list.\<close>

record watch_state =
  eptWatchList :: "ept_watch list"
  eptWatchListPos :: nat
  watch_cpus :: "watch_cpu list"
  watch_ept :: ept_memory
  stopped_threads :: thread_list
  lastSeenEPTWatch :: watch_log_data
  lastSeenEPTWatchVerySure :: watch_log_data

record watch_env =
  watch_config :: ept_config
  has_EPT_ExecuteOnlySupport :: bool
  watch_vm_env :: vm_env
  watch_step_env :: step_env

abbreviation (input) "EPTW_WRITE \<equiv> 0 :: int"
abbreviation (input) "EPTW_READWRITE \<equiv> 1 :: int"
abbreviation (input) "EPTW_EXECUTE \<equiv> 2 :: int"

text \<open>Options, by their bit.\<close>

abbreviation (input) "EPTO_MULTIPLERIP \<equiv> 0 :: nat"
abbreviation (input) "EPTO_LOG_ALL \<equiv> 1 :: nat"
abbreviation (input) "EPTO_GROW_WHENFULL \<equiv> 5 :: nat"
abbreviation (input) "EPTO_INTERRUPT \<equiv> 6 :: nat"
abbreviation (input) "EPTO_DBVMBP \<equiv> 7 :: nat"

datatype watch_error = HostFault | BeyondLog | ThreadError thread_error

section \<open>Entries\<close>

text \<open>The accesses a type of watch takes away, and what the end of a watch gives back.\<close>

definition restrict_entry :: "watch_env \<Rightarrow> int \<Rightarrow> u64 \<Rightarrow> u64" where
  "restrict_entry we type e =
     (if type = EPTW_WRITE then unset_bit 1 e
      else if type = EPTW_READWRITE
        then unset_bit 0 (unset_bit 1 (if has_EPT_ExecuteOnlySupport we then set_bit 2 e else unset_bit 2 e))
      else if type = EPTW_EXECUTE then unset_bit 2 e else e)"

definition undo_entry :: "watch_env \<Rightarrow> int \<Rightarrow> u64 \<Rightarrow> u64" where
  "undo_entry we type e =
     (if type = EPTW_WRITE then set_bit 1 e
      else if type = EPTW_READWRITE
        then (let e = set_bit 1 (set_bit 0 e) in if has_EPT_ExecuteOnlySupport we then e else set_bit 2 e)
      else set_bit 2 e)"

section \<open>The list of watches\<close>

definition getFreeWatchID :: "(nat \<Rightarrow> ept_watch) option \<Rightarrow> watch_state \<Rightarrow> (nat \<times> watch_state) option" where
  "getFreeWatchID mem ws =
     (case List.find (\<lambda>i. Active (eptWatchList ws ! i) = 0) [0..<eptWatchListPos ws] of
        Some i \<Rightarrow> Some (i, ws)
      | None \<Rightarrow>
          if eptWatchListPos ws < length (eptWatchList ws)
          then Some (eptWatchListPos ws, ws\<lparr>eptWatchListPos := eptWatchListPos ws + 1\<rparr>)
          else (case mem of None \<Rightarrow> None
            | Some junk \<Rightarrow>
                let i = length (eptWatchList ws); sz = (i + 2) * 2
                in Some (i, ws\<lparr>eptWatchList := eptWatchList ws @ map (\<lambda>j. (junk j)\<lparr>Active := 0\<rparr>) [i..<sz],
                     eptWatchListPos := eptWatchListPos ws + 1\<rparr>)))"

definition page_base :: "u64 \<Rightarrow> u64" where
  "page_base a = a AND 0xfffffffffffff000"

definition ept_isWatchIDPerfectMatch :: "u64 \<Rightarrow> ept_watch \<Rightarrow> bool" where
  "ept_isWatchIDPerfectMatch a w \<longleftrightarrow> Active w \<noteq> 0 \<and> a \<ge> watch_PhysicalAddress w \<and>
     a < watch_PhysicalAddress w + word_of_int (watch_Size w)"

definition ept_isWatchIDMatch :: "u64 \<Rightarrow> ept_watch \<Rightarrow> bool" where
  "ept_isWatchIDMatch a w \<longleftrightarrow> Active w \<noteq> 0 \<and> page_base (watch_PhysicalAddress w) = a"

definition ept_getWatchID :: "u64 \<Rightarrow> watch_state \<Rightarrow> nat option" where
  "ept_getWatchID a ws =
     List.find (\<lambda>i. ept_isWatchIDMatch (page_base a) (eptWatchList ws ! i)) [0..<eptWatchListPos ws]"

definition set_watch :: "nat \<Rightarrow> ept_watch \<Rightarrow> watch_state \<Rightarrow> watch_state" where
  "set_watch ID w ws = ws\<lparr>eptWatchList := (eptWatchList ws)[ID := w]\<rparr>"

section \<open>Starting a watch\<close>

text \<open>The size, cut at the end of the page.\<close>

definition watch_size :: "u64 \<Rightarrow> int \<Rightarrow> int" where
  "watch_size a sz =
     (if page_base (a + word_of_int sz) > page_base a then 0x1000 - uint (a AND 0xfff) else sz)"

text \<open>
  The memory for the entries: \<open>malloc\<close> gets two descriptors of 24 bytes more than the
  product of two \<open>int\<close>s, and takes 32 bits of it.
\<close>

definition log_bytes :: "nat \<Rightarrow> int \<Rightarrow> nat" where
  "log_bytes structtype maxcount = unat (48 + word_of_int (int (sizeof_event structtype) * maxcount) :: u32)"

definition zero_event :: "nat \<Rightarrow> page_event" where
  "zero_event structtype =
     (let z = \<lparr>VirtualAddress = 0, PhysicalAddress = 0, pe_CR3 = 0, pe_FSBASE = 0, pe_GSBASE = 0, pe_GSBASE_KERNEL = 0,
        pe_FLAGS = 0, pe_RAX = 0, pe_RBX = 0, pe_RCX = 0, pe_RDX = 0, pe_RSI = 0, pe_RDI = 0, pe_R8 = 0, pe_R9 = 0,
        pe_R10 = 0, pe_R11 = 0, pe_R12 = 0, pe_R13 = 0, pe_R14 = 0, pe_R15 = 0, pe_RBP = 0, pe_RSP = 0, pe_RIP = 0,
        pe_DR0 = 0, pe_DR1 = 0, pe_DR2 = 0, pe_DR3 = 0, pe_DR6 = 0, pe_DR7 = 0, pe_CS = 0, pe_DS = 0, pe_ES = 0,
        pe_SS = 0, pe_FS = 0, pe_GS = 0, pe_Count = 0\<rparr>
      in if structtype = 0 then PE_BASIC z
         else if structtype = 1 then PE_EXTENDED z (replicate 512 0)
         else if structtype = 2 then PE_BASICSTACK z (replicate 4096 0)
         else PE_EXTENDEDSTACK z (replicate 512 0) (replicate 4096 0))"

definition struct_type :: "u32 \<Rightarrow> nat" where
  "struct_type options = unat (drop_bit 2 options AND 3)"

definition new_log :: "nat \<Rightarrow> u32 \<Rightarrow> int \<Rightarrow> event_log" where
  "new_log ID options maxcount =
     (let t = struct_type options
      in \<lparr>log_ID = of_nat ID, maxNumberOfEntries = word_of_int maxcount, numberOfEntries = 0, missedEntries = 0,
        entryType = of_nat t, log_pe = replicate ((log_bytes t maxcount - 24) div sizeof_event t) (zero_event t)\<rparr>)"

definition new_watch :: "nat \<Rightarrow> u64 \<Rightarrow> int \<Rightarrow> int \<Rightarrow> u32 \<Rightarrow> int \<Rightarrow> u64 \<Rightarrow> u64 \<Rightarrow> ept_watch \<Rightarrow> ept_watch" where
  "new_watch ID a sz type options maxcount u k w =
     (let w = w\<lparr>watch_Size := watch_size a sz, watch_PhysicalAddress := a, watch_Type := type\<rparr>;
          w = (if bit options EPTO_DBVMBP then w\<lparr>LoopUserMode := u, LoopKernelMode := k\<rparr> else w)
      in w\<lparr>Log := Some (new_log ID options maxcount), watch_Options := options, Active := 1\<rparr>)"

text \<open>
  The loop over the processors. Each start reallocates the list \<open>eptWatchList\<close> of each processor, which keeps its entries;
  this memory is taken to be there, and the recorded length of the list is not touched.
\<close>

fun watch_page :: "watch_env \<Rightarrow> nat \<Rightarrow> u64 \<Rightarrow> int \<Rightarrow> watch_cpu list \<Rightarrow> ept_memory \<Rightarrow> (watch_cpu list \<times> ept_memory) option" where
  "watch_page we ID a type [] s = Some ([], s)"
| "watch_page we ID a type (c # cs) s =
     (case EPTMapPhysicalMemory (watch_config we) (EPTPML4 c) a True s of
        None \<Rightarrow> None
      | Some (pa_pte, s) \<Rightarrow>
          let c = c\<lparr>eptWatchEntries := (eptWatchEntries c)(ID := pa_pte), eptUpdated := True\<rparr>;
              s = write_entry pa_pte (restrict_entry we type (qwords s pa_pte)) s
          in map_option (apfst (Cons c)) (watch_page we ID a type cs s))"

text \<open>The result is the error code, and the ID for 0.\<close>

definition ept_watch_activate :: "watch_env \<Rightarrow> (nat \<Rightarrow> ept_watch) option \<Rightarrow> bool \<Rightarrow>
    u64 \<Rightarrow> int \<Rightarrow> int \<Rightarrow> u32 \<Rightarrow> int \<Rightarrow> u64 \<Rightarrow> u64 \<Rightarrow> watch_state \<Rightarrow> watch_error + (int \<times> nat) \<times> watch_state" where
  "ept_watch_activate we mem logmem a sz type options maxcount u k ws =
     (if maxcount = 0 \<and> \<not> bit options EPTO_INTERRUPT \<and> \<not> bit options EPTO_DBVMBP then Inr ((1, 0), ws)
      else case getFreeWatchID mem ws of
             None \<Rightarrow> Inl HostFault
           | Some (ID, ws) \<Rightarrow>
               if \<not> logmem then Inl HostFault
               else if log_bytes (struct_type options) maxcount < 24 then Inl BeyondLog
               else
                 let ws = set_watch ID (new_watch ID a sz type options maxcount u k (eptWatchList ws ! ID)) ws
                 in case watch_page we ID a type (watch_cpus ws) (watch_ept ws) of
                      None \<Rightarrow> Inl HostFault
                    | Some (cs, s) \<Rightarrow> Inr ((0, ID), ws\<lparr>watch_cpus := cs, watch_ept := s\<rparr>))"

section \<open>Ending a watch\<close>

definition undo_cpu :: "watch_env \<Rightarrow> nat \<Rightarrow> int \<Rightarrow> watch_cpu \<Rightarrow> ept_memory \<Rightarrow> watch_cpu \<times> ept_memory" where
  "undo_cpu we ID type c s =
     (let pte = eptWatchEntries c ID
      in if int ID < eptWatchListLength c \<and> pte \<noteq> 0
         then (c\<lparr>eptUpdated := True, eptWatchEntries := (eptWatchEntries c)(ID := 0)\<rparr>,
               write_entry pte (undo_entry we type (qwords s pte)) s)
         else (c, s))"

fun undo_page :: "watch_env \<Rightarrow> nat \<Rightarrow> int \<Rightarrow> watch_cpu list \<Rightarrow> ept_memory \<Rightarrow> watch_cpu list \<times> ept_memory" where
  "undo_page we ID type [] s = ([], s)"
| "undo_page we ID type (c # cs) s =
     (let (c, s) = undo_cpu we ID type c s; (cs, s) = undo_page we ID type cs s in (c # cs, s))"

text \<open>An ID comes as a 32-bit number; a negative one reads in front of the list.\<close>

definition ept_watch_deactivate :: "watch_env \<Rightarrow> int \<Rightarrow> watch_state \<Rightarrow> watch_error + int \<times> watch_state" where
  "ept_watch_deactivate we ID ws =
     (if ID \<ge> int (eptWatchListPos ws) then Inr (1, ws)
      else if ID < 0 then Inl HostFault
      else
        let i = nat ID; w = eptWatchList ws ! i
        in if Active w = 0 then Inr (2, ws)
           else
             let base = page_base (watch_PhysicalAddress w);
                 hasAnotherOne = list_ex (\<lambda>j. j \<noteq> i \<and> ept_isWatchIDMatch base (eptWatchList ws ! j) \<and>
                   watch_Type (eptWatchList ws ! j) = watch_Type w) [0..<eptWatchListPos ws];
                 (cs, s) = (if hasAnotherOne then (watch_cpus ws, watch_ept ws)
                   else undo_page we i (watch_Type w) (watch_cpus ws) (watch_ept ws))
             in Inr (0, set_watch i (w\<lparr>Active := 0, Log := None\<rparr>) (ws\<lparr>watch_cpus := cs, watch_ept := s\<rparr>)))"

section \<open>Recording an event\<close>

text \<open>A log after an event, and the reason it was not added (0 if it was).\<close>

definition same_registers :: "page_event_basic \<Rightarrow> exit_state \<Rightarrow> bool" where
  "same_registers peb x \<longleftrightarrow> (let s = vm x in
     pe_RSP peb = vmread vm_guest_rsp s \<and> pe_RBP peb = rbp s \<and> pe_RAX peb = rax s \<and> pe_RBX peb = rbx s \<and>
     pe_RCX peb = rcx s \<and> pe_RDX peb = rdx s \<and> pe_RSI peb = rsi s \<and> pe_RDI peb = rdi s \<and>
     pe_R8 peb = r8 x \<and> pe_R9 peb = r9 x \<and> pe_R10 peb = r10 x \<and> pe_R11 peb = r11 x \<and>
     pe_R12 peb = r12 x \<and> pe_R13 peb = r13 x \<and> pe_R14 peb = r14 x \<and> pe_R15 peb = r15 x)"

definition count_entry :: "page_event \<Rightarrow> page_event" where
  "count_entry e = (case e of
     PE_BASIC b \<Rightarrow> PE_BASIC (count_event b)
   | PE_EXTENDED b f \<Rightarrow> PE_EXTENDED (count_event b) f
   | PE_BASICSTACK b st \<Rightarrow> PE_BASICSTACK (count_event b) st
   | PE_EXTENDEDSTACK b f st \<Rightarrow> PE_EXTENDEDSTACK (count_event b) f st)"

text \<open>
  The search for the event among the entries from \<open>i\<close> on: the entry, and whether its instruction
  pointer was enough (5) or all its registers were compared (6).
\<close>

fun find_event :: "bool \<Rightarrow> exit_state \<Rightarrow> page_event list \<Rightarrow> nat \<Rightarrow> nat \<Rightarrow> (nat \<times> int) option" where
  "find_event multiple x es i 0 = None"
| "find_event multiple x es i (Suc n) =
     (let peb = event_basic (es ! i)
      in if pe_RIP peb \<noteq> vmread vm_guest_rip (vm x) then find_event multiple x es (Suc i) n
         else if \<not> multiple then Some (i, 5)
         else if same_registers peb x then Some (i, 6)
         else find_event multiple x es (Suc i) n)"

definition miss_entry :: "event_log \<Rightarrow> event_log" where
  "miss_entry lg = lg\<lparr>missedEntries := missedEntries lg + 1\<rparr>"

text \<open>
  \<open>EPTO_GROW_WHENFULL\<close>: the buffer is reallocated for twice the entries, and \<open>numberOfEntries\<close> is
  set to that. \<open>mem\<close> says what is in the new memory, whose size is again cut to 32 bits.
\<close>

definition grow_log :: "(nat \<Rightarrow> page_event) \<Rightarrow> event_log \<Rightarrow> event_log" where
  "grow_log mem lg =
     (let newmax = unat (numberOfEntries lg) * 2; sz = sizeof_event (unat (entryType lg));
          room = (unat (of_nat (24 + sz * newmax) :: u32) - 24) div sz
      in lg\<lparr>log_pe := take room (log_pe lg) @ map mem [length (log_pe lg)..<room], numberOfEntries := of_nat newmax\<rparr>)"

definition append_entry :: "watch_env \<Rightarrow> exit_state \<Rightarrow> event_log \<Rightarrow> watch_error + event_log" where
  "append_entry we x lg =
     (let i = unat (numberOfEntries lg)
      in case recordState (watch_vm_env we) (unat (entryType lg)) x of
           None \<Rightarrow> Inl HostFault
         | Some e \<Rightarrow> if i \<ge> length (log_pe lg) then Inl BeyondLog
             else Inr (lg\<lparr>log_pe := (log_pe lg)[i := e], numberOfEntries := numberOfEntries lg + 1\<rparr>))"

text \<open>
  Without memory for the growth \<open>realloc\<close> itself copies the log to \<open>NULL\<close>, so that the branch
  for its failure, with reason 8, is never reached.
\<close>

definition log_event :: "watch_env \<Rightarrow> (nat \<Rightarrow> page_event) option \<Rightarrow> exit_state \<Rightarrow> u32 \<Rightarrow> event_log \<Rightarrow>
    watch_error + int \<times> event_log" where
  "log_event we mem x options lg =
     (case find_event (bit options EPTO_MULTIPLERIP) x (log_pe lg) 0 (unat (numberOfEntries lg)) of
        Some (i, reason) \<Rightarrow> Inr (reason, lg\<lparr>log_pe := (log_pe lg)[i := count_entry (log_pe lg ! i)]\<rparr>)
      | None \<Rightarrow>
          if numberOfEntries lg < maxNumberOfEntries lg then map_sum id (Pair 0) (append_entry we x lg)
          else if \<not> bit options EPTO_GROW_WHENFULL then Inr (7, miss_entry lg)
          else (case mem of None \<Rightarrow> Inl HostFault
            | Some junk \<Rightarrow> map_sum id (Pair 0) (append_entry we x (grow_log junk lg))))"

section \<open>Handling an access\<close>

text \<open>Bits of the exit qualification: \<open>R\<close>, \<open>W\<close>, \<open>X\<close> 0 to 2, \<open>WasReadable\<close>, \<open>WasWritable\<close>, \<open>WasExecutable\<close> 3 to 5.\<close>

definition access_of_type :: "u64 \<Rightarrow> int \<Rightarrow> bool" where
  "access_of_type evi type =
     (if type = EPTW_WRITE then bit evi 1 \<and> \<not> bit evi 4
      else if type = EPTW_READWRITE then bit evi 1 \<and> \<not> bit evi 4 \<or> bit evi 0 \<and> \<not> bit evi 3
      else bit evi 2 \<and> \<not> bit evi 5)"

text \<open>The choice among the watches of the page; the type looked at is that of the last choice, not of watch \<open>i\<close>.\<close>

fun choose_watch :: "ept_watch list \<Rightarrow> u64 \<Rightarrow> u64 \<Rightarrow> nat \<Rightarrow> nat \<Rightarrow> nat \<Rightarrow> nat" where
  "choose_watch xs evi a ID i 0 = ID"
| "choose_watch xs evi a ID i (Suc n) =
     (if ept_isWatchIDMatch (page_base a) (xs ! i) \<and> access_of_type evi (watch_Type (xs ! ID))
      then if ept_isWatchIDPerfectMatch a (xs ! i) then i else choose_watch xs evi a i (Suc i) n
      else choose_watch xs evi a ID (Suc i) n)"

definition in_watch :: "u64 \<Rightarrow> ept_watch \<Rightarrow> bool" where
  "in_watch a w \<longleftrightarrow> a \<ge> watch_PhysicalAddress w \<and> a < watch_PhysicalAddress w + word_of_int (watch_Size w)"

text \<open>The loop for a thread that is to be stopped here, 0 if it is not.\<close>

definition stop_loop :: "u64 \<Rightarrow> ept_watch \<Rightarrow> exit_state \<Rightarrow> u64" where
  "stop_loop a w x =
     (if bit (watch_Options w) EPTO_DBVMBP \<and> in_watch a w \<and> cr8 x = 0 \<and> bit (vmread vm_guest_rflags (vm x)) 9 \<and>
         \<not> bit (vmread vm_guest_interruptability_state (vm x)) 0
      then if kernelmode x then LoopKernelMode w else LoopUserMode w else 0)"

definition set_skipped :: "int \<Rightarrow> watch_state \<Rightarrow> watch_state" where
  "set_skipped r ws = ws\<lparr>lastSeenEPTWatch := (lastSeenEPTWatch ws)\<lparr>skipped := r\<rparr>\<rparr>"

text \<open>
  What remains to be done once the page is accessible: nothing, an interrupt after the step,
  or an entry in the log.
\<close>

definition report_watch :: "watch_env \<Rightarrow> (nat \<Rightarrow> page_event) option \<Rightarrow> nat \<Rightarrow> nat \<Rightarrow> u64 \<Rightarrow> exit_state \<Rightarrow> watch_state \<Rightarrow> watch_error + watch_state" where
  "report_watch we mem cpu ID a x ws =
     (let w = eptWatchList ws ! ID; evi = vmread vm_exit_qualification (vm x)
      in if bit (watch_Options w) EPTO_DBVMBP then Inr ws
         else if bit (watch_Options w) EPTO_INTERRUPT \<and> in_watch a w
         then Inr (set_skipped 1 ws\<lparr>watch_cpus := (watch_cpus ws)[cpu := (watch_cpus ws ! cpu)\<lparr>BPAfterStep := True\<rparr>]\<rparr>)
         else if watch_Type w \<noteq> EPTW_EXECUTE \<and> \<not> bit evi 0 \<and> bit evi 2 then Inr (set_skipped 2 ws)
         else if CopyInProgress w \<noteq> 0
         then (case Log w of None \<Rightarrow> Inl HostFault
           | Some lg \<Rightarrow> Inr (set_skipped 3 (set_watch ID (w\<lparr>Log := Some (miss_entry lg)\<rparr>) ws)))
         else if \<not> bit (watch_Options w) EPTO_LOG_ALL \<and> \<not> in_watch a w then Inr (set_skipped 4 ws)
         else case Log w of
           None \<Rightarrow> Inl HostFault
         | Some lg \<Rightarrow>
               let ws = ws\<lparr>lastSeenEPTWatchVerySure := lastSeenEPTWatch ws\<rparr>
               in case log_event we mem x (watch_Options w) lg of
                    Inl err \<Rightarrow> Inl err
                  | Inr (reason, lg) \<Rightarrow>
                      let ws = set_skipped reason (set_watch ID (w\<lparr>Log := Some lg\<rparr>) ws)
                      in Inr (ws\<lparr>lastSeenEPTWatchVerySure := (lastSeenEPTWatchVerySure ws)\<lparr>skipped := reason\<rparr>\<rparr>))"

text \<open>
  \<open>ept_handleWatchEvent\<close> on the processor number \<open>cpu\<close>: whether the access was to a watched page.
  The step mode, which no log contains, is set before the report in C.
\<close>

definition ept_handleWatchEvent :: "watch_env \<Rightarrow> heap_answer \<Rightarrow> (nat \<Rightarrow> page_event) option \<Rightarrow> nat \<Rightarrow> u64 \<Rightarrow>
    exit_state \<times> watch_state \<Rightarrow> watch_error + bool \<times> exit_state \<times> watch_state" where
  "ept_handleWatchEvent we threadmem logmem cpu a = (\<lambda>(x, ws).
     (case (if eptWatchListPos ws = 0 then None else ept_getWatchID a ws) of
        None \<Rightarrow> Inr (False, x, ws)
      | Some first \<Rightarrow>
          let evi = vmread vm_exit_qualification (vm x);
              ID = choose_watch (eptWatchList ws) evi a first first (eptWatchListPos ws - first);
              w = eptWatchList ws ! ID;
              pte = eptWatchEntries (watch_cpus ws ! cpu) ID;
              e = qwords (watch_ept ws) pte;
              ws = ws\<lparr>lastSeenEPTWatch := \<lparr>seen_physicalAddress = a, initialID = first, actualID = ID,
                seen_rip = vmread vm_guest_rip (vm x), seen_data = evi, cacheIssue = (e AND 7 = 7), skipped = -1\<rparr>\<rparr>
          in if pte = 0 then Inl HostFault
             else if stop_loop a w x \<noteq> 0
             then (case break_thread threadmem ID (LoopUserMode w) (LoopKernelMode w) (stop_loop a w x) (x, stopped_threads ws) of
                 Inl err \<Rightarrow> Inl (ThreadError err)
               | Inr (x, ts) \<Rightarrow> Inr (True, x, ws\<lparr>stopped_threads := ts\<rparr>))
             else
               let ws = ws\<lparr>watch_ept := write_entry pte (full_access e) (watch_ept ws)\<rparr>
               in case report_watch we logmem cpu ID a x ws of
                    Inl err \<Rightarrow> Inl err
                  | Inr ws \<Rightarrow> Inr (True, vmx_addSingleSteppingReason (SSR_HANDLEWATCH ID)
                      (snd (vmx_enableSingleStepMode (watch_step_env we) x)), ws)))"

section \<open>After the instruction\<close>

text \<open>The test lets \<open>eptWatchListPos\<close> itself through, which reads an entry that may be behind the list.\<close>

definition ept_handleWatchEventAfterStep :: "watch_env \<Rightarrow> nat \<Rightarrow> nat \<Rightarrow> exit_state \<times> watch_state \<Rightarrow> watch_error + exit_state \<times> watch_state" where
  "ept_handleWatchEventAfterStep we cpu ID = (\<lambda>(x, ws).
     (if ID > eptWatchListPos ws then Inr (x, ws)
      else if ID \<ge> length (eptWatchList ws) then Inl HostFault
      else
        let w = eptWatchList ws ! ID; c = watch_cpus ws ! cpu; pte = eptWatchEntries c ID
        in if Active w = 0 then Inr (x, ws)
           else if watch_Type w \<in> {EPTW_WRITE, EPTW_READWRITE, EPTW_EXECUTE} \<and> pte = 0 then Inl HostFault
           else
             let ws = ws\<lparr>watch_ept := write_entry pte (restrict_entry we (watch_Type w) (qwords (watch_ept ws) pte)) (watch_ept ws)\<rparr>
             in if BPAfterStep c
                then Inr (vm_set vm_pending_debug_exceptions 0x4000 x,
                  ws\<lparr>watch_cpus := (watch_cpus ws)[cpu := c\<lparr>BPAfterStep := False, BPCausedByDBVM := True\<rparr>]\<rparr>)
                else Inr (x, ws)))"

end
