(* ===== verification/EptCorrect.thy ===== *)
theory EptCorrect
  imports Ept AllocCorrect MtrrCorrect
begin

text \<open>
  The tables of \<open>Ept\<close>: every table has one place in the tree of one CPU (a ghost assignment of
  roles), which \<open>EPTMapPhysicalMemory\<close> keeps; its effect on the translation of every address of
  every CPU.
\<close>

section \<open>Addresses of entries\<close>

definition page_aligned :: "u64 \<Rightarrow> bool" where
  "page_aligned t \<longleftrightarrow> take_bit 12 t = 0"

lemma page_aligned_push: "page_aligned t \<Longrightarrow> t = push_bit 12 (drop_bit 12 t)"
  using bits_ident [of 12 t] by (simp add: page_aligned_def)

definition entry_offset :: "nat \<Rightarrow> u64 \<Rightarrow> u64" where
  "entry_offset l a = 8 * table_index l a"

lemma entry_address_offset: "entry_address t l a = t + entry_offset l a"
  by (simp add: entry_address_def entry_offset_def)

lemma entry_offset_push: "entry_offset l a = push_bit 3 (take_bit 9 (drop_bit (level_shift l) a))"
  by (simp add: entry_offset_def table_index_def mask_simps push_bit_eq_mult)

lemma entry_offset_small: "take_bit 12 (entry_offset l a) = entry_offset l a"
  unfolding entry_offset_push by (rule bit_eqI) (auto simp: bit_simps)

text \<open>Two entries are the same only in the same table, with the same index.\<close>

lemma entry_page:
  assumes "page_aligned t"
  shows "push_bit 12 (drop_bit 12 (entry_address t l a)) = t" and "take_bit 12 (entry_address t l a) = entry_offset l a"
  using take_bit_push_add [OF entry_offset_small [of l a], of "drop_bit 12 t"] page_aligned_push [OF assms]
  by (simp_all add: entry_address_offset)

lemma same_offset:
  "entry_offset l a = entry_offset l b \<longleftrightarrow> take_bit 9 (drop_bit (level_shift l) a) = take_bit 9 (drop_bit (level_shift l) b)"
proof
  assume *: "entry_offset l a = entry_offset l b"
  show "take_bit 9 (drop_bit (level_shift l) a) = take_bit 9 (drop_bit (level_shift l) b)"
  proof (rule bit_eqI)
    fix n
    have "bit (entry_offset l a) (n + 3) \<longleftrightarrow> bit (entry_offset l b) (n + 3)" by (simp add: *)
    then show "bit (take_bit 9 (drop_bit (level_shift l) a)) n \<longleftrightarrow> bit (take_bit 9 (drop_bit (level_shift l) b)) n"
      unfolding entry_offset_push by (auto simp: bit_simps)
  qed
qed (simp add: entry_offset_push)

lemma entry_address_eq:
  assumes "page_aligned t" and "page_aligned u" and "entry_address t l a = entry_address u m b"
  shows "t = u" and "entry_offset l a = entry_offset m b"
  using entry_page [OF assms(1), of l a] entry_page [OF assms(2), of m b] assms(3) by simp_all

lemma prefix_split: "drop_bit (level_shift l) a = drop_bit (level_shift l) b \<longleftrightarrow>
    drop_bit (level_shift (Suc l)) a = drop_bit (level_shift (Suc l)) b \<and> entry_offset l a = entry_offset l b"
proof -
  have "drop_bit (level_shift (Suc l)) x = drop_bit 9 (drop_bit (level_shift l) x)" for x :: u64
    by (simp add: level_shift_def add.commute)
  then show ?thesis unfolding same_offset by (metis bits_ident)
qed

lemma prefix_mono:
  fixes a b :: u64
  assumes "drop_bit (level_shift l) a = drop_bit (level_shift l) b" and "l \<le> m"
  shows "drop_bit (level_shift m) a = drop_bit (level_shift m) b"
proof -
  have "level_shift m = level_shift m - level_shift l + level_shift l" using assms(2) by (simp add: level_shift_def)
  then show ?thesis by (metis assms(1) drop_bit_drop_bit)
qed

text \<open>Clearing a page spares the entries of the other tables.\<close>

lemma entry_in_page:
  assumes "page_aligned t" and "page_aligned u"
  shows "entry_address u l a - t < 4096 \<longleftrightarrow> u = t"
proof
  assume "u = t"
  have "entry_offset l a = take_bit 12 (entry_offset l a)" by (simp add: entry_offset_small)
  then have "unat (entry_offset l a) < 4096" using unat_take_bit_less [of 12 "entry_offset l a"] by simp
  then show "entry_address u l a - t < 4096" by (simp add: \<open>u = t\<close> entry_address_offset word_less_nat_alt)
next
  assume *: "entry_address u l a - t < 4096"
  let ?x = "entry_address u l a - t"
  have x: "?x = push_bit 12 (drop_bit 12 u - drop_bit 12 t) + entry_offset l a"
    using page_aligned_push [OF assms(1)] page_aligned_push [OF assms(2)]
    by (simp add: entry_address_offset push_bit_eq_mult algebra_simps)
  have "unat ?x < 4096" using * by (simp add: word_less_nat_alt)
  then have "take_bit 12 ?x = ?x"
    by (simp add: word_eq_iff_unsigned [where ?'a = nat] unsigned_take_bit_eq take_bit_nat_eq_self)
  then have "?x = entry_offset l a"
    using take_bit_push_add(1) [OF entry_offset_small [of l a], of "drop_bit 12 u - drop_bit 12 t"] x by simp
  then show "u = t" by (simp add: entry_address_offset)
qed

section \<open>The place of a table\<close>

text \<open>
  A table belongs to the tree of one PML4, at one level, and to the addresses with one prefix.
\<close>

type_synonym roles = "u64 \<Rightarrow> (u64 \<times> nat \<times> u64) option"

abbreviation serves :: "roles \<Rightarrow> u64 \<Rightarrow> u64 \<Rightarrow> nat \<Rightarrow> u64 \<Rightarrow> bool" where
  "serves role t r l a \<equiv> role t = Some (r, l, drop_bit (level_shift (Suc l)) a)"

abbreviation is_leaf :: "nat \<Rightarrow> u64 \<Rightarrow> bool" where
  "is_leaf l e \<equiv> l = 1 \<or> l < 4 \<and> bit e 7"

text \<open>
  An entry that allows anything and is not a leaf points to the table of the next level, and
  above level 1 an entry allows everything or nothing.
\<close>

definition entry_ok :: "u64 \<Rightarrow> roles \<Rightarrow> u64 \<Rightarrow> nat \<Rightarrow> u64 \<Rightarrow> u64 \<Rightarrow> bool" where
  "entry_ok pb role r l a e \<longleftrightarrow> (e AND 7 \<noteq> 0 \<longrightarrow> l \<noteq> 1 \<longrightarrow> e AND 7 = 7) \<and>
     (e AND 7 \<noteq> 0 \<longrightarrow> \<not> is_leaf l e \<longrightarrow> serves role (e AND pb) r (l - 1) a)"

definition tables_ok :: "u64 \<Rightarrow> u64 set \<Rightarrow> roles \<Rightarrow> (u64 \<Rightarrow> u64) \<Rightarrow> bool" where
  "tables_ok pb roots role q \<longleftrightarrow> (\<forall>r \<in> roots. role r = Some (r, 4, 0)) \<and>
     (\<forall>t r l p. role t = Some (r, l, p) \<longrightarrow> t AND pb = t \<and> page_aligned t \<and> r \<in> roots \<and> 1 \<le> l \<and> l \<le> 4) \<and>
     (\<forall>t r l a. serves role t r l a \<longrightarrow> entry_ok pb role r l a (q (entry_address t l a)))"

lemma tables_okD:
  assumes "tables_ok pb roots role q" and "serves role t r l a"
  shows "t AND pb = t" "page_aligned t" "r \<in> roots" "1 \<le> l" "l \<le> 4"
    and "entry_ok pb role r l a (q (entry_address t l a))"
proof -
  note ok = assms(1) [unfolded tables_ok_def, THEN conjunct2]
  show "t AND pb = t" "page_aligned t" "r \<in> roots" "1 \<le> l" "l \<le> 4"
    using conjunct1 [OF ok, rule_format, OF assms(2)] by simp_all
  show "entry_ok pb role r l a (q (entry_address t l a))"
    using conjunct2 [OF ok, rule_format, OF assms(2)] .
qed

lemma roots_serve: "tables_ok pb roots role q \<Longrightarrow> r \<in> roots \<Longrightarrow> a < 2 ^ 48 \<Longrightarrow> serves role r r 4 a"
proof -
  assume *: "tables_ok pb roots role q" "r \<in> roots" "a < 2 ^ 48"
  have "drop_bit 48 a = 0" using *(3) by (simp add: drop_bit_eq_div div_word_less)
  then show ?thesis using * by (simp add: tables_ok_def level_shift_def)
qed

text \<open>Memory that differs only in one entry of the tables.\<close>

definition agrees :: "roles \<Rightarrow> u64 \<Rightarrow> (u64 \<Rightarrow> u64) \<Rightarrow> (u64 \<Rightarrow> u64) \<Rightarrow> bool" where
  "agrees role ea q q' \<longleftrightarrow>
     (\<forall>t r l a. serves role t r l a \<longrightarrow> entry_address t l a \<noteq> ea \<longrightarrow> q' (entry_address t l a) = q (entry_address t l a))"

text \<open>The entry a walk reads at a level is another one unless root, level and prefix are the same.\<close>

lemma entry_unique:
  assumes "tables_ok pb roots role q" and "serves role t r l a" and "serves role u r' m b"
    and "entry_address t l a = entry_address u m b"
  shows "t = u \<and> r = r' \<and> l = m \<and> drop_bit (level_shift l) a = drop_bit (level_shift l) b"
proof -
  have "t = u" "entry_offset l a = entry_offset m b"
    using entry_address_eq [OF tables_okD(2) [OF assms(1,2)] tables_okD(2) [OF assms(1,3)] assms(4)] by simp_all
  moreover from this have "r = r'" "l = m" "drop_bit (level_shift (Suc l)) a = drop_bit (level_shift (Suc l)) b"
    using assms(2,3) by auto
  ultimately show ?thesis using prefix_split [of l a b] by simp
qed

lemma walk_frame:
  assumes "tables_ok pb roots role q" and "serves role u r0 l0 a" and "agrees role (entry_address u l0 a) q q'"
    and "serves role t r l b" and "\<not> (r = r0 \<and> l0 \<le> l \<and> drop_bit (level_shift l0) b = drop_bit (level_shift l0) a)"
  shows "ept_walk pb q' b l t access = ept_walk pb q b l t access"
  using assms(4,5)
proof (induction l arbitrary: t access)
  case (Suc l)
  let ?ea = "entry_address t (Suc l) b"
  have "?ea \<noteq> entry_address u l0 a"
    using entry_unique [OF assms(1) Suc.prems(1) assms(2)] Suc.prems(2) by auto
  then have e: "q' ?ea = q ?ea" using assms(3) Suc.prems(1) unfolding agrees_def by blast
  show ?case
  proof (cases "q ?ea AND 7 \<noteq> 0 \<and> \<not> is_leaf (Suc l) (q ?ea)")
    case True
    then have "serves role (q ?ea AND pb) r l b"
      using tables_okD(6) [OF assms(1) Suc.prems(1)] by (auto simp: entry_ok_def)
    then show ?thesis using Suc.IH [of "q ?ea AND pb"] Suc.prems(2) e by (auto simp: Let_def)
  next
    case False
    then show ?thesis using e by (auto simp: Let_def)
  qed
qed simp

section \<open>The way down to a table\<close>

text \<open>The walk for \<open>a\<close> from table \<open>t\<close> of level \<open>m\<close> comes to table \<open>u\<close> of level \<open>l\<close>.\<close>

inductive leads :: "u64 \<Rightarrow> (u64 \<Rightarrow> u64) \<Rightarrow> u64 \<Rightarrow> nat \<Rightarrow> u64 \<Rightarrow> nat \<Rightarrow> u64 \<Rightarrow> bool" for pb q a where
  here: "leads pb q a l t l t"
| down: "q (entry_address t (Suc m) a) = e \<Longrightarrow> e AND 7 = 7 \<Longrightarrow> \<not> is_leaf (Suc m) e \<Longrightarrow>
    leads pb q a m (e AND pb) l u \<Longrightarrow> leads pb q a (Suc m) t l u"

lemma leads_level: "leads pb q a m t l u \<Longrightarrow> l \<le> m"
  by (induction rule: leads.induct) simp_all

lemma leads_trans: "leads pb q a m t l u \<Longrightarrow> leads pb q a l u k v \<Longrightarrow> leads pb q a m t k v"
  by (induction rule: leads.induct) (auto intro: leads.down)

lemma leads_serves:
  "leads pb q a m t l u \<Longrightarrow> tables_ok pb roots role q \<Longrightarrow> serves role t r m a \<Longrightarrow> serves role u r l a"
proof (induction rule: leads.induct)
  case (down t m e l u)
  have "e AND 7 \<noteq> 0" using down.hyps(2) by auto
  then have "serves role (e AND pb) r m a"
    using tables_okD(6) [OF down.prems] down.hyps(1,3) by (simp add: entry_ok_def)
  then show ?case by (rule down.IH [OF down.prems(1)])
qed simp

lemma and_7_eq: "x AND 7 = 7 \<Longrightarrow> 7 AND x = 7" for x :: u64
  by (simp add: and.commute)

text \<open>The way does not depend on the address below the table.\<close>

lemma leads_walk:
  assumes "leads pb q a m t l u" and "drop_bit (level_shift (Suc l)) b = drop_bit (level_shift (Suc l)) a"
  shows "ept_walk pb q b m t 7 = ept_walk pb q b l u 7"
  using assms
proof (induction rule: leads.induct)
  case (down t m e l u)
  have "Suc l \<le> Suc m" using down.hyps(4) by (simp add: leads_level)
  then have "drop_bit (level_shift (Suc m)) b = drop_bit (level_shift (Suc m)) a"
    by (rule prefix_mono [OF down.prems])
  then have "entry_address t (Suc m) b = entry_address t (Suc m) a"
    using prefix_split [of "Suc m" b a] by (simp add: entry_address_offset)
  then show ?case using down by (auto simp: Let_def and_7_eq)
qed simp

lemma leads_frame:
  assumes "leads pb q a m t l u" and "tables_ok pb roots role q" and "serves role t r m a"
    and "serves role v r0 l0 c" and "agrees role (entry_address v l0 c) q q'" and "l0 \<le> l"
  shows "leads pb q' a m t l u"
  using assms(1,3,6)
proof (induction rule: leads.induct)
  case (down t m e l u)
  let ?ea = "entry_address t (Suc m) a"
  have "l \<le> m" using down.hyps(4) by (rule leads_level)
  then have "?ea \<noteq> entry_address v l0 c"
    using entry_unique [OF assms(2) down.prems(1) assms(4)] down.prems(2) by auto
  then have "q' ?ea = e" using assms(5) down.prems(1) down.hyps(1) unfolding agrees_def by blast
  moreover have "serves role (e AND pb) r m a"
    using tables_okD(6) [OF assms(2) down.prems(1)] down.hyps(1-3) by (auto simp: entry_ok_def)
  ultimately show ?case using leads.down [of q' t m a e pb l u] down by blast
qed (rule leads.here)

section \<open>Changing one entry\<close>

lemma entry_ok_prefix:
  assumes "1 \<le> l" and "drop_bit (level_shift l) a = drop_bit (level_shift l) b"
  shows "entry_ok pb role r l a e \<longleftrightarrow> entry_ok pb role r l b e"
  using assms by (cases l) (simp_all add: entry_ok_def)

lemma entry_ok_mono: "entry_ok pb role r l a e \<Longrightarrow> role \<subseteq>\<^sub>m role' \<Longrightarrow> entry_ok pb role' r l a e"
  by (auto simp: entry_ok_def map_le_def dom_def)

lemma entry_ok_write:
  assumes "tables_ok pb roots role q" and "serves role t r l a" and "entry_ok pb role r l a e"
  shows "tables_ok pb roots role (q(entry_address t l a := e))"
proof -
  have "entry_ok pb role r' m b ((q(entry_address t l a := e)) (entry_address u m b))" if "serves role u r' m b" for u r' m b
  proof (cases "entry_address u m b = entry_address t l a")
    case True
    have same: "r' = r \<and> m = l \<and> drop_bit (level_shift l) b = drop_bit (level_shift l) a"
      using entry_unique [OF assms(1) that assms(2) True] by auto
    then show ?thesis
      using entry_ok_prefix [OF tables_okD(4) [OF assms(1,2)], of b a pb role r e] assms(3) True by simp
  next
    case False
    then show ?thesis using tables_okD(6) [OF assms(1) that] by simp
  qed
  then show ?thesis using assms(1) unfolding tables_ok_def by simp
qed

lemma change_walk:
  assumes "tables_ok pb roots role q" and "a < 2 ^ 48" and "r \<in> roots" and "leads pb q a 4 r l t"
    and "agrees role (entry_address t l a) q q'"
  shows "leads pb q' a 4 r l t"
    and "r' \<in> roots \<Longrightarrow> b < 2 ^ 48 \<Longrightarrow> \<not> (r' = r \<and> drop_bit (level_shift l) b = drop_bit (level_shift l) a) \<Longrightarrow>
      ept_walk pb q' b 4 r' 7 = ept_walk pb q b 4 r' 7"
    and "drop_bit (level_shift l) b = drop_bit (level_shift l) a \<Longrightarrow>
      ept_walk pb q' b 4 r 7 = ept_walk pb q' b l t 7 \<and> entry_address t l b = entry_address t l a"
proof -
  have r: "serves role r r 4 a" by (rule roots_serve [OF assms(1,3,2)])
  have t: "serves role t r l a" by (rule leads_serves [OF assms(4,1) r])
  show lead: "leads pb q' a 4 r l t" by (rule leads_frame [OF assms(4,1) r t assms(5)]) simp
  show "ept_walk pb q' b 4 r' 7 = ept_walk pb q b 4 r' 7"
    if "r' \<in> roots" "b < 2 ^ 48" "\<not> (r' = r \<and> drop_bit (level_shift l) b = drop_bit (level_shift l) a)"
    by (rule walk_frame [OF assms(1) t assms(5) roots_serve [OF assms(1) that(1,2)]]) (use that(3) in blast)
  assume "drop_bit (level_shift l) b = drop_bit (level_shift l) a"
  then have "drop_bit (level_shift (Suc l)) b = drop_bit (level_shift (Suc l)) a" "entry_offset l b = entry_offset l a"
    using prefix_split [of l b a] by simp_all
  then show "ept_walk pb q' b 4 r 7 = ept_walk pb q' b l t 7 \<and> entry_address t l b = entry_address t l a"
    using leads_walk [OF lead] by (simp add: entry_address_offset)
qed

lemma walk_entry:
  "1 \<le> l \<Longrightarrow> ept_walk pb q b l t access =
     (let ea = entry_address t l b; e = q ea
      in if e AND 7 = 0 then None
         else if is_leaf l e then Some (l, ea, e, access AND e)
         else ept_walk pb q b (l - 1) (e AND pb) (access AND e))"
  by (cases l) (auto simp: Let_def)

lemma agrees_write: "agrees role ea q (q(ea := e))"
  by (simp add: agrees_def)

section \<open>The invariant of the tables\<close>

text \<open>
  Tables are pages of the heap of DBVM, all owned: \<open>malloc2\<close> does not give them out again.
\<close>

definition ept_inv :: "ept_config \<Rightarrow> u64 set \<Rightarrow> roles \<Rightarrow> ept_memory \<Rightarrow> bool" where
  "ept_inv cfg roots role s \<longleftrightarrow> tables_ok (MAXPHYADDRMASKPB cfg) roots role (qwords s) \<and> mm_inv (ept_mm s) \<and>
     (\<exists>rs. owns blocks valid_region (taken (ept_mm s)) rs \<and>
       (\<forall>t \<in> dom role. \<exists>a. (a, 4096) \<in> set rs \<and> t = VirtualToPhysical cfg a))"

text \<open>Pages of the heap are different pages of physical memory.\<close>

definition config_ok :: "ept_config \<Rightarrow> nat \<Rightarrow> bool" where
  "config_ok cfg w \<longleftrightarrow> 12 \<le> w \<and> w \<le> 48 \<and> MAXPHYADDRMASKPB cfg = mask w AND NOT (mask 12) \<and>
     (\<forall>a. valid_region a 4096 \<longrightarrow> VirtualToPhysical cfg a AND MAXPHYADDRMASKPB cfg = VirtualToPhysical cfg a) \<and>
     inj_on (VirtualToPhysical cfg) {a. valid_region a 4096}"

lemma masked_low_bits: "config_ok cfg w \<Longrightarrow> t AND MAXPHYADDRMASKPB cfg = t \<Longrightarrow> n < 12 \<Longrightarrow> \<not> bit t n"
proof -
  assume *: "config_ok cfg w" "t AND MAXPHYADDRMASKPB cfg = t" "n < 12"
  have "bit t n \<longleftrightarrow> bit (t AND MAXPHYADDRMASKPB cfg) n" by (simp add: *(2))
  then show ?thesis using *(1,3) by (auto simp: config_ok_def bit_simps)
qed

lemma masked_page_aligned: "config_ok cfg w \<Longrightarrow> t AND MAXPHYADDRMASKPB cfg = t \<Longrightarrow> page_aligned t"
  unfolding page_aligned_def by (intro bit_eqI) (auto simp: bit_simps masked_low_bits)

lemma mm_page_size: "good_size 4096"
  by (simp add: good_size_def)

text \<open>A page that \<open>malloc2\<close> gives is no table yet.\<close>

lemma fresh_table:
  assumes "ept_inv cfg roots role s" and "config_ok cfg w" and "malloc2 4096 (ept_mm s) = (temp, m)" and "temp \<noteq> 0"
  defines "u \<equiv> VirtualToPhysical cfg temp"
  shows "role u = None" and "u AND MAXPHYADDRMASKPB cfg = u" and "page_aligned u" and "mm_inv m"
    and "\<exists>rs. owns blocks valid_region (taken m) rs \<and>
      (\<forall>t \<in> insert u (dom role). \<exists>a. (a, 4096) \<in> set rs \<and> t = VirtualToPhysical cfg a)"
proof -
  obtain rs where inv: "mm_inv (ept_mm s)" and rs: "owns blocks valid_region (taken (ept_mm s)) rs"
    and dom: "\<forall>t \<in> dom role. \<exists>a. (a, 4096) \<in> set rs \<and> t = VirtualToPhysical cfg a"
    using assms(1) unfolding ept_inv_def by blast
  have new: "mm_inv m" "owns blocks valid_region (taken m) ((temp, 4096) # rs)"
    using mm2.owns_alloc [OF inv mm_page_size assms(3,4) rs] by simp_all
  then show "mm_inv m" by simp
  have valid: "valid_region temp 4096" using new(2) by (simp add: owns_Cons)
  then show u: "u AND MAXPHYADDRMASKPB cfg = u" using assms(2) unfolding config_ok_def u_def by blast
  then show "page_aligned u" by (rule masked_page_aligned [OF assms(2)])
  show "\<exists>rs. owns blocks valid_region (taken m) rs \<and>
      (\<forall>t \<in> insert u (dom role). \<exists>a. (a, 4096) \<in> set rs \<and> t = VirtualToPhysical cfg a)"
    using new(2) dom by (intro exI [of _ "(temp, 4096) # rs"]) (auto simp: u_def)
  have "u \<notin> dom role"
  proof
    assume "u \<in> dom role"
    then obtain a where a: "(a, 4096) \<in> set rs" "u = VirtualToPhysical cfg a" using dom by blast
    then have "valid_region a 4096" using rs by (auto simp: owns_def)
    then have "a = temp" using valid a(2) assms(2) unfolding u_def config_ok_def by (auto dest: inj_onD)
    then show False using new(2) a(1) by (simp add: owns_def)
  qed
  then show "role u = None" by blast
qed

lemma full_access_bits:
  "full_access e AND 7 = 7" "bit (full_access e) 0" "bit (full_access e) 7 \<longleftrightarrow> bit e 7"
  "drop_bit 3 (full_access e) = drop_bit 3 e"
proof -
  show "full_access e AND 7 = 7"
    by (rule bit_eqI) (auto simp: full_access_def bit_simps bit_numeral_rec less_Suc_eq numeral_eq_Suc)
  show "drop_bit 3 (full_access e) = drop_bit 3 e"
    by (rule bit_eqI) (auto simp: full_access_def bit_simps)
qed (simp_all add: full_access_def bit_simps)

lemma masked_full_access:
  assumes "config_ok cfg w"
  shows "full_access e AND MAXPHYADDRMASKPB cfg = e AND MAXPHYADDRMASKPB cfg"
  using assms by (intro bit_eqI) (auto simp: config_ok_def full_access_def bit_simps)

text \<open>The new table is empty, and clearing it leaves the other tables alone.\<close>

definition cleared :: "u64 \<Rightarrow> (u64 \<Rightarrow> u64) \<Rightarrow> u64 \<Rightarrow> u64" where
  "cleared u q = (\<lambda>x. if x - u < 4096 then 0 else q x)"

lemma cleared_entries:
  assumes "tables_ok pb roots role q" and "page_aligned u" and "role u = None"
  shows "serves role v x k b \<Longrightarrow> cleared u q (entry_address v k b) = q (entry_address v k b)"
    and "cleared u q (entry_address u k b) = 0"
proof -
  show "cleared u q (entry_address u k b) = 0"
    using entry_in_page [OF assms(2,2), of k b] by (simp add: cleared_def)
  assume v: "serves role v x k b"
  then have "v \<noteq> u" using assms(3) by auto
  then show "cleared u q (entry_address v k b) = q (entry_address v k b)"
    using entry_in_page [OF assms(2) tables_okD(2) [OF assms(1) v], of k b] by (simp add: cleared_def)
qed

lemma new_role: "role u = None \<Longrightarrow> role \<subseteq>\<^sub>m role(u \<mapsto> x)"
  by (auto simp: map_le_def dom_def)

lemma tables_ok_new:
  assumes ok: "tables_ok pb roots role q" and u: "page_aligned u" "role u = None" "u AND pb = u"
    and r: "r \<in> roots" "1 \<le> l" "l \<le> 4"
  shows "tables_ok pb roots (role(u \<mapsto> (r, l, p))) (cleared u q)"
proof -
  let ?role = "role(u \<mapsto> (r, l, p))"
  have "entry_ok pb ?role x k b (cleared u q (entry_address v k b))" if "serves ?role v x k b" for v x k b
  proof (cases "v = u")
    case True
    then show ?thesis by (simp add: cleared_entries [OF ok u(1,2)] entry_ok_def)
  next
    case False
    then have v: "serves role v x k b" using that by simp
    show ?thesis
      unfolding cleared_entries(1) [OF ok u(1,2) v] by (rule entry_ok_mono [OF tables_okD(6) [OF ok v] new_role [where role = role and u = u, OF u(2)]])
  qed
  moreover have "\<forall>x \<in> roots. ?role x = Some (x, 4, 0)" using ok u(2) unfolding tables_ok_def by auto
  moreover have "v AND pb = v \<and> page_aligned v \<and> x \<in> roots \<and> 1 \<le> k \<and> k \<le> 4" if "?role v = Some (x, k, p')" for v x k p'
    using that u r ok [unfolded tables_ok_def, THEN conjunct2, THEN conjunct1, rule_format, of v x k p']
    by (cases "v = u") simp_all
  ultimately show ?thesis unfolding tables_ok_def by blast
qed

text \<open>An empty table under an entry that allowed nothing: no address is translated differently.\<close>

lemma empty_table_walk:
  assumes ok: "tables_ok pb roots role q" and a: "a < 2 ^ 48" and r: "r \<in> roots"
    and lead: "leads pb q a 4 r l t" and l: "2 \<le> l" and empty: "q (entry_address t l a) AND 7 = 0"
    and agree: "agrees role (entry_address t l a) q q'"
    and e: "q' (entry_address t l a) AND 7 = 7" "\<not> bit (q' (entry_address t l a)) 7"
    and new: "\<And>b. q' (entry_address (q' (entry_address t l a) AND pb) (l - 1) b) = 0"
    and b: "r' \<in> roots" "b < 2 ^ 48"
  shows "ept_walk pb q' b 4 r' 7 = ept_walk pb q b 4 r' 7"
proof (cases "r' = r \<and> drop_bit (level_shift l) b = drop_bit (level_shift l) a")
  case True
  note walk = change_walk(3) [OF ok a r lead]
  have "ept_walk pb q' b (l - 1) (q' (entry_address t l a) AND pb) access = None" for access
    using l new by (simp add: walk_entry)
  then have "ept_walk pb q' b 4 r 7 = None"
    using walk [OF agree, of b] True l e by (simp add: walk_entry Let_def)
  moreover have "ept_walk pb q b 4 r 7 = None"
    using walk [of q b] True l empty by (simp add: agrees_def walk_entry Let_def)
  ultimately show ?thesis using True by simp
next
  case False
  then show ?thesis using change_walk(2) [OF ok a r lead agree b] by blast
qed

text \<open>What one step of \<open>EPTMapPhysicalMemory\<close> to the next table achieves.\<close>

definition links_to :: "ept_config \<Rightarrow> u64 set \<Rightarrow> roles \<Rightarrow> ept_memory \<Rightarrow> u64 \<Rightarrow> u64 \<Rightarrow> nat \<Rightarrow> u64 \<Rightarrow> bool" where
  "links_to cfg roots role s a r l t \<longleftrightarrow>
     ept_inv cfg roots role s \<and> leads (MAXPHYADDRMASKPB cfg) (qwords s) a 4 r l t"

abbreviation same_walks :: "ept_config \<Rightarrow> u64 set \<Rightarrow> ept_memory \<Rightarrow> ept_memory \<Rightarrow> bool" where
  "same_walks cfg roots s s' \<equiv> \<forall>r \<in> roots. \<forall>b < 2 ^ 48.
     ept_walk (MAXPHYADDRMASKPB cfg) (qwords s') b 4 r 7 = ept_walk (MAXPHYADDRMASKPB cfg) (qwords s) b 4 r 7"

lemma link_table_inv:
  assumes inv: "links_to cfg roots role s a r l t" and cfg: "config_ok cfg w" and a: "a < 2 ^ 48" and r: "r \<in> roots"
    and l: "2 \<le> l" and empty: "qwords s (entry_address t l a) AND 7 = 0"
    and link: "link_table cfg (entry_address t l a) s = Some s'"
  shows "\<exists>role'. links_to cfg roots role' s' a r (l - 1) (qwords s' (entry_address t l a) AND MAXPHYADDRMASKPB cfg) \<and>
    same_walks cfg roots s s'"
proof -
  let ?pb = "MAXPHYADDRMASKPB cfg" and ?ea = "entry_address t l a"
  have inv: "ept_inv cfg roots role s" "leads ?pb (qwords s) a 4 r l t" using inv by (simp_all add: links_to_def)
  have ok: "tables_ok ?pb roots role (qwords s)" using inv by (simp add: ept_inv_def)
  have t: "serves role t r l a" by (rule leads_serves [OF inv(2) ok roots_serve [OF ok r a]])
  obtain temp m where mm: "malloc2 4096 (ept_mm s) = (temp, m)" by fastforce
  then have temp: "temp \<noteq> 0" using link by (auto simp: link_table_def Let_def split: if_splits)
  define u where "u = VirtualToPhysical cfg temp"
  note fresh = fresh_table [OF inv(1) cfg mm temp, folded u_def]
  let ?e = "full_access (u AND ?pb)" and ?role = "role(u \<mapsto> (r, l - 1, drop_bit (level_shift l) a))"
  define q where "q = (cleared u (qwords s))(?ea := ?e)"
  have s': "s' = s\<lparr>ept_mm := m, qwords := q\<rparr>"
    using link mm temp by (simp add: link_table_def Let_def write_entry_def u_def q_def cleared_def)
  have e: "?e AND 7 = 7" "?e AND ?pb = u" "\<not> bit ?e 7"
    using full_access_bits masked_low_bits [OF cfg fresh(2)] masked_full_access [OF cfg] fresh(2) by simp_all
  have ea: "q ?ea = ?e" by (simp add: q_def)
  have l': "1 \<le> l - 1" "l - 1 \<le> 4" "Suc (l - 1) = l" using l tables_okD(5) [OF ok t] by simp_all
  have "tables_ok ?pb roots ?role (cleared u (qwords s))"
    by (rule tables_ok_new [OF ok fresh(3,1,2) r l'(1,2)])
  then have ok': "tables_ok ?pb roots ?role q"
    unfolding q_def
  proof (rule entry_ok_write)
    show "serves ?role t r l a" using t fresh(1) by auto
    show "entry_ok ?pb ?role r l a ?e" using e l' by (simp add: entry_ok_def)
  qed
  have agree: "agrees role ?ea (qwords s) q"
    using cleared_entries(1) [OF ok fresh(3,1)] by (simp add: agrees_def q_def)
  have "u \<noteq> t" using t fresh(1) by auto
  then have "entry_address u k b \<noteq> ?ea" for k b
    using entry_address_eq(1) [OF fresh(3) tables_okD(2) [OF ok t]] by blast
  then have new: "q (entry_address u (l - 1) b) = 0" for b
    using cleared_entries(2) [OF ok fresh(3,1)] by (simp add: q_def)
  have "leads ?pb q a l t (l - 1) u"
    using leads.down [of q t "l - 1" a ?e ?pb "l - 1" u] leads.here e ea l' l by simp
  then have "leads ?pb q a 4 r (l - 1) u" by (rule leads_trans [OF change_walk(1) [OF ok a r inv(2) agree]])
  moreover have "ept_inv cfg roots ?role s'"
    using ok' fresh(4,5) unfolding ept_inv_def s' by simp
  ultimately have "links_to cfg roots ?role s' a r (l - 1) (qwords s' ?ea AND ?pb)"
    by (simp add: links_to_def s' ea e(2))
  moreover have "same_walks cfg roots s s'"
  proof (intro ballI allI impI)
    fix r' b :: u64 assume b: "r' \<in> roots" "b < 2 ^ 48"
    show "ept_walk ?pb (qwords s') b 4 r' 7 = ept_walk ?pb (qwords s) b 4 r' 7"
      using empty_table_walk [OF ok a r inv(2) l empty agree _ _ _ b] e new by (simp add: s' ea)
  qed
  ultimately show ?thesis by blast
qed

section \<open>Leaves\<close>

abbreviation same_page :: "nat \<Rightarrow> u64 \<Rightarrow> u64 \<Rightarrow> bool" where
  "same_page l a b \<equiv> drop_bit (level_shift l) b = drop_bit (level_shift l) a"

lemma bit_access_mask: "bit (7 :: u64) n \<longleftrightarrow> n < 3" "bit (7 :: int) n \<longleftrightarrow> n < 3"
proof -
  have seven: "(7 :: u64) = mask 3" "(7 :: int) = mask 3" by (simp_all add: mask_eq_exp_minus_1)
  show "bit (7 :: u64) n \<longleftrightarrow> n < 3" "bit (7 :: int) n \<longleftrightarrow> n < 3" unfolding seven bit_mask_iff by auto
qed

lemma bit_memtype_mask: "bit (0x38 :: u64) n \<longleftrightarrow> 3 \<le> n \<and> n < 6" "bit (0x38 :: int) n \<longleftrightarrow> 3 \<le> n \<and> n < 6"
proof -
  have eq: "(0x38 :: u64) = push_bit 3 7" "(0x38 :: int) = push_bit 3 7" by (simp_all add: push_bit_eq_mult)
  show "bit (0x38 :: u64) n \<longleftrightarrow> 3 \<le> n \<and> n < 6" "bit (0x38 :: int) n \<longleftrightarrow> 3 \<le> n \<and> n < 6"
    unfolding eq bit_push_bit_iff bit_access_mask by auto
qed

lemma set_memtype_bits:
  "set_memtype ty e AND 7 = e AND 7" "bit (set_memtype ty e) 0 \<longleftrightarrow> bit e 0" "bit (set_memtype ty e) 7 \<longleftrightarrow> bit e 7"
  "drop_bit 3 (set_memtype ty e) AND 7 = word_of_int ty AND 7"
proof -
  show "set_memtype ty e AND 7 = e AND 7" "bit (set_memtype ty e) 0 \<longleftrightarrow> bit e 0" "bit (set_memtype ty e) 7 \<longleftrightarrow> bit e 7"
    by (auto intro!: bit_eqI simp: set_memtype_def bit_access_mask bit_memtype_mask bit_simps)
  show "drop_bit 3 (set_memtype ty e) AND 7 = word_of_int ty AND 7"
    unfolding set_memtype_def
    by (rule bit_eqI) (simp only: bit_and_iff bit_or_iff bit_drop_bit_eq bit_not_iff bit_push_bit_iff comp_apply
      bit_access_mask bit_memtype_mask, auto simp: bit_simps)
qed

lemma masked_set_memtype:
  assumes "config_ok cfg w"
  shows "set_memtype ty e AND MAXPHYADDRMASKPB cfg = e AND MAXPHYADDRMASKPB cfg"
  using assms by (intro bit_eqI) (auto simp: config_ok_def set_memtype_def bit_access_mask bit_memtype_mask bit_simps)

lemma write_entry_inv:
  assumes s: "links_to cfg roots role s a r l t" and a: "a < 2 ^ 48" and r: "r \<in> roots"
    and e: "e AND 7 = 0 \<or> is_leaf l e \<and> (e AND 7 = 7 \<or> l = 1)"
  shows "links_to cfg roots role (write_entry (entry_address t l a) e s) a r l t"
    and "r' \<in> roots \<Longrightarrow> b < 2 ^ 48 \<Longrightarrow>
      ept_walk (MAXPHYADDRMASKPB cfg) (qwords (write_entry (entry_address t l a) e s)) b 4 r' 7 =
        (if r' = r \<and> same_page l a b
         then if e AND 7 = 0 then None else Some (l, entry_address t l a, e, 7 AND e)
         else ept_walk (MAXPHYADDRMASKPB cfg) (qwords s) b 4 r' 7)"
proof -
  let ?pb = "MAXPHYADDRMASKPB cfg" and ?ea = "entry_address t l a"
  have inv: "ept_inv cfg roots role s" and lead: "leads ?pb (qwords s) a 4 r l t" using s by (simp_all add: links_to_def)
  have ok: "tables_ok ?pb roots role (qwords s)" using inv by (simp add: ept_inv_def)
  have t: "serves role t r l a" by (rule leads_serves [OF lead ok roots_serve [OF ok r a]])
  have "entry_ok ?pb role r l a e" using e by (auto simp: entry_ok_def)
  then have ok': "tables_ok ?pb roots role ((qwords s)(?ea := e))" by (rule entry_ok_write [OF ok t])
  note walk = change_walk [OF ok a r lead agrees_write [of role ?ea "qwords s" e]]
  show "links_to cfg roots role (write_entry ?ea e s) a r l t"
    using inv ok' walk(1) unfolding links_to_def ept_inv_def write_entry_def by simp
  assume b: "r' \<in> roots" "b < 2 ^ 48"
  show "ept_walk ?pb (qwords (write_entry ?ea e s)) b 4 r' 7 =
        (if r' = r \<and> same_page l a b
         then if e AND 7 = 0 then None else Some (l, ?ea, e, 7 AND e)
         else ept_walk ?pb (qwords s) b 4 r' 7)"
    using walk(2) [OF b] walk(3) [of b] e walk_entry [OF tables_okD(4) [OF ok t]]
    by (auto simp: write_entry_def Let_def)
qed

text \<open>The entry on the way decides the walk of the address.\<close>

lemma links_to_walk:
  assumes "links_to cfg roots role s a r l t" and "a < 2 ^ 48" and "r \<in> roots"
  shows "ept_walk (MAXPHYADDRMASKPB cfg) (qwords s) a 4 r 7 = ept_walk (MAXPHYADDRMASKPB cfg) (qwords s) a l t 7"
    and "1 \<le> l" and "l \<le> 4"
    and "qwords s (entry_address t l a) AND 7 \<noteq> 0 \<Longrightarrow> l \<noteq> 1 \<Longrightarrow> qwords s (entry_address t l a) AND 7 = 7"
proof -
  have lead: "leads (MAXPHYADDRMASKPB cfg) (qwords s) a 4 r l t" and ok: "tables_ok (MAXPHYADDRMASKPB cfg) roots role (qwords s)"
    using assms(1) by (simp_all add: links_to_def ept_inv_def)
  have t: "serves role t r l a" by (rule leads_serves [OF lead ok roots_serve [OF ok assms(3,2)]])
  show "ept_walk (MAXPHYADDRMASKPB cfg) (qwords s) a 4 r 7 = ept_walk (MAXPHYADDRMASKPB cfg) (qwords s) a l t 7"
    using leads_walk [OF lead] by simp
  show "1 \<le> l" "l \<le> 4" using tables_okD(4,5) [OF ok t] by simp_all
  show "qwords s (entry_address t l a) AND 7 \<noteq> 0 \<Longrightarrow> l \<noteq> 1 \<Longrightarrow> qwords s (entry_address t l a) AND 7 = 7"
    using tables_okD(6) [OF ok t] by (simp add: entry_ok_def)
qed

text \<open>An entry that allows anything sends the walk on to its table.\<close>

lemma links_to_next:
  assumes "links_to cfg roots role s a r l t" and "qwords s (entry_address t l a) AND 7 = 7"
    and "2 \<le> l" and "\<not> (l < 4 \<and> bit (qwords s (entry_address t l a)) 7)"
  shows "links_to cfg roots role s a r (l - 1) (qwords s (entry_address t l a) AND MAXPHYADDRMASKPB cfg)"
proof -
  let ?pb = "MAXPHYADDRMASKPB cfg" and ?e = "qwords s (entry_address t l a)"
  have lead: "leads ?pb (qwords s) a 4 r l t" using assms(1) by (simp add: links_to_def)
  have "leads ?pb (qwords s) a l t (l - 1) (?e AND ?pb)"
    using leads.down [of "qwords s" t "l - 1" a ?e ?pb "l - 1" "?e AND ?pb"] leads.here assms(2-4) by simp
  then show ?thesis using leads_trans [OF lead] assms(1) by (simp add: links_to_def)
qed

lemma bit0_and_7: "x AND 7 = 7 \<Longrightarrow> bit x 0" "x AND 7 = 0 \<Longrightarrow> \<not> bit x 0" for x :: u64
proof -
  have "bit (x AND 7) 0 \<longleftrightarrow> bit x 0" by (simp add: bit_simps)
  then show "x AND 7 = 7 \<Longrightarrow> bit x 0" "x AND 7 = 0 \<Longrightarrow> \<not> bit x 0" by auto
qed

section \<open>The steps of EPTMapPhysicalMemory\<close>

abbreviation ept_walk_of :: "ept_config \<Rightarrow> ept_memory \<Rightarrow> u64 \<Rightarrow> u64 \<Rightarrow> ept_leaf option" where
  "ept_walk_of cfg s r b \<equiv> ept_walk (MAXPHYADDRMASKPB cfg) (qwords s) b 4 r 7"

text \<open>The first address of the page of level \<open>l\<close>, as the code computes it.\<close>

definition page_start :: "ept_config \<Rightarrow> nat \<Rightarrow> u64 \<Rightarrow> u64" where
  "page_start cfg l a = a AND NOT (mask (level_shift l)) AND MAXPHYADDRMASKPB cfg"

text \<open>The walks after a step that changed those of one page only.\<close>

definition walks_after :: "ept_config \<Rightarrow> u64 set \<Rightarrow> u64 \<Rightarrow> nat \<Rightarrow> u64 \<Rightarrow> ept_leaf option \<Rightarrow> ept_memory \<Rightarrow> ept_memory \<Rightarrow> bool" where
  "walks_after cfg roots r l a w s s' \<longleftrightarrow> (\<forall>r' \<in> roots. \<forall>b < 2 ^ 48.
     ept_walk_of cfg s' r' b = (if r' = r \<and> same_page l a b then w else ept_walk_of cfg s r' b))"

lemma walks_after_same: "walks_after cfg roots r l a x s s1 \<Longrightarrow> same_walks cfg roots s1 s' \<Longrightarrow> walks_after cfg roots r l a x s s'"
  by (simp add: walks_after_def)

lemma ept_walk_level: "ept_walk pb q b l t access = Some (k, x) \<Longrightarrow> 1 \<le> k \<and> k \<le> l"
proof (induction l arbitrary: t access)
  case (Suc l)
  then show ?case by (fastforce simp: Let_def split: if_splits)
qed simp

text \<open>The entry of the page, as a fresh mapping with the type the memory ranges give.\<close>

definition fresh_leaf :: "ept_config \<Rightarrow> nat \<Rightarrow> u64 \<Rightarrow> u64 \<Rightarrow> bool" where
  "fresh_leaf cfg l a e \<longleftrightarrow> e AND MAXPHYADDRMASKPB cfg = page_start cfg l a \<and> e AND 7 = 7 \<and>
     (\<exists>ty. getMTRRMapInfo (MTRRDefType cfg) (mtrr_ranges cfg) (page_start cfg l a) (push_bit (level_shift l) 1) = (True, ty) \<and>
        drop_bit 3 e AND 7 = word_of_int ty AND 7)"

text \<open>The large page that covers an address, if any.\<close>

definition large_page :: "ept_config \<Rightarrow> ept_memory \<Rightarrow> u64 \<Rightarrow> u64 \<Rightarrow> nat \<Rightarrow> bool" where
  "large_page cfg s r a l \<longleftrightarrow> 2 \<le> l \<and> l < 4 \<and> (\<exists>x. ept_walk_of cfg s r a = Some (l, x))"

text \<open>What the address was mapped to decides what it is mapped to.\<close>

definition leaf_after :: "ept_config \<Rightarrow> u64 \<Rightarrow> ept_leaf option \<Rightarrow> nat \<Rightarrow> u64 \<Rightarrow> bool" where
  "leaf_after cfg a old l e \<longleftrightarrow>
     (case old of Some (k, _, e', _) \<Rightarrow> if k = 1 \<and> bit e' 0 then l = 1 \<and> e = full_access e' else fresh_leaf cfg l a e
      | None \<Rightarrow> fresh_leaf cfg l a e)"

text \<open>The walks with the large pages of some levels removed, and with a new page.\<close>

definition walks_lost :: "ept_config \<Rightarrow> u64 set \<Rightarrow> u64 \<Rightarrow> u64 \<Rightarrow> nat set \<Rightarrow> ept_memory \<Rightarrow> ept_memory \<Rightarrow> bool" where
  "walks_lost cfg roots r a lost s s' \<longleftrightarrow> (\<forall>r' \<in> roots. \<forall>b < 2 ^ 48.
     ept_walk_of cfg s' r' b = (if r' = r \<and> (\<exists>k \<in> lost. same_page k a b) then None else ept_walk_of cfg s r' b))"

definition walks_mapped :: "ept_config \<Rightarrow> u64 set \<Rightarrow> u64 \<Rightarrow> u64 \<Rightarrow> nat set \<Rightarrow> nat \<Rightarrow> ept_leaf \<Rightarrow> ept_memory \<Rightarrow> ept_memory \<Rightarrow> bool" where
  "walks_mapped cfg roots r a lost l leaf s s' \<longleftrightarrow> (\<forall>r' \<in> roots. \<forall>b < 2 ^ 48.
     ept_walk_of cfg s' r' b =
       (if r' = r \<and> same_page l a b then Some leaf
        else if r' = r \<and> (\<exists>k \<in> lost. same_page k a b) then None
        else ept_walk_of cfg s r' b))"

lemma walks_lost_then:
  assumes "walks_lost cfg roots r a lost s s1"
  shows "same_walks cfg roots s1 s' \<Longrightarrow> walks_lost cfg roots r a lost s s'"
    and "walks_after cfg roots r k a None s1 s' \<Longrightarrow> walks_lost cfg roots r a (insert k lost) s s'"
    and "walks_after cfg roots r l a (Some leaf) s1 s' \<Longrightarrow> walks_mapped cfg roots r a lost l leaf s s'"
proof -
  have lost: "ept_walk_of cfg s1 r' b = (if r' = r \<and> (\<exists>k \<in> lost. same_page k a b) then None else ept_walk_of cfg s r' b)"
    if "r' \<in> roots" "b < 2 ^ 48" for r' b
    using assms that unfolding walks_lost_def by blast
  show "walks_lost cfg roots r a lost s s'" if "same_walks cfg roots s1 s'"
    unfolding walks_lost_def by (intro ballI allI impI) (use lost that in simp)
  show "walks_lost cfg roots r a (insert k lost) s s'" if "walks_after cfg roots r k a None s1 s'"
    unfolding walks_lost_def by (intro ballI allI impI) (use lost that [unfolded walks_after_def] in auto)
  show "walks_mapped cfg roots r a lost l leaf s s'" if "walks_after cfg roots r l a (Some leaf) s1 s'"
    unfolding walks_mapped_def by (intro ballI allI impI) (use lost that [unfolded walks_after_def] in auto)
qed

lemma walks_lost_empty: "same_walks cfg roots s s' \<longleftrightarrow> walks_lost cfg roots r a {} s s'"
  by (simp add: walks_lost_def)

lemma walks_lost_at:
  assumes "walks_lost cfg roots r a lost s s'" and "r \<in> roots" and "a < 2 ^ 48"
  shows "ept_walk_of cfg s' r a = (if lost = {} then ept_walk_of cfg s r a else None)"
  using assms by (auto simp: walks_lost_def)

lemma map_pml4_step:
  assumes cfg: "config_ok cfg w" and a: "a < 2 ^ 48" and r: "r \<in> roots"
    and s: "links_to cfg roots role s a r 4 r" and step: "map_pml4 cfg (entry_address r 4 a) s = Some s'"
  shows "\<exists>role'. links_to cfg roots role' s' a r 3 (qwords s' (entry_address r 4 a) AND MAXPHYADDRMASKPB cfg) \<and>
    same_walks cfg roots s s'"
proof (cases "qwords s (entry_address r 4 a) AND 7 = 0")
  case True
  then show ?thesis
    using link_table_inv [OF s cfg a r _ True] step bit0_and_7(2) [OF True] by (simp add: map_pml4_def)
next
  case False
  then have "qwords s (entry_address r 4 a) AND 7 = 7" using links_to_walk(4) [OF s a r] by simp
  then show ?thesis
    using links_to_next [OF s] step bit0_and_7(1) by (auto simp: map_pml4_def)
qed

lemma page_leaf:
  assumes cfg: "config_ok cfg w" and a: "a < 2 ^ 48" and r: "r \<in> roots"
    and s: "links_to cfg roots role s a r l t" and leaf: "is_leaf l e" "e AND 7 = 7"
  shows "links_to cfg roots role (write_entry (entry_address t l a) e s) a r l t"
    and "walks_after cfg roots r l a (Some (l, entry_address t l a, e, 7)) s (write_entry (entry_address t l a) e s)"
  using write_entry_inv [OF s a r, of e] leaf by (auto simp: walks_after_def and_7_eq)

lemma large_entry:
  assumes cfg: "config_ok cfg w" and a: "a < 2 ^ 48" and r: "r \<in> roots"
    and s: "links_to cfg roots role s a r l t" and l: "2 \<le> l" "l < 4"
  shows "large_page cfg s r a l \<longleftrightarrow> qwords s (entry_address t l a) AND 7 = 7 \<and> bit (qwords s (entry_address t l a)) 7"
proof -
  let ?ea = "entry_address t l a" and ?e = "qwords s (entry_address t l a)"
  have walk: "ept_walk_of cfg s r a =
      (if ?e AND 7 = 0 then None else if bit ?e 7 then Some (l, ?ea, ?e, 7 AND ?e)
       else ept_walk (MAXPHYADDRMASKPB cfg) (qwords s) a (l - 1) (?e AND MAXPHYADDRMASKPB cfg) (7 AND ?e))"
    using links_to_walk(1) [OF s a r] l by (simp add: walk_entry Let_def)
  have "ept_walk (MAXPHYADDRMASKPB cfg) (qwords s) a (l - 1) u access \<noteq> Some (l, x)" for u access x
    using l by (auto dest: ept_walk_level)
  then have "\<not> large_page cfg s r a l" if "\<not> bit ?e 7"
    using that unfolding large_page_def walk by simp
  then show ?thesis
    using walk links_to_walk(4) [OF s a r] l by (auto simp: large_page_def)
qed

text \<open>No entry: a large page if the memory types and the processor allow it, else a table.\<close>

lemma map_large_empty:
  assumes cfg: "config_ok cfg w" and a: "a < 2 ^ 48" and r: "r \<in> roots"
    and s: "links_to cfg roots role s a r l t" and l: "2 \<le> l" "l < 4"
    and empty: "qwords s (entry_address t l a) AND 7 = 0"
    and step: "map_large cfg big l a force (entry_address t l a) s = Some (mapped, s')"
  shows "if mapped then \<exists>e. \<not> force \<and> links_to cfg roots role s' a r l t \<and> fresh_leaf cfg l a e \<and> bit e 7 \<and>
        walks_after cfg roots r l a (Some (l, entry_address t l a, e, 7)) s s'
    else \<exists>role'. links_to cfg roots role' s' a r (l - 1) (qwords s' (entry_address t l a) AND MAXPHYADDRMASKPB cfg) \<and>
        same_walks cfg roots s s'"
proof -
  let ?ea = "entry_address t l a"
  note no = bit0_and_7(2) [OF empty]
  obtain full ty where info: "getMTRRMapInfo (MTRRDefType cfg) (mtrr_ranges cfg) (page_start cfg l a) (push_bit (level_shift l) 1) = (full, ty)"
    by fastforce
  show ?thesis
  proof (cases "big \<and> \<not> force \<and> full")
    case True
    define e where "e = set_memtype ty (set_bit 7 (full_access (page_start cfg l a)))"
    have set7: "set_bit 7 x AND 7 = x AND 7" "set_bit 7 x AND MAXPHYADDRMASKPB cfg = x AND MAXPHYADDRMASKPB cfg" for x :: u64
      using cfg by (auto intro!: bit_eqI simp: bit_simps bit_access_mask config_ok_def)
    have "page_start cfg l a AND MAXPHYADDRMASKPB cfg = page_start cfg l a" by (simp add: page_start_def and.assoc)
    then have "e AND MAXPHYADDRMASKPB cfg = page_start cfg l a"
      unfolding e_def masked_set_memtype [OF cfg] set7 masked_full_access [OF cfg] .
    moreover have e7: "e AND 7 = 7" unfolding e_def set_memtype_bits set7 full_access_bits ..
    moreover have "drop_bit 3 e AND 7 = word_of_int ty AND 7" unfolding e_def set_memtype_bits ..
    ultimately have "fresh_leaf cfg l a e" using info True by (auto simp: fresh_leaf_def)
    moreover have big: "bit e 7" by (simp add: e_def set_memtype_bits bit_simps)
    moreover have "mapped" "s' = write_entry ?ea e s"
      using step no info True by (simp_all add: map_large_def Let_def e_def page_start_def)
    ultimately show ?thesis using page_leaf [OF cfg a r s _ e7] l True by auto
  next
    case False
    then have "\<not> mapped" "link_table cfg ?ea s = Some s'"
      using step no info by (auto simp: map_large_def Let_def page_start_def)
    then show ?thesis using link_table_inv [OF s cfg a r l(1) empty] by simp
  qed
qed

lemma map_large_step:
  assumes cfg: "config_ok cfg w" and a: "a < 2 ^ 48" and r: "r \<in> roots"
    and s: "links_to cfg roots role s a r l t" and l: "2 \<le> l" "l < 4"
    and small: "force \<or> \<not> large_page cfg s r a l"
    and step: "map_large cfg big l a force (entry_address t l a) s = Some (mapped, s')"
  shows "if mapped then \<exists>e. \<not> force \<and> links_to cfg roots role s' a r l t \<and> fresh_leaf cfg l a e \<and> bit e 7 \<and>
        ept_walk_of cfg s r a = None \<and> walks_after cfg roots r l a (Some (l, entry_address t l a, e, 7)) s s'
    else \<exists>role'. links_to cfg roots role' s' a r (l - 1) (qwords s' (entry_address t l a) AND MAXPHYADDRMASKPB cfg) \<and>
        (if large_page cfg s r a l then walks_after cfg roots r l a None s s' else same_walks cfg roots s s')"
proof -
  let ?ea = "entry_address t l a" and ?e = "qwords s (entry_address t l a)"
  note large = large_entry [OF cfg a r s l]
  consider (large) "large_page cfg s r a l" | (table) "\<not> large_page cfg s r a l" "?e AND 7 = 7" | (empty) "?e AND 7 = 0"
    using links_to_walk(4) [OF s a r] l by auto
  then show ?thesis
  proof cases
    case large
    note e = large_entry [OF cfg a r s l, THEN iffD1, OF large]
    then have "force" using small large by simp
    let ?s = "write_entry ?ea 0 s"
    note cleared = write_entry_inv [OF s a r, of 0]
    have c: "links_to cfg roots role ?s a r l t" "walks_after cfg roots r l a None s ?s"
      using cleared by (simp_all add: walks_after_def)
    have zero: "qwords ?s ?ea = 0" by (simp add: write_entry_def)
    have "map_large cfg big l a force ?ea s = map_large cfg big l a force ?ea ?s"
      using e bit0_and_7(1) [of ?e] \<open>force\<close> by (simp add: map_large_def Let_def zero)
    then show ?thesis
      using map_large_empty [OF cfg a r c(1) l, of big force mapped s'] zero step \<open>force\<close> large walks_after_same [OF c(2)] by auto
  next
    case table
    then have "\<not> bit ?e 7" using large by simp
    moreover from this have "\<not> mapped" "s' = s" using step table(2) bit0_and_7(1) [of ?e] by (simp_all add: map_large_def Let_def)
    ultimately show ?thesis using links_to_next [OF s table(2) l(1)] table by auto
  next
    case empty
    then have "ept_walk_of cfg s r a = None" using links_to_walk(1) [OF s a r] l by (simp add: walk_entry Let_def)
    moreover have "\<not> large_page cfg s r a l" using large empty by simp
    ultimately show ?thesis using map_large_empty [OF cfg a r s l empty step] by auto
  qed
qed

lemma map_page_step:
  assumes cfg: "config_ok cfg w" and a: "a < 2 ^ 48" and r: "r \<in> roots"
    and s: "links_to cfg roots role s a r 1 t" and step: "map_page cfg a (entry_address t 1 a) s = Some s'"
  defines "old \<equiv> qwords s (entry_address t 1 a)"
  shows "\<exists>e. ept_inv cfg roots role s' \<and> walks_after cfg roots r 1 a (Some (1, entry_address t 1 a, e, 7)) s s' \<and>
    ept_walk_of cfg s r a = (if old AND 7 = 0 then None else Some (1, entry_address t 1 a, old, 7 AND old)) \<and>
    (if bit old 0 then e = full_access old else fresh_leaf cfg 1 a e)"
proof -
  let ?ea = "entry_address t 1 a"
  have walk: "ept_walk_of cfg s r a = (if old AND 7 = 0 then None else Some (1, ?ea, old, 7 AND old))"
    using links_to_walk(1) [OF s a r] by (simp add: walk_entry Let_def old_def)
  have leaf: "ept_inv cfg roots role (write_entry ?ea e s) \<and>
      walks_after cfg roots r 1 a (Some (1, ?ea, e, 7)) s (write_entry ?ea e s)" if "e AND 7 = 7" for e
    using page_leaf [OF cfg a r s _ that] by (simp add: links_to_def)
  show ?thesis
  proof (cases "bit old 0")
    case True
    then have "s' = write_entry ?ea (full_access old) s" using step by (simp add: map_page_def old_def)
    then show ?thesis using leaf [OF full_access_bits(1)] walk True by auto
  next
    case False
    have start: "page_start cfg 1 a = a AND MAXPHYADDRMASKPB cfg"
      using cfg by (intro bit_eqI) (auto simp: page_start_def level_shift_def config_ok_def bit_simps)
    obtain full ty where info: "getMTRRMapInfo (MTRRDefType cfg) (mtrr_ranges cfg) (page_start cfg 1 a) 0x1000 = (full, ty)"
      by fastforce
    note at_start = info [unfolded start]
    have full: "full" using step False at_start by (simp add: map_page_def old_def Let_def split: if_splits)
    define e where "e = set_memtype ty (full_access (page_start cfg 1 a))"
    have "page_start cfg 1 a AND MAXPHYADDRMASKPB cfg = page_start cfg 1 a" by (simp add: page_start_def and.assoc)
    then have "e AND MAXPHYADDRMASKPB cfg = page_start cfg 1 a"
      unfolding e_def masked_set_memtype [OF cfg] masked_full_access [OF cfg] .
    moreover have e7: "e AND 7 = 7" unfolding e_def set_memtype_bits full_access_bits ..
    moreover have "drop_bit 3 e AND 7 = word_of_int ty AND 7" unfolding e_def set_memtype_bits ..
    moreover have "push_bit (level_shift 1) 1 = (0x1000 :: u64)" by (simp add: level_shift_def push_bit_eq_mult)
    ultimately have "fresh_leaf cfg 1 a e" using info full by (simp add: fresh_leaf_def)
    moreover have "s' = write_entry ?ea e s"
      unfolding e_def start using step False at_start full by (simp add: map_page_def old_def Let_def)
    ultimately show ?thesis using leaf [OF e7] walk False by auto
  qed
qed

lemma map_large_lost:
  assumes cfg: "config_ok cfg w" and a: "a < 2 ^ 48" and r: "r \<in> roots"
    and s: "links_to cfg roots role s a r l t" and lost: "walks_lost cfg roots r a lost s0 s"
    and l: "2 \<le> l" "l < 4" and new: "l \<notin> lost" "lost \<subseteq> {k. large_page cfg s0 r a k}" "force \<or> lost = {}"
    and small: "force \<or> \<not> large_page cfg s0 r a l"
    and step: "map_large cfg big l a force (entry_address t l a) s = Some (mapped, s')"
  defines "lost' \<equiv> if large_page cfg s0 r a l then insert l lost else lost"
  shows "if mapped then \<exists>e. \<not> force \<and> ept_inv cfg roots role s' \<and> fresh_leaf cfg l a e \<and>
        lost' = lost \<and> ept_walk_of cfg s0 r a = None \<and> walks_mapped cfg roots r a lost l (l, entry_address t l a, e, 7) s0 s'
    else \<exists>role'. links_to cfg roots role' s' a r (l - 1) (qwords s' (entry_address t l a) AND MAXPHYADDRMASKPB cfg) \<and>
        walks_lost cfg roots r a lost' s0 s'"
proof -
  note at = walks_lost_at [OF lost r a]
  have large: "large_page cfg s r a l \<longleftrightarrow> large_page cfg s0 r a l"
  proof (cases "lost = {}")
    case True
    then show ?thesis using at by (simp add: large_page_def)
  next
    case False
    then obtain k where "k \<in> lost" "large_page cfg s0 r a k" using new(2) by blast
    then obtain x where "k \<in> lost" "ept_walk_of cfg s0 r a = Some (k, x)" unfolding large_page_def by blast
    then have "\<not> large_page cfg s0 r a l" using new(1) by (auto simp: large_page_def)
    then show ?thesis using at False by (simp add: large_page_def)
  qed
  have "force \<or> \<not> large_page cfg s r a l" using small large by simp
  note step = map_large_step [OF cfg a r s l this step]
  show ?thesis
  proof (cases mapped)
    case True
    then obtain e where e: "\<not> force" "ept_inv cfg roots role s'" "fresh_leaf cfg l a e" "ept_walk_of cfg s r a = None"
      "walks_after cfg roots r l a (Some (l, entry_address t l a, e, 7)) s s'"
      using step by (auto simp: links_to_def)
    have no: "\<not> large_page cfg s0 r a l" using small e(1) by simp
    moreover have "ept_walk_of cfg s0 r a = None" using at e(1,4) new(3) by simp
    ultimately show ?thesis
      using True e walks_lost_then(3) [OF lost e(5)] by (auto simp: lost'_def)
  next
    case False
    then obtain role' where "links_to cfg roots role' s' a r (l - 1) (qwords s' (entry_address t l a) AND MAXPHYADDRMASKPB cfg)"
      "if large_page cfg s r a l then walks_after cfg roots r l a None s s' else same_walks cfg roots s s'"
      using step by auto
    then show ?thesis
      using False large walks_lost_then(1,2) [OF lost] by (auto simp: lost'_def)
  qed
qed

lemma map_page_lost:
  assumes cfg: "config_ok cfg w" and a: "a < 2 ^ 48" and r: "r \<in> roots"
    and s: "links_to cfg roots role s a r 1 t" and lost: "walks_lost cfg roots r a {k. large_page cfg s0 r a k} s0 s"
    and step: "map_page cfg a (entry_address t 1 a) s = Some s'"
  shows "\<exists>e. ept_inv cfg roots role s' \<and> leaf_after cfg a (ept_walk_of cfg s0 r a) 1 e \<and>
    walks_mapped cfg roots r a {k. large_page cfg s0 r a k} 1 (1, entry_address t 1 a, e, 7) s0 s'"
proof -
  let ?ea = "entry_address t 1 a"
  define old where "old = qwords s ?ea"
  obtain e where e: "ept_inv cfg roots role s'" "walks_after cfg roots r 1 a (Some (1, ?ea, e, 7)) s s'"
    "ept_walk_of cfg s r a = (if old AND 7 = 0 then None else Some (1, ?ea, old, 7 AND old))"
    "if bit old 0 then e = full_access old else fresh_leaf cfg 1 a e"
    using map_page_step [OF cfg a r s step] unfolding old_def by blast
  note at = walks_lost_at [OF lost r a]
  have "leaf_after cfg a (ept_walk_of cfg s0 r a) 1 e"
  proof (cases "{k. large_page cfg s0 r a k} = {}")
    case True
    then have eq: "ept_walk_of cfg s0 r a = (if old AND 7 = 0 then None else Some (1, ?ea, old, 7 AND old))"
      using at e(3) by simp
    show ?thesis unfolding leaf_after_def eq using e(4) bit0_and_7(2) [of old] by (auto split: if_splits)
  next
    case False
    then obtain k x where "k \<noteq> 1" "ept_walk_of cfg s0 r a = Some (k, x)"
      unfolding large_page_def by force
    moreover have "old AND 7 = 0" using e(3) at False by (auto split: if_splits)
    ultimately show ?thesis using e(4) bit0_and_7(2) [of old] by (cases x) (auto simp: leaf_after_def)
  qed
  then show ?thesis using e(1) walks_lost_then(3) [OF lost e(2)] by blast
qed

lemma EPTMapPhysicalMemory_walks:
  assumes cfg: "config_ok cfg w" and a: "a < 2 ^ 48" and r: "r \<in> roots"
    and inv: "ept_inv cfg roots role s" and small: "force \<or> (\<forall>k. \<not> large_page cfg s r a k)"
    and step: "EPTMapPhysicalMemory cfg r a force s = Some (ea, s')"
  shows "\<exists>role' l e. ept_inv cfg roots role' s' \<and> 1 \<le> l \<and> l < 4 \<and> (force \<longrightarrow> l = 1) \<and>
    leaf_after cfg a (ept_walk_of cfg s r a) l e \<and>
    walks_mapped cfg roots r a {k. large_page cfg s r a k} l (l, ea, e, 7) s s'"
proof -
  let ?pb = "MAXPHYADDRMASKPB cfg" and ?large = "{k. large_page cfg s r a k}"
  have levels: "large_page cfg s r a k \<Longrightarrow> k = 2 \<or> k = 3" for k by (auto simp: large_page_def)
  have s0: "links_to cfg roots role s a r 4 r" using inv leads.here by (simp add: links_to_def)
  obtain s1 where pml4: "map_pml4 cfg (entry_address r 4 a) s = Some s1"
    and step: "do {
        let pdpte = entry_address (qwords s1 (entry_address r 4 a) AND ?pb) 3 a;
        (mapped, s) \<leftarrow> map_large cfg (has_EPT_1GBsupport cfg) 3 a force pdpte s1;
        if mapped then Some (pdpte, s)
        else do {
          let pde = entry_address (qwords s pdpte AND ?pb) 2 a;
          (mapped, s) \<leftarrow> map_large cfg (has_EPT_2MBSupport cfg) 2 a force pde s;
          if mapped then Some (pde, s)
          else do {
            let pte = entry_address (qwords s pde AND ?pb) 1 a;
            s \<leftarrow> map_page cfg a pte s;
            Some (pte, s)
          }
        }} = Some (ea, s')"
    using step by (auto simp: EPTMapPhysicalMemory_def Let_def split: bind_splits)
  obtain role1 where s1: "links_to cfg roots role1 s1 a r 3 (qwords s1 (entry_address r 4 a) AND ?pb)"
    and l1: "walks_lost cfg roots r a {} s s1"
    using map_pml4_step [OF cfg a r s0 pml4] walks_lost_empty by blast
  let ?ea3 = "entry_address (qwords s1 (entry_address r 4 a) AND ?pb) 3 a"
  obtain m2 s2 where large3: "map_large cfg (has_EPT_1GBsupport cfg) 3 a force ?ea3 s1 = Some (m2, s2)"
    using step by (auto simp: Let_def split: bind_splits)
  have small3: "force \<or> \<not> large_page cfg s r a k" for k using small by blast
  note after3 = map_large_lost [OF cfg a r s1 l1 _ _ _ _ _ small3 large3]
  show ?thesis
  proof (cases m2)
    case True
    then have "ea = ?ea3" "s' = s2" using step large3 by (simp_all add: Let_def)
    moreover obtain e where "\<not> force" "ept_inv cfg roots role1 s2" "fresh_leaf cfg 3 a e" "ept_walk_of cfg s r a = None"
      "walks_mapped cfg roots r a {} 3 (3, ?ea3, e, 7) s s2"
      using after3 True by auto
    ultimately show ?thesis
      using small by (intro exI [of _ role1] exI [of _ 3] exI [of _ e]) (simp add: leaf_after_def)
  next
    case False
    define lost2 where "lost2 = (if large_page cfg s r a 3 then {3} else {} :: nat set)"
    obtain role2 where s2: "links_to cfg roots role2 s2 a r 2 (qwords s2 ?ea3 AND ?pb)"
      and l2: "walks_lost cfg roots r a lost2 s s2"
      using after3 False by (auto simp: lost2_def)
    let ?ea2 = "entry_address (qwords s2 ?ea3 AND ?pb) 2 a"
    obtain m3 s3 where large2: "map_large cfg (has_EPT_2MBSupport cfg) 2 a force ?ea2 s2 = Some (m3, s3)"
      using step large3 False by (auto simp: Let_def split: bind_splits)
    have new2: "2 \<notin> lost2" "lost2 \<subseteq> ?large" "force \<or> lost2 = {}" using small by (auto simp: lost2_def)
    note after2 = map_large_lost [OF cfg a r s2 l2 _ _ new2 small3 large2]
    show ?thesis
    proof (cases m3)
      case True
      then have "ea = ?ea2" "s' = s3" using step large3 large2 False by (simp_all add: Let_def)
      moreover obtain e where "\<not> force" "ept_inv cfg roots role2 s3" "fresh_leaf cfg 2 a e" "ept_walk_of cfg s r a = None"
        "walks_mapped cfg roots r a lost2 2 (2, ?ea2, e, 7) s s3"
        using after2 True by auto
      ultimately show ?thesis
        using small new2(3) by (intro exI [of _ role2] exI [of _ 2] exI [of _ e]) (simp add: leaf_after_def)
    next
      case m3: False
      have "?large = (if large_page cfg s r a 2 then insert 2 lost2 else lost2)"
        using levels by (auto simp: lost2_def)
      then obtain role3 where s3: "links_to cfg roots role3 s3 a r 1 (qwords s3 ?ea2 AND ?pb)"
        and l3: "walks_lost cfg roots r a ?large s s3"
        using after2 m3 by auto
      let ?ea1 = "entry_address (qwords s3 ?ea2 AND ?pb) 1 a"
      have page: "map_page cfg a ?ea1 s3 = Some s'" "ea = ?ea1"
        using step large3 large2 False m3 by (auto simp: Let_def split: bind_splits)
      show ?thesis
        using map_page_lost [OF cfg a r s3 l3 page(1)] page(2) by (elim exE conjE) (intro exI conjI; simp?)
    qed
  qed
qed


end
