(* ===== verification/EptMap.thy ===== *)
theory EptMap
  imports EptCorrect
begin

text \<open>
  What \<open>EPTMapPhysicalMemory\<close> of \<open>Ept\<close> means for the guest: the translation of every address on
  every CPU after it, and what it does to guest memory when a large page is in the way.
\<close>

section \<open>Translations\<close>

abbreviation translation :: "ept_config \<Rightarrow> ept_memory \<Rightarrow> u64 \<Rightarrow> u64 \<Rightarrow> (u64 \<times> u64 \<times> u64) option" where
  "translation cfg s r b \<equiv> ept_translate (MAXPHYADDRMASKPB cfg) (qwords s) r b"

text \<open>The walk is the same for all addresses of a page of 4 KB.\<close>

lemma walk_same_page:
  assumes "drop_bit 12 b = drop_bit 12 a"
  shows "ept_walk pb q b l t access = ept_walk pb q a l t access"
proof (induction l arbitrary: t access)
  case (Suc l)
  have "level_shift (Suc l) = 9 * l + 12" by (simp add: level_shift_def)
  then have "drop_bit (level_shift (Suc l)) b = drop_bit (level_shift (Suc l)) a"
    using assms by (metis drop_bit_drop_bit)
  then have "entry_address t (Suc l) b = entry_address t (Suc l) a" by (simp add: entry_address_def table_index_def)
  then show ?case using Suc by (simp add: Let_def)
qed simp

text \<open>The memory type of an address.\<close>

definition memory_type :: "ept_config \<Rightarrow> u64 \<Rightarrow> u64" where
  "memory_type cfg b = word_of_int (type_at (MTRRDefType cfg) (memoryranges (mtrr_ranges cfg)) (unat b)) AND 7"

lemma unat_page: "unat (push_bit n (drop_bit n b)) = unat b div 2 ^ n * 2 ^ n" for b :: u64
proof -
  have "unat b div 2 ^ n * 2 ^ n \<le> unat b" by (rule div_times_less_eq_dividend)
  also have "unat b < 2 ^ 64" using unsigned_less [of b] by simp
  finally have "take_bit 64 (unat b div 2 ^ n * 2 ^ n) = unat b div 2 ^ n * 2 ^ n" by (rule take_bit_nat_eq_self)
  then show ?thesis
    unfolding unsigned_push_bit_eq unat_drop_bit_eq by (simp add: push_bit_eq_mult drop_bit_eq_div)
qed

lemma page_span:
  assumes cfg: "config_ok cfg w" and a: "take_bit w a = a" and l: "1 \<le> l" "l < 4"
  defines "n \<equiv> push_bit (level_shift l) (1 :: u64)"
  shows "n \<noteq> 0" and "unat (page_start cfg l a) + unat n \<le> 2 ^ 63"
    and "same_page l a b \<Longrightarrow> unat b \<in> {unat (page_start cfg l a) ..< unat (page_start cfg l a) + unat n}"
    and "same_page l a b \<Longrightarrow> (page_start cfg l a AND NOT (mask (level_shift l))) OR take_bit (level_shift l) b = b"
proof -
  have sh: "12 \<le> level_shift l" "level_shift l \<le> 30" using l by (simp_all add: level_shift_def)
  have "l = 1 \<or> l = 2 \<or> l = 3" using l by auto
  then have n: "unat n = 2 ^ level_shift l" by (auto simp: n_def level_shift_def push_bit_eq_mult)
  then show "n \<noteq> 0" by auto
  have start: "page_start cfg l a = push_bit (level_shift l) (drop_bit (level_shift l) a)"
  proof (rule bit_eqI)
    fix k
    have "bit a k \<Longrightarrow> k < w" by (metis a bit_take_bit_iff)
    then show "bit (page_start cfg l a) k \<longleftrightarrow> bit (push_bit (level_shift l) (drop_bit (level_shift l) a)) k"
      using cfg sh by (auto simp: page_start_def config_ok_def bit_simps)
  qed
  have "unat a < 2 ^ w" by (metis a unat_take_bit_less)
  moreover have "(2 :: nat) ^ w \<le> 2 ^ 48" using cfg by (intro power_increasing) (simp_all add: config_ok_def)
  moreover have "(2 :: nat) ^ level_shift l \<le> 2 ^ 30" using sh by (intro power_increasing) simp_all
  ultimately show "unat (page_start cfg l a) + unat n \<le> 2 ^ 63"
    using div_times_less_eq_dividend [of "unat a" "2 ^ level_shift l"] unfolding start unat_page n
    by (simp del: div_times_less_eq_dividend)
  assume b: "same_page l a b"
  have "unat b = unat b div 2 ^ level_shift l * 2 ^ level_shift l + unat b mod 2 ^ level_shift l"
    by (rule div_mult_mod_eq [symmetric])
  moreover have "unat b mod 2 ^ level_shift l < 2 ^ level_shift l" by simp
  ultimately show "unat b \<in> {unat (page_start cfg l a) ..< unat (page_start cfg l a) + unat n}"
    unfolding start n b [symmetric] unat_page atLeastLessThan_iff by linarith
  show "(page_start cfg l a AND NOT (mask (level_shift l))) OR take_bit (level_shift l) b = b"
    unfolding start b [symmetric] by (rule bit_eqI) (auto simp: bit_simps)
qed

text \<open>A fresh page maps its addresses to themselves, with their memory type.\<close>

lemma fresh_leaf_translates:
  assumes cfg: "config_ok cfg w" and ranges: "ordered (memoryranges (mtrr_ranges cfg))"
    and a: "take_bit w a = a" and l: "1 \<le> l" "l < 4" and leaf: "fresh_leaf cfg l a e"
    and walk: "ept_walk_of cfg s r b = Some (l, ea, e, 7)" and b: "same_page l a b"
  shows "translation cfg s r b = Some (b, 7, memory_type cfg b)"
proof -
  note span = page_span [OF cfg a l]
  obtain ty where e: "e AND MAXPHYADDRMASKPB cfg = page_start cfg l a" "drop_bit 3 e AND 7 = word_of_int ty AND 7"
    and info: "getMTRRMapInfo (MTRRDefType cfg) (mtrr_ranges cfg) (page_start cfg l a) (push_bit (level_shift l) 1) = (True, ty)"
    using leaf by (auto simp: fresh_leaf_def)
  have "type_at (MTRRDefType cfg) (memoryranges (mtrr_ranges cfg)) (unat b) = ty"
    using map_info_exact [OF ranges span(1,2) info] span(3) [OF b] by blast
  moreover have "(e AND MAXPHYADDRMASKPB cfg AND NOT (mask (level_shift l))) OR take_bit (level_shift l) b = b"
    using span(4) [OF b] unfolding e(1) [symmetric] and.assoc .
  ultimately show ?thesis by (simp add: ept_translate_def walk e(2) memory_type_def)
qed

text \<open>A page of 4 KB that is readable already keeps its frame and type and gets all accesses.\<close>

definition readable_4K :: "ept_config \<Rightarrow> ept_memory \<Rightarrow> u64 \<Rightarrow> u64 \<Rightarrow> bool" where
  "readable_4K cfg s r a \<longleftrightarrow> (case ept_walk_of cfg s r a of Some (l, _, e, _) \<Rightarrow> l = 1 \<and> bit e 0 | None \<Rightarrow> False)"

lemma kept_leaf_translates:
  assumes cfg: "config_ok cfg w" and old: "ept_walk_of cfg s r a = Some (1, x, e, y)"
    and walk: "ept_walk_of cfg s' r b = Some (1, ea, full_access e, 7)" and b: "same_page 1 a b"
  shows "translation cfg s' r b = map_option (\<lambda>(h, _, ty). (h, 7, ty)) (translation cfg s r b)"
proof -
  have "ept_walk_of cfg s r b = Some (1, x, e, y)"
    using walk_same_page [of b a] b old by (simp add: level_shift_def)
  moreover have "full_access e AND MAXPHYADDRMASKPB cfg AND m = e AND MAXPHYADDRMASKPB cfg AND m" for m
    unfolding and.assoc [symmetric] masked_full_access [OF cfg] ..
  ultimately show ?thesis by (simp add: ept_translate_def walk full_access_bits)
qed

text \<open>
  C2: \<open>EPTMapPhysicalMemory\<close> keeps the tables of all CPUs well formed. The page it maps, of
  4 KB when a small page is forced, maps every address to itself with all accesses and the
  memory type of the MTRRs, or gets all accesses when it was a readable 4 KB page. When a
  large page was split, its other addresses are not mapped any more. No other address changes, on
  no CPU. The function must not be called without force for an address in a large page.
\<close>

theorem EPTMapPhysicalMemory_maps:
  assumes cfg: "config_ok cfg w" and ranges: "ordered (memoryranges (mtrr_ranges cfg))"
    and inv: "ept_inv cfg roots role s" and r: "r \<in> roots" and a: "take_bit w a = a"
    and small: "force \<or> (\<forall>k. \<not> large_page cfg s r a k)"
    and step: "EPTMapPhysicalMemory cfg r a force s = Some (ea, s')"
  shows "\<exists>role' l. ept_inv cfg roots role' s' \<and> (force \<longrightarrow> l = 1) \<and> 1 \<le> l \<and> l \<le> 3 \<and>
    (\<forall>r' \<in> roots. \<forall>b < 2 ^ 48. translation cfg s' r' b =
      (if r' = r \<and> same_page l a b
       then if readable_4K cfg s r a then map_option (\<lambda>(h, _, ty). (h, 7, ty)) (translation cfg s r b)
         else Some (b, 7, memory_type cfg b)
       else if r' = r \<and> (\<exists>k. large_page cfg s r a k \<and> same_page k a b) then None
       else translation cfg s r' b))"
proof -
  have "unat a < 2 ^ w" by (metis a unat_take_bit_less)
  moreover have "(2 :: nat) ^ w \<le> 2 ^ 48" using cfg by (intro power_increasing) (simp_all add: config_ok_def)
  ultimately have "a < 2 ^ 48" by (simp add: word_less_nat_alt)
  from EPTMapPhysicalMemory_walks [OF cfg this r inv small step]
  obtain role' l e where inv': "ept_inv cfg roots role' s'" and l: "1 \<le> l" "l < 4" "force \<longrightarrow> l = 1"
    and leaf: "leaf_after cfg a (ept_walk_of cfg s r a) l e"
    and walks: "walks_mapped cfg roots r a {k. large_page cfg s r a k} l (l, ea, e, 7) s s'"
    by blast
  have "translation cfg s' r' b =
      (if r' = r \<and> same_page l a b
       then if readable_4K cfg s r a then map_option (\<lambda>(h, _, ty). (h, 7, ty)) (translation cfg s r b)
         else Some (b, 7, memory_type cfg b)
       else if r' = r \<and> (\<exists>k. large_page cfg s r a k \<and> same_page k a b) then None
       else translation cfg s r' b)" if b: "r' \<in> roots" "b < 2 ^ 48" for r' b
  proof -
    have w: "ept_walk_of cfg s' r' b =
       (if r' = r \<and> same_page l a b then Some (l, ea, e, 7)
        else if r' = r \<and> (\<exists>k. large_page cfg s r a k \<and> same_page k a b) then None
        else ept_walk_of cfg s r' b)"
      using walks [unfolded walks_mapped_def, rule_format, OF b] unfolding Bex_def mem_Collect_eq .
    show ?thesis
    proof (cases "r' = r \<and> same_page l a b")
      case True
      show ?thesis
      proof (cases "readable_4K cfg s r a")
        case kept: True
        then obtain x old y where old: "ept_walk_of cfg s r a = Some (1, x, old, y)" "bit old 0"
          by (auto simp: readable_4K_def split: option.splits)
        then have "l = 1" "e = full_access old" using leaf by (simp_all add: leaf_after_def)
        then show ?thesis using kept_leaf_translates [OF cfg old(1), of s' b ea] w True kept by simp
      next
        case False
        then have "fresh_leaf cfg l a e"
          using leaf by (auto simp: leaf_after_def readable_4K_def split: option.splits if_splits)
        then show ?thesis
          using fresh_leaf_translates [OF cfg ranges a l(1,2), of e s' b r ea] w True False by simp
      qed
    next
      case False
      then show ?thesis using w by (auto simp: ept_translate_def)
    qed
  qed
  then show ?thesis using inv' l by (intro exI [of _ role'] exI [of _ l]) auto
qed

section \<open>An example\<close>

text \<open>One CPU with an empty PML4 in the first page of the heap.\<close>

definition example_ept :: ept_memory where
  "example_ept = \<lparr>ept_mm = example_mm\<lparr>AllocationInfoList := [-1, 0, 0, 0, -1]\<rparr>, qwords = \<lambda>_. 0\<rparr>"

definition example_config :: ept_config where
  "example_config = \<lparr>MAXPHYADDRMASKPB = 0xFFFFFF000, VirtualToPhysical = \<lambda>a. a - BASE_VIRTUAL_ADDRESS + 0x100000,
     has_EPT_1GBsupport = True, has_EPT_2MBSupport = True, MTRRDefType = 6,
     mtrr_ranges = \<lparr>memoryranges = [], memoryrangesLength = 10\<rparr>\<rparr>"

lemma example_table:
  "malloc2 4096 (ept_mm example_ept) = (0x1000001000, ept_mm example_ept\<lparr>AllocationInfoList := [-1, -1, 0, 0, -1]\<rparr>)"
proof -
  have b: "blocks_for 4096 = 64" by (simp add: blocks_for_def)
  have n: "neighbours_usable xs i m j 0" for xs i m j by (simp add: neighbours_usable.simps)
  have "scan_pages xs 4096 0 (Suc (Suc k)) = Some 1" if "xs ! 0 \<noteq> 0" "xs ! 1 = 0" for xs k
    using that n by simp
  from this [of "[-1, 0, 0, 0, -1]" 2] have scan: "scan_pages [-1, 0, 0, 0, -1] 4096 0 4 = Some 1" by simp
  have mark: "mark_range [-1, 0, 0, 0, -1] (Suc 0) 4096 = [-1, -1, 0, 0, -1]"
    using mark_pages.simps(2) [of "[-1, 0, 0, 0, -1]" 1 0] by (simp add: mark_range_def Let_def)
  show ?thesis
    by (simp add: malloc2_def b malloc2_large_def example_ept_def example_mm_def scan mark
        block_address_def BASE_VIRTUAL_ADDRESS_def)
qed

lemma example_config_ok: "config_ok example_config 36"
proof -
  have pb: "(0xFFFFFF000 :: u64) = mask 36 AND NOT (mask 12)" by (simp add: mask_eq_exp_minus_1)
  have page: "(a - BASE_VIRTUAL_ADDRESS + 0x100000) AND 0xFFFFFF000 = a - BASE_VIRTUAL_ADDRESS + 0x100000"
    if valid: "valid_region a 4096" for a
  proof -
    from valid obtain k where k: "k < 2 ^ 25" "a = block_at k" "unat (4096 :: u32) mod 4096 = 0 \<longrightarrow> k mod 64 = 0"
      unfolding valid_region_def by (elim exE conjE)
    then have "64 dvd k" by (simp add: mod_eq_0_iff_dvd)
    then obtain m where m: "k = 64 * m" by (elim dvdE)
    then have "m < 2 ^ 19" using k(1) by simp
    define x :: u64 where "x = of_nat (m + 256)"
    have "take_bit 24 x = x"
      using \<open>m < 2 ^ 19\<close> unfolding x_def
      by (simp add: word_eq_iff_unsigned [where ?'a = nat] unsigned_take_bit_eq unat_of_nat take_bit_nat_eq_self del: of_nat_add)
    then have bound: "bit x i \<Longrightarrow> i < 24" for i by (metis bit_take_bit_iff)
    have high: "i < 36" if "bit x (i - 12)" for i using bound [OF that] by simp
    have "a - BASE_VIRTUAL_ADDRESS + 0x100000 = push_bit 12 x"
      by (simp add: k(2) m block_at_def push_bit_eq_mult x_def algebra_simps)
    then show ?thesis
      unfolding pb by (auto intro!: bit_eqI simp: bit_simps dest: high)
  qed
  show ?thesis unfolding config_ok_def example_config_def
    using page pb by (auto simp: inj_on_def)
qed

abbreviation "example_roles \<equiv> [0x100000 \<mapsto> (0x100000, 4, 0)] :: roles"

lemma example_ept_inv: "ept_inv example_config {0x100000} example_roles example_ept"
proof -
  let ?xs = "[-1, 0, 0, 0, -1] :: u64 list"
  have b: "blocks_for 4096 = 64" by (simp add: blocks_for_def)
  have root: "VirtualToPhysical example_config (block_at 0) = 0x100000"
    by (simp add: example_config_def block_at_def)
  have valid: "valid_region (block_at 0) 4096"
    unfolding valid_region_def by (intro conjI exI [of _ 0] mm_page_size) simp_all
  have "used ?xs i" if "256 \<le> i" "i < 320" for i
  proof -
    have "i div 64 = 4" using that by (intro div_nat_eqI) simp_all
    then show ?thesis by (simp add: used_def)
  qed
  then have "mm_inv (ept_mm example_ept)"
    by (simp add: mm_inv_def mm_sizes_def example_ept_def example_mm_def)
  moreover have "used ?xs i" if "i < 64" for i using that by (simp add: used_def)
  then have "owns blocks valid_region (taken (ept_mm example_ept)) [(block_at 0, 4096)]"
    using valid b blocks_block_at [of 0 4096]
    by (auto simp: owns_def taken_def example_ept_def example_mm_def pairwise_def)
  then have "\<exists>rs. owns blocks valid_region (taken (ept_mm example_ept)) rs \<and>
       (\<forall>t \<in> dom example_roles. \<exists>a. (a, 4096) \<in> set rs \<and> t = VirtualToPhysical example_config a)"
    using root by (intro exI [of _ "[(block_at 0, 4096)]"]) auto
  moreover have "tables_ok (MAXPHYADDRMASKPB example_config) {0x100000} example_roles (qwords example_ept)"
    by (simp add: tables_ok_def example_ept_def example_config_def entry_ok_def page_aligned_def mask_simps)
  ultimately show ?thesis by (simp add: ept_inv_def)
qed

definition example_linked :: ept_memory where
  "example_linked = \<lparr>ept_mm = ept_mm example_ept\<lparr>AllocationInfoList := [-1, -1, 0, 0, -1]\<rparr>,
     qwords = (\<lambda>_. 0)(0x100000 := 0x101007)\<rparr>"

lemma example_link: "link_table example_config 0x100000 example_ept = Some example_linked"
proof -
  have "(\<lambda>x. if x - 0x101000 < 4096 then 0 else qwords example_ept x) = (\<lambda>_. 0)"
    by (auto simp: example_ept_def)
  moreover have "full_access (0x101000 AND MAXPHYADDRMASKPB example_config) = 0x101007"
    by (simp add: example_config_def full_access_def set_bit_eq_or)
  moreover have "VirtualToPhysical example_config 0x1000001000 = 0x101000"
    by (simp add: example_config_def BASE_VIRTUAL_ADDRESS_def)
  ultimately show ?thesis
    unfolding link_table_def example_table prod.case Let_def by (simp add: example_linked_def write_entry_def)
qed

lemma example_large:
  "map_large example_config True 3 0x12345678 False 0x101000 example_linked = Some (True, write_entry 0x101000 0xb7 example_linked)"
proof -
  have "getMTRRMapInfo 6 \<lparr>memoryranges = [], memoryrangesLength = 10\<rparr> x n = (True, 6)" for x n
    by (simp add: getMTRRMapInfo_def)
  moreover have "(0x12345678 AND NOT (mask (level_shift 3)) AND 0xFFFFFF000 :: u64) = 0"
    by (simp add: level_shift_def mask_eq_exp_minus_1)
  moreover have "set_memtype 6 (set_bit 7 (full_access 0)) = 0xb7"
    by (simp add: set_memtype_def full_access_def set_bit_eq_or push_bit_eq_mult)
  ultimately show ?thesis by (simp add: map_large_def example_linked_def example_config_def Let_def)
qed

lemma example_map:
  "EPTMapPhysicalMemory example_config 0x100000 0x12345678 False example_ept =
     Some (0x101000, write_entry 0x101000 0xb7 example_linked)"
proof -
  have ea: "entry_address 0x100000 4 0x12345678 = 0x100000" "entry_address 0x101000 3 0x12345678 = 0x101000"
    by (simp_all add: entry_address_def table_index_def level_shift_def)
  have "map_pml4 example_config 0x100000 example_ept = Some example_linked"
    using example_link by (simp add: map_pml4_def example_ept_def)
  moreover have "qwords example_linked 0x100000 AND MAXPHYADDRMASKPB example_config = 0x101000"
    by (simp add: example_linked_def example_config_def)
  moreover have "has_EPT_1GBsupport example_config" by (simp add: example_config_def)
  ultimately show ?thesis
    using example_large by (simp add: EPTMapPhysicalMemory_def ea Let_def)
qed

theorem EPTMapPhysicalMemory_maps_witness:
  "\<exists>ea s'. EPTMapPhysicalMemory example_config 0x100000 0x12345678 False example_ept = Some (ea, s') \<and>
     translation example_config s' 0x100000 0x12345678 = Some (0x12345678, 7, 6)"
proof -
  let ?s = "write_entry 0x101000 0xb7 example_linked"
  have none: "ept_walk_of example_config example_ept 0x100000 0x12345678 = None"
    by (simp add: example_ept_def walk_entry)
  have a: "take_bit 36 0x12345678 = (0x12345678 :: u64)" by simp
  have ranges: "ordered (memoryranges (mtrr_ranges example_config))"
    by (simp add: example_config_def ordered_def ranges_ok_def)
  have small: "False \<or> (\<forall>k. \<not> large_page example_config example_ept 0x100000 0x12345678 k)"
    using none by (simp add: large_page_def)
  have "\<not> readable_4K example_config example_ept 0x100000 0x12345678" using none by (simp add: readable_4K_def)
  moreover have "memory_type example_config 0x12345678 = 6"
    by (simp add: memory_type_def example_config_def type_at_def)
  ultimately have "translation example_config ?s 0x100000 0x12345678 = Some (0x12345678, 7, 6)"
    using EPTMapPhysicalMemory_maps [OF example_config_ok ranges example_ept_inv _ a small example_map] by auto
  then show ?thesis using example_map by blast
qed

section \<open>A large page in the way\<close>

text \<open>
  Called without force for an address in a 1 GB page, \<open>EPTMapPhysicalMemory\<close> takes the first
  page of that memory for a page directory: when the word there has bit 0 clear and one memory
  type covers 2 MB, it writes an entry into that memory of the guest, and returns its address.
\<close>

theorem EPTMapPhysicalMemory_writes_guest:
  assumes cfg: "config_ok cfg w" and inv: "ept_inv cfg roots role s" and r: "r \<in> roots" and a: "a < 2 ^ 48"
    and page: "ept_walk_of cfg s r a = Some (3, x, e, y)" "e AND MAXPHYADDRMASKPB cfg = page_start cfg 3 a"
    and full: "getMTRRMapInfo (MTRRDefType cfg) (mtrr_ranges cfg) (page_start cfg 2 a) 0x200000 = (True, ty)"
    and large: "has_EPT_2MBSupport cfg"
    and ea: "ea = entry_address (page_start cfg 3 a) 2 a" "\<not> bit (qwords s ea) 0"
  shows "EPTMapPhysicalMemory cfg r a False s =
      Some (ea, write_entry ea (set_memtype ty (set_bit 7 (full_access (page_start cfg 2 a)))) s)"
proof -
  let ?pb = "MAXPHYADDRMASKPB cfg" and ?ea4 = "entry_address r 4 a"
  let ?t = "qwords s ?ea4 AND ?pb"
  have s0: "links_to cfg roots role s a r 4 r" using inv leads.here by (simp add: links_to_def)
  have "qwords s ?ea4 AND 7 \<noteq> 0" using page(1) by (auto simp: walk_entry Let_def)
  then have e4: "qwords s ?ea4 AND 7 = 7" using links_to_walk(4) [OF s0 a r] by simp
  then have s1: "links_to cfg roots role s a r 3 ?t" using links_to_next [OF s0] by simp
  have "large_page cfg s r a 3" using page(1) by (auto simp: large_page_def)
  then have e3: "qwords s (entry_address ?t 3 a) AND 7 = 7" "bit (qwords s (entry_address ?t 3 a)) 7"
    using large_entry [OF cfg a r s1] by simp_all
  then have "e = qwords s (entry_address ?t 3 a)"
    using page(1) links_to_walk(1) [OF s1 a r] by (auto simp: walk_entry Let_def)
  then have next3: "qwords s (entry_address ?t 3 a) AND ?pb = page_start cfg 3 a" using page(2) by simp
  have "map_pml4 cfg ?ea4 s = Some s" using bit0_and_7(1) [OF e4] by (simp add: map_pml4_def)
  moreover have "map_large cfg (has_EPT_1GBsupport cfg) 3 a False (entry_address ?t 3 a) s = Some (False, s)"
    using bit0_and_7(1) [OF e3(1)] by (simp add: map_large_def Let_def)
  moreover have "push_bit (level_shift 2) 1 = (0x200000 :: u64)" by (simp add: level_shift_def push_bit_eq_mult)
  then have "map_large cfg True 2 a False ea s =
      Some (True, write_entry ea (set_memtype ty (set_bit 7 (full_access (page_start cfg 2 a)))) s)"
    using ea(2) full by (simp add: map_large_def page_start_def)
  ultimately show ?thesis
    using large by (simp add: EPTMapPhysicalMemory_def Let_def next3 flip: ea(1))
qed

theorem EPTMapPhysicalMemory_writes_guest_witness:
  "\<exists>s s'. translation example_config s 0x100000 0x488 = Some (0x488, 7, 6) \<and>
     EPTMapPhysicalMemory example_config 0x100000 0x12345678 False s = Some (0x488, s') \<and>
     qwords s 0x488 = 0 \<and> qwords s' 0x488 = 0x122000b7"
proof -
  let ?s = "write_entry 0x101000 0xb7 example_linked" and ?a = "0x12345678 :: u64"
  have none: "ept_walk_of example_config example_ept 0x100000 ?a = None"
    by (simp add: example_ept_def walk_entry)
  have a: "?a < 2 ^ 48" by simp
  obtain role where inv: "ept_inv example_config {0x100000} role ?s"
    using EPTMapPhysicalMemory_walks [OF example_config_ok a _ example_ept_inv _ example_map] none
    by (auto simp: large_page_def)
  have ea: "entry_address 0x100000 4 b = 0x100000" "entry_address 0x101000 3 b = 0x101000" if "b \<in> {?a, 0x488}" for b
    using that by (auto simp: entry_address_def table_index_def level_shift_def)
  have walk: "ept_walk_of example_config ?s 0x100000 b = Some (3, 0x101000, 0xb7, 7)" if "b \<in> {?a, 0x488}" for b
    using ea [OF that] by (simp add: walk_entry Let_def example_linked_def example_config_def write_entry_def)
  have page: "(0xb7 :: u64) AND MAXPHYADDRMASKPB example_config = page_start example_config 3 ?a"
    by (simp add: example_config_def page_start_def level_shift_def mask_eq_exp_minus_1)
  have start2: "page_start example_config 2 ?a = 0x12200000"
    by (simp add: example_config_def page_start_def level_shift_def mask_eq_exp_minus_1)
  have ea2: "entry_address (page_start example_config 3 ?a) 2 ?a = 0x488"
    unfolding page [symmetric] by (simp add: example_config_def entry_address_def table_index_def level_shift_def)
  have info: "getMTRRMapInfo (MTRRDefType example_config) (mtrr_ranges example_config) x n = (True, 6)" for x n
    by (simp add: example_config_def getMTRRMapInfo_def)
  have free: "qwords ?s 0x488 = 0" by (simp add: write_entry_def example_linked_def)
  have "set_memtype 6 (set_bit 7 (full_access 0x12200000)) = 0x122000b7"
    by (simp add: set_memtype_def full_access_def set_bit_eq_or push_bit_eq_mult)
  then have "EPTMapPhysicalMemory example_config 0x100000 ?a False ?s = Some (0x488, write_entry 0x488 0x122000b7 ?s)"
    using EPTMapPhysicalMemory_writes_guest [OF example_config_ok inv _ a walk page info _ ea2 [symmetric]] free
    by (simp add: start2) (simp add: example_config_def)
  moreover have "translation example_config ?s 0x100000 0x488 = Some (0x488, 7, 6)"
    using walk [of "0x488"] by (simp add: ept_translate_def example_config_def level_shift_def mask_eq_exp_minus_1)
  ultimately show ?thesis
    using free by (intro exI [of _ ?s] exI [of _ "write_entry 0x488 0x122000b7 ?s"]) (simp add: write_entry_def)
qed

end
