(* ===== verification/WatchPages.thy ===== *)
theory WatchPages
  imports Watch EptMap
begin

text \<open>
  What the watches of \<open>Watch\<close> do to the translations of the processors: a new watch leaves its page
  with the accesses its type allows on every processor, whatever other watches the page has, and
  the end of a watch changes nothing, as the length the code tests is never set.
\<close>

abbreviation frame_mask :: "ept_config \<Rightarrow> u64" where
  "frame_mask \<equiv> ept_config.MAXPHYADDRMASKPB"

section \<open>The walk ends in a table of the tree\<close>

lemma walk_leads:
  assumes "tables_ok pb roots role q" and "serves role t r m a" and "ept_walk pb q a m t x = Some (l, ea, e, y)"
  shows "\<exists>u. leads pb q a m t l u \<and> ea = entry_address u l a \<and> e = q ea"
  using assms(2,3)
proof (induction m arbitrary: t x)
  case (Suc m)
  let ?e = "q (entry_address t (Suc m) a)"
  have some: "?e AND 7 \<noteq> 0" using Suc.prems(2) by (auto simp: Let_def)
  show ?case
  proof (cases "is_leaf (Suc m) ?e")
    case True
    then have "l = Suc m \<and> ea = entry_address t (Suc m) a \<and> e = ?e"
      using Suc.prems(2) some by (auto simp: Let_def)
    then show ?thesis by (auto intro: leads.here)
  next
    case False
    then have "?e AND 7 = 7" "serves role (?e AND pb) r m a"
      using tables_okD(6) [OF assms(1) Suc.prems(1)] some by (auto simp: entry_ok_def)
    moreover from this have "ept_walk pb q a m (?e AND pb) (x AND ?e) = Some (l, ea, e, y)"
      using Suc.prems(2) False some by (auto simp: Let_def split: if_splits)
    ultimately show ?thesis using Suc.IH leads.down [of q t m a ?e] False by blast
  qed
qed simp

section \<open>Restricted entries\<close>

definition allowed_access :: "watch_env \<Rightarrow> int \<Rightarrow> u64" where
  "allowed_access we type = restrict_entry we type 7"

lemma allowed_access_values:
  "allowed_access we EPTW_WRITE = 5" "allowed_access we EPTW_EXECUTE = 3"
  "allowed_access we EPTW_READWRITE = (if has_EPT_ExecuteOnlySupport we then 4 else 0)"
  by (simp_all add: allowed_access_def restrict_entry_def unset_bit_eq_and_not set_bit_eq_or push_bit_eq_mult)

text \<open>A translation with the accesses of a watch.\<close>

definition restricted :: "watch_env \<Rightarrow> int \<Rightarrow> (u64 \<times> u64 \<times> u64) option \<Rightarrow> (u64 \<times> u64 \<times> u64) option" where
  "restricted we type t = (case t of None \<Rightarrow> None
     | Some (h, _, ty) \<Rightarrow> if allowed_access we type = 0 then None else Some (h, allowed_access we type, ty))"

lemma bit_restrict_entry:
  "bit (restrict_entry we type e) n \<longleftrightarrow>
     (if type = EPTW_WRITE then bit e n \<and> n \<noteq> 1
      else if type = EPTW_READWRITE
        then (if has_EPT_ExecuteOnlySupport we then bit e n \<or> n = 2 else bit e n \<and> n \<noteq> 2) \<and> n \<noteq> 0 \<and> n \<noteq> 1
      else if type = EPTW_EXECUTE then bit e n \<and> n \<noteq> 2 else bit e n)" for e :: u64
  by (auto simp: restrict_entry_def bit_simps)

lemma restrict_entry_fields:
  assumes cfg: "config_ok cfg w"
  shows "restrict_entry we type e AND frame_mask cfg = e AND frame_mask cfg"
    and "drop_bit 3 (restrict_entry we type e) AND 7 = drop_bit 3 e AND 7"
    and "e AND 7 = 7 \<Longrightarrow> restrict_entry we type e AND 7 = allowed_access we type"
proof -
  show "restrict_entry we type e AND frame_mask cfg = e AND frame_mask cfg"
    using cfg by (intro bit_eqI) (auto simp: config_ok_def bit_restrict_entry bit_simps)
  show "drop_bit 3 (restrict_entry we type e) AND 7 = drop_bit 3 e AND 7"
    by (intro bit_eqI) (auto simp: bit_restrict_entry bit_simps)
  assume "e AND 7 = 7"
  then have "bit e n" if "n < 3" for n
    using that by (metis bit_access_mask(1) bit_and_iff)
  then show "restrict_entry we type e AND 7 = allowed_access we type"
    unfolding allowed_access_def by (intro bit_eqI) (auto simp: bit_restrict_entry bit_access_mask bit_and_iff)
qed

section \<open>One processor\<close>

lemma physical_small:
  fixes a :: u64
  assumes "config_ok cfg w" and "take_bit w a = a"
  shows "a < 2 ^ 48"
proof -
  have "unat a < 2 ^ w" by (metis assms(2) unat_take_bit_less)
  moreover have "(2 :: nat) ^ w \<le> 2 ^ 48" using assms(1) by (intro power_increasing) (simp_all add: config_ok_def)
  ultimately show ?thesis by (simp add: word_less_nat_alt)
qed

lemma restrict_leaf:
  fixes we :: watch_env and type :: int
  assumes cfg: "config_ok cfg w" and inv: "ept_inv cfg roots role s" and a: "a < 2 ^ 48" and r: "r \<in> roots"
    and walk: "ept_walk_of cfg s r a = Some (1, ea, e, y)" and e: "e AND 7 = 7"
  defines "e' \<equiv> restrict_entry we type (qwords s ea)"
  shows "qwords s ea = e" and "ept_inv cfg roots role (write_entry ea e' s)"
    and "\<lbrakk>r' \<in> roots; b < 2 ^ 48\<rbrakk> \<Longrightarrow> ept_walk_of cfg (write_entry ea e' s) r' b =
      (if r' = r \<and> same_page 1 a b
       then if allowed_access we type = 0 then None else Some (1, ea, e', allowed_access we type)
       else ept_walk_of cfg s r' b)"
proof -
  have ok: "tables_ok (frame_mask cfg) roots role (qwords s)" using inv by (simp add: ept_inv_def)
  obtain u where u: "leads (frame_mask cfg) (qwords s) a 4 r 1 u" "ea = entry_address u 1 a" "e = qwords s ea"
    using walk_leads [OF ok roots_serve [OF ok r a] walk] by blast
  then show "qwords s ea = e" by simp
  have s: "links_to cfg roots role s a r 1 u" using inv u(1) by (simp add: links_to_def)
  note write_it = write_entry_inv [OF s a r, of e', folded u(2)]
  show "ept_inv cfg roots role (write_entry ea e' s)" using write_it(1) by (simp add: links_to_def)
  have "e' AND 7 = allowed_access we type" "7 AND e' = allowed_access we type"
    using restrict_entry_fields(3) [OF cfg, of e] e u(3) by (simp_all add: e'_def and.commute)
  then show "\<lbrakk>r' \<in> roots; b < 2 ^ 48\<rbrakk> \<Longrightarrow> ept_walk_of cfg (write_entry ea e' s) r' b =
      (if r' = r \<and> same_page 1 a b
       then if allowed_access we type = 0 then None else Some (1, ea, e', allowed_access we type)
       else ept_walk_of cfg s r' b)"
    using write_it(2) [of r' b] by simp
qed

text \<open>The page as a watch of one type leaves it, from what it was.\<close>

definition watched_translation :: "watch_env \<Rightarrow> int \<Rightarrow> ept_config \<Rightarrow> ept_memory \<Rightarrow> u64 \<Rightarrow> u64 \<Rightarrow> u64 \<Rightarrow> (u64 \<times> u64 \<times> u64) option" where
  "watched_translation we type cfg s r a b =
     restricted we type (if readable_4K cfg s r a then translation cfg s r b else Some (b, 7, memory_type cfg b))"

text \<open>All translations of a processor after a watch, and those of the others.\<close>

definition cpu_watched :: "watch_env \<Rightarrow> int \<Rightarrow> ept_config \<Rightarrow> u64 \<Rightarrow> u64 \<Rightarrow> ept_memory \<Rightarrow> ept_memory \<Rightarrow> bool" where
  "cpu_watched we type cfg a r s s' \<longleftrightarrow> (\<forall>b < 2 ^ 48. translation cfg s' r b =
     (if same_page 1 a b then watched_translation we type cfg s r a b
      else if \<exists>k. large_page cfg s r a k \<and> same_page k a b then None
      else translation cfg s r b))"

lemma translation_cong:
  "ept_walk_of cfg s r b = ept_walk_of cfg s' r b \<Longrightarrow> translation cfg s r b = translation cfg s' r b"
  by (simp add: ept_translate_def)

lemma restricted_leaf:
  assumes cfg: "config_ok cfg w" and old: "ept_walk_of cfg s r b = Some (1, ea, e, y)"
    and new: "ept_walk_of cfg s' r b =
      (if allowed_access we type = 0 then None else Some (1, ea, restrict_entry we type e, allowed_access we type))"
  shows "translation cfg s' r b = restricted we type (translation cfg s r b)"
proof -
  have "restrict_entry we type e AND frame_mask cfg AND m = e AND frame_mask cfg AND m" for m
    unfolding and.assoc [symmetric] restrict_entry_fields(1) [OF cfg] ..
  then show ?thesis
    by (simp add: ept_translate_def old new restricted_def restrict_entry_fields(2) [OF cfg])
qed

lemma restricted_access: "restricted we type (map_option (\<lambda>(h, _, ty). (h, x, ty)) t) = restricted we type t"
  by (cases t) (auto simp: restricted_def)

lemma leaf_after_access:
  assumes "leaf_after cfg a old l e"
  shows "e AND 7 = 7"
proof (cases old)
  case (Some x)
  obtain k ea e' y where "x = (k, ea, e', y)" by (cases x)
  then show ?thesis using assms Some by (simp add: leaf_after_def fresh_leaf_def full_access_bits split: if_splits)
qed (use assms in \<open>simp add: leaf_after_def fresh_leaf_def\<close>)

lemma leaf_after_fresh:
  assumes "\<not> readable_4K cfg s r a" and "leaf_after cfg a (ept_walk_of cfg s r a) 1 e"
  shows "fresh_leaf cfg 1 a e"
proof (cases "ept_walk_of cfg s r a")
  case (Some x)
  obtain k ea e' y where "x = (k, ea, e', y)" by (cases x)
  then show ?thesis using assms Some by (simp add: leaf_after_def readable_4K_def split: if_splits)
qed (use assms in \<open>simp add: leaf_after_def\<close>)

lemma watch_one:
  fixes we :: watch_env and type :: int
  assumes cfg: "config_ok cfg w" and ranges: "ordered (memoryranges (mtrr_ranges cfg))"
    and inv: "ept_inv cfg roots role s" and r: "r \<in> roots" and a: "take_bit w a = a"
    and step: "EPTMapPhysicalMemory cfg r a True s = Some (ea, s1)"
  defines "s2 \<equiv> write_entry ea (restrict_entry we type (qwords s1 ea)) s1"
  shows "(\<exists>role'. ept_inv cfg roots role' s2) \<and> cpu_watched we type cfg a r s s2 \<and>
    (\<forall>r' \<in> roots. \<forall>b < 2 ^ 48. r' \<noteq> r \<longrightarrow> ept_walk_of cfg s2 r' b = ept_walk_of cfg s r' b)"
proof -
  have small: "a < 2 ^ 48" by (rule physical_small [OF cfg a])
  have "\<exists>role' e. ept_inv cfg roots role' s1 \<and> leaf_after cfg a (ept_walk_of cfg s r a) 1 e \<and>
      walks_mapped cfg roots r a {k. large_page cfg s r a k} 1 (1, ea, e, 7) s s1"
    using EPTMapPhysicalMemory_walks [OF cfg small r inv disjI1 [OF TrueI] step] by (elim exE conjE) (intro exI conjI; simp)
  then obtain role' e where inv1: "ept_inv cfg roots role' s1" and leaf: "leaf_after cfg a (ept_walk_of cfg s r a) 1 e"
    and walks: "walks_mapped cfg roots r a {k. large_page cfg s r a k} 1 (1, ea, e, 7) s s1"
    by blast
  have e7: "e AND 7 = 7" using leaf by (rule leaf_after_access)
  have walk1: "ept_walk_of cfg s1 r' b = (if r' = r \<and> same_page 1 a b then Some (1, ea, e, 7)
      else if r' = r \<and> (\<exists>k. large_page cfg s r a k \<and> same_page k a b) then None else ept_walk_of cfg s r' b)"
    if "r' \<in> roots" "b < 2 ^ 48" for r' b
    using walks [unfolded walks_mapped_def, rule_format, OF that] unfolding Bex_def mem_Collect_eq .
  have "ept_walk_of cfg s1 r a = Some (1, ea, e, 7)" using walk1 [OF r small] by simp
  note args = cfg inv1 small r this e7
  note entry = restrict_leaf(1) [OF args] and inv2 = restrict_leaf(2) [OF args, of we type, folded s2_def]
    and walk2 = restrict_leaf(3) [OF args, where we = we and type = type, folded s2_def]
  have same: "translation cfg s2 r b = watched_translation we type cfg s r a b" if b: "b < 2 ^ 48" "same_page 1 a b" for b
  proof -
    have at1: "ept_walk_of cfg s1 r b = Some (1, ea, e, 7)" using walk1 [OF r b(1)] b(2) by simp
    have "translation cfg s2 r b = restricted we type (translation cfg s1 r b)"
      by (rule restricted_leaf [OF cfg at1]) (use entry walk2 [OF r b(1)] b(2) in simp)
    also have "\<dots> = watched_translation we type cfg s r a b"
    proof (cases "readable_4K cfg s r a")
      case True
      then obtain x old y where old: "ept_walk_of cfg s r a = Some (1, x, old, y)" "bit old 0"
        by (auto simp: readable_4K_def split: option.splits)
      then have "e = full_access old" using leaf by (simp add: leaf_after_def)
      then show ?thesis
        using kept_leaf_translates [OF cfg old(1), of s1 b ea] at1 b(2) True
        by (simp add: watched_translation_def restricted_access)
    next
      case False
      then have "fresh_leaf cfg 1 a e" using leaf by (rule leaf_after_fresh)
      then show ?thesis
        using fresh_leaf_translates [OF cfg ranges a _ _ _ at1 b(2)] False by (simp add: watched_translation_def)
    qed
    finally show ?thesis .
  qed
  have "translation cfg s2 r b = (if \<exists>k. large_page cfg s r a k \<and> same_page k a b then None else translation cfg s r b)"
    if "b < 2 ^ 48" "\<not> same_page 1 a b" for b
    using walk2 [OF r that(1)] walk1 [OF r that(1)] that(2) by (auto simp: ept_translate_def)
  then have "cpu_watched we type cfg a r s s2" using same by (simp add: cpu_watched_def)
  moreover have "ept_walk_of cfg s2 r' b = ept_walk_of cfg s r' b" if "r' \<in> roots" "b < 2 ^ 48" "r' \<noteq> r" for r' b
    using walk2 [OF that(1,2)] walk1 [OF that(1,2)] that(3) by simp
  ultimately show ?thesis using inv2 by blast
qed

section \<open>All processors\<close>

lemma cpu_watched_cong:
  assumes "\<forall>b < 2 ^ 48. ept_walk_of cfg s1 r b = ept_walk_of cfg s r b" and "a < 2 ^ 48"
  shows "cpu_watched we type cfg a r s1 s' \<longleftrightarrow> cpu_watched we type cfg a r s s'"
proof -
  have "readable_4K cfg s1 r a \<longleftrightarrow> readable_4K cfg s r a" "large_page cfg s1 r a k \<longleftrightarrow> large_page cfg s r a k" for k
    using assms by (simp_all add: readable_4K_def large_page_def)
  moreover have "translation cfg s1 r b = translation cfg s r b" if "b < 2 ^ 48" for b
    using assms(1) that translation_cong by blast
  ultimately show ?thesis by (simp add: cpu_watched_def watched_translation_def)
qed

lemma watch_page_translations:
  assumes cfg: "config_ok (watch_config we) w" and ranges: "ordered (memoryranges (mtrr_ranges (watch_config we)))"
    and a: "take_bit w a = a"
  shows "ept_inv (watch_config we) roots role s \<Longrightarrow> distinct (map EPTPML4 cs) \<Longrightarrow> EPTPML4 ` set cs \<subseteq> roots \<Longrightarrow>
    watch_page we ID a type cs s = Some (cs', s') \<Longrightarrow>
    (\<exists>role'. ept_inv (watch_config we) roots role' s') \<and> map EPTPML4 cs' = map EPTPML4 cs \<and>
    (\<forall>c \<in> set cs. cpu_watched we type (watch_config we) a (EPTPML4 c) s s') \<and>
    (\<forall>r \<in> roots - EPTPML4 ` set cs. \<forall>b < 2 ^ 48. ept_walk_of (watch_config we) s' r b = ept_walk_of (watch_config we) s r b)"
proof (induction cs arbitrary: s role cs')
  case (Cons c cs)
  let ?cfg = "watch_config we"
  obtain ea s1 where step: "EPTMapPhysicalMemory ?cfg (EPTPML4 c) a True s = Some (ea, s1)"
    using Cons.prems(4) by (auto split: option.splits)
  define s2 where "s2 = write_entry ea (restrict_entry we type (qwords s1 ea)) s1"
  obtain ds where rest: "watch_page we ID a type cs s2 = Some (ds, s')" and cs': "map EPTPML4 cs' = EPTPML4 c # map EPTPML4 ds"
    using Cons.prems(4) step by (auto simp: Let_def s2_def)
  obtain role1 where inv1: "ept_inv ?cfg roots role1 s2" and first: "cpu_watched we type ?cfg a (EPTPML4 c) s s2"
    and others: "\<forall>r \<in> roots. \<forall>b < 2 ^ 48. r \<noteq> EPTPML4 c \<longrightarrow> ept_walk_of ?cfg s2 r b = ept_walk_of ?cfg s r b"
    using watch_one [OF cfg ranges Cons.prems(1) _ a step, where we = we and type = type, folded s2_def] Cons.prems(3) by auto
  obtain role' where IH: "ept_inv ?cfg roots role' s'" "map EPTPML4 ds = map EPTPML4 cs"
    "\<forall>d \<in> set cs. cpu_watched we type ?cfg a (EPTPML4 d) s2 s'"
    "\<forall>r \<in> roots - EPTPML4 ` set cs. \<forall>b < 2 ^ 48. ept_walk_of ?cfg s' r b = ept_walk_of ?cfg s2 r b"
    using Cons.IH [OF inv1 _ _ rest] Cons.prems(2,3) by auto
  have c: "EPTPML4 c \<in> roots - EPTPML4 ` set cs" using Cons.prems(2,3) by auto
  have "cpu_watched we type ?cfg a (EPTPML4 c) s s'"
    using first IH(4) c translation_cong unfolding cpu_watched_def by metis
  moreover have "cpu_watched we type ?cfg a (EPTPML4 d) s s'" if d: "d \<in> set cs" for d
  proof -
    have "a < 2 ^ 48" by (rule physical_small [OF cfg a])
    moreover have "EPTPML4 c \<notin> EPTPML4 ` set cs" using Cons.prems(2) by simp
    then have "EPTPML4 d \<noteq> EPTPML4 c" using d by (metis imageI)
    moreover have "EPTPML4 d \<in> roots" using Cons.prems(3) d by auto
    ultimately show ?thesis using cpu_watched_cong [of ?cfg s2 "EPTPML4 d" s a] others IH(3) d by blast
  qed
  moreover have "ept_walk_of ?cfg s' r b = ept_walk_of ?cfg s r b"
    if "r \<in> roots - EPTPML4 ` set (c # cs)" "b < 2 ^ 48" for r b
    using others IH(4) that by auto
  ultimately show ?case using IH(1,2) cs' by auto
qed auto

section \<open>Starting and ending a watch\<close>

lemma getFreeWatchID_spec:
  assumes "getFreeWatchID mem ws = Some (ID, ws1)" and "eptWatchListPos ws \<le> length (eptWatchList ws)"
  shows "ID < eptWatchListPos ws1" and "eptWatchListPos ws1 \<le> length (eptWatchList ws1)"
    and "ID < eptWatchListPos ws \<Longrightarrow> Active (eptWatchList ws ! ID) = 0"
    and "i < eptWatchListPos ws \<Longrightarrow> eptWatchList ws1 ! i = eptWatchList ws ! i"
    and "i < eptWatchListPos ws1 \<Longrightarrow> i < eptWatchListPos ws \<or> i = ID"
    and "watch_cpus ws1 = watch_cpus ws \<and> watch_ept ws1 = watch_ept ws \<and> eptWatchListPos ws \<le> eptWatchListPos ws1 \<and>
      stopped_threads ws1 = stopped_threads ws"
proof -
  have "ID < eptWatchListPos ws1 \<and> eptWatchListPos ws1 \<le> length (eptWatchList ws1) \<and>
    (ID < eptWatchListPos ws \<longrightarrow> Active (eptWatchList ws ! ID) = 0) \<and>
    (\<forall>i < eptWatchListPos ws. eptWatchList ws1 ! i = eptWatchList ws ! i) \<and>
    (\<forall>i < eptWatchListPos ws1. i < eptWatchListPos ws \<or> i = ID) \<and>
    watch_cpus ws1 = watch_cpus ws \<and> watch_ept ws1 = watch_ept ws \<and> eptWatchListPos ws \<le> eptWatchListPos ws1 \<and>
    stopped_threads ws1 = stopped_threads ws"
  proof (cases "List.find (\<lambda>i. Active (eptWatchList ws ! i) = 0) [0..<eptWatchListPos ws]")
    case (Some i)
    then have "ID = i" "ws1 = ws" using assms(1) by (simp_all add: getFreeWatchID_def)
    moreover have "i < eptWatchListPos ws" "Active (eptWatchList ws ! i) = 0" using Some by (auto simp: find_Some_iff)
    ultimately show ?thesis using assms(2) by simp
  next
    case None
    then show ?thesis
      using assms by (auto simp: getFreeWatchID_def Let_def nth_append split: if_splits option.splits)
  qed
  then show "ID < eptWatchListPos ws1" "eptWatchListPos ws1 \<le> length (eptWatchList ws1)"
    "ID < eptWatchListPos ws \<Longrightarrow> Active (eptWatchList ws ! ID) = 0"
    "i < eptWatchListPos ws \<Longrightarrow> eptWatchList ws1 ! i = eptWatchList ws ! i"
    "i < eptWatchListPos ws1 \<Longrightarrow> i < eptWatchListPos ws \<or> i = ID"
    "watch_cpus ws1 = watch_cpus ws \<and> watch_ept ws1 = watch_ept ws \<and> eptWatchListPos ws \<le> eptWatchListPos ws1 \<and>
      stopped_threads ws1 = stopped_threads ws"
    by blast+
qed

lemma set_watch_fields [simp]:
  "watch_cpus (set_watch ID w ws) = watch_cpus ws" "watch_ept (set_watch ID w ws) = watch_ept ws"
  "eptWatchListPos (set_watch ID w ws) = eptWatchListPos ws"
  "eptWatchList (set_watch ID w ws) = (eptWatchList ws)[ID := w]"
  "stopped_threads (set_watch ID w ws) = stopped_threads ws"
  by (simp_all add: set_watch_def)

text \<open>The successful start of a watch, step by step.\<close>

lemma ept_watch_activateE:
  assumes "ept_watch_activate we mem logmem a sz type options maxcount u k ws = Inr ((0, ID), ws')"
  obtains ws1 cs s where "getFreeWatchID mem ws = Some (ID, ws1)"
    and "24 \<le> log_bytes (struct_type options) maxcount"
    and "watch_page we ID a type (watch_cpus ws1) (watch_ept ws1) = Some (cs, s)"
    and "ws' = set_watch ID (new_watch ID a sz type options maxcount u k (eptWatchList ws1 ! ID)) ws1\<lparr>watch_cpus := cs, watch_ept := s\<rparr>"
  using assms by (auto simp: ept_watch_activate_def Let_def split: if_splits option.splits)

lemma activate_list:
  assumes "ept_watch_activate we mem logmem a sz type options maxcount u k ws = Inr ((0, ID), ws')"
    and "eptWatchListPos ws \<le> length (eptWatchList ws)"
  shows "ID < eptWatchListPos ws'" and "eptWatchListPos ws' \<le> length (eptWatchList ws')"
    and "ID < eptWatchListPos ws \<Longrightarrow> Active (eptWatchList ws ! ID) = 0"
    and "\<exists>w. eptWatchList ws' ! ID = new_watch ID a sz type options maxcount u k w"
    and "i < eptWatchListPos ws \<Longrightarrow> i \<noteq> ID \<Longrightarrow> eptWatchList ws' ! i = eptWatchList ws ! i"
    and "i < eptWatchListPos ws' \<Longrightarrow> i < eptWatchListPos ws \<or> i = ID"
    and "eptWatchListPos ws \<le> eptWatchListPos ws'" and "stopped_threads ws' = stopped_threads ws"
proof -
  obtain ws1 cs s where get: "getFreeWatchID mem ws = Some (ID, ws1)"
    and ws': "ws' = set_watch ID (new_watch ID a sz type options maxcount u k (eptWatchList ws1 ! ID)) ws1\<lparr>watch_cpus := cs, watch_ept := s\<rparr>"
    using assms(1) by (rule ept_watch_activateE)
  note spec = getFreeWatchID_spec [OF get assms(2)]
  show "ID < eptWatchListPos ws'" "eptWatchListPos ws' \<le> length (eptWatchList ws')"
    "ID < eptWatchListPos ws \<Longrightarrow> Active (eptWatchList ws ! ID) = 0"
    "\<exists>w. eptWatchList ws' ! ID = new_watch ID a sz type options maxcount u k w"
    "i < eptWatchListPos ws \<Longrightarrow> i \<noteq> ID \<Longrightarrow> eptWatchList ws' ! i = eptWatchList ws ! i"
    "i < eptWatchListPos ws' \<Longrightarrow> i < eptWatchListPos ws \<or> i = ID"
    "eptWatchListPos ws \<le> eptWatchListPos ws'" "stopped_threads ws' = stopped_threads ws"
    using spec by (auto simp: ws')
qed

lemma new_watch_fields [simp]:
  "watch_PhysicalAddress (new_watch ID a sz type options maxcount u k w) = a"
  "watch_Type (new_watch ID a sz type options maxcount u k w) = type"
  "watch_Options (new_watch ID a sz type options maxcount u k w) = options"
  "Active (new_watch ID a sz type options maxcount u k w) = 1"
  "Log (new_watch ID a sz type options maxcount u k w) = Some (new_log ID options maxcount)"
  "CopyInProgress (new_watch ID a sz type options maxcount u k w) = CopyInProgress w"
  by (simp_all add: new_watch_def Let_def)

text \<open>The processors and their tables, and the promise of a start for the tables.\<close>

definition cpus_ok :: "watch_env \<Rightarrow> nat \<Rightarrow> watch_state \<Rightarrow> bool" where
  "cpus_ok we w ws \<longleftrightarrow> config_ok (watch_config we) w \<and> ordered (memoryranges (mtrr_ranges (watch_config we))) \<and>
     distinct (map EPTPML4 (watch_cpus ws)) \<and>
     (\<exists>role. ept_inv (watch_config we) (EPTPML4 ` set (watch_cpus ws)) role (watch_ept ws))"

lemma activate_pages:
  assumes "cpus_ok we w ws" and "take_bit w a = a" and "eptWatchListPos ws \<le> length (eptWatchList ws)"
    and "ept_watch_activate we mem logmem a sz type options maxcount u k ws = Inr ((0, ID), ws')"
  shows "cpus_ok we w ws'" and "map EPTPML4 (watch_cpus ws') = map EPTPML4 (watch_cpus ws)"
    and "c \<in> set (watch_cpus ws) \<Longrightarrow> cpu_watched we type (watch_config we) a (EPTPML4 c) (watch_ept ws) (watch_ept ws')"
proof -
  obtain ws1 cs s where get: "getFreeWatchID mem ws = Some (ID, ws1)"
    and page: "watch_page we ID a type (watch_cpus ws1) (watch_ept ws1) = Some (cs, s)"
    and ws': "ws' = set_watch ID (new_watch ID a sz type options maxcount u k (eptWatchList ws1 ! ID)) ws1\<lparr>watch_cpus := cs, watch_ept := s\<rparr>"
    using assms(4) by (rule ept_watch_activateE)
  obtain role where ok: "config_ok (watch_config we) w" "ordered (memoryranges (mtrr_ranges (watch_config we)))"
    "distinct (map EPTPML4 (watch_cpus ws))" "ept_inv (watch_config we) (EPTPML4 ` set (watch_cpus ws)) role (watch_ept ws)"
    using assms(1) by (auto simp: cpus_ok_def)
  have same: "watch_cpus ws1 = watch_cpus ws" "watch_ept ws1 = watch_ept ws"
    using getFreeWatchID_spec(6) [OF get assms(3)] by simp_all
  note pages = watch_page_translations [OF ok(1,2) assms(2) ok(4,3) order_refl page [unfolded same]]
  show cs: "map EPTPML4 (watch_cpus ws') = map EPTPML4 (watch_cpus ws)" using pages by (simp add: ws')
  have "EPTPML4 ` set cs = EPTPML4 ` set (watch_cpus ws)" using pages by (metis list.set_map)
  then show "cpus_ok we w ws'" using pages ok by (auto simp: cpus_ok_def ws')
  show "c \<in> set (watch_cpus ws) \<Longrightarrow> cpu_watched we type (watch_config we) a (EPTPML4 c) (watch_ept ws) (watch_ept ws')"
    using pages by (simp add: ws')
qed

text \<open>
  C7: A watch that is started takes the accesses of its type away from its page on every processor,
  whatever the processor had there: a readable page of 4 KB keeps its frame and memory type, any
  other page maps to itself; the rest of a large page that is split has to be mapped again, and
  no other translation changes. The watch gets an unused entry of the list, the others stay.
\<close>

theorem ept_watch_activate_restricts:
  assumes "cpus_ok we w ws" and "take_bit w a = a" and "eptWatchListPos ws \<le> length (eptWatchList ws)"
    and "ept_watch_activate we mem logmem a sz type options maxcount u k ws = Inr ((0, ID), ws')"
  shows "cpus_ok we w ws' \<and>
    (\<forall>c \<in> set (watch_cpus ws). \<forall>b < 2 ^ 48. translation (watch_config we) (watch_ept ws') (EPTPML4 c) b =
      (if same_page 1 a b then watched_translation we type (watch_config we) (watch_ept ws) (EPTPML4 c) a b
       else if \<exists>l. large_page (watch_config we) (watch_ept ws) (EPTPML4 c) a l \<and> same_page l a b then None
       else translation (watch_config we) (watch_ept ws) (EPTPML4 c) b)) \<and>
    (ID < eptWatchListPos ws \<longrightarrow> Active (eptWatchList ws ! ID) = 0) \<and> ID < eptWatchListPos ws' \<and>
    Active (eptWatchList ws' ! ID) = 1 \<and> watch_Type (eptWatchList ws' ! ID) = type \<and>
    (\<forall>i < eptWatchListPos ws. i \<noteq> ID \<longrightarrow> eptWatchList ws' ! i = eptWatchList ws ! i)"
proof -
  note pages = activate_pages [OF assms] and entry = activate_list [OF assms(4,3)]
  obtain v where "eptWatchList ws' ! ID = new_watch ID a sz type options maxcount u k v" using entry(4) by blast
  then show ?thesis using pages(1,3) entry(1,3,5) by (auto simp: cpu_watched_def)
qed

text \<open>
  C15: A second watch on a page cancels the first: on every processor the page has exactly the accesses that the type of
  the second watch leaves, so an access that only the first takes away is allowed again, although that watch is still active.
\<close>

theorem second_watch_cancels:
  assumes "cpus_ok we w ws" and "eptWatchListPos ws \<le> length (eptWatchList ws)"
    and "take_bit w a = a" and "take_bit w a' = a'" and "same_page 1 a a'"
    and "ept_watch_activate we mem logmem a sz type options maxcount u k ws = Inr ((0, ID), ws1)"
    and "ept_watch_activate we mem' logmem' a' sz' type' options' maxcount' u' k' ws1 = Inr ((0, ID'), ws2)"
    and "type' \<in> {EPTW_WRITE, EPTW_READWRITE, EPTW_EXECUTE}"
    and "c \<in> set (watch_cpus ws)" and "b < 2 ^ 48" and "same_page 1 a b"
  shows "Active (eptWatchList ws2 ! ID) = 1 \<and> watch_Type (eptWatchList ws2 ! ID) = type \<and>
    (\<exists>h ty. translation (watch_config we) (watch_ept ws2) (EPTPML4 c) b =
      (if type' = EPTW_WRITE then Some (h, 5, ty) else if type' = EPTW_EXECUTE then Some (h, 3, ty)
       else if has_EPT_ExecuteOnlySupport we then Some (h, 4, ty) else None))"
proof -
  let ?cfg = "watch_config we" and ?r = "EPTPML4 c"
  note first = activate_list [OF assms(6,2)] and first_pages = activate_pages [OF assms(1,3,2,6)]
  note second = activate_list [OF assms(7) first(2)] and second_pages = activate_pages [OF first_pages(1) assms(4) first(2) assms(7)]
  obtain v where v: "eptWatchList ws1 ! ID = new_watch ID a sz type options maxcount u k v" using first(4) by blast
  then have "ID' \<noteq> ID" using second(3) first(1) by auto
  then have old: "eptWatchList ws2 ! ID = eptWatchList ws1 ! ID" using second(5) first(1) by simp
  have "?r \<in> set (map EPTPML4 (watch_cpus ws1))" using first_pages(2) assms(9) by simp
  then obtain d where "d \<in> set (watch_cpus ws1)" "EPTPML4 d = ?r" by auto
  then have watched: "cpu_watched we type' ?cfg a' ?r (watch_ept ws1) (watch_ept ws2)"
    using second_pages(3) by metis
  have b: "same_page 1 a' b" using assms(5,11) by simp
  have "\<exists>h acc ty. (if readable_4K ?cfg (watch_ept ws1) ?r a' then translation ?cfg (watch_ept ws1) ?r b
      else Some (b, 7, memory_type ?cfg b)) = Some (h, acc, ty)"
  proof (cases "readable_4K ?cfg (watch_ept ws1) ?r a'")
    case True
    then obtain x e y where "ept_walk_of ?cfg (watch_ept ws1) ?r a' = Some (1, x, e, y)"
      by (auto simp: readable_4K_def split: option.splits)
    then have "ept_walk_of ?cfg (watch_ept ws1) ?r b = Some (1, x, e, y)"
      using walk_same_page [of b a'] b by (simp add: level_shift_def)
    then show ?thesis using True by (simp add: ept_translate_def)
  qed simp
  then obtain h acc ty where at: "(if readable_4K ?cfg (watch_ept ws1) ?r a' then translation ?cfg (watch_ept ws1) ?r b
      else Some (b, 7, memory_type ?cfg b)) = Some (h, acc, ty)" by blast
  have "translation ?cfg (watch_ept ws2) ?r b = watched_translation we type' ?cfg (watch_ept ws1) ?r a' b"
    using watched assms(10) b by (simp add: cpu_watched_def)
  also have "\<dots> = restricted we type' (Some (h, acc, ty))" by (simp only: watched_translation_def at)
  finally show ?thesis
    using old v assms(8) by (auto simp: restricted_def allowed_access_values split: if_splits)
qed

section \<open>An example\<close>

text \<open>One processor with an empty PML4, and three free pages for its tables.\<close>

definition example_unused :: "nat \<Rightarrow> ept_watch" where
  "example_unused i = \<lparr>watch_PhysicalAddress = 0, watch_Size = 0, watch_Type = 0, watch_Options = 0,
     LoopUserMode = 0, LoopKernelMode = 0, Active = 0, CopyInProgress = 0, Log = None\<rparr>"

definition example_blocks :: "nat \<Rightarrow> u64 list" where
  "example_blocks i = replicate i (-1) @ replicate (4 - i) 0 @ [-1]"

definition example_mem :: "nat \<Rightarrow> (u64 \<Rightarrow> u64) \<Rightarrow> ept_memory" where
  "example_mem i q = \<lparr>ept_mm = example_mm\<lparr>AllocationInfoList := example_blocks i\<rparr>, qwords = q\<rparr>"

lemma scan_pages_at:
  assumes "\<forall>j. i \<le> j \<and> j < m \<longrightarrow> xs ! j \<noteq> 0" and "xs ! m = 0" and "i \<le> m" and "m < i + k"
  shows "scan_pages xs 4096 i k = Some m"
  using assms
proof (induction k arbitrary: i)
  case (Suc k)
  have usable: "neighbours_usable xs i n j 0" for n j by (simp add: neighbours_usable.simps)
  show ?case
  proof (cases "i = m")
    case False
    then have "i < m" using Suc.prems(3) by simp
    then show ?thesis using Suc.IH [of "i + 1"] Suc.prems by simp
  qed (use Suc.prems usable in simp)
qed simp

lemma example_link_at:
  assumes i: "i \<in> {1, 2, 3}" and t: "t = 0x100000 + 0x1000 * of_nat i" and zero: "\<forall>x. x - t < 4096 \<longrightarrow> q x = 0"
  shows "link_table example_config ea (example_mem i q) = Some (example_mem (Suc i) (q(ea := t OR 7)))"
proof -
  have b: "blocks_for 4096 = 64" by (simp add: blocks_for_def)
  have "scan_pages (example_blocks i) 4096 0 4 = Some i"
    using i by (intro scan_pages_at) (auto simp: example_blocks_def nth_append nth_Cons')
  moreover have "mark_range (example_blocks i) i 4096 = (example_blocks i)[i := -1]"
    using mark_pages.simps(2) [of "example_blocks i" i 0] by (simp add: mark_range_def Let_def)
  moreover have "(example_blocks i)[i := -1] = example_blocks (Suc i)"
    using i by (elim insertE) (simp_all add: example_blocks_def eval_nat_numeral)
  moreover have "block_address i 4096 = BASE_VIRTUAL_ADDRESS + 0x1000 * of_nat i"
    using i by (auto simp: block_address_def)
  ultimately have "malloc2 4096 (ept_mm (example_mem i q)) = (BASE_VIRTUAL_ADDRESS + 0x1000 * of_nat i, ept_mm (example_mem (Suc i) q))"
    by (simp add: malloc2_def b malloc2_large_def example_mem_def example_mm_def)
  moreover have "(BASE_VIRTUAL_ADDRESS + 0x1000 * of_nat i :: u64) \<noteq> 0"
    using i by (auto simp: BASE_VIRTUAL_ADDRESS_def)
  moreover have "VirtualToPhysical example_config (BASE_VIRTUAL_ADDRESS + 0x1000 * of_nat i) = t"
    using t by (simp add: example_config_def)
  moreover have "full_access (t AND frame_mask example_config) = t OR 7"
    using i t by (auto simp: example_config_def full_access_def set_bit_eq_or push_bit_eq_mult)
  moreover have "(\<lambda>x. if x - t < 4096 then 0 else q x) = q" using zero by (auto simp: fun_eq_iff)
  ultimately show ?thesis
    by (simp add: link_table_def Let_def example_mem_def write_entry_def cong: if_cong)
qed

text \<open>Mapping the page at 0 for itself takes the three tables.\<close>

abbreviation "example_tables \<equiv> (\<lambda>_. 0)(0x100000 := 0x101007, 0x101000 := 0x102007, 0x102000 := 0x103007) :: u64 \<Rightarrow> u64"

lemma example_entry_addresses:
  assumes "a \<in> {0, 0x678, 0x800}" and "l \<in> {1, 2, 3, 4}"
  shows "entry_address t l a = t"
  using assms by (auto simp: entry_address_def table_index_def level_shift_def)

lemma example_empty: "example_mem 1 (\<lambda>_. 0) = example_ept"
  by (simp add: example_mem_def example_ept_def example_blocks_def eval_nat_numeral)

lemma example_map_page:
  assumes a: "a \<in> {0, 0x678}"
  shows "EPTMapPhysicalMemory example_config 0x100000 a True example_ept =
     Some (0x103000, example_mem 4 (example_tables(0x103000 := 0x37)))"
proof -
  let ?q1 = "(\<lambda>_. 0)(0x100000 := 0x101007) :: u64 \<Rightarrow> u64"
  let ?q2 = "?q1(0x101000 := 0x102007)"
  have one: "link_table example_config 0x100000 (example_mem 1 (\<lambda>_. 0)) = Some (example_mem 2 ?q1)"
    using example_link_at [of 1 "0x101000" "\<lambda>_. 0" "0x100000"] by (simp add: eval_nat_numeral)
  have zero2: "x - 0x102000 < 4096 \<longrightarrow> ?q1 x = 0" and zero3: "x - 0x103000 < 4096 \<longrightarrow> ?q2 x = 0" for x
    by (auto simp: fun_upd_def split: if_splits)
  have two: "link_table example_config 0x101000 (example_mem 2 ?q1) = Some (example_mem 3 ?q2)"
    using example_link_at [of 2 "0x102000" ?q1 "0x101000", OF _ _ allI [OF zero2]] by (simp add: eval_nat_numeral)
  have three: "link_table example_config 0x102000 (example_mem 3 ?q2) = Some (example_mem 4 example_tables)"
    using example_link_at [of 3 "0x103000" ?q2 "0x102000", OF _ _ allI [OF zero3]] by (simp add: eval_nat_numeral)
  have info: "getMTRRMapInfo (MTRRDefType example_config) (mtrr_ranges example_config) x n = (True, 6)" for x n
    by (simp add: example_config_def getMTRRMapInfo_def)
  have pml4: "map_pml4 example_config 0x100000 example_ept = Some (example_mem 2 ?q1)"
    using one by (simp add: map_pml4_def example_empty [symmetric]) (simp add: example_mem_def)
  have pdpte: "map_large example_config b 3 a True 0x101000 (example_mem 2 ?q1) = Some (False, example_mem 3 ?q2)" for b
    using two a by (simp add: map_large_def Let_def info) (simp add: example_mem_def)
  have pde: "map_large example_config b 2 a True 0x102000 (example_mem 3 ?q2) = Some (False, example_mem 4 example_tables)" for b
    using three a by (simp add: map_large_def Let_def info) (simp add: example_mem_def)
  have "set_memtype 6 (full_access 0) = 0x37"
    by (simp add: set_memtype_def full_access_def set_bit_eq_or push_bit_eq_mult)
  then have pte: "map_page example_config a 0x103000 (example_mem 4 example_tables) = Some (example_mem 4 (example_tables(0x103000 := 0x37)))"
    using a by (auto simp: map_page_def Let_def info) (simp_all add: example_mem_def write_entry_def example_config_def)
  have frame: "qwords (example_mem i q) ea AND frame_mask example_config = q ea AND 0xFFFFFF000" for i q ea
    by (simp add: example_mem_def example_config_def)
  have "a \<in> {0, 0x678, 0x800}" using a by auto
  then show ?thesis
    by (simp add: EPTMapPhysicalMemory_def Let_def frame example_entry_addresses pml4 pdpte pde pte)
qed

definition example_cpu :: watch_cpu where
  "example_cpu = \<lparr>EPTPML4 = 0x100000, eptWatchEntries = \<lambda>_. 0, eptWatchListLength = 0, eptUpdated = False,
     BPAfterStep = False, BPCausedByDBVM = False\<rparr>"

definition nothing_seen :: watch_log_data where
  "nothing_seen = \<lparr>seen_physicalAddress = 0, initialID = 0, actualID = 0, seen_rip = 0, seen_data = 0,
     cacheIssue = False, skipped = 0\<rparr>"

definition example_watches :: watch_state where
  "example_watches = \<lparr>eptWatchList = [], eptWatchListPos = 0, watch_cpus = [example_cpu], watch_ept = example_ept,
     stopped_threads = \<lparr>BrokenThreadList = None, BrokenThreadListSize = 0, BrokenThreadListPos = 0\<rparr>,
     lastSeenEPTWatch = nothing_seen, lastSeenEPTWatchVerySure = nothing_seen\<rparr>"

definition example_env :: watch_env where
  "example_env = \<lparr>watch_config = example_config, has_EPT_ExecuteOnlySupport = True, watch_vm_env = blank_env True,
     watch_step_env = \<lparr>IA32_VMX_PROCBASED_CTLS = push_bit 32 PBEF_MONITOR_TRAP_FLAG,
       IA32_VMX_TRUE_PROCBASED_CTLS = 0, default1canbe0 = False\<rparr>\<rparr>"

lemma example_cpus_ok: "cpus_ok example_env 36 example_watches"
proof -
  have "ordered (memoryranges (mtrr_ranges example_config))"
    by (simp add: example_config_def ordered_def ranges_ok_def)
  then show ?thesis
    using example_config_ok example_ept_inv
    by (auto simp: cpus_ok_def example_env_def example_watches_def example_cpu_def)
qed

lemma log_bytes_small: "log_bytes 0 8 = 2096"
  by (simp add: log_bytes_def sizeof_event_def)

text \<open>A write watch of the 8 bytes at 0x678.\<close>

lemma example_activate:
  "\<exists>ws. ept_watch_activate example_env (Some junk) True 0x678 8 EPTW_WRITE 0 8 0 0 example_watches = Inr ((0, 0), ws) \<and>
     qwords (watch_ept ws) = example_tables(0x103000 := 0x35) \<and> eptWatchList ws ! 0 = new_watch 0 0x678 8 EPTW_WRITE 0 8 0 0 ((junk 0)\<lparr>Active := 0\<rparr>) \<and>
     eptWatchListPos ws = 1 \<and> length (eptWatchList ws) = 4 \<and>
     watch_cpus ws = [example_cpu\<lparr>eptWatchEntries := (\<lambda>_. 0)(0 := 0x103000), eptUpdated := True\<rparr>]"
proof -
  have "restrict_entry example_env EPTW_WRITE 0x37 = 0x35"
    by (simp add: restrict_entry_def unset_bit_eq_and_not push_bit_eq_mult)
  moreover have "qwords (example_mem 4 (example_tables(0x103000 := 0x37))) 0x103000 = 0x37" by (simp add: example_mem_def)
  ultimately have page: "watch_page example_env 0 0x678 EPTW_WRITE [example_cpu] example_ept =
      Some ([example_cpu\<lparr>eptWatchEntries := (\<lambda>_. 0)(0 := 0x103000), eptUpdated := True\<rparr>],
        write_entry 0x103000 0x35 (example_mem 4 (example_tables(0x103000 := 0x37))))"
    using example_map_page by (simp add: example_cpu_def Let_def) (simp add: example_env_def)
  let ?ws = "example_watches\<lparr>eptWatchList := map (\<lambda>j. (junk j)\<lparr>Active := 0\<rparr>) [0..<4], eptWatchListPos := 1\<rparr>"
  have get: "getFreeWatchID (Some junk) example_watches = Some (0, ?ws)"
    by (simp add: getFreeWatchID_def example_watches_def upt_rec)
  have cpus: "watch_cpus ?ws = [example_cpu]" "watch_ept ?ws = example_ept" by (simp_all add: example_watches_def)
  let ?w = "new_watch 0 0x678 8 EPTW_WRITE 0 8 0 0 ((junk 0)\<lparr>Active := 0\<rparr>)"
  have "eptWatchList ?ws ! 0 = (junk 0)\<lparr>Active := 0\<rparr>" by simp
  then have "ept_watch_activate example_env (Some junk) True 0x678 8 EPTW_WRITE 0 8 0 0 example_watches =
      Inr ((0, 0), set_watch 0 ?w ?ws\<lparr>
        watch_cpus := [example_cpu\<lparr>eptWatchEntries := (\<lambda>_. 0)(0 := 0x103000), eptUpdated := True\<rparr>],
        watch_ept := write_entry 0x103000 0x35 (example_mem 4 (example_tables(0x103000 := 0x37)))\<rparr>)"
    unfolding ept_watch_activate_def get Let_def set_watch_fields cpus option.case prod.case
    by (simp add: struct_type_def log_bytes_small page del: watch_page.simps)
  then show ?thesis by (simp add: write_entry_def example_mem_def)
qed

theorem ept_watch_activate_restricts_witness:
  "\<exists>ws. ept_watch_activate example_env (Some example_unused) True 0x678 8 EPTW_WRITE 0 8 0 0 example_watches = Inr ((0, 0), ws) \<and>
     translation example_config (watch_ept ws) 0x100000 0xabc = Some (0xabc, 5, 6)"
proof -
  obtain ws where ws: "ept_watch_activate example_env (Some example_unused) True 0x678 8 EPTW_WRITE 0 8 0 0 example_watches = Inr ((0, 0), ws)"
    using example_activate by blast
  have "take_bit 36 0x678 = (0x678 :: u64)" "eptWatchListPos example_watches \<le> length (eptWatchList example_watches)"
    by (simp_all add: example_watches_def)
  note restricts = ept_watch_activate_restricts [OF example_cpus_ok this ws]
  have cpu: "example_cpu \<in> set (watch_cpus example_watches)" "EPTPML4 example_cpu = 0x100000"
    by (simp_all add: example_watches_def example_cpu_def)
  have ept: "watch_ept example_watches = example_ept" "watch_config example_env = example_config"
    by (simp_all add: example_watches_def example_env_def)
  have page: "same_page 1 0x678 (0xabc :: u64)" by (simp add: level_shift_def)
  have "\<not> readable_4K example_config example_ept 0x100000 0x678"
    by (simp add: readable_4K_def example_ept_def walk_entry)
  moreover have "memory_type example_config 0xabc = 6" by (simp add: memory_type_def example_config_def type_at_def)
  moreover have "allowed_access example_env EPTW_WRITE = 5"
    by (simp add: allowed_access_def restrict_entry_def unset_bit_eq_and_not push_bit_eq_mult)
  ultimately have "watched_translation example_env EPTW_WRITE example_config example_ept 0x100000 0x678 0xabc = Some (0xabc, 5, 6)"
    by (simp add: watched_translation_def restricted_def)
  then have "translation example_config (watch_ept ws) 0x100000 0xabc = Some (0xabc, 5, 6)"
    using restricts [THEN conjunct2, THEN conjunct1, rule_format, OF cpu(1), of "0xabc"] page by (simp add: cpu ept)
  then show ?thesis using ws by blast
qed

text \<open>A second watch on the page finds its entry in place.\<close>

lemma example_map_again:
  assumes "qwords s = example_tables(0x103000 := 0x35)"
  shows "EPTMapPhysicalMemory example_config 0x100000 0x800 True s = Some (0x103000, write_entry 0x103000 0x37 s)"
proof -
  have bits: "bit (0x101007 :: u64) 0" "bit (0x102007 :: u64) 0" "bit (0x103007 :: u64) 0" "bit (0x35 :: u64) 0"
    "\<not> bit (0x102007 :: u64) 7" "\<not> bit (0x103007 :: u64) 7"
    by (simp_all add: bit_numeral_rec)
  have "map_pml4 example_config 0x100000 s = Some s" using assms bits by (simp add: map_pml4_def)
  moreover have "map_large example_config b 3 0x800 True 0x101000 s = Some (False, s)"
    "map_large example_config b 2 0x800 True 0x102000 s = Some (False, s)" for b
    using assms bits by (simp_all add: map_large_def Let_def)
  moreover have "full_access 0x35 = 0x37" by (simp add: full_access_def set_bit_eq_or push_bit_eq_mult)
  then have "map_page example_config 0x800 0x103000 s = Some (write_entry 0x103000 0x37 s)"
    using assms bits by (simp add: map_page_def)
  moreover have "qwords s ea AND frame_mask example_config = (example_tables(0x103000 := 0x35)) ea AND 0xFFFFFF000" for ea
    by (simp add: assms example_config_def)
  ultimately show ?thesis by (simp add: EPTMapPhysicalMemory_def Let_def example_entry_addresses)
qed

theorem second_watch_cancels_witness:
  "\<exists>ws1 ws2 h ty. ept_watch_activate example_env (Some example_unused) True 0x678 8 EPTW_WRITE 0 8 0 0 example_watches = Inr ((0, 0), ws1) \<and>
     ept_watch_activate example_env None True 0x800 4 EPTW_EXECUTE 0 8 0 0 ws1 = Inr ((0, 1), ws2) \<and>
     watch_Type (eptWatchList ws2 ! 0) = EPTW_WRITE \<and> translation example_config (watch_ept ws2) 0x100000 0x678 = Some (h, 3, ty)"
proof -
  obtain ws1 where ws1: "ept_watch_activate example_env (Some example_unused) True 0x678 8 EPTW_WRITE 0 8 0 0 example_watches = Inr ((0, 0), ws1)"
    and q: "qwords (watch_ept ws1) = example_tables(0x103000 := 0x35)"
    and list: "eptWatchList ws1 ! 0 = new_watch 0 0x678 8 EPTW_WRITE 0 8 0 0 ((example_unused 0)\<lparr>Active := 0\<rparr>)"
      "eptWatchListPos ws1 = 1" "length (eptWatchList ws1) = 4"
    and cpus: "watch_cpus ws1 = [example_cpu\<lparr>eptWatchEntries := (\<lambda>_. 0)(0 := 0x103000), eptUpdated := True\<rparr>]"
    using example_activate by blast
  have get: "getFreeWatchID None ws1 = Some (1, ws1\<lparr>eptWatchListPos := 2\<rparr>)"
    using list by (simp add: getFreeWatchID_def)
  have config: "watch_config example_env = example_config" by (simp add: example_env_def)
  obtain cs s where "watch_page example_env 1 0x800 EPTW_EXECUTE (watch_cpus ws1) (watch_ept ws1) = Some (cs, s)"
    using example_map_again [OF q] by (simp add: cpus config Let_def) (simp add: example_cpu_def)
  then obtain ws2 where ws2: "ept_watch_activate example_env None True 0x800 4 EPTW_EXECUTE 0 8 0 0 ws1 = Inr ((0, 1), ws2)"
    by (simp add: ept_watch_activate_def get Let_def struct_type_def log_bytes_small)
  have phys: "take_bit 36 0x678 = (0x678 :: u64)" "take_bit 36 0x800 = (0x800 :: u64)" by simp_all
  have pos: "eptWatchListPos example_watches \<le> length (eptWatchList example_watches)" by (simp add: example_watches_def)
  have page: "same_page 1 0x678 (0x800 :: u64)" by (simp add: level_shift_def)
  have cpu: "example_cpu \<in> set (watch_cpus example_watches)" "EPTPML4 example_cpu = 0x100000"
    by (simp_all add: example_watches_def example_cpu_def)
  show ?thesis
    using second_watch_cancels [OF example_cpus_ok pos phys page ws1 ws2 _ cpu(1), of "0x678"] ws1 ws2
    by (auto simp: cpu config)
qed

end
