(* ===== verification/GuestCopy.thy ===== *)
theory GuestCopy
  imports GuestPaging
begin

text \<open>
  Copies between guest memory and physical memory on behalf of the guest (\<open>vmcall.c\<close>, Intel).
  A copy works in blocks like a repeated string instruction: what is left is kept in the
  parameters, and the instruction pointer stays until all is done, so that a page fault for the next page or
  an interrupt can come in between. The parameters are in guest memory themselves; here they are
  a value apart, which the copy does not touch. A result \<open>None\<close> is a copy that does not return.
\<close>

section \<open>Exceptions for the guest (\<open>vmcall.c\<close>)\<close>

text \<open>The second result is what \<open>CR2\<close> is set to.\<close>

definition raisePagefault :: "u64 \<Rightarrow> vm_state \<Rightarrow> vm_state \<times> u64" where
  "raisePagefault address s =
     (let errorcode = (if drop_bit 5 (vmread vm_guest_cs_access_rights s) AND 3 = 3 then 4 else 0);
          info = 14 OR push_bit 8 3 OR push_bit 11 1 OR push_bit 31 1;
          s = vmwrite vm_entry_interruptioninfo info s;
          s = vmwrite vm_entry_exceptionerrorcode errorcode s;
          s = vmwrite vm_entry_instructionlength (vmread vm_exit_instructionlength s) s
      in (s, address))"

definition raiseInvalidOpcodeException :: "vm_state \<Rightarrow> vm_state" where
  "raiseInvalidOpcodeException s =
     (let s = vmwrite vm_entry_interruptioninfo (6 OR push_bit 8 3 OR push_bit 31 1) s;
          s = vmwrite vm_entry_exceptionerrorcode 0 s
      in vmwrite vm_entry_instructionlength (vmread vm_exit_instructionlength s) s)"

definition next_instruction :: "vm_state \<Rightarrow> vm_state" where
  "next_instruction s = vmwrite vm_guest_rip (vmread vm_guest_rip s + vmread vm_exit_instructionlength s) s"

section \<open>Blocks\<close>

text \<open>
  \<open>mapVMmemoryEx\<close> with a size that may be negative, and the size that is used: up to the
  missing page for error 2, none for the other errors. The pages before the missing one stay mapped.
  A negative size maps one page when it reaches less than a page below the start, and else finds no room.
\<close>

definition guest_pointer :: "vm_env \<Rightarrow> vm_state \<Rightarrow> u64 \<Rightarrow> pointer" where
  "guest_pointer env s a i = the (getPhysicalAddressVM env s (a + of_nat i))"

definition fault_size :: "u64 \<Rightarrow> u64 \<Rightarrow> int" where
  "fault_size fault a = sint (ucast (fault - a) :: u32)"

definition map_guest_block :: "vm_env \<Rightarrow> vm_state \<Rightarrow> u64 \<Rightarrow> int \<Rightarrow> nat \<times> u64 \<times> int \<times> pointer" where
  "map_guest_block env s a n =
     (if n \<ge> 0 then
        (case mapVMmemory env s a (nat n) of
           Inr p \<Rightarrow> (0, 0, n, p)
         | Inl (error, fault) \<Rightarrow> (error, fault, if error = 2 then fault_size fault a else 0, guest_pointer env s a))
      else
        let totalsize = n + uint (a AND 0xfff); base = a AND 0xfffffffffffff000
        in if totalsize \<le> -4096 \<or> totalsize = 0 \<or> map_window env = 0 then (1, 0, 0, guest_pointer env s a)
           else if getPhysicalAddressVM env s base = None then (2, base, fault_size base a, guest_pointer env s a)
           else (0, 0, n, guest_pointer env s a))"

text \<open>\<open>copymem\<close>, byte by byte; each pointer may lead to any pages.\<close>

fun copy_mem :: "pointer \<Rightarrow> pointer \<Rightarrow> nat \<Rightarrow> (u64 \<Rightarrow> u8) \<Rightarrow> (u64 \<Rightarrow> u8)" where
  "copy_mem d s 0 m = m"
| "copy_mem d s (Suc n) m = copy_mem (\<lambda>i. d (Suc i)) (\<lambda>i. s (Suc i)) n (m(d 0 := m (s 0)))"

definition physical_pointer :: "vm_env \<Rightarrow> u64 \<Rightarrow> pointer" where
  "physical_pointer env a i = (a AND MAXPHYADDRMASKPB env) + of_nat (unat (a AND 0xfff) + i)"

section \<open>Physical memory for the guest\<close>

text \<open>\<open>VMCALL_READPHYSICALMEMORY\<close> and \<open>VMCALL_WRITEPHYSICALMEMORY\<close>, which have the same members.\<close>

record phys_copy =
  copy_PA :: u64
  copy_bytes :: u32
  copy_VA :: u64
  nopagefault :: u32

definition block_size :: "phys_copy \<Rightarrow> int" where
  "block_size c = (if sint (copy_bytes c) > 1048576 then 1048576 else sint (copy_bytes c))"

definition advance_copy :: "int \<Rightarrow> phys_copy \<Rightarrow> phys_copy" where
  "advance_copy n c = c\<lparr>copy_bytes := copy_bytes c - of_int n, copy_VA := copy_VA c + of_int n,
     copy_PA := copy_PA c + of_int n\<rparr>"

text \<open>How a call ends: the \<open>CR2\<close> of a page fault, the parameters, and the state.\<close>

definition finish_copy :: "nat \<Rightarrow> u64 \<Rightarrow> phys_copy \<Rightarrow> vm_state \<Rightarrow> u64 option \<times> phys_copy \<times> vm_state" where
  "finish_copy error fault c s =
     (if error = 2 \<and> nopagefault c = 0 then (let (s, cr2) = raisePagefault fault s in (Some cr2, c, s))
      else if copy_bytes c = 0 \<or> error \<noteq> 0 then (None, c, next_instruction (s\<lparr>rax := ucast (copy_bytes c)\<rparr>))
      else (None, c, s))"

text \<open>Both blocks have to fit into the window, else \<open>mapPhysicalMemory\<close> freezes.\<close>

definition vmcall_readPhysicalMemory :: "vm_env \<Rightarrow> phys_copy \<Rightarrow> vm_state \<Rightarrow> (u64 option \<times> phys_copy \<times> vm_state) option" where
  "vmcall_readPhysicalMemory env c s =
     (let (error, fault, n, Destination) = map_guest_block env s (copy_VA c) (block_size c)
      in if n = 0 then Some (finish_copy error fault c s)
         else if n < 0 \<or> page_count (copy_VA c) (nat n) + page_count (copy_PA c) (nat n) > map_window env then None
         else Some (finish_copy error fault (advance_copy n c)
           (s\<lparr>pmem := copy_mem Destination (physical_pointer env (copy_PA c)) (nat n) (pmem s)\<rparr>)))"

definition vmcall_writePhysicalMemory :: "vm_env \<Rightarrow> phys_copy \<Rightarrow> vm_state \<Rightarrow> (u64 option \<times> phys_copy \<times> vm_state) option" where
  "vmcall_writePhysicalMemory env c s =
     (let (error, fault, n, Source) = map_guest_block env s (copy_VA c) (block_size c)
      in if n = 0 then Some (finish_copy error fault c s)
         else if n < 0 \<or> page_count (copy_VA c) (nat n) + page_count (copy_PA c) (nat n) > map_window env then None
         else Some (finish_copy error fault (advance_copy n c)
           (s\<lparr>pmem := copy_mem (physical_pointer env (copy_PA c)) Source (nat n) (pmem s)\<rparr>)))"

section \<open>Distances to a missing page\<close>

lemma ucast_of_int [simp]: "(ucast (of_int x :: u64) :: u32) = of_int x"
  by transfer simp

lemma sint_of_int: "- (2 ^ 31) \<le> x \<Longrightarrow> x < 2 ^ 31 \<Longrightarrow> sint (of_int x :: u32) = x"
  by (simp add: signed_of_int signed_take_bit_int_eq_self)

lemma page_offset_bounds: "0 \<le> uint (a AND 0xfff :: u64)" "uint (a AND 0xfff :: u64) < 4096"
proof -
  have "int (unat (a AND 0xfff)) < 4096" using low_bits_less [of a] by linarith
  then show "0 \<le> uint (a AND 0xfff)" "uint (a AND 0xfff) < 4096" by simp_all
qed

lemma fault_distance:
  assumes "j < 2 ^ 18"
  shows "fault_size (page_of a + of_nat (4096 * j)) a = int (4096 * j) - uint (a AND 0xfff)"
proof -
  let ?o = "uint (a AND 0xfff)"
  have "a = page_of a + (a AND 0xfff)" using bits_ident [of 12 a] by (simp add: mask_simps)
  then have "page_of a + of_nat (4096 * j) - a = of_int (int (4096 * j) - ?o)"
    by (simp add: mask_simps algebra_simps)
  then have "fault_size (page_of a + of_nat (4096 * j)) a = sint (of_int (int (4096 * j) - ?o) :: u32)"
    by (simp only: fault_size_def ucast_of_int)
  also have "\<dots> = int (4096 * j) - ?o"
  proof (rule sint_of_int)
    have j: "0 \<le> int (4096 * j)" "int (4096 * j) \<le> 4096 * 2 ^ 18" using assms by simp_all
    have p: "(2::int) ^ 31 = 2147483648" "(4096 * 2 ^ 18 :: int) = 1073741824" by simp_all
    show "- (2 ^ 31) \<le> int (4096 * j) - ?o" using page_offset_bounds [of a] j unfolding p by linarith
    show "int (4096 * j) - ?o < 2 ^ 31" using page_offset_bounds [of a] j unfolding p by linarith
  qed
  finally show ?thesis .
qed

text \<open>The fault of a mapping is the first page that is missing.\<close>

lemma map_frames_first:
  "map_frames env s a n = Inl f \<Longrightarrow> \<exists>j<n. f = a + of_nat (4096 * j) \<and> getPhysicalAddressVM env s f = None \<and>
     (\<forall>i<j. getPhysicalAddressVM env s (a + of_nat (4096 * i)) \<noteq> None)"
proof (induction n arbitrary: a)
  case (Suc n)
  show ?case
  proof (cases "getPhysicalAddressVM env s a")
    case None
    then show ?thesis using Suc.prems by (intro exI [of _ 0]) auto
  next
    case (Some p)
    then have "map_frames env s (a + 4096) n = Inl f" using Suc.prems by (auto split: sum.splits)
    then obtain j where j: "j < n" "f = a + 4096 + of_nat (4096 * j)" "getPhysicalAddressVM env s f = None"
      "\<forall>i<j. getPhysicalAddressVM env s (a + 4096 + of_nat (4096 * i)) \<noteq> None"
      using Suc.IH by blast
    have "getPhysicalAddressVM env s (a + of_nat (4096 * i)) \<noteq> None" if "i < Suc j" for i
      using that j(4) Some by (cases i) (auto simp: algebra_simps)
    then show ?thesis using j by (intro exI [of _ "Suc j"]) (auto simp: algebra_simps)
  qed
qed simp

section \<open>A block of guest memory\<close>

lemma guest_pointer_before:
  assumes present: "\<forall>i<j. getPhysicalAddressVM env s (page_of a + of_nat (4096 * i)) \<noteq> None"
    and i: "unat (a AND 0xfff) + i < 4096 * j"
  shows "getPhysicalAddressVM env s (a + of_nat i) = Some (guest_pointer env s a i)"
proof -
  let ?o = "unat (a AND 0xfff)"
  let ?q = "(?o + i) div 4096" and ?r = "(?o + i) mod 4096"
  have "?q < j" using i by (simp add: div_less_iff_less_mult)
  then obtain p where "getPhysicalAddressVM env s (page_of a + of_nat (4096 * ?q)) = Some p"
    using present by blast
  then have "getPhysicalAddressVM env s (page_of a + of_nat (4096 * ?q) + of_nat ?r) = Some (p + of_nat ?r)"
    using page_of_multiple [of a ?q] by (subst translate_step) simp_all
  then have "getPhysicalAddressVM env s (a + of_nat i) = Some (p + of_nat ?r)"
    using page_split [of ?o a i] by (simp add: mask_simps)
  then show ?thesis by (simp add: guest_pointer_def)
qed

lemma page_count_covers:
  assumes "j < page_count a n"
  shows "4096 * j < n + unat (a AND 0xfff)"
proof -
  define t q r where "t = n + unat (a AND 0xfff)" and "q = t div 4096" and "r = t mod 4096"
  have "j < q + (if r \<noteq> 0 then 1 else 0)" using assms by (simp add: page_count_def Let_def t_def q_def r_def)
  moreover have "t = 4096 * q + r" by (simp add: q_def r_def)
  ultimately show ?thesis unfolding t_def [symmetric] by (auto split: if_splits)
qed

lemma map_guest_block_cases:
  assumes n: "0 < n" "n \<le> 1048576" and room: "page_count a n \<le> map_window env"
  obtains (whole) p where "map_guest_block env s a (int n) = (0, 0, int n, p)"
      "\<forall>i<n. getPhysicalAddressVM env s (a + of_nat i) = Some (p i)"
    | (fault) k j where "map_guest_block env s a (int n) = (2, page_of a + of_nat (4096 * j), int k - (if j = 0 then uint (a AND 0xfff) else 0), guest_pointer env s a)"
      "k < n" "j = 0 \<Longrightarrow> k = 0" "j \<noteq> 0 \<Longrightarrow> page_of a + of_nat (4096 * j) = a + of_nat k"
      "getPhysicalAddressVM env s (page_of a + of_nat (4096 * j)) = None"
      "\<forall>i<k. getPhysicalAddressVM env s (a + of_nat i) = Some (guest_pointer env s a i)"
proof (cases "map_frames env s (a AND 0xfffffffffffff000) (page_count a n)")
  case (Inr ps)
  then obtain p where p: "mapVMmemory env s a n = Inr p" using n room low_bits_less [of a] by (simp add: mapVMmemory_def Let_def)
  then have "\<forall>i<n. getPhysicalAddressVM env s (a + of_nat i) = Some (p i)"
    using mapVMmemory_Inr by blast
  then show ?thesis using p by (intro whole [of p]) (simp add: map_guest_block_def)
next
  case (Inl f)
  let ?o = "unat (a AND 0xfff)"
  obtain j where j: "j < page_count a n" "f = page_of a + of_nat (4096 * j)" "getPhysicalAddressVM env s f = None"
    "\<forall>i<j. getPhysicalAddressVM env s (page_of a + of_nat (4096 * i)) \<noteq> None"
    using map_frames_first [OF Inl] by (auto simp: mask_simps)
  have o: "?o < 4096" by (rule low_bits_less)
  have upto: "4096 * j < ?o + n" using page_count_covers [OF j(1)] by simp
  have "j < 2 ^ 18" using upto n(2) o by simp
  then have size: "fault_size f a = int (4096 * j) - int ?o" unfolding j(2) by (subst fault_distance) simp_all
  have block: "map_guest_block env s a (int n) = (2, f, fault_size f a, guest_pointer env s a)"
    using Inl n room o by (simp add: map_guest_block_def mapVMmemory_def Let_def)
  have a: "a = page_of a + of_nat ?o" using bits_ident [of 12 a] by (simp add: mask_simps)
  show ?thesis
  proof (rule fault [of j "4096 * j - ?o"])
    have le: "j \<noteq> 0 \<Longrightarrow> ?o \<le> 4096 * j" using o by (cases j) auto
    show "map_guest_block env s a (int n) = (2, page_of a + of_nat (4096 * j),
      int (4096 * j - ?o) - (if j = 0 then uint (a AND 0xfff) else 0), guest_pointer env s a)"
      using block size j(2) le by auto
    show "4096 * j - ?o < n" using upto n(1) by linarith
    show "j = 0 \<Longrightarrow> 4096 * j - ?o = 0" by simp
    show "page_of a + of_nat (4096 * j) = a + of_nat (4096 * j - ?o)" if "j \<noteq> 0"
    proof -
      have "a + of_nat (4096 * j - ?o) = page_of a + (of_nat ?o + of_nat (4096 * j - ?o))"
        by (subst a) (simp only: add.assoc)
      also have "of_nat ?o + of_nat (4096 * j - ?o) = (of_nat (4096 * j) :: u64)"
        using le [OF that] by (simp flip: of_nat_add)
      finally show ?thesis by simp
    qed
    show "getPhysicalAddressVM env s (page_of a + of_nat (4096 * j)) = None" using j(2,3) by simp
    show "\<forall>i<4096 * j - ?o. getPhysicalAddressVM env s (a + of_nat i) = Some (guest_pointer env s a i)"
      using guest_pointer_before [OF j(4)] by auto
  qed
qed

section \<open>Sequential copies\<close>

lemma copy_mem_add:
  "copy_mem d s (m + n) h = copy_mem (\<lambda>i. d (m + i)) (\<lambda>i. s (m + i)) n (copy_mem d s m h)"
  by (induction m arbitrary: d s h) simp_all

lemma copy_mem_cong:
  "(\<And>i. i < n \<Longrightarrow> d i = d' i) \<Longrightarrow> (\<And>i. i < n \<Longrightarrow> s i = s' i) \<Longrightarrow> copy_mem d s n h = copy_mem d' s' n h"
proof (induction n arbitrary: d d' s s' h)
  case (Suc n)
  have "d 0 = d' 0" "s 0 = s' 0" using Suc.prems by simp_all
  moreover have "copy_mem (\<lambda>i. d (Suc i)) (\<lambda>i. s (Suc i)) n h' = copy_mem (\<lambda>i. d' (Suc i)) (\<lambda>i. s' (Suc i)) n h'" for h'
    by (rule Suc.IH) (simp_all add: Suc.prems)
  ultimately show ?case by simp
qed simp

lemma copy_mem_other: "(\<And>i. i < n \<Longrightarrow> d i \<noteq> a) \<Longrightarrow> copy_mem d s n h a = h a"
proof (induction n arbitrary: d s h)
  case (Suc n)
  have "copy_mem (\<lambda>i. d (Suc i)) (\<lambda>i. s (Suc i)) n (h(d 0 := h (s 0))) a = (h(d 0 := h (s 0))) a"
    by (rule Suc.IH) (simp add: Suc.prems)
  then show ?case using Suc.prems [of 0] by simp
qed simp

text \<open>A copy to a place apart from its source has the bytes of the source.\<close>

lemma copy_mem_copies:
  "inj_on d {..<n} \<Longrightarrow> (\<And>i j. i < n \<Longrightarrow> j < n \<Longrightarrow> d i \<noteq> s j) \<Longrightarrow> i < n \<Longrightarrow> copy_mem d s n h (d i) = h (s i)"
proof (induction n arbitrary: d s h i)
  case (Suc n)
  let ?d = "\<lambda>i. d (Suc i)" and ?s = "\<lambda>i. s (Suc i)" and ?h = "h(d 0 := h (s 0))"
  have inj: "inj_on ?d {..<n}" using Suc.prems(1) by (auto simp: inj_on_def)
  show ?case
  proof (cases i)
    case 0
    have "?d k \<noteq> d 0" if "k < n" for k using Suc.prems(1) that by (auto simp: inj_on_def)
    then show ?thesis using copy_mem_other [of n ?d "d 0" ?s ?h] 0 by simp
  next
    case (Suc k)
    have "copy_mem ?d ?s n ?h (?d k) = ?h (?s k)"
      by (rule Suc.IH [OF inj]) (use Suc.prems Suc in auto)
    moreover have "s (Suc k) \<noteq> d 0" using Suc.prems(2) [of 0 i] Suc.prems(3) Suc by auto
    ultimately show ?thesis by (simp only: copy_mem.simps Suc fun_upd_apply if_False)
  qed
qed simp

end
