(* ===== verification/WatchRetrieve.thy ===== *)
theory WatchRetrieve
  imports Watch GuestCopy
begin

text \<open>
  The copy of a log to the client (\<open>epthandler.c\<close>: \<open>ept_watch_retrievelog\<close>, Intel), a repeated instruction
  like those of \<open>GuestCopy\<close>, in blocks of 64 KB. The log is copied as the bytes of its structures.
\<close>

section \<open>Logs as bytes (\<open>eptstructs.h\<close>)\<close>

definition word_bytes :: "u64 \<Rightarrow> nat \<Rightarrow> u8 list" where
  "word_bytes v n = map (\<lambda>i. ucast (drop_bit (8 * i) v)) [0..<n]"

definition basic_bytes :: "page_event_basic \<Rightarrow> u8 list" where
  "basic_bytes b =
     concat (map (\<lambda>v. word_bytes v 8)
       [VirtualAddress b, PhysicalAddress b, pe_CR3 b, pe_FSBASE b, pe_GSBASE b, pe_GSBASE_KERNEL b, pe_FLAGS b,
        pe_RAX b, pe_RBX b, pe_RCX b, pe_RDX b, pe_RSI b, pe_RDI b, pe_R8 b, pe_R9 b, pe_R10 b, pe_R11 b, pe_R12 b,
        pe_R13 b, pe_R14 b, pe_R15 b, pe_RBP b, pe_RSP b, pe_RIP b, pe_DR0 b, pe_DR1 b, pe_DR2 b, pe_DR3 b, pe_DR6 b, pe_DR7 b]) @
     concat (map (\<lambda>v. word_bytes (ucast v) 2) [pe_CS b, pe_DS b, pe_ES b, pe_SS b, pe_FS b, pe_GS b]) @
     word_bytes (ucast (pe_Count b)) 4"

definition event_bytes :: "page_event \<Rightarrow> u8 list" where
  "event_bytes e = (case e of
     PE_BASIC b \<Rightarrow> basic_bytes b
   | PE_EXTENDED b fpu \<Rightarrow> basic_bytes b @ fpu
   | PE_BASICSTACK b st \<Rightarrow> basic_bytes b @ st
   | PE_EXTENDEDSTACK b fpu st \<Rightarrow> basic_bytes b @ fpu @ st)"

text \<open>Four bytes of padding are in front of the entries.\<close>

definition log_image :: "event_log \<Rightarrow> u8 list" where
  "log_image lg =
     concat (map (\<lambda>v. word_bytes (ucast v) 4)
       [log_ID lg, maxNumberOfEntries lg, numberOfEntries lg, missedEntries lg, entryType lg, 0]) @
     concat (map event_bytes (log_pe lg))"

definition log_size :: "event_log \<Rightarrow> u32" where
  "log_size lg = (if entryType lg > 3 then 24 else 24 + numberOfEntries lg * of_nat (sizeof_event (unat (entryType lg))))"

section \<open>The copy\<close>

record log_copy =
  lc_ID :: u32
  results :: u64
  resultsize :: u32
  copied :: u32

fun put_bytes :: "pointer \<Rightarrow> u8 list \<Rightarrow> (u64 \<Rightarrow> u8) \<Rightarrow> (u64 \<Rightarrow> u8)" where
  "put_bytes p [] m = m"
| "put_bytes p (b # bs) m = put_bytes (\<lambda>i. p (Suc i)) bs (m(p 0 := b))"

text \<open>The end with an error code, which goes to the next instruction.\<close>

definition log_error :: "u64 \<Rightarrow> log_copy \<times> vm_state \<times> watch_state \<Rightarrow> watch_error + u64 option \<times> log_copy \<times> vm_state \<times> watch_state" where
  "log_error errorcode = (\<lambda>(lc, s, ws). Inr (None, lc, next_instruction (s\<lparr>rax := errorcode\<rparr>), ws))"

text \<open>One block of the log of the active watch \<open>w\<close>, once the parameters have been checked.\<close>

definition copy_log_block :: "vm_env \<Rightarrow> nat \<Rightarrow> ept_watch \<Rightarrow> event_log \<Rightarrow> log_copy \<times> vm_state \<times> watch_state \<Rightarrow>
    watch_error + u64 option \<times> log_copy \<times> vm_state \<times> watch_state" where
  "copy_log_block env i w lg = (\<lambda>(lc, s, ws).
     (let sizeneeded = log_size lg;
          sizeleft = sint (sizeneeded - copied lc);
          ws = set_watch i (w\<lparr>CopyInProgress := 1\<rparr>) ws;
          (error, fault, n, p) = map_guest_block env s (results lc + ucast (copied lc)) (min sizeleft 65536)
      in if error \<noteq> 0 \<and> error \<noteq> 2 then log_error (of_nat (0x1000 + error)) (lc, s, ws)
         else if n < 0 then Inl HostFault
         else if unat (copied lc) + nat n > length (log_image lg) then Inl BeyondLog
         else
           let s = s\<lparr>pmem := put_bytes p (take (nat n) (drop (unat (copied lc)) (log_image lg))) (pmem s)\<rparr>;
               lc = lc\<lparr>copied := copied lc + of_int n\<rparr>
           in if error = 2 then (let (s, cr2) = raisePagefault fault s in Inr (Some cr2, lc, s, ws))
              else if copied lc \<ge> sizeneeded
              then log_error 0 (lc\<lparr>resultsize := copied lc\<rparr>, s,
                set_watch i (w\<lparr>CopyInProgress := 0, Log := Some (lg\<lparr>numberOfEntries := 0\<rparr>)\<rparr>) ws)
              else Inr (None, lc, s, ws)))"

text \<open>The ID is a signed number for the tests; a negative one reads in front of the list.\<close>

definition ept_watch_retrievelog :: "vm_env \<Rightarrow> log_copy \<times> vm_state \<times> watch_state \<Rightarrow>
    watch_error + u64 option \<times> log_copy \<times> vm_state \<times> watch_state" where
  "ept_watch_retrievelog env = (\<lambda>(lc, s, ws).
     (let ID = sint (lc_ID lc); i = nat ID; w = eptWatchList ws ! i
      in if ID \<ge> int (eptWatchListPos ws) then log_error 1 (lc, s, ws)
         else if ID < 0 then Inl HostFault
         else if Active w = 0 then log_error 3 (lc, s, ws)
         else case Log w of None \<Rightarrow> Inl HostFault
           | Some lg \<Rightarrow>
               if resultsize lc < log_size lg then log_error 2 (lc\<lparr>resultsize := log_size lg\<rparr>, s, ws)
               else if results lc = 0 then log_error 4 (lc, s, ws)
               else if copied lc \<noteq> 0 \<and> CopyInProgress w = 0 then log_error 5 (lc, s, ws)
               else if copied lc > log_size lg then log_error 6 (lc, s, ws)
               else copy_log_block env i w lg (lc, s, ws)))"

section \<open>Sizes\<close>

lemma length_word_bytes [simp]: "length (word_bytes v n) = n"
  by (simp add: word_bytes_def)

lemma length_basic_bytes [simp]: "length (basic_bytes b) = 256"
  by (simp add: basic_bytes_def)

lemma length_log_image: "length (log_image lg) = 24 + sum_list (map (\<lambda>e. length (event_bytes e)) (log_pe lg))"
  by (simp add: log_image_def length_concat comp_def)

end
