(* ===== verification/WatchLogs.thy ===== *)
theory WatchLogs
  imports WatchRetrieve
begin

text \<open>
  The logs of \<open>Watch\<close>: what a recorded event looks like, and that a log stays within its memory
  and holds each instruction once, or would be written behind its memory when it grows.
\<close>

section \<open>Recorded events\<close>

lemma saveStack_length:
  assumes "saveStack env s = Some st"
  shows "length st = 4096"
proof (cases "mapVMmemory env s (vmread vm_guest_rsp s) 4096")
  case (Inl e)
  let ?rsp = "vmread vm_guest_rsp s"
  obtain err f where e: "e = (err, f)" by fastforce
  show ?thesis
  proof (cases "err = 2")
    case True
    then have "map_frames env s (?rsp AND 0xfffffffffffff000) (page_count ?rsp 4096) = Inl f"
      using Inl e by (auto simp: mapVMmemory_def Let_def split: if_splits sum.splits)
    then obtain j where j: "j < page_count ?rsp 4096" "f = (?rsp AND 0xfffffffffffff000) + of_nat (4096 * j)"
      using map_frames_Inl by blast
    have "j < 2" using j(1) page_count_small [of 4096 ?rsp] by simp
    then have "sint (ucast (f - ?rsp) :: u32) = int (4096 * j) - uint (?rsp AND 0xfff)"
      using fault_distance [of j ?rsp] by (simp add: fault_size_def j(2) mask_simps)
    moreover have "0 \<le> uint (?rsp AND 0xfff)" by simp
    moreover have "int (4096 * j) \<le> 4096" using \<open>j < 2\<close> by simp
    ultimately have "sint (ucast (f - ?rsp) :: u32) \<le> 4096" by linarith
    then show ?thesis using assms Inl e True by (auto simp: saveStack_def Let_def split: if_splits option.splits)
  qed (use assms Inl e in \<open>auto simp: saveStack_def Let_def\<close>)
qed (use assms in \<open>auto simp: saveStack_def Let_def\<close>)

definition event_ok :: "nat \<Rightarrow> page_event \<Rightarrow> bool" where
  "event_ok t e \<longleftrightarrow> (case e of PE_BASIC _ \<Rightarrow> t = 0 | PE_EXTENDED _ fpu \<Rightarrow> t = 1 \<and> length fpu = 512
     | PE_BASICSTACK _ st \<Rightarrow> t = 2 \<and> length st = 4096
     | PE_EXTENDEDSTACK _ fpu st \<Rightarrow> t = 3 \<and> length fpu = 512 \<and> length st = 4096)"

text \<open>An event of the right kind has the size its kind says.\<close>

lemma length_event_bytes: "event_ok t e \<Longrightarrow> length (event_bytes e) = sizeof_event t"
  by (cases e) (simp_all add: event_ok_def event_bytes_def sizeof_event_def)

lemma recordState_ok:
  assumes "recordState env t x = Some e" and "t < 4" and "length (fxsave x) = 512"
  shows "event_ok t e" and "event_basic e = fillPageEventBasic x"
  using assms saveStack_length [of env "vm x"]
  by (auto simp: recordState_def event_ok_def split: if_splits)

lemma count_entry_ok:
  "event_ok t (count_entry e) = event_ok t e" "event_basic (count_entry e) = count_event (event_basic e)"
  by (simp_all add: event_ok_def count_entry_def split: page_event.split)

section \<open>The invariant of a log\<close>

lemma struct_type_less: "struct_type options < 4"
proof -
  have "drop_bit 2 options AND 3 = take_bit 2 (drop_bit 2 options)" by (simp add: take_bit_eq_mask mask_eq_exp_minus_1)
  then show ?thesis using unat_take_bit_less [of 2 "drop_bit 2 options"] by (simp add: struct_type_def)
qed

definition logged_rips :: "event_log \<Rightarrow> u64 list" where
  "logged_rips lg = map (\<lambda>e. pe_RIP (event_basic e)) (take (unat (numberOfEntries lg)) (log_pe lg))"

definition log_ok :: "u32 \<Rightarrow> event_log \<Rightarrow> bool" where
  "log_ok options lg \<longleftrightarrow> entryType lg = of_nat (struct_type options) \<and> numberOfEntries lg \<le> maxNumberOfEntries lg \<and>
     unat (maxNumberOfEntries lg) \<le> length (log_pe lg) \<and>
     24 + sizeof_event (struct_type options) * length (log_pe lg) < 2 ^ 32 \<and>
     (\<forall>e \<in> set (log_pe lg). event_ok (struct_type options) e) \<and>
     (\<not> bit options EPTO_MULTIPLERIP \<longrightarrow> distinct (logged_rips lg))"

text \<open>A new log has room for its entries when their size does not exceed 32 bits.\<close>

lemma sizeof_event_pos: "256 \<le> sizeof_event t"
  by (simp add: sizeof_event_def)

lemma log_ok_small: "log_ok options lg \<Longrightarrow> length (log_pe lg) < 2 ^ 24"
proof -
  assume "log_ok options lg"
  then have "sizeof_event (struct_type options) * length (log_pe lg) < 2 ^ 32" by (simp add: log_ok_def)
  moreover have "256 * length (log_pe lg) \<le> sizeof_event (struct_type options) * length (log_pe lg)"
    by (intro mult_le_mono1 sizeof_event_pos)
  ultimately have "256 * length (log_pe lg) < 2 ^ 32" by (rule le_less_trans [rotated])
  then show ?thesis by simp
qed

lemma zero_event_ok: "t < 4 \<Longrightarrow> event_ok t (zero_event t)"
  by (simp add: event_ok_def zero_event_def Let_def)

lemma new_log_ok:
  assumes "0 \<le> maxcount" and "48 + int (sizeof_event (struct_type options)) * maxcount < 2 ^ 32"
  shows "log_ok options (new_log ID options maxcount)"
proof -
  let ?sz = "sizeof_event (struct_type options)"
  define m where "m = nat maxcount"
  have m: "maxcount = int m" using assms(1) by (simp add: m_def)
  have total: "48 + ?sz * m < 2 ^ 32" using assms(2) unfolding m by (metis of_nat_less_iff of_nat_add of_nat_mult of_nat_numeral of_nat_power)
  have "(48 + word_of_int (int ?sz * maxcount) :: u32) = of_nat (48 + ?sz * m)" by (simp add: m)
  then have bytes: "log_bytes (struct_type options) maxcount = 48 + ?sz * m"
    using total unfolding log_bytes_def by (simp add: unat_of_nat take_bit_nat_eq_self del: of_nat_add of_nat_mult)
  let ?room = "(log_bytes (struct_type options) maxcount - 24) div ?sz"
  have sz: "?sz \<noteq> 0" using sizeof_event_pos [of "struct_type options"] by linarith
  have "(?sz * m) div ?sz \<le> (24 + ?sz * m) div ?sz" by (intro div_le_mono) simp
  then have "m \<le> (24 + ?sz * m) div ?sz" using sz by simp
  then have room: "m \<le> ?room" by (simp add: bytes)
  have "?sz * ?room \<le> log_bytes (struct_type options) maxcount - 24" by simp
  then have "24 + ?sz * ?room < 2 ^ 32" using total bytes by linarith
  moreover have "1 * m \<le> ?sz * m" using sz by (intro mult_le_mono1) simp
  then have "m < 2 ^ 32" using total by linarith
  then have "unat (word_of_int maxcount :: u32) = m" by (simp add: m unat_of_nat take_bit_nat_eq_self)
  ultimately show ?thesis
    using room zero_event_ok [OF struct_type_less, of options] by (simp add: log_ok_def new_log_def Let_def logged_rips_def)
qed

section \<open>Adding an event\<close>

lemma find_event_Some:
  "find_event multiple x es i n = Some (j, r) \<Longrightarrow>
     i \<le> j \<and> j < i + n \<and> pe_RIP (event_basic (es ! j)) = vmread vm_guest_rip (vm x) \<and> (r = 5 \<or> r = 6)"
proof (induction n arbitrary: i)
  case (Suc n)
  then show ?case using Suc.IH [of "Suc i"] by (fastforce simp: Let_def split: if_splits)
qed simp

lemma find_event_None:
  "find_event False x es i n = None \<Longrightarrow> \<forall>j. i \<le> j \<and> j < i + n \<longrightarrow> pe_RIP (event_basic (es ! j)) \<noteq> vmread vm_guest_rip (vm x)"
proof (induction n arbitrary: i)
  case (Suc n)
  have "find_event False x es (Suc i) n = None" "pe_RIP (event_basic (es ! i)) \<noteq> vmread vm_guest_rip (vm x)"
    using Suc.prems by (auto simp: Let_def split: if_splits)
  then show ?case using Suc.IH [of "Suc i"] by (metis add_Suc_shift le_antisym not_less_eq_eq)
qed auto

lemma find_event_nat:
  assumes "find_event multiple x es 0 n = Some (j, r)"
  shows "j < n" and "r = 5 \<or> r = 6"
  using find_event_Some [OF assms] by simp_all

lemma take_update_same:
  "map f (take n (es[i := e])) = (map f (take n es))[i := f e]"
  by (simp add: take_update_swap map_update)

lemma log_ok_count:
  assumes "log_ok options lg" and "i < unat (numberOfEntries lg)"
  shows "log_ok options (lg\<lparr>log_pe := (log_pe lg)[i := count_entry (log_pe lg ! i)]\<rparr>)"
proof -
  let ?n = "unat (numberOfEntries lg)" and ?es = "log_pe lg"
  have len: "?n \<le> length ?es" using assms(1) by (simp add: log_ok_def word_le_nat_alt)
  have "logged_rips (lg\<lparr>log_pe := ?es[i := count_entry (?es ! i)]\<rparr>) = logged_rips lg"
    using assms(2) len by (simp add: logged_rips_def take_update_same count_entry_ok list_update_same_conv)
  moreover have "?es ! i \<in> set ?es" using assms(2) len by simp
  then have "event_ok (struct_type options) (count_entry (?es ! i))" using assms(1) by (simp add: log_ok_def count_entry_ok)
  moreover have "set (?es[i := count_entry (?es ! i)]) \<subseteq> insert (count_entry (?es ! i)) (set ?es)"
    by (rule set_update_subset_insert)
  ultimately have "\<forall>e \<in> set (?es[i := count_entry (?es ! i)]). event_ok (struct_type options) e"
    "logged_rips (lg\<lparr>log_pe := ?es[i := count_entry (?es ! i)]\<rparr>) = logged_rips lg"
    using assms(1) unfolding log_ok_def by blast+
  then show ?thesis using assms(1) by (simp add: log_ok_def)
qed

lemma log_ok_miss: "log_ok options lg \<Longrightarrow> log_ok options (miss_entry lg)"
  by (simp add: log_ok_def miss_entry_def logged_rips_def)

lemma unat_of_struct_type [simp]: "unat (of_nat (struct_type options) :: u32) = struct_type options"
  using struct_type_less [of options] by (simp add: unat_of_nat take_bit_nat_eq_self)

lemma unat_Suc_small: "unat x < 2 ^ 24 \<Longrightarrow> unat (x + 1) = Suc (unat x)" for x :: u32
  by (simp add: unat_word_ariths take_bit_nat_eq_self)

lemma log_ok_append:
  assumes ok: "log_ok options lg" and room: "numberOfEntries lg < maxNumberOfEntries lg"
    and new: "find_event (bit options EPTO_MULTIPLERIP) x (log_pe lg) 0 (unat (numberOfEntries lg)) = None"
    and app: "append_entry we x lg = Inr lg'" and fpu: "length (fxsave x) = 512"
  shows "log_ok options lg'" and "unat (numberOfEntries lg') = Suc (unat (numberOfEntries lg))"
    and "logged_rips lg' = logged_rips lg @ [vmread vm_guest_rip (vm x)]"
proof -
  let ?n = "unat (numberOfEntries lg)" and ?es = "log_pe lg" and ?t = "struct_type options"
  have type: "entryType lg = of_nat ?t" and len: "?n < length ?es" and small: "length ?es < 2 ^ 24"
    using ok room log_ok_small [OF ok] by (auto simp: log_ok_def word_less_nat_alt)
  obtain e where e: "recordState (watch_vm_env we) ?t x = Some e"
    and lg': "lg' = lg\<lparr>log_pe := ?es[?n := e], numberOfEntries := numberOfEntries lg + 1\<rparr>"
    using app len type by (auto simp: append_entry_def Let_def split: option.splits if_splits)
  note e_ok = recordState_ok [OF e struct_type_less fpu]
  have n: "unat (numberOfEntries lg + 1) = Suc ?n" using len small by (intro unat_Suc_small) simp
  show "unat (numberOfEntries lg') = Suc ?n" using n by (simp add: lg')
  have take: "take (Suc ?n) (?es[?n := e]) = take ?n ?es @ [e]"
    using len by (simp add: take_Suc_conv_app_nth)
  show rips: "logged_rips lg' = logged_rips lg @ [vmread vm_guest_rip (vm x)]"
    by (simp add: logged_rips_def lg' n take e_ok(2)) (simp add: fillPageEventBasic_def Let_def)
  have "\<not> bit options EPTO_MULTIPLERIP \<Longrightarrow> vmread vm_guest_rip (vm x) \<notin> set (logged_rips lg)"
    using find_event_None [of x ?es 0 ?n] new len by (force simp: logged_rips_def in_set_conv_nth)
  moreover have "numberOfEntries lg + 1 \<le> maxNumberOfEntries lg" using room by (rule inc_le)
  moreover have "set (?es[?n := e]) \<subseteq> insert e (set ?es)" by (rule set_update_subset_insert)
  ultimately show "log_ok options lg'"
    using ok rips e_ok(1) n by (auto simp: log_ok_def lg')
qed

section \<open>Logging\<close>

text \<open>
  An event is counted (5, 6), added (0) or missed (7). The growth of a full log never
  succeeds: with memory for it the event is written behind the new buffer, and without it the log is copied to \<open>NULL\<close>.
\<close>

lemma grow_log_full:
  assumes "log_ok options lg"
  shows "length (log_pe (grow_log mem lg)) \<le> unat (numberOfEntries (grow_log mem lg))"
proof -
  let ?n = "unat (numberOfEntries lg)" and ?sz = "sizeof_event (struct_type options)"
  let ?room = "(unat (of_nat (24 + ?sz * (?n * 2)) :: u32) - 24) div ?sz"
  have sz: "?sz \<noteq> 0" using sizeof_event_pos [of "struct_type options"] by linarith
  have "unat (of_nat (24 + ?sz * (?n * 2)) :: u32) \<le> 24 + ?sz * (?n * 2)"
    by (simp add: unat_of_nat del: of_nat_add of_nat_mult)
  then have "?room \<le> (?sz * (?n * 2)) div ?sz" by (intro div_le_mono) linarith
  then have room: "?room \<le> ?n * 2" using sz by simp
  have type: "unat (entryType lg) = struct_type options" and n: "?n < 2 ^ 24"
    using assms log_ok_small [OF assms] by (auto simp: log_ok_def word_le_nat_alt)
  have "length (log_pe (grow_log mem lg)) = ?room" by (simp add: grow_log_def Let_def type)
  moreover have "unat (numberOfEntries (grow_log mem lg)) = ?n * 2"
    using n by (simp add: grow_log_def Let_def unat_word_ariths take_bit_nat_eq_self)
  ultimately show ?thesis using room by simp
qed

lemma append_entry_full:
  assumes "length (log_pe lg) \<le> unat (numberOfEntries lg)"
  shows "append_entry we x lg = Inl HostFault \<or> append_entry we x lg = Inl BeyondLog"
    and "unat (entryType lg) < 2 \<Longrightarrow> append_entry we x lg = Inl BeyondLog"
  using assms by (auto simp: append_entry_def Let_def recordState_def split: option.split)

lemma log_event_cases:
  assumes "log_event we mem x options lg = Inr (r, lg')" and "log_ok options lg"
  obtains (counted) i where "i < unat (numberOfEntries lg)" "r = 5 \<or> r = 6"
      "pe_RIP (event_basic (log_pe lg ! i)) = vmread vm_guest_rip (vm x)"
      "lg' = lg\<lparr>log_pe := (log_pe lg)[i := count_entry (log_pe lg ! i)]\<rparr>"
    | (added) "numberOfEntries lg < maxNumberOfEntries lg" "r = 0" "append_entry we x lg = Inr lg'"
      "find_event (bit options EPTO_MULTIPLERIP) x (log_pe lg) 0 (unat (numberOfEntries lg)) = None"
    | (missed) "maxNumberOfEntries lg \<le> numberOfEntries lg" "r = 7" "lg' = miss_entry lg"
proof (cases "find_event (bit options EPTO_MULTIPLERIP) x (log_pe lg) 0 (unat (numberOfEntries lg))")
  case (Some f)
  obtain i q where f: "f = (i, q)" by fastforce
  note found = find_event_Some [OF Some [unfolded f]]
  show ?thesis
  proof (rule counted)
    show "i < unat (numberOfEntries lg)" using found by simp
    show "r = 5 \<or> r = 6" "pe_RIP (event_basic (log_pe lg ! i)) = vmread vm_guest_rip (vm x)"
      "lg' = lg\<lparr>log_pe := (log_pe lg)[i := count_entry (log_pe lg ! i)]\<rparr>"
      using found assms(1) Some f by (auto simp: log_event_def)
  qed
next
  case None
  note event = assms(1) [unfolded log_event_def None option.case]
  show ?thesis
  proof (cases "numberOfEntries lg < maxNumberOfEntries lg")
    case True
    then show ?thesis using event None by (cases "append_entry we x lg") (auto intro: added)
  next
    case False
    have "append_entry we x (grow_log junk lg) \<noteq> Inr lg''" for junk lg''
      using append_entry_full(1) [OF grow_log_full [OF assms(2)], of we x junk] by auto
    then show ?thesis
      using event False by (intro missed) (auto simp: map_sum_def split: if_splits option.splits sum.splits)
  qed
qed

lemma log_event_ok:
  assumes "log_event we mem x options lg = Inr (r, lg')" and "log_ok options lg" and "length (fxsave x) = 512"
  shows "log_ok options lg'"
  using assms(1,2)
proof (cases rule: log_event_cases)
  case (counted i)
  then show ?thesis using log_ok_count assms(2) by simp
next
  case added
  then show ?thesis using log_ok_append(1) [OF assms(2) _ _ _ assms(3)] by simp
next
  case missed
  then show ?thesis using assms(2) by (auto intro: log_ok_miss)
qed

text \<open>A log that may not grow has room for every event it does not refuse.\<close>

lemma log_event_within:
  assumes "log_ok options lg" and "\<not> bit options EPTO_GROW_WHENFULL"
  shows "log_event we mem x options lg \<noteq> Inl BeyondLog"
proof -
  have "append_entry we x lg \<noteq> Inl BeyondLog" if "numberOfEntries lg < maxNumberOfEntries lg"
    using assms(1) that by (auto simp: append_entry_def Let_def log_ok_def word_less_nat_alt split: option.splits)
  then show ?thesis
    using assms(2) by (auto simp: log_event_def map_sum_def split: option.splits sum.splits)
qed

end
