(* ===== verification/WatchEvents.thy ===== *)
theory WatchEvents
  imports WatchPages WatchLogs ThreadsCorrect
begin

text \<open>
  All histories of the list of watches: starts, ends, events with the step after them, and
  copies of logs. \<open>watches_ok\<close> is what holds in each of their states; with it the properties of single
  operations become properties of every history.
\<close>

section \<open>The invariant\<close>

definition watch_ok :: "ept_watch \<Rightarrow> bool" where
  "watch_ok w \<longleftrightarrow> (Active w \<noteq> 0 \<longrightarrow> (\<exists>lg. Log w = Some lg \<and> log_ok (watch_Options w) lg))"

definition watches_ok :: "watch_state \<Rightarrow> bool" where
  "watches_ok ws \<longleftrightarrow> eptWatchListPos ws \<le> length (eptWatchList ws) \<and>
     (\<forall>i < eptWatchListPos ws. watch_ok (eptWatchList ws ! i)) \<and> (\<forall>c \<in> set (watch_cpus ws). eptWatchListLength c = 0)"

lemma watch_ok_inactive [simp]: "Active w = 0 \<Longrightarrow> watch_ok w"
  by (simp add: watch_ok_def)

lemma watch_okI: "Log w = Some lg \<Longrightarrow> log_ok (watch_Options w) lg \<Longrightarrow> watch_ok w"
  by (simp add: watch_ok_def)

lemma watches_ok_set:
  assumes "watches_ok ws" and "watch_ok w"
  shows "watches_ok (set_watch i w ws)"
  using assms by (cases "i < length (eptWatchList ws)") (auto simp: watches_ok_def nth_list_update list_update_beyond)

text \<open>Members that the invariant does not speak of.\<close>

lemma watches_ok_frame [simp]:
  "watches_ok (ws\<lparr>watch_ept := s\<rparr>) = watches_ok ws" "watches_ok (ws\<lparr>stopped_threads := ts\<rparr>) = watches_ok ws"
  "watches_ok (ws\<lparr>lastSeenEPTWatch := l\<rparr>) = watches_ok ws" "watches_ok (ws\<lparr>lastSeenEPTWatchVerySure := l\<rparr>) = watches_ok ws"
  "watches_ok (set_skipped n ws) = watches_ok ws"
  by (simp_all add: watches_ok_def set_skipped_def)

lemma watches_ok_cpus:
  assumes "watches_ok ws" and "\<forall>c \<in> set cs. eptWatchListLength c = 0"
  shows "watches_ok (ws\<lparr>watch_cpus := cs\<rparr>)"
  using assms by (simp add: watches_ok_def)

lemma watches_ok_cpu:
  assumes "watches_ok ws" and "eptWatchListLength c' = eptWatchListLength (watch_cpus ws ! cpu)"
  shows "watches_ok (ws\<lparr>watch_cpus := (watch_cpus ws)[cpu := c']\<rparr>)"
proof (cases "cpu < length (watch_cpus ws)")
  case True
  then have "eptWatchListLength c' = 0" using assms by (simp add: watches_ok_def)
  then have "\<forall>c \<in> set ((watch_cpus ws)[cpu := c']). eptWatchListLength c = 0"
    using assms(1) set_update_subset_insert [of "watch_cpus ws" cpu c'] by (auto simp: watches_ok_def)
  then show ?thesis by (rule watches_ok_cpus [OF assms(1)])
qed (use assms(1) in \<open>simp add: list_update_beyond\<close>)

section \<open>Every operation keeps it\<close>

lemma watch_page_lengths:
  "watch_page we ID a type cs s = Some (cs', s') \<Longrightarrow> map eptWatchListLength cs' = map eptWatchListLength cs"
proof (induction cs arbitrary: s cs')
  case (Cons c cs)
  then obtain ea s1 where step: "EPTMapPhysicalMemory (watch_config we) (EPTPML4 c) a True s = Some (ea, s1)"
    by (auto split: option.splits)
  let ?s2 = "write_entry ea (restrict_entry we type (qwords s1 ea)) s1"
  let ?c = "c\<lparr>eptWatchEntries := (eptWatchEntries c)(ID := ea), eptUpdated := True\<rparr>"
  obtain ds where rest: "watch_page we ID a type cs ?s2 = Some (ds, s')" and cs': "cs' = ?c # ds"
    using Cons.prems step by (auto simp: Let_def)
  then show ?case using Cons.IH [OF rest] by simp
qed simp

lemma activate_ok:
  assumes "ept_watch_activate we mem logmem a sz type options maxcount u k ws = Inr ((r, ID), ws')" and "watches_ok ws"
    and "0 \<le> maxcount" and "48 + int (sizeof_event (struct_type options)) * maxcount < 2 ^ 32"
  shows "watches_ok ws'"
proof (cases "r = 0")
  case True
  have pos: "eptWatchListPos ws \<le> length (eptWatchList ws)" using assms(2) by (simp add: watches_ok_def)
  note act = assms(1) [unfolded True]
  obtain ws1 cs s where get: "getFreeWatchID mem ws = Some (ID, ws1)"
    and page: "watch_page we ID a type (watch_cpus ws1) (watch_ept ws1) = Some (cs, s)"
    and ws': "ws' = set_watch ID (new_watch ID a sz type options maxcount u k (eptWatchList ws1 ! ID)) ws1\<lparr>watch_cpus := cs, watch_ept := s\<rparr>"
    using act by (rule ept_watch_activateE)
  note spec = getFreeWatchID_spec [OF get pos]
  have "set (map eptWatchListLength cs) = set (map eptWatchListLength (watch_cpus ws))"
    using watch_page_lengths [OF page] spec(6) by metis
  moreover have "eptWatchListLength ` set (watch_cpus ws) \<subseteq> {0}" using assms(2) by (auto simp: watches_ok_def)
  ultimately have cpus: "\<forall>c \<in> set cs. eptWatchListLength c = 0" by auto
  have new: "watch_ok (new_watch ID a sz type options maxcount u k v)" for v
    using new_log_ok [OF assms(3,4), of ID] by (intro watch_okI) simp_all
  have "watch_ok (eptWatchList ws' ! i)" if "i < eptWatchListPos ws'" for i
  proof (cases "i = ID")
    case True
    then show ?thesis using new spec(1,2) by (simp add: ws')
  next
    case False
    then have "i < eptWatchListPos ws" using spec(5) [of i] that by (auto simp: ws')
    then show ?thesis using False spec(4) assms(2) by (simp add: ws' watches_ok_def)
  qed
  then show ?thesis using cpus spec(2) by (simp add: watches_ok_def ws')
next
  case False
  then have "ws' = ws" using assms(1) by (auto simp: ept_watch_activate_def Let_def split: if_splits option.splits)
  then show ?thesis using assms(2) by simp
qed

text \<open>No processor has a list of entries that is long enough, so nothing is undone.\<close>

lemma undo_page_nothing: "\<forall>c \<in> set cs. eptWatchListLength c = 0 \<Longrightarrow> undo_page we i type cs s = (cs, s)"
  by (induction cs arbitrary: s) (simp_all add: undo_cpu_def Let_def)

lemma deactivate_effect:
  assumes "ept_watch_deactivate we ID ws = Inr (r, ws')" and "watches_ok ws"
  shows "ws' = (if r = 0 then set_watch (nat ID) ((eptWatchList ws ! nat ID)\<lparr>Active := 0, Log := None\<rparr>) ws else ws)"
    and "r = 0 \<longleftrightarrow> 0 \<le> ID \<and> ID < int (eptWatchListPos ws) \<and> Active (eptWatchList ws ! nat ID) \<noteq> 0"
proof -
  have "undo_page we i type (watch_cpus ws) s = (watch_cpus ws, s)" for i type s
    using assms(2) by (intro undo_page_nothing) (simp add: watches_ok_def)
  then have "ws' = (if r = 0 then set_watch (nat ID) ((eptWatchList ws ! nat ID)\<lparr>Active := 0, Log := None\<rparr>) ws else ws) \<and>
    (r = 0 \<longleftrightarrow> 0 \<le> ID \<and> ID < int (eptWatchListPos ws) \<and> Active (eptWatchList ws ! nat ID) \<noteq> 0)"
    using assms(1) by (auto simp: ept_watch_deactivate_def Let_def set_watch_def split: if_splits)
  then show "ws' = (if r = 0 then set_watch (nat ID) ((eptWatchList ws ! nat ID)\<lparr>Active := 0, Log := None\<rparr>) ws else ws)"
    "r = 0 \<longleftrightarrow> 0 \<le> ID \<and> ID < int (eptWatchListPos ws) \<and> Active (eptWatchList ws ! nat ID) \<noteq> 0"
    by blast+
qed

lemma deactivate_ok:
  assumes "ept_watch_deactivate we ID ws = Inr (r, ws')" and "watches_ok ws"
  shows "watches_ok ws'"
  using deactivate_effect(1) [OF assms] assms(2) by (simp add: watches_ok_set)

text \<open>An event changes the log of the watch that is chosen, and counts or adds only.\<close>

lemma report_watch_ok:
  assumes "report_watch we mem cpu ID a x ws = Inr ws'" and "watches_ok ws" and "length (fxsave x) = 512"
    and w: "watch_ok (eptWatchList ws ! ID)" "Active (eptWatchList ws ! ID) \<noteq> 0"
  shows "watches_ok ws'"
proof -
  let ?w = "eptWatchList ws ! ID"
  obtain lg where lg: "Log ?w = Some lg" "log_ok (watch_Options ?w) lg" using w by (auto simp: watch_ok_def)
  have bp: "watches_ok (set_skipped n ws\<lparr>watch_cpus := (watch_cpus ws)[cpu := (watch_cpus ws ! cpu)\<lparr>BPAfterStep := True\<rparr>]\<rparr>)" for n
    using watches_ok_cpu [of "set_skipped n ws" "(watch_cpus ws ! cpu)\<lparr>BPAfterStep := True\<rparr>" cpu] assms(2) by (simp add: set_skipped_def)
  have missed: "watches_ok (set_watch ID (?w\<lparr>Log := Some (miss_entry lg)\<rparr>) ws)"
    using lg log_ok_miss by (intro watches_ok_set assms(2)) (simp add: watch_ok_def)
  have logged: "watches_ok (set_watch ID (?w\<lparr>Log := Some lg'\<rparr>) ws1)"
    if "log_event we mem x (watch_Options ?w) lg = Inr (r, lg')" "watches_ok ws1" for r lg' ws1
    using log_event_ok [OF that(1) lg(2) assms(3)] that(2) by (intro watches_ok_set) (simp_all add: watch_ok_def)
  show ?thesis
    using assms(1,2) bp missed logged
    by (auto simp: report_watch_def Let_def lg(1) split: if_splits sum.splits)
qed

text \<open>The watch of an event is active, whichever is chosen.\<close>

lemma choose_watch_match:
  assumes "ept_isWatchIDMatch (page_base a) (xs ! ID)" and "ID < m" and "i + n \<le> m"
  shows "ept_isWatchIDMatch (page_base a) (xs ! choose_watch xs evi a ID i n) \<and> choose_watch xs evi a ID i n < m"
  using assms by (induction n arbitrary: ID i) auto

lemma ept_getWatchID_match:
  "ept_getWatchID a ws = Some i \<Longrightarrow> i < eptWatchListPos ws \<and> ept_isWatchIDMatch (page_base a) (eptWatchList ws ! i)"
  by (auto simp: ept_getWatchID_def find_Some_iff)

lemma handle_event_cases:
  assumes "ept_handleWatchEvent we tmem lmem cpu a (x, ws) = Inr (b, x', ws')"
  obtains (other) "b = False" "x' = x" "ws' = ws"
    | (stopped) ID l ts where "b = True" "ws' = ws\<lparr>lastSeenEPTWatch := l, stopped_threads := ts\<rparr>"
        "stop_loop a (eptWatchList ws ! ID) x \<noteq> 0"
        "break_thread tmem ID (LoopUserMode (eptWatchList ws ! ID)) (LoopKernelMode (eptWatchList ws ! ID))
          (stop_loop a (eptWatchList ws ! ID) x) (x, stopped_threads ws) = Inr (x', ts)"
    | (step) ID l pte where "b = True" "ID < eptWatchListPos ws" "ept_isWatchIDMatch (page_base a) (eptWatchList ws ! ID)"
        "pte = eptWatchEntries (watch_cpus ws ! cpu) ID" "pte \<noteq> 0"
        "report_watch we lmem cpu ID a x (ws\<lparr>lastSeenEPTWatch := l,
          watch_ept := write_entry pte (full_access (qwords (watch_ept ws) pte)) (watch_ept ws)\<rparr>) = Inr ws'"
        "x' = vmx_addSingleSteppingReason (SSR_HANDLEWATCH ID) (snd (vmx_enableSingleStepMode (watch_step_env we) x))"
proof (cases "if eptWatchListPos ws = 0 then None else ept_getWatchID a ws")
  case None
  then show ?thesis using assms other by (simp add: ept_handleWatchEvent_def)
next
  case (Some first)
  then have first: "first < eptWatchListPos ws" "ept_isWatchIDMatch (page_base a) (eptWatchList ws ! first)"
    using ept_getWatchID_match by (auto split: if_splits)
  define ID where "ID = choose_watch (eptWatchList ws) (vmread vm_exit_qualification (vm x)) a first first (eptWatchListPos ws - first)"
  have ID: "ept_isWatchIDMatch (page_base a) (eptWatchList ws ! ID)" "ID < eptWatchListPos ws"
    using choose_watch_match [OF first(2,1), of first "eptWatchListPos ws - first"] first(1) by (simp_all add: ID_def)
  note event = assms [unfolded ept_handleWatchEvent_def prod.case Some option.case Let_def, folded ID_def]
  show ?thesis
  proof (cases "stop_loop a (eptWatchList ws ! ID) x = 0")
    case True
    then show ?thesis using event ID by (intro step [where ID = ID]) (auto split: if_splits sum.splits)
  next
    case False
    then obtain l ts where "b = True" "ws' = ws\<lparr>lastSeenEPTWatch := l, stopped_threads := ts\<rparr>"
      "break_thread tmem ID (LoopUserMode (eptWatchList ws ! ID)) (LoopKernelMode (eptWatchList ws ! ID))
        (stop_loop a (eptWatchList ws ! ID) x) (x, stopped_threads ws) = Inr (x', ts)"
      using event by (auto split: if_splits sum.splits)
    then show ?thesis using False by (intro stopped [where ID = ID])
  qed
qed

lemma handle_event_ok:
  assumes "ept_handleWatchEvent we tmem lmem cpu a (x, ws) = Inr (b, x', ws')" and "watches_ok ws" and "length (fxsave x) = 512"
  shows "watches_ok ws'"
  using assms(1)
proof (cases rule: handle_event_cases)
  case (step ID l pte)
  let ?ws = "ws\<lparr>lastSeenEPTWatch := l, watch_ept := write_entry pte (full_access (qwords (watch_ept ws) pte)) (watch_ept ws)\<rparr>"
  have "watch_ok (eptWatchList ?ws ! ID)" "Active (eptWatchList ?ws ! ID) \<noteq> 0"
    using step(2,3) assms(2) by (simp_all add: watches_ok_def ept_isWatchIDMatch_def)
  then show ?thesis using report_watch_ok [OF step(6) _ assms(3)] assms(2) by simp
qed (use assms(2) in simp_all)

lemma after_step_ok:
  assumes "ept_handleWatchEventAfterStep we cpu ID (x, ws) = Inr (x', ws')" and "watches_ok ws"
  shows "watches_ok ws'"
proof -
  have "watches_ok (ws\<lparr>watch_ept := s, watch_cpus := (watch_cpus ws)[cpu := (watch_cpus ws ! cpu)\<lparr>BPAfterStep := False, BPCausedByDBVM := True\<rparr>]\<rparr>)" for s
    using watches_ok_cpu [of "ws\<lparr>watch_ept := s\<rparr>" "(watch_cpus ws ! cpu)\<lparr>BPAfterStep := False, BPCausedByDBVM := True\<rparr>" cpu] assms(2) by simp
  then show ?thesis
    using assms by (auto simp: ept_handleWatchEventAfterStep_def Let_def split: if_splits)
qed

text \<open>The copy of a log, which starts the log again when it is complete.\<close>

lemma log_ok_restart: "log_ok options lg \<Longrightarrow> log_ok options (lg\<lparr>numberOfEntries := 0\<rparr>)"
  by (simp add: log_ok_def logged_rips_def)

lemma retrieve_cases:
  assumes "ept_watch_retrievelog env (lc, s, ws) = Inr (cr2, lc', s', ws')"
  obtains "ws' = ws"
    | i w lg where "i < eptWatchListPos ws" "w = eptWatchList ws ! i" "Active w \<noteq> 0" "Log w = Some lg"
        "ws' = set_watch i (w\<lparr>CopyInProgress := 1\<rparr>) ws \<or>
         ws' = set_watch i (w\<lparr>CopyInProgress := 0, Log := Some (lg\<lparr>numberOfEntries := 0\<rparr>)\<rparr>) (set_watch i (w\<lparr>CopyInProgress := 1\<rparr>) ws)"
proof -
  let ?i = "nat (sint (lc_ID lc))"
  let ?w = "eptWatchList ws ! ?i"
  consider "ws' = ws" | lg where "?i < eptWatchListPos ws" "Active ?w \<noteq> 0" "Log ?w = Some lg"
    "copy_log_block env ?i ?w lg (lc, s, ws) = Inr (cr2, lc', s', ws')"
    using assms by (auto simp: ept_watch_retrievelog_def log_error_def Let_def split: if_splits option.splits)
  then show ?thesis
  proof cases
    case (2 lg)
    then show ?thesis
      by (intro that(2) [of ?i ?w lg]) (auto simp: copy_log_block_def log_error_def Let_def split: if_splits prod.splits)
  qed (rule that(1))
qed

lemma retrieve_ok:
  assumes "ept_watch_retrievelog env (lc, s, ws) = Inr (cr2, lc', s', ws')" and "watches_ok ws"
  shows "watches_ok ws'"
  using assms(1)
proof (cases rule: retrieve_cases)
  case (2 i w lg)
  then have "log_ok (watch_Options w) lg" using assms(2) by (auto simp: watches_ok_def watch_ok_def)
  then have "watch_ok (w\<lparr>CopyInProgress := 1\<rparr>)" "watch_ok (w\<lparr>CopyInProgress := 0, Log := Some (lg\<lparr>numberOfEntries := 0\<rparr>)\<rparr>)"
    using 2 by (auto simp: watch_ok_def intro: log_ok_restart)
  then show ?thesis using 2 watches_ok_set assms(2) by metis
qed (use assms(2) in simp)

section \<open>Histories\<close>

text \<open>
  The states that operations can reach from an empty list without a fault, with a maximum of entries that is not negative,
  logs of less than 4 GB and 512 bytes of floating point state. The code has no test for the maximum and the size: it cuts
  the size of larger logs to 32 bits.
\<close>

inductive watch_reachable :: "watch_env \<Rightarrow> watch_state \<Rightarrow> bool" for we where
  start: "eptWatchList ws = [] \<Longrightarrow> eptWatchListPos ws = 0 \<Longrightarrow> \<forall>c \<in> set (watch_cpus ws). eptWatchListLength c = 0 \<Longrightarrow> watch_reachable we ws"
| activate: "watch_reachable we ws \<Longrightarrow> 0 \<le> maxcount \<Longrightarrow> 48 + int (sizeof_event (struct_type options)) * maxcount < 2 ^ 32 \<Longrightarrow>
    ept_watch_activate we mem logmem a sz type options maxcount u k ws = Inr ((r, ID), ws') \<Longrightarrow> watch_reachable we ws'"
| deactivate: "watch_reachable we ws \<Longrightarrow> ept_watch_deactivate we n ws = Inr (q, ws') \<Longrightarrow> watch_reachable we ws'"
| event: "watch_reachable we ws \<Longrightarrow> length (fxsave x) = 512 \<Longrightarrow>
    ept_handleWatchEvent we tmem lmem cpu a (x, ws) = Inr (b, x', ws') \<Longrightarrow> watch_reachable we ws'"
| after_step: "watch_reachable we ws \<Longrightarrow> ept_handleWatchEventAfterStep we cpu ID (x, ws) = Inr (x', ws') \<Longrightarrow> watch_reachable we ws'"
| retrieve: "watch_reachable we ws \<Longrightarrow> ept_watch_retrievelog env (lc, s, ws) = Inr (cr2, lc', s', ws') \<Longrightarrow> watch_reachable we ws'"

lemma watch_reachable_ok: "watch_reachable we ws \<Longrightarrow> watches_ok ws"
proof (induction rule: watch_reachable.induct)
  case (start ws)
  then show ?case by (simp add: watches_ok_def)
qed (blast intro: activate_ok deactivate_ok handle_event_ok after_step_ok retrieve_ok)+

section \<open>Properties\<close>

text \<open>
  C13: In every state that operations without a fault can reach, with logs below 4 GB, each active watch has a log whose
  entries are all of the kind its options ask for, with as many entries in use as are allowed and allocated at most, and with
  each instruction once unless the options allow more. Unless they let the log grow, no event is written behind it.
\<close>

theorem watch_logs_typed:
  assumes "watch_reachable we ws" and "i < eptWatchListPos ws" and "Active (eptWatchList ws ! i) \<noteq> 0"
  shows "\<exists>lg. Log (eptWatchList ws ! i) = Some lg \<and>
    entryType lg = of_nat (struct_type (watch_Options (eptWatchList ws ! i))) \<and>
    (\<forall>e \<in> set (log_pe lg). event_ok (struct_type (watch_Options (eptWatchList ws ! i))) e) \<and>
    numberOfEntries lg \<le> maxNumberOfEntries lg \<and> unat (maxNumberOfEntries lg) \<le> length (log_pe lg) \<and>
    (bit (watch_Options (eptWatchList ws ! i)) EPTO_MULTIPLERIP \<or> distinct (logged_rips lg)) \<and>
    (bit (watch_Options (eptWatchList ws ! i)) EPTO_GROW_WHENFULL \<or>
      log_event we mem x (watch_Options (eptWatchList ws ! i)) lg \<noteq> Inl BeyondLog)"
proof -
  have "watch_ok (eptWatchList ws ! i)" using watch_reachable_ok [OF assms(1)] assms(2) by (simp add: watches_ok_def)
  then obtain lg where "Log (eptWatchList ws ! i) = Some lg" "log_ok (watch_Options (eptWatchList ws ! i)) lg"
    using assms(3) by (auto simp: watch_ok_def)
  then show ?thesis using log_event_within by (auto simp: log_ok_def)
qed

text \<open>
  C18: The end of a watch gives no access back, in no reachable state and for no kind of watch: the
  entries of all processors stay as they are, restricted, and stay mapped.
\<close>

theorem ept_watch_deactivate_restores_nothing:
  assumes "watch_reachable we ws" and "ept_watch_deactivate we ID ws = Inr (r, ws')"
  shows "watch_ept ws' = watch_ept ws \<and> watch_cpus ws' = watch_cpus ws \<and>
    (r = 0 \<longrightarrow> Active (eptWatchList ws' ! nat ID) = 0)"
  using deactivate_effect [OF assms(2) watch_reachable_ok [OF assms(1)]] watch_reachable_ok [OF assms(1)]
  by (auto simp: watches_ok_def)

text \<open>The access a watch takes away again after the step is the one that the event gave back.\<close>

lemma restrict_full_access:
  "e = restrict_entry we type (full_access e0) \<Longrightarrow> restrict_entry we type (full_access e) = e"
  by (auto simp: restrict_entry_def full_access_def intro!: bit_word_eqI simp: bit_set_bit_iff bit_unset_bit_iff bit_or_iff bit_numeral_rec)

lemma map_update_same: "(map f xs)[i := f (xs ! i)] = map f xs"
  by (metis list_update_id map_update)

lemma report_watch_frame:
  assumes "report_watch we mem cpu ID a x ws = Inr ws'"
  shows "watch_ept ws' = watch_ept ws" and "eptWatchListPos ws' = eptWatchListPos ws"
    and "length (eptWatchList ws') = length (eptWatchList ws)"
    and "map eptWatchEntries (watch_cpus ws') = map eptWatchEntries (watch_cpus ws)"
    and "Active (eptWatchList ws' ! ID) = Active (eptWatchList ws ! ID)" and "watch_Type (eptWatchList ws' ! ID) = watch_Type (eptWatchList ws ! ID)"
    and "i \<noteq> ID \<Longrightarrow> eptWatchList ws' ! i = eptWatchList ws ! i"
proof -
  let ?w = "eptWatchList ws ! ID"
  have "(\<exists>w cs. watch_ept ws' = watch_ept ws \<and> eptWatchListPos ws' = eptWatchListPos ws \<and> watch_cpus ws' = cs \<and>
      map eptWatchEntries cs = map eptWatchEntries (watch_cpus ws) \<and>
      (eptWatchList ws' = eptWatchList ws \<or> eptWatchList ws' = (eptWatchList ws)[ID := w] \<and> Active w = Active ?w \<and> watch_Type w = watch_Type ?w))"
    using assms
    by (auto simp: report_watch_def Let_def set_skipped_def map_update map_update_same split: if_splits sum.splits option.splits)
  then show "watch_ept ws' = watch_ept ws" "eptWatchListPos ws' = eptWatchListPos ws" "length (eptWatchList ws') = length (eptWatchList ws)"
    "map eptWatchEntries (watch_cpus ws') = map eptWatchEntries (watch_cpus ws)"
    "Active (eptWatchList ws' ! ID) = Active ?w" "watch_Type (eptWatchList ws' ! ID) = watch_Type ?w"
    "i \<noteq> ID \<Longrightarrow> eptWatchList ws' ! i = eptWatchList ws ! i"
    by (cases "ID < length (eptWatchList ws)"; force simp: list_update_beyond)+
qed

lemma break_thread_reasons:
  "break_thread tmem ID u k rip (x, ts) = Inr (x', ts') \<Longrightarrow> step_Reasons x' = step_Reasons x"
  by (auto simp: break_thread_def Let_def split: sum.splits)

text \<open>
  C19: An access to a watched page opens the page on the processor for one instruction: the event sets single-step
  mode, between it and the end of its step the entry allows everything, and after it the entries are
  as before, so that the next access is seen again. The entry of the watch must be restricted to begin with.
\<close>

theorem watch_event_step_roundtrip:
  assumes "watch_reachable we ws" and "ept_handleWatchEvent we tmem lmem cpu a (x, ws) = Inr (b, x1, ws1)"
    and "step_Reasons x1 = step_Reasons x @ [SSR_HANDLEWATCH ID]" and "cpu < length (watch_cpus ws)"
    and "qwords (watch_ept ws) (eptWatchEntries (watch_cpus ws ! cpu) ID) =
      restrict_entry we (watch_Type (eptWatchList ws ! ID)) (full_access e0)"
  shows "qwords (watch_ept ws1) (eptWatchEntries (watch_cpus ws ! cpu) ID) AND 7 = 7 \<and> stepping (watch_step_env we) x1 \<and>
    (\<exists>x3 ws3. ept_handleWatchEventAfterStep we cpu ID (x2, ws1) = Inr (x3, ws3) \<and> watch_ept ws3 = watch_ept ws)"
  using assms(2)
proof (cases rule: handle_event_cases)
  case other
  then show ?thesis using assms(3) by simp
next
  case (stopped n l ts)
  then show ?thesis using break_thread_reasons [OF stopped(4)] assms(3) by simp
next
  case (step n l pte)
  have ID: "n = ID" using step(7) assms(3) by simp
  let ?w = "eptWatchList ws ! ID" and ?e = "qwords (watch_ept ws) pte"
  note frame = report_watch_frame [OF step(6) [unfolded ID]]
  have ept: "watch_ept ws1 = write_entry pte (full_access ?e) (watch_ept ws)" using frame(1) by simp
  have pte: "pte = eptWatchEntries (watch_cpus ws ! cpu) ID" using step(4) ID by simp
  have entries: "map eptWatchEntries (watch_cpus ws1) = map eptWatchEntries (watch_cpus ws)" using frame(4) by simp
  then have "map eptWatchEntries (watch_cpus ws1) ! cpu = map eptWatchEntries (watch_cpus ws) ! cpu"
    "length (watch_cpus ws1) = length (watch_cpus ws)"
    using map_eq_imp_length_eq by simp_all blast
  then have entry: "eptWatchEntries (watch_cpus ws1 ! cpu) ID = pte" using assms(4) pte by simp
  have seven: "(7 :: u64) = mask 3" by (simp add: mask_eq_exp_minus_1)
  have "full_access ?e AND 7 = 7"
    unfolding seven by (rule bit_word_eqI) (auto simp: full_access_def bit_and_iff bit_set_bit_iff bit_mask_iff)
  then have open_page: "qwords (watch_ept ws1) pte AND 7 = 7" by (simp add: ept write_entry_def)
  have "eptWatchListPos ws \<le> length (eptWatchList ws)"
    using watch_reachable_ok [OF assms(1)] by (simp add: watches_ok_def)
  then have ID_ok: "ID < length (eptWatchList ws1)" "\<not> eptWatchListPos ws1 < ID" using frame(2,3) step(2) ID by simp_all
  have w: "Active (eptWatchList ws1 ! ID) \<noteq> 0" "watch_Type (eptWatchList ws1 ! ID) = watch_Type ?w"
    using frame(5,6) step(3) ID by (simp_all add: ept_isWatchIDMatch_def)
  have "restrict_entry we (watch_Type ?w) (full_access ?e) = ?e"
    using restrict_full_access assms(5) pte by metis
  then have closed: "write_entry pte (restrict_entry we (watch_Type ?w) (qwords (watch_ept ws1) pte)) (watch_ept ws1) = watch_ept ws"
    by (simp add: ept write_entry_def)
  have "\<exists>x3 ws3. ept_handleWatchEventAfterStep we cpu ID (x2, ws1) = Inr (x3, ws3) \<and> watch_ept ws3 = watch_ept ws"
    using ID_ok w step(5) closed by (simp add: ept_handleWatchEventAfterStep_def Let_def entry)
  moreover have "stepping (watch_step_env we) x1" using step(7) by (simp add: stepping_enabled)
  ultimately show ?thesis using open_page pte by simp
qed

lemma choose_watch_first:
  "\<not> access_of_type evi (watch_Type (xs ! ID)) \<Longrightarrow> choose_watch xs evi a ID i n = ID"
  by (induction n arbitrary: i) auto

text \<open>
  An execution on a page whose first watch is of writes is recorded by no watch, also when a later
  one of the page is of executions: the search for the watch looks at the type of its last choice.
\<close>

theorem execution_behind_write_watch_lost:
  assumes "ept_getWatchID a ws = Some first" and "watch_Type (eptWatchList ws ! first) = EPTW_WRITE"
    and "bit (vmread vm_exit_qualification (vm x)) 2" and "\<not> bit (vmread vm_exit_qualification (vm x)) 1"
    and "\<not> bit (vmread vm_exit_qualification (vm x)) 0"
    and "ept_handleWatchEvent we tmem lmem cpu a (x, ws) = Inr (b, x', ws')"
  shows "eptWatchList ws' = eptWatchList ws"
proof -
  let ?evi = "vmread vm_exit_qualification (vm x)"
  have pos: "eptWatchListPos ws \<noteq> 0" using ept_getWatchID_match [OF assms(1)] by simp
  have ID: "choose_watch (eptWatchList ws) ?evi a first first n = first" for n
    using assms(2,4) by (intro choose_watch_first) (simp add: access_of_type_def)
  have "eptWatchList ws1 = eptWatchList ws0"
    if "report_watch we lmem cpu first a x ws0 = Inr ws1" "eptWatchList ws0 = eptWatchList ws" for ws0 ws1
    using that assms(2,3,5) by (auto simp: report_watch_def Let_def set_skipped_def split: if_splits)
  then show ?thesis
    using assms(6) pos by (auto simp: ept_handleWatchEvent_def assms(1) ID Let_def split: if_splits sum.splits)
qed

section \<open>Examples\<close>

text \<open>The state of \<open>example_activate\<close>, with a watch of writes to eight bytes at \<open>0x678\<close>.\<close>

lemma example_reached:
  obtains ws where "watch_reachable example_env ws" "qwords (watch_ept ws) 0x103000 = 0x35" "eptWatchListPos ws = 1"
    "eptWatchList ws ! 0 = new_watch 0 0x678 8 EPTW_WRITE 0 8 0 0 ((example_unused 0)\<lparr>Active := 0\<rparr>)"
    "watch_cpus ws = [example_cpu\<lparr>eptWatchEntries := (\<lambda>_. 0)(0 := 0x103000), eptUpdated := True\<rparr>]"
proof -
  obtain ws where ws: "ept_watch_activate example_env (Some example_unused) True 0x678 8 EPTW_WRITE 0 8 0 0 example_watches = Inr ((0, 0), ws)"
    and q: "qwords (watch_ept ws) = example_tables(0x103000 := 0x35)"
    and list: "eptWatchList ws ! 0 = new_watch 0 0x678 8 EPTW_WRITE 0 8 0 0 ((example_unused 0)\<lparr>Active := 0\<rparr>)" "eptWatchListPos ws = 1"
    and cpus: "watch_cpus ws = [example_cpu\<lparr>eptWatchEntries := (\<lambda>_. 0)(0 := 0x103000), eptUpdated := True\<rparr>]"
    using example_activate [of example_unused] by blast
  have start: "watch_reachable example_env example_watches"
    by (rule watch_reachable.start) (simp_all add: example_watches_def example_cpu_def)
  have "watch_reachable example_env ws"
    by (rule watch_reachable.activate [OF start _ _ ws]) (simp_all add: struct_type_def sizeof_event_def)
  then show ?thesis using q list cpus that by simp
qed

theorem watch_logs_typed_witness:
  "\<exists>ws lg. watch_reachable example_env ws \<and> Log (eptWatchList ws ! 0) = Some lg \<and> entryType lg = 0 \<and>
     log_event example_env None example_exit 0 lg \<noteq> Inl BeyondLog"
proof -
  obtain ws where ws: "watch_reachable example_env ws" "eptWatchListPos ws = 1"
    "eptWatchList ws ! 0 = new_watch 0 0x678 8 EPTW_WRITE 0 8 0 0 ((example_unused 0)\<lparr>Active := 0\<rparr>)"
    by (rule example_reached)
  have "0 < eptWatchListPos ws" "Active (eptWatchList ws ! 0) \<noteq> 0" using ws by simp_all
  from watch_logs_typed [OF ws(1) this, of None example_exit] show ?thesis
    using ws(1,3) by (auto simp: struct_type_def)
qed

theorem ept_watch_deactivate_restores_nothing_witness:
  "\<exists>ws ws'. watch_reachable example_env ws \<and> ept_watch_deactivate example_env 0 ws = Inr (0, ws') \<and>
     qwords (watch_ept ws') 0x103000 = 0x35"
proof -
  obtain ws where ws: "watch_reachable example_env ws" "qwords (watch_ept ws) 0x103000 = 0x35" "eptWatchListPos ws = 1"
    "eptWatchList ws ! 0 = new_watch 0 0x678 8 EPTW_WRITE 0 8 0 0 ((example_unused 0)\<lparr>Active := 0\<rparr>)"
    by (rule example_reached)
  then have "\<exists>ws'. ept_watch_deactivate example_env 0 ws = Inr (0, ws')"
    by (auto simp: ept_watch_deactivate_def Let_def split: prod.split)
  then obtain ws' where ws': "ept_watch_deactivate example_env 0 ws = Inr (0, ws')" by blast
  then show ?thesis using ept_watch_deactivate_restores_nothing [OF ws(1) ws'] ws(1,2) by auto
qed

definition example_access :: "u64 \<Rightarrow> exit_state" where
  "example_access evi = vm_set vm_exit_qualification evi example_exit"

lemma example_qualification: "vmread vm_exit_qualification (vm (example_access evi)) = evi"
  by (simp add: example_access_def field_bits_def)

text \<open>A write to another part of the page, which is not logged.\<close>

theorem watch_event_step_roundtrip_witness:
  "\<exists>ws x1 ws1 x3 ws3. ept_handleWatchEvent example_env None None 0 0x600 (example_access 2, ws) = Inr (True, x1, ws1) \<and>
     qwords (watch_ept ws) 0x103000 = 0x35 \<and> qwords (watch_ept ws1) 0x103000 AND 7 = 7 \<and>
     ept_handleWatchEventAfterStep example_env 0 0 (x1, ws1) = Inr (x3, ws3) \<and> qwords (watch_ept ws3) 0x103000 = 0x35"
proof -
  obtain ws where ws: "watch_reachable example_env ws" "qwords (watch_ept ws) 0x103000 = 0x35" "eptWatchListPos ws = 1"
    "eptWatchList ws ! 0 = new_watch 0 0x678 8 EPTW_WRITE 0 8 0 0 ((example_unused 0)\<lparr>Active := 0\<rparr>)"
    "watch_cpus ws = [example_cpu\<lparr>eptWatchEntries := (\<lambda>_. 0)(0 := 0x103000), eptUpdated := True\<rparr>]"
    by (rule example_reached)
  have size: "watch_Size (eptWatchList ws ! 0) = 8" "CopyInProgress (eptWatchList ws ! 0) = 0"
    unfolding ws(4) by (simp_all add: new_watch_def watch_size_def page_base_def Let_def example_unused_def)
  have get: "ept_getWatchID 0x600 ws = Some 0"
    by (simp add: ept_getWatchID_def ws(3,4) ept_isWatchIDMatch_def page_base_def)
  have "\<exists>x1 ws1. ept_handleWatchEvent example_env None None 0 0x600 (example_access 2, ws) = Inr (True, x1, ws1) \<and>
      step_Reasons x1 = step_Reasons (example_access 2) @ [SSR_HANDLEWATCH 0]"
    using size by (simp add: ept_handleWatchEvent_def get ws(3,4,5) example_qualification stop_loop_def report_watch_def Let_def
      in_watch_def)
  then obtain x1 ws1 where ev: "ept_handleWatchEvent example_env None None 0 0x600 (example_access 2, ws) = Inr (True, x1, ws1)"
    "step_Reasons x1 = step_Reasons (example_access 2) @ [SSR_HANDLEWATCH 0]" by blast
  have entry: "eptWatchEntries (watch_cpus ws ! 0) 0 = 0x103000" by (simp add: ws(5))
  have "qwords (watch_ept ws) (eptWatchEntries (watch_cpus ws ! 0) 0) =
      restrict_entry example_env (watch_Type (eptWatchList ws ! 0)) (full_access 0x30)"
    unfolding entry by (simp add: ws(2,4) restrict_entry_def full_access_def set_bit_eq_or unset_bit_eq_and_not push_bit_eq_mult)
  from watch_event_step_roundtrip [OF ws(1) ev _ this, of x1] obtain x3 ws3
    where "qwords (watch_ept ws1) 0x103000 AND 7 = 7" "ept_handleWatchEventAfterStep example_env 0 0 (x1, ws1) = Inr (x3, ws3)"
      "watch_ept ws3 = watch_ept ws"
    by (auto simp: ws(5))
  then show ?thesis
    using ev(1) ws(2) by (intro exI [of _ ws] exI [of _ x1] exI [of _ ws1] exI [of _ x3] exI [of _ ws3]) simp
qed

theorem execution_behind_write_watch_lost_witness:
  "\<exists>ws x' ws'. ept_handleWatchEvent example_env None None 0 0x678 (example_access 4, ws) = Inr (True, x', ws') \<and>
     eptWatchList ws' = eptWatchList ws"
proof -
  obtain ws where reached: "watch_reachable example_env ws" "qwords (watch_ept ws) 0x103000 = 0x35" and ws: "eptWatchListPos ws = 1"
    "eptWatchList ws ! 0 = new_watch 0 0x678 8 EPTW_WRITE 0 8 0 0 ((example_unused 0)\<lparr>Active := 0\<rparr>)"
    "watch_cpus ws = [example_cpu\<lparr>eptWatchEntries := (\<lambda>_. 0)(0 := 0x103000), eptUpdated := True\<rparr>]"
    by (rule example_reached)
  have get: "ept_getWatchID 0x678 ws = Some 0"
    by (simp add: ept_getWatchID_def ws(1,2) ept_isWatchIDMatch_def page_base_def)
  have bits: "bit (4 :: u64) 2" "\<not> bit (4 :: u64) (Suc 0)" "\<not> bit (4 :: u64) 0"
    by (simp_all add: bit_iff_odd)
  have first: "choose_watch (eptWatchList ws) 4 0x678 0 0 n = 0" for n
    by (rule choose_watch_first) (simp add: ws access_of_type_def bits)
  have "\<exists>x' ws'. ept_handleWatchEvent example_env None None 0 0x678 (example_access 4, ws) = Inr (True, x', ws')"
    by (simp add: ept_handleWatchEvent_def get ws example_qualification stop_loop_def report_watch_def Let_def first bits)
  then obtain x' ws' where ev: "ept_handleWatchEvent example_env None None 0 0x678 (example_access 4, ws) = Inr (True, x', ws')" by blast
  have "eptWatchList ws' = eptWatchList ws"
    by (rule execution_behind_write_watch_lost [OF get _ _ _ _ ev]) (simp_all add: ws example_qualification bits)
  then show ?thesis using ev by blast
qed

text \<open>
  C23: A full log without stacks that may grow never grows. The number of entries in use becomes what the new buffer has room
  for, or more, so that an event that is not in the log is written behind it; without memory for the new
  buffer \<open>realloc\<close> copies the log to \<open>NULL\<close>, before its result is tested.
\<close>

theorem full_log_grows_behind_buffer:
  assumes "log_ok options lg" and "maxNumberOfEntries lg \<le> numberOfEntries lg" and "bit options EPTO_GROW_WHENFULL"
    and "struct_type options < 2"
    and "find_event (bit options EPTO_MULTIPLERIP) x (log_pe lg) 0 (unat (numberOfEntries lg)) = None"
  shows "length (log_pe (grow_log mem lg)) \<le> unat (numberOfEntries (grow_log mem lg)) \<and>
    log_event we (Some mem) x options lg = Inl BeyondLog \<and> log_event we None x options lg = Inl HostFault"
proof -
  have "entryType (grow_log mem lg) = of_nat (struct_type options)" using assms(1) by (simp add: grow_log_def Let_def log_ok_def)
  then have "append_entry we x (grow_log mem lg) = Inl BeyondLog"
    using append_entry_full(2) [OF grow_log_full [OF assms(1)]] assms(4) by simp
  moreover have "\<not> numberOfEntries lg < maxNumberOfEntries lg" using assms(2) by simp
  ultimately show ?thesis using grow_log_full [OF assms(1)] assms(3,5) by (simp add: log_event_def)
qed

definition example_log :: event_log where
  "example_log = (new_log 0 32 1)\<lparr>numberOfEntries := 1\<rparr>"

theorem full_log_grows_behind_buffer_witness:
  "log_event example_env (Some (\<lambda>_. zero_event 0)) example_exit 32 example_log = Inl BeyondLog \<and>
   log_event example_env None example_exit 32 example_log = Inl HostFault"
proof -
  have bits: "bit (32 :: u32) 5" "\<not> bit (32 :: u32) 0" "struct_type 32 = 0"
    by (simp_all add: bit_iff_odd struct_type_def drop_bit_eq_div)
  have pe: "log_pe example_log = [zero_event 0]" and n: "numberOfEntries example_log = 1" "maxNumberOfEntries example_log = 1" "entryType example_log = 0"
    by (simp_all add: example_log_def new_log_def Let_def bits log_bytes_def sizeof_event_def)
  have rip: "pe_RIP (event_basic (zero_event 0)) = 0" "vmread vm_guest_rip (vm example_exit) = 0x401000"
    by (simp_all add: zero_event_def Let_def example_exit_def vmread_def)
  have "log_ok 32 example_log"
    by (simp add: log_ok_def n pe bits sizeof_event_def logged_rips_def zero_event_ok)
  moreover have "find_event (bit (32 :: u32) 0) example_exit (log_pe example_log) 0 (unat (numberOfEntries example_log)) = None"
    by (simp add: pe n rip)
  ultimately show ?thesis
    using full_log_grows_behind_buffer [where options = 32 and lg = example_log and x = example_exit and we = example_env and mem = "\<lambda>_. zero_event 0"]
    by (simp add: bits n)
qed

end
