(* ===== verification/CopyCorrect.thy ===== *)
theory CopyCorrect
  imports GuestCopy
begin

text \<open>
  The copies of \<open>GuestCopy\<close>: what one call does up to a missing page, and that the calls
  of the repeated instruction together are one copy from the first byte to the last.
\<close>

section \<open>Sizes\<close>

lemma sint_small:
  fixes b :: u32
  assumes "unat b < 2 ^ 31"
  shows "sint b = int (unat b)"
proof -
  define k where "k = unat b"
  have "sint (of_int (int k) :: u32) = int k"
    by (rule sint_of_int) (use assms in \<open>simp_all add: k_def [symmetric]\<close>)
  then show ?thesis by (simp add: k_def)
qed

lemma block_size_eq:
  assumes "unat (copy_bytes c) < 2 ^ 31"
  shows "block_size c = int (min (unat (copy_bytes c)) 1048576)"
proof -
  define n where "n = unat (copy_bytes c)"
  have "sint (copy_bytes c) = int n" using sint_small [OF assms] by (simp only: n_def)
  then show ?thesis unfolding n_def [symmetric] by (simp add: block_size_def)
qed

lemma page_count_block: "n \<le> 1048576 \<Longrightarrow> page_count a n \<le> 257"
proof -
  assume n: "n \<le> 1048576"
  show ?thesis
  proof (rule ccontr)
    assume "\<not> page_count a n \<le> 257"
    then have "4096 * 257 < n + unat (a AND 0xfff)" by (intro page_count_covers) simp
    then show False using n low_bits_less [of a] by simp
  qed
qed

lemma advance_copy_add: "advance_copy m (advance_copy n c) = advance_copy (n + m) c"
  by (simp add: advance_copy_def algebra_simps)

lemma advance_copy_fields [simp]:
  "copy_PA (advance_copy n c) = copy_PA c + of_int n" "copy_VA (advance_copy n c) = copy_VA c + of_int n"
  "copy_bytes (advance_copy n c) = copy_bytes c - of_int n" "nopagefault (advance_copy n c) = nopagefault c"
  by (simp_all add: advance_copy_def)

lemma copy_bytes_left:
  assumes "k \<le> unat (copy_bytes c)"
  shows "unat (copy_bytes (advance_copy (int k) c)) = unat (copy_bytes c) - k"
proof -
  define n where "n = unat (copy_bytes c)"
  have "copy_bytes c = of_nat n" by (simp add: n_def)
  moreover have kn: "k \<le> n" using assms by (simp add: n_def)
  ultimately have left: "copy_bytes (advance_copy (int k) c) = of_nat (n - k)"
    by (simp only: advance_copy_fields of_nat_diff [OF kn] of_int_of_nat_eq)
  have "n < 2 ^ 32" using unsigned_less [of "copy_bytes c", where ?'a = nat] by (simp add: n_def)
  then show ?thesis unfolding left n_def [symmetric] by (simp add: unat_of_nat take_bit_nat_eq_self del: of_nat_diff)
qed

section \<open>A copy in blocks\<close>

text \<open>
  Both directions are a move between the guest's block and physical memory; \<open>target\<close> is the
  pointer of the two that is written to.
\<close>

text \<open>The guest runs the instruction again while no page fault comes in between.\<close>

primrec repeat_call :: "(phys_copy \<Rightarrow> vm_state \<Rightarrow> (u64 option \<times> phys_copy \<times> vm_state) option) \<Rightarrow> nat \<Rightarrow>
    phys_copy \<Rightarrow> vm_state \<Rightarrow> (phys_copy \<times> vm_state) option" where
  "repeat_call f 0 c s = Some (c, s)"
| "repeat_call f (Suc m) c s = (case f c s of Some (None, c, s) \<Rightarrow> repeat_call f m c s | _ \<Rightarrow> None)"

locale block_copy =
  fixes env :: vm_env
    and call :: "phys_copy \<Rightarrow> vm_state \<Rightarrow> (u64 option \<times> phys_copy \<times> vm_state) option"
    and move :: "pointer \<Rightarrow> pointer \<Rightarrow> nat \<Rightarrow> (u64 \<Rightarrow> u8) \<Rightarrow> (u64 \<Rightarrow> u8)"
    and target :: "pointer \<Rightarrow> pointer \<Rightarrow> pointer"
  assumes call: "call c s =
      (let (error, fault, n, g) = map_guest_block env s (copy_VA c) (block_size c)
       in if n = 0 then Some (finish_copy error fault c s)
          else if n < 0 \<or> page_count (copy_VA c) (nat n) + page_count (copy_PA c) (nat n) > map_window env then None
          else Some (finish_copy error fault (advance_copy n c)
            (s\<lparr>pmem := move g (physical_pointer env (copy_PA c)) (nat n) (pmem s)\<rparr>)))"
    and move_0: "move g p 0 h = h"
    and move_add: "move g p (m + n) h = move (\<lambda>i. g (m + i)) (\<lambda>i. p (m + i)) n (move g p m h)"
    and move_cong: "(\<And>i. i < n \<Longrightarrow> g i = g' i) \<Longrightarrow> (\<And>i. i < n \<Longrightarrow> p i = p' i) \<Longrightarrow> move g p n h = move g' p' n h"
    and move_other: "(\<And>i. i < n \<Longrightarrow> target g p i \<noteq> a) \<Longrightarrow> move g p n h a = h a"
begin

text \<open>How far a call gets, and when it does not come back.\<close>

lemma call_cases:
  assumes n: "n = unat (copy_bytes c)" "0 < n" "n < 2 ^ 31" and room: "514 \<le> map_window env"
  obtains (stuck) "call c s = None" "getPhysicalAddressVM env s (copy_VA c) = None" "copy_VA c AND 0xfff \<noteq> 0"
    | (block) g where "call c s = Some (finish_copy 0 0 (advance_copy (int (min n 1048576)) c)
          (s\<lparr>pmem := move g (physical_pointer env (copy_PA c)) (min n 1048576) (pmem s)\<rparr>))"
        "\<forall>i<min n 1048576. getPhysicalAddressVM env s (copy_VA c + of_nat i) = Some (g i)"
    | (fault) k where "call c s = Some (finish_copy 2 (copy_VA c + of_nat k) (advance_copy (int k) c)
          (s\<lparr>pmem := move (guest_pointer env s (copy_VA c)) (physical_pointer env (copy_PA c)) k (pmem s)\<rparr>))"
        "k < min n 1048576" "getPhysicalAddressVM env s (copy_VA c + of_nat k) = None" "k = 0 \<Longrightarrow> copy_VA c AND 0xfff = 0"
        "\<forall>i<k. getPhysicalAddressVM env s (copy_VA c + of_nat i) = Some (guest_pointer env s (copy_VA c) i)"
proof -
  let ?a = "copy_VA c"
  define b where "b = min n 1048576"
  note cases = that [unfolded b_def [symmetric]]
  have b: "0 < b" "b \<le> 1048576" using n by (simp_all add: b_def)
  have size: "block_size c = int b" using block_size_eq [of c] n by (simp add: b_def)
  have pages: "page_count ?a m + page_count (copy_PA c) m \<le> map_window env" if "m \<le> 1048576" for m
    using page_count_block [OF that, of ?a] page_count_block [OF that, of "copy_PA c"] room by linarith
  then have window: "page_count ?a b \<le> map_window env" using b(2) by (meson add_leD1)
  show ?thesis
  proof (rule map_guest_block_cases [OF b window, of s])
    fix p
    assume whole: "map_guest_block env s ?a (int b) = (0, 0, int b, p)"
      "\<forall>i<b. getPhysicalAddressVM env s (?a + of_nat i) = Some (p i)"
    then have "call c s = Some (finish_copy 0 0 (advance_copy (int b) c)
        (s\<lparr>pmem := move p (physical_pointer env (copy_PA c)) b (pmem s)\<rparr>))"
      using pages [OF b(2)] b(1) by (simp add: call size Let_def not_less)
    then show ?thesis using whole(2) by (rule cases(2))
  next
    fix k j
    assume fault: "map_guest_block env s ?a (int b) = (2, page_of ?a + of_nat (4096 * j), int k - (if j = 0 then uint (?a AND 0xfff) else 0), guest_pointer env s ?a)"
      "k < b" "j = 0 \<Longrightarrow> k = 0" "j \<noteq> 0 \<Longrightarrow> page_of ?a + of_nat (4096 * j) = ?a + of_nat k"
      "getPhysicalAddressVM env s (page_of ?a + of_nat (4096 * j)) = None"
      "\<forall>i<k. getPhysicalAddressVM env s (?a + of_nat i) = Some (guest_pointer env s ?a i)"
    have a: "page_of ?a + (?a AND 0xfff) = ?a" using bits_ident [of 12 ?a] by (simp add: mask_simps)
    show ?thesis
    proof (cases "j = 0 \<and> ?a AND 0xfff \<noteq> 0")
      case True
      then have "uint (?a AND 0xfff) \<noteq> 0" by (simp only: unsigned_eq_0_iff) simp
      then have "0 < uint (?a AND 0xfff)" using page_offset_bounds(1) [of ?a] by linarith
      then have "call c s = None" using fault(1,3) True by (simp add: call size Let_def)
      moreover have "getPhysicalAddressVM env s ?a = None"
        using fault(5) True by (subst translate_page) simp
      ultimately show ?thesis using True cases(1) by blast
    next
      case False
      then have f: "page_of ?a + of_nat (4096 * j) = ?a + of_nat k"
        using fault(3,4) a by (cases "j = 0") auto
      have "call c s = Some (finish_copy 2 (?a + of_nat k) (advance_copy (int k) c)
          (s\<lparr>pmem := move (guest_pointer env s ?a) (physical_pointer env (copy_PA c)) k (pmem s)\<rparr>))"
        using fault(1,2) False f pages [of k] b(2) by (auto simp: call size Let_def move_0 advance_copy_def not_less)
      moreover have "?a AND 0xfff = 0" if "k = 0"
        using f that page_of_multiple [of ?a j] by (simp add: mask_simps)
      ultimately show ?thesis using fault(2,5,6) f by (intro cases(3)) auto
    qed
  qed
qed

text \<open>All calls together, when the pages are present and stay where they are.\<close>

lemma calls_complete:
  assumes n: "n = unat (copy_bytes c)" "n < 2 ^ 31" and room: "514 \<le> map_window env"
    and present: "\<And>m i. (\<And>a. a \<notin> target g p ` {..<n} \<Longrightarrow> m a = pmem s a) \<Longrightarrow> i < n \<Longrightarrow>
      getPhysicalAddressVM env (s\<lparr>pmem := m\<rparr>) (copy_VA c + of_nat i) = Some (g i)"
    and phys: "\<And>k i. k + i < n \<Longrightarrow> physical_pointer env (copy_PA c + of_nat k) i = p (k + i)"
  shows "k < n \<Longrightarrow> n - k \<le> 1048576 * m \<Longrightarrow> 1048576 * m < n - k + 1048576 \<Longrightarrow>
    repeat_call call m (advance_copy (int k) c) (s\<lparr>pmem := move g p k (pmem s)\<rparr>) =
      Some (advance_copy (int n) c, next_instruction (s\<lparr>pmem := move g p n (pmem s), rax := 0\<rparr>))"
proof (induction m arbitrary: k)
  case (Suc m)
  define b where "b = min (n - k) 1048576"
  let ?c = "advance_copy (int k) c" and ?s = "s\<lparr>pmem := move g p k (pmem s)\<rparr>"
  have kb: "k + b \<le> n" "b \<le> n - k" using Suc.prems(1) by (simp_all add: b_def)
  have left: "n - k = unat (copy_bytes ?c)" using copy_bytes_left [of k c] Suc.prems(1) n(1) by simp
  have pages: "getPhysicalAddressVM env ?s (copy_VA ?c + of_nat i) = Some (g (k + i))" if "i < n - k" for i
  proof -
    have "move g p k (pmem s) a = pmem s a" if "a \<notin> target g p ` {..<n}" for a
      using that Suc.prems(1) by (intro move_other) auto
    then show ?thesis using present [of "move g p k (pmem s)" "k + i"] that by (simp add: add.assoc)
  qed
  have done_: "call ?c ?s = Some (finish_copy 0 0 (advance_copy (int (k + b)) c) (s\<lparr>pmem := move g p (k + b) (pmem s)\<rparr>))"
  proof (rule call_cases [OF left _ _ room, of ?s])
    show "0 < n - k" "n - k < 2 ^ 31" using Suc.prems(1) n(2) by simp_all
    assume "getPhysicalAddressVM env ?s (copy_VA ?c) = None"
    then show ?thesis using pages [of 0] Suc.prems(1) by simp
  next
    fix g'
    assume call: "call ?c ?s = Some (finish_copy 0 0 (advance_copy (int (min (n - k) 1048576)) ?c)
        (?s\<lparr>pmem := move g' (physical_pointer env (copy_PA ?c)) (min (n - k) 1048576) (pmem ?s)\<rparr>))"
      and g': "\<forall>i<min (n - k) 1048576. getPhysicalAddressVM env ?s (copy_VA ?c + of_nat i) = Some (g' i)"
    have "move g' (physical_pointer env (copy_PA ?c)) b (pmem ?s) = move (\<lambda>i. g (k + i)) (\<lambda>i. p (k + i)) b (pmem ?s)"
    proof (rule move_cong)
      fix i assume i: "i < b"
      then show "g' i = g (k + i)" using g' pages [of i] kb(2) by (auto simp: b_def)
      show "physical_pointer env (copy_PA ?c) i = p (k + i)" using phys [of k i] i kb by simp
    qed
    then show ?thesis using call by (simp add: b_def [symmetric] advance_copy_add move_add)
  next
    fix j
    assume "j < min (n - k) 1048576" "getPhysicalAddressVM env ?s (copy_VA ?c + of_nat j) = None"
    then show ?thesis using pages [of j] by simp
  qed
  have rest: "unat (copy_bytes (advance_copy (int (k + b)) c)) = n - (k + b)"
    using copy_bytes_left [of "k + b" c] kb n(1) by simp
  show ?case
  proof (cases "k + b = n")
    case True
    then have "copy_bytes (advance_copy (int n) c) = 0" using rest by (simp add: unat_eq_zero)
    moreover have "m = 0" using True Suc.prems(1,3) by (simp add: b_def min_def split: if_splits)
    ultimately show ?thesis using done_ True by (simp add: finish_copy_def)
  next
    case False
    then have b: "b = 1048576" "k + b < n" using kb by (simp_all add: b_def min_def split: if_splits)
    then have "copy_bytes (advance_copy (int (k + b)) c) \<noteq> 0" using rest by auto
    then have "repeat_call call (Suc m) ?c ?s = repeat_call call m (advance_copy (int (k + b)) c) (s\<lparr>pmem := move g p (k + b) (pmem s)\<rparr>)"
      using done_ by (simp add: finish_copy_def)
    also have "\<dots> = Some (advance_copy (int n) c, next_instruction (s\<lparr>pmem := move g p n (pmem s), rax := 0\<rparr>))"
      using Suc.prems b by (intro Suc.IH) simp_all
    finally show ?thesis .
  qed
qed simp

text \<open>What any call has done, whatever comes after it.\<close>

lemma call_effect:
  assumes n: "n = unat (copy_bytes c)" "0 < n" "n < 2 ^ 31" and room: "514 \<le> map_window env"
  shows "call c s = None \<longleftrightarrow> getPhysicalAddressVM env s (copy_VA c) = None \<and> copy_VA c AND 0xfff \<noteq> 0"
    and "call c s = Some (fault, c', s') \<Longrightarrow> \<exists>k \<le> min n 1048576. c' = advance_copy (int k) c \<and>
      (\<forall>i<k. getPhysicalAddressVM env s (copy_VA c + of_nat i) \<noteq> None) \<and>
      pmem s' = move (guest_pointer env s (copy_VA c)) (physical_pointer env (copy_PA c)) k (pmem s) \<and>
      fault = (if k < min n 1048576 \<and> nopagefault c = 0 then Some (copy_VA c + of_nat k) else None) \<and>
      (k < min n 1048576 \<longrightarrow> getPhysicalAddressVM env s (copy_VA c + of_nat k) = None)"
proof -
  let ?a = "copy_VA c"
  define m where "m = min n 1048576"
  note cases = call_cases [OF n room, of s, folded m_def]
  have m: "0 < m" using n(2) by (simp add: m_def)
  show "call c s = None \<longleftrightarrow> getPhysicalAddressVM env s ?a = None \<and> ?a AND 0xfff \<noteq> 0"
  proof (rule cases)
    fix g assume "call c s = Some (finish_copy 0 0 (advance_copy (int m) c) (s\<lparr>pmem := move g (physical_pointer env (copy_PA c)) m (pmem s)\<rparr>))"
      and g: "\<forall>i<m. getPhysicalAddressVM env s (?a + of_nat i) = Some (g i)"
    then show ?thesis using g [rule_format, OF m] by simp
  next
    fix k assume "call c s = Some (finish_copy 2 (?a + of_nat k) (advance_copy (int k) c)
        (s\<lparr>pmem := move (guest_pointer env s ?a) (physical_pointer env (copy_PA c)) k (pmem s)\<rparr>))"
      and k: "k = 0 \<Longrightarrow> ?a AND 0xfff = 0" "\<forall>i<k. getPhysicalAddressVM env s (?a + of_nat i) = Some (guest_pointer env s ?a i)"
    then show ?thesis by (cases k) auto
  qed simp
  assume res: "call c s = Some (fault, c', s')"
  have "\<exists>k \<le> m. c' = advance_copy (int k) c \<and> (\<forall>i<k. getPhysicalAddressVM env s (?a + of_nat i) \<noteq> None) \<and>
      pmem s' = move (guest_pointer env s ?a) (physical_pointer env (copy_PA c)) k (pmem s) \<and>
      fault = (if k < m \<and> nopagefault c = 0 then Some (?a + of_nat k) else None) \<and>
      (k < m \<longrightarrow> getPhysicalAddressVM env s (?a + of_nat k) = None)"
  proof (rule cases)
    assume "call c s = None"
    then show ?thesis using res by simp
  next
    fix g
    assume call: "call c s = Some (finish_copy 0 0 (advance_copy (int m) c) (s\<lparr>pmem := move g (physical_pointer env (copy_PA c)) m (pmem s)\<rparr>))"
      and g: "\<forall>i<m. getPhysicalAddressVM env s (?a + of_nat i) = Some (g i)"
    have "move g (physical_pointer env (copy_PA c)) m (pmem s) = move (guest_pointer env s ?a) (physical_pointer env (copy_PA c)) m (pmem s)"
      using g by (intro move_cong) (auto simp: guest_pointer_def)
    moreover have "(fault, c', s') = finish_copy 0 0 (advance_copy (int m) c) (s\<lparr>pmem := move g (physical_pointer env (copy_PA c)) m (pmem s)\<rparr>)"
      using call res by simp
    ultimately have "c' = advance_copy (int m) c" "fault = None" "pmem s' = move (guest_pointer env s ?a) (physical_pointer env (copy_PA c)) m (pmem s)"
      by (simp_all add: finish_copy_def next_instruction_def split: if_splits)
    then show ?thesis using g by (intro exI [of _ m]) simp
  next
    fix k
    assume call: "call c s = Some (finish_copy 2 (?a + of_nat k) (advance_copy (int k) c)
        (s\<lparr>pmem := move (guest_pointer env s ?a) (physical_pointer env (copy_PA c)) k (pmem s)\<rparr>))"
      and k: "k < m" "getPhysicalAddressVM env s (?a + of_nat k) = None"
      "\<forall>i<k. getPhysicalAddressVM env s (?a + of_nat i) = Some (guest_pointer env s ?a i)"
    have "(fault, c', s') = finish_copy 2 (?a + of_nat k) (advance_copy (int k) c)
        (s\<lparr>pmem := move (guest_pointer env s ?a) (physical_pointer env (copy_PA c)) k (pmem s)\<rparr>)"
      using call res by simp
    then have "c' = advance_copy (int k) c" "fault = (if nopagefault c = 0 then Some (?a + of_nat k) else None)"
      "pmem s' = move (guest_pointer env s ?a) (physical_pointer env (copy_PA c)) k (pmem s)"
      by (simp_all add: finish_copy_def next_instruction_def raisePagefault_def Let_def split: if_splits)
    then show ?thesis using k by (intro exI [of _ k]) simp
  qed
  then show "\<exists>k \<le> min n 1048576. c' = advance_copy (int k) c \<and> (\<forall>i<k. getPhysicalAddressVM env s (?a + of_nat i) \<noteq> None) \<and>
      pmem s' = move (guest_pointer env s ?a) (physical_pointer env (copy_PA c)) k (pmem s) \<and>
      fault = (if k < min n 1048576 \<and> nopagefault c = 0 then Some (?a + of_nat k) else None) \<and>
      (k < min n 1048576 \<longrightarrow> getPhysicalAddressVM env s (?a + of_nat k) = None)"
    by (simp only: m_def)
qed

end

interpretation read_copy: block_copy env "vmcall_readPhysicalMemory env" copy_mem "\<lambda>g p. g" for env
  by unfold_locales (auto simp: vmcall_readPhysicalMemory_def copy_mem_add intro: copy_mem_cong copy_mem_other)

interpretation write_copy: block_copy env "vmcall_writePhysicalMemory env" "\<lambda>g p. copy_mem p g" "\<lambda>g p. p" for env
  by unfold_locales (auto simp: vmcall_writePhysicalMemory_def copy_mem_add intro: copy_mem_cong copy_mem_other)

section \<open>Properties\<close>


text \<open>
  C14: Reading physical memory into pages of the guest that are present, in as many calls as it has blocks of
  1 MB, is one copy from the first byte to the last, also where the two overlap, and leaves the
  instruction once. The pages must not hold the tables that translate them.
\<close>

theorem vmcall_readPhysicalMemory_complete:
  assumes "n = unat (copy_bytes c)" and "0 < n" and "n < 2 ^ 31" and "514 \<le> map_window env"
    and "\<And>m i. (\<And>a. a \<notin> g ` {..<n} \<Longrightarrow> m a = pmem s a) \<Longrightarrow> i < n \<Longrightarrow>
      getPhysicalAddressVM env (s\<lparr>pmem := m\<rparr>) (copy_VA c + of_nat i) = Some (g i)"
    and "\<And>k i. k + i < n \<Longrightarrow> physical_pointer env (copy_PA c + of_nat k) i = copy_PA c + of_nat (k + i)"
  shows "repeat_call (vmcall_readPhysicalMemory env) ((n + 1048575) div 1048576) c s =
    Some (advance_copy (int n) c, next_instruction
      (s\<lparr>pmem := copy_mem g (\<lambda>i. copy_PA c + of_nat i) n (pmem s), rax := 0\<rparr>))"
proof -
  define q r where "q = (n + 1048575) div 1048576" and "r = (n + 1048575) mod 1048576"
  have "n + 1048575 = 1048576 * q + r" "r < 1048576" by (simp_all add: q_def r_def)
  then have m: "n \<le> 1048576 * q" "1048576 * q < n + 1048576" by linarith+
  have start: "advance_copy 0 c = c"
    by (simp_all add: advance_copy_def)
  show ?thesis
    using read_copy.calls_complete [where g = g and p = "\<lambda>i. copy_PA c + of_nat i" and k = 0 and m = q, OF assms(1,3,4,5,6) assms(2)] m start
    by (simp add: q_def)
qed

lemma translate_unpaged [simp]: "getPhysicalAddressVM (blank_env True) (blank_state\<lparr>pmem := m\<rparr>) a = Some a"
  by (simp add: getPhysicalAddressVM_def guest_paged_def blank_env_def blank_state_def vmread_def)

definition example_copy :: "u64 \<Rightarrow> phys_copy" where
  "example_copy a = \<lparr>copy_PA = 0x1000, copy_bytes = 3, copy_VA = a, nopagefault = 0\<rparr>"

theorem vmcall_readPhysicalMemory_complete_witness:
  "\<exists>c s. repeat_call (vmcall_readPhysicalMemory (blank_env True)) 1 (example_copy 0x5ffe) blank_state = Some (c, s) \<and>
     copy_VA c = 0x6001 \<and> rax s = 0 \<and> pmem s 0x6000 = pmem blank_state 0x1002"
proof -
  let ?g = "\<lambda>i. 0x5ffe + of_nat i :: u64" and ?p = "\<lambda>i. 0x1000 + of_nat i :: u64"
  have fields: "copy_PA (example_copy 0x5ffe) = 0x1000" "copy_VA (example_copy 0x5ffe) = 0x5ffe" "copy_bytes (example_copy 0x5ffe) = 3"
    by (simp_all add: example_copy_def)
  have phys: "physical_pointer (blank_env True) (0x1000 + of_nat k) i = 0x1000 + of_nat (k + i)" if ki: "k + i < 3" for k i
  proof -
    consider "k = 0" | "k = 1" | "k = 2" using ki by linarith
    then show ?thesis by cases (simp_all add: physical_pointer_def MAXPHYADDRMASKPB_def blank_env_def)
  qed
  have "514 \<le> map_window (blank_env True)" by (simp add: blank_env_def)
  then have run: "repeat_call (vmcall_readPhysicalMemory (blank_env True)) ((3 + 1048575) div 1048576) (example_copy 0x5ffe) blank_state =
    Some (advance_copy (int 3) (example_copy 0x5ffe), next_instruction
      (blank_state\<lparr>pmem := copy_mem ?g (\<lambda>i. copy_PA (example_copy 0x5ffe) + of_nat i) 3 (pmem blank_state), rax := 0\<rparr>))"
    by (intro vmcall_readPhysicalMemory_complete) (simp_all add: fields phys)
  have "copy_mem ?g ?p 3 h 0x6000 = h 0x1002" for h by (simp add: numeral_3_eq_3)
  then show ?thesis using run by (simp add: next_instruction_def fields)
qed

definition example_paged :: vm_state where
  "example_paged = blank_state\<lparr>vmcs := (vmcs blank_state)(vm_guest_cr0 := 0x80000001)\<rparr>"

lemma load_le_zero: "load_le (\<lambda>_. 0) p n = 0"
  by (induction n arbitrary: p) simp_all


end
