(* ===== verification/RetrieveCorrect.thy ===== *)
theory RetrieveCorrect
  imports WatchLogs CopyCorrect
begin

text \<open>
  The repeated call that copies a log to the client: all blocks together are the bytes of the log, each once, and
  then the log starts again.
\<close>

section \<open>Bytes in guest memory\<close>

lemma put_bytes_append:
  "put_bytes p (xs @ ys) m = put_bytes (\<lambda>i. p (length xs + i)) ys (put_bytes p xs m)"
  by (induction xs arbitrary: p m) simp_all

lemma put_bytes_cong: "(\<And>i. i < length xs \<Longrightarrow> p i = q i) \<Longrightarrow> put_bytes p xs m = put_bytes q xs m"
proof (induction xs arbitrary: p q m)
  case (Cons x xs)
  have "p 0 = q 0" using Cons.prems [of 0] by simp
  moreover have "put_bytes (\<lambda>i. p (Suc i)) xs m' = put_bytes (\<lambda>i. q (Suc i)) xs m'" for m'
    by (rule Cons.IH) (simp add: Cons.prems)
  ultimately show ?case by simp
qed simp

lemma put_bytes_other: "(\<And>i. i < length xs \<Longrightarrow> p i \<noteq> a) \<Longrightarrow> put_bytes p xs m a = m a"
proof (induction xs arbitrary: p m)
  case (Cons x xs)
  have "put_bytes (\<lambda>i. p (Suc i)) xs (m(p 0 := x)) a = (m(p 0 := x)) a"
    by (rule Cons.IH) (simp add: Cons.prems)
  then show ?case using Cons.prems [of 0] by simp
qed simp

lemma put_bytes_at: "inj_on p {..<length xs} \<Longrightarrow> i < length xs \<Longrightarrow> put_bytes p xs m (p i) = xs ! i"
proof (induction xs arbitrary: p m i)
  case (Cons x xs)
  let ?p = "\<lambda>i. p (Suc i)"
  have inj: "inj_on ?p {..<length xs}" using Cons.prems(1) by (auto simp: inj_on_def)
  show ?case
  proof (cases i)
    case 0
    have "?p k \<noteq> p 0" if "k < length xs" for k using Cons.prems(1) that by (auto simp: inj_on_def)
    then show ?thesis using put_bytes_other [of xs ?p "p 0" "m(p 0 := x)"] 0 by simp
  next
    case (Suc k)
    then show ?thesis using Cons.IH [OF inj, of k] Cons.prems(2) by simp
  qed
qed simp

section \<open>The size of a log\<close>

lemma of_nat_small: "k < 2 ^ 32 \<Longrightarrow> unat (of_nat k :: u32) = k"
  by (simp add: unat_of_nat take_bit_nat_eq_self)

lemma log_size_eq:
  assumes "log_ok options lg"
  shows "unat (log_size lg) = 24 + sizeof_event (struct_type options) * unat (numberOfEntries lg)"
    and "unat (log_size lg) \<le> length (log_image lg)"
proof -
  let ?sz = "sizeof_event (struct_type options)" and ?n = "unat (numberOfEntries lg)" and ?len = "length (log_pe lg)"
  have ok: "entryType lg = of_nat (struct_type options)" "?n \<le> ?len" "24 + ?sz * ?len < 2 ^ 32"
    "\<forall>e \<in> set (log_pe lg). event_ok (struct_type options) e"
    using assms by (auto simp: log_ok_def word_le_nat_alt)
  have less: "?sz * ?n \<le> ?sz * ?len" using ok(2) by simp
  have "\<not> entryType lg > 3" using ok(1) struct_type_less [of options] by (simp add: word_less_nat_alt)
  then have "log_size lg = of_nat (24 + ?sz * ?n)" by (simp add: log_size_def ok(1) mult.commute)
  moreover have "24 + ?sz * ?n < 2 ^ 32" using less ok(3) by linarith
  ultimately show size: "unat (log_size lg) = 24 + ?sz * ?n" by (simp only: of_nat_small)
  have "map (\<lambda>e. length (event_bytes e)) (log_pe lg) = map (\<lambda>e. ?sz) (log_pe lg)"
    using ok(4) length_event_bytes by simp
  then have "length (log_image lg) = 24 + ?sz * ?len" by (simp add: length_log_image sum_list_replicate map_replicate_const)
  then show "unat (log_size lg) \<le> length (log_image lg)" using size less by simp
qed

section \<open>One call\<close>

definition copied_state :: "pointer \<Rightarrow> event_log \<Rightarrow> nat \<Rightarrow> vm_state \<Rightarrow> vm_state" where
  "copied_state g lg k s = s\<lparr>pmem := put_bytes g (take k (log_image lg)) (pmem s)\<rparr>"

lemma ucast_small: "k < 2 ^ 32 \<Longrightarrow> (ucast (of_nat k :: u32) :: u64) = of_nat k"
  by (metis of_nat_small of_nat_unat)

lemma retrieve_block:
  assumes ID: "sint (lc_ID lc) = int i" "i < eptWatchListPos ws" and w: "eptWatchList ws ! i = w" "Active w \<noteq> 0" "Log w = Some lg"
    and ok: "log_ok options lg" and n: "n = unat (log_size lg)" "n < 2 ^ 31"
    and params: "log_size lg \<le> resultsize lc" "results lc \<noteq> 0" "copied lc = of_nat k" "k < n" "k = 0 \<or> CopyInProgress w \<noteq> 0"
    and room: "17 \<le> map_window env" and b: "b = min (n - k) 65536"
    and pages: "\<And>j. j < b \<Longrightarrow> getPhysicalAddressVM env s (results lc + of_nat (k + j)) = Some (g (k + j))"
  shows "ept_watch_retrievelog env (lc, s, ws) =
    (let ws = set_watch i (w\<lparr>CopyInProgress := 1\<rparr>) ws; lc = lc\<lparr>copied := of_nat (k + b)\<rparr>;
         s = s\<lparr>pmem := put_bytes (\<lambda>j. g (k + j)) (take b (drop k (log_image lg))) (pmem s)\<rparr>
     in if k + b < n then Inr (None, lc, s, ws)
        else Inr (None, lc\<lparr>resultsize := log_size lg\<rparr>, next_instruction (s\<lparr>rax := 0\<rparr>),
          set_watch i (w\<lparr>CopyInProgress := 0, Log := Some (lg\<lparr>numberOfEntries := 0\<rparr>)\<rparr>) ws))"
proof -
  have k32: "k < 2 ^ 32" using params(4) n(2) by simp
  have uk: "unat (of_nat k :: u32) = k" using k32 by (simp add: unat_of_nat take_bit_nat_eq_self)
  have size: "log_size lg = of_nat n" by (simp add: n(1))
  have left: "log_size lg - of_nat k = of_nat (n - k)" using params(4) by (simp only: size of_nat_diff less_imp_le)
  have "unat (of_nat (n - k) :: u32) = n - k" using n(2) by (simp add: unat_of_nat take_bit_nat_eq_self del: of_nat_diff)
  then have sizeleft: "sint (log_size lg - of_nat k) = int (n - k)" unfolding left using sint_small [of "of_nat (n - k)"] n(2) by simp
  have min: "min (int (n - k)) 65536 = int b" by (simp add: b)
  have bs: "0 < b" "b \<le> 1048576" "k + b \<le> n" using params(4) by (simp_all add: b)
  let ?a = "results lc + of_nat k"
  have addr: "results lc + ucast (of_nat k :: u32) = ?a" by (simp only: ucast_small [OF k32])
  have "page_count ?a b \<le> 17"
  proof (rule ccontr)
    assume "\<not> page_count ?a b \<le> 17"
    then have "4096 * 17 < b + unat (?a AND 0xfff)" by (intro page_count_covers) simp
    then show False using b low_bits_less [of ?a] by simp
  qed
  then have window: "page_count ?a b \<le> map_window env" using room by simp
  obtain p where map: "map_guest_block env s ?a (int b) = (0, 0, int b, p)" and p: "\<forall>j<b. p j = g (k + j)"
  proof (rule map_guest_block_cases [OF bs(1,2) window, of s])
    fix q assume "map_guest_block env s ?a (int b) = (0, 0, int b, q)" "\<forall>j<b. getPhysicalAddressVM env s (?a + of_nat j) = Some (q j)"
    then show thesis using pages that by (auto simp: add.assoc)
  next
    fix k' j assume f: "k' < b" "j = 0 \<Longrightarrow> k' = 0" "j \<noteq> 0 \<Longrightarrow> page_of ?a + of_nat (4096 * j) = ?a + of_nat k'"
      "getPhysicalAddressVM env s (page_of ?a + of_nat (4096 * j)) = None"
    show thesis
    proof (cases "j = 0")
      case True
      then have "getPhysicalAddressVM env s ?a = None" using f(4) by (subst translate_page) simp
      then show ?thesis using pages [of 0] bs(1) by simp
    next
      case False
      then show ?thesis using f(1,3,4) pages [of k'] by (simp add: add.assoc)
    qed
  qed
  have bytes: "put_bytes p (take b (drop k (log_image lg))) m = put_bytes (\<lambda>j. g (k + j)) (take b (drop k (log_image lg))) m" for m
    using p by (intro put_bytes_cong) simp
  have image: "\<not> k + b > length (log_image lg)" using log_size_eq(2) [OF ok] bs(3) n(1) by simp
  have kb: "unat (of_nat (k + b) :: u32) = k + b" using bs(3) n(2) by (simp add: unat_of_nat take_bit_nat_eq_self del: of_nat_add)
  have more: "log_size lg \<le> of_nat (k + b) \<longleftrightarrow> \<not> k + b < n"
    using kb n(1) by (simp add: word_le_nat_alt not_less del: of_nat_add)
  have last: "\<not> k + b < n \<Longrightarrow> of_nat (k + b) = log_size lg" using bs(3) size by (simp del: of_nat_add)
  have "ept_watch_retrievelog env (lc, s, ws) = copy_log_block env i w lg (lc, s, ws)"
  proof -
    have "copied lc \<le> log_size lg" unfolding params(3) word_le_nat_alt uk n(1) [symmetric] using params(4) by simp
    moreover have "copied lc \<noteq> 0 \<longrightarrow> CopyInProgress w \<noteq> 0" using params(3,5) by auto
    ultimately show ?thesis
      using ID w params(1,2) by (auto simp: ept_watch_retrievelog_def Let_def not_less)
  qed
  also have "\<dots> = (let ws = set_watch i (w\<lparr>CopyInProgress := 1\<rparr>) ws; lc = lc\<lparr>copied := of_nat (k + b)\<rparr>;
         s = s\<lparr>pmem := put_bytes (\<lambda>j. g (k + j)) (take b (drop k (log_image lg))) (pmem s)\<rparr>
     in if k + b < n then Inr (None, lc, s, ws)
        else Inr (None, lc\<lparr>resultsize := log_size lg\<rparr>, next_instruction (s\<lparr>rax := 0\<rparr>),
          set_watch i (w\<lparr>CopyInProgress := 0, Log := Some (lg\<lparr>numberOfEntries := 0\<rparr>)\<rparr>) ws))"
  proof -
    have M: "map_guest_block env s (results lc + ucast (copied lc)) (min (sint (log_size lg - copied lc)) 65536) = (0, 0, int b, p)"
      using map by (simp only: params(3) addr sizeleft min)
    have C: "copied lc + of_int (int b) = of_nat (k + b)" "unat (copied lc) = k" using uk by (simp_all add: params(3))
    show ?thesis
      unfolding copy_log_block_def Let_def prod.case M C
      using image bs(1) more last by (simp add: bytes log_error_def next_instruction_def del: of_nat_add)
  qed
  finally show ?thesis .
qed

section \<open>All calls\<close>

text \<open>The instruction is run again until it is left.\<close>

fun repeat_retrieve :: "vm_env \<Rightarrow> nat \<Rightarrow> log_copy \<times> vm_state \<times> watch_state \<Rightarrow> (log_copy \<times> vm_state \<times> watch_state) option" where
  "repeat_retrieve env 0 x = None"
| "repeat_retrieve env (Suc m) (lc, s, ws) =
     (case ept_watch_retrievelog env (lc, s, ws) of
        Inr (None, lc', s', ws') \<Rightarrow>
          if vmread vm_guest_rip s' \<noteq> vmread vm_guest_rip s then Some (lc', s', ws') else repeat_retrieve env m (lc', s', ws')
      | _ \<Rightarrow> None)"

definition copying :: "nat \<Rightarrow> nat \<Rightarrow> ept_watch \<Rightarrow> watch_state \<Rightarrow> watch_state" where
  "copying k i w ws = (if k = 0 then ws else set_watch i (w\<lparr>CopyInProgress := 1\<rparr>) ws)"

lemma set_watch_twice: "set_watch i v (set_watch i w ws) = set_watch i v ws"
  by (simp add: set_watch_def)

lemma retrieve_all:
  assumes i: "sint (lc_ID lc) = int i" "i < eptWatchListPos ws" "i < length (eptWatchList ws)"
    and w: "eptWatchList ws ! i = w" "Active w \<noteq> 0" "Log w = Some lg"
    and ok: "log_ok options lg" and n: "n = unat (log_size lg)" "n < 2 ^ 31"
    and params: "log_size lg \<le> resultsize lc" "results lc \<noteq> 0" and room: "17 \<le> map_window env"
    and len: "vmread vm_exit_instructionlength s \<noteq> 0"
    and pages: "\<And>m j. (\<And>a. a \<notin> g ` {..<n} \<Longrightarrow> m a = pmem s a) \<Longrightarrow> j < n \<Longrightarrow>
      getPhysicalAddressVM env (s\<lparr>pmem := m\<rparr>) (results lc + of_nat j) = Some (g j)"
  shows "k < n \<Longrightarrow> n - k \<le> 65536 * m \<Longrightarrow>
    repeat_retrieve env m (lc\<lparr>copied := of_nat k\<rparr>, copied_state g lg k s, copying k i w ws) =
      Some (lc\<lparr>copied := log_size lg, resultsize := log_size lg\<rparr>, next_instruction ((copied_state g lg n s)\<lparr>rax := 0\<rparr>),
        set_watch i (w\<lparr>CopyInProgress := 0, Log := Some (lg\<lparr>numberOfEntries := 0\<rparr>)\<rparr>) ws)"
proof (induction m arbitrary: k)
  case (Suc m)
  define b where "b = min (n - k) 65536"
  let ?lc = "lc\<lparr>copied := of_nat k\<rparr>" and ?s = "copied_state g lg k s" and ?ws = "copying k i w ws"
  define v where "v = (if k = 0 then w else w\<lparr>CopyInProgress := 1\<rparr>)"
  have kb: "k + b \<le> n" "b \<le> n - k" "0 < b" using Suc.prems(1) by (simp_all add: b_def)
  have nlen: "n \<le> length (log_image lg)" using log_size_eq(2) [OF ok] n(1) by simp
  have v: "eptWatchList ?ws ! i = v" "Active v \<noteq> 0" "Log v = Some lg" "eptWatchListPos ?ws = eptWatchListPos ws"
      "k = 0 \<or> CopyInProgress v \<noteq> 0" "v\<lparr>CopyInProgress := x\<rparr> = w\<lparr>CopyInProgress := x\<rparr>" for x
    using w i(3) by (auto simp: copying_def v_def set_watch_def)
  have pages': "getPhysicalAddressVM env ?s (results ?lc + of_nat (k + j)) = Some (g (k + j))" if "j < b" for j
  proof -
    have "put_bytes g (take k (log_image lg)) (pmem s) a = pmem s a" if "a \<notin> g ` {..<n}" for a
      using that Suc.prems(1) by (intro put_bytes_other) auto
    moreover have "k + j < n" using that kb(1) by simp
    ultimately show ?thesis using pages [of "put_bytes g (take k (log_image lg)) (pmem s)" "k + j"]
      by (simp add: copied_state_def del: of_nat_add)
  qed
  have bytes: "put_bytes (\<lambda>j. g (k + j)) (take b (drop k (log_image lg))) (put_bytes g (take k (log_image lg)) h) =
      put_bytes g (take (k + b) (log_image lg)) h" for h
  proof -
    have "length (take k (log_image lg)) = k" using nlen Suc.prems(1) by simp
    then show ?thesis unfolding take_add by (simp add: put_bytes_append)
  qed
  have step: "ept_watch_retrievelog env (?lc, ?s, ?ws) =
    (let lc = lc\<lparr>copied := of_nat (k + b)\<rparr>; s = copied_state g lg (k + b) s
     in if k + b < n then Inr (None, lc, s, copying (k + b) i w ws)
        else Inr (None, lc\<lparr>resultsize := log_size lg\<rparr>, next_instruction (s\<lparr>rax := 0\<rparr>),
          set_watch i (w\<lparr>CopyInProgress := 0, Log := Some (lg\<lparr>numberOfEntries := 0\<rparr>)\<rparr>) ws))"
  proof -
    have ID: "sint (lc_ID ?lc) = int i" "i < eptWatchListPos ?ws" "log_size lg \<le> resultsize ?lc" "results ?lc \<noteq> 0" "copied ?lc = of_nat k"
      using i params v(4) by simp_all
    have "v\<lparr>CopyInProgress := 0, Log := l\<rparr> = w\<lparr>CopyInProgress := 0, Log := l\<rparr>" for l by (simp add: v_def)
    moreover have "set_watch i x ?ws = set_watch i x ws" for x by (simp add: copying_def set_watch_twice)
    moreover have "copying (k + b) i w ws = set_watch i (w\<lparr>CopyInProgress := 1\<rparr>) ws" using kb(3) by (simp add: copying_def)
    ultimately show ?thesis
      using retrieve_block [OF ID(1,2) v(1-3) ok n ID(3-5) Suc.prems(1) v(5) room b_def pages']
      by (simp add: v(6) set_watch_twice copied_state_def bytes Let_def del: of_nat_add)
  qed
  have rip: "vmread vm_guest_rip (copied_state g lg j s) = vmread vm_guest_rip s" for j
    by (simp add: copied_state_def vmread_def)
  have moved: "vmread vm_guest_rip (next_instruction ((copied_state g lg j s)\<lparr>rax := 0\<rparr>)) \<noteq> vmread vm_guest_rip s" for j
    using len by (simp add: next_instruction_def copied_state_def vmread_def vmwrite_def)
  show ?case
  proof (cases "k + b < n")
    case True
    then have "b = 65536" by (auto simp: b_def split: if_splits)
    then have "n - (k + b) \<le> 65536 * m" using Suc.prems(2) by simp
    then show ?thesis using Suc.IH [of "k + b"] True by (simp add: step Let_def rip del: of_nat_add)
  next
    case False
    then have "k + b = n" using kb(1) by simp
    then show ?thesis using n(1) by (simp add: step Let_def rip moved del: of_nat_add)
  qed
qed simp

section \<open>Properties\<close>

text \<open>
  C12: The calls that copy the log of a watch, in blocks of 64 KB, put the bytes of the log at the client's
  pages, from its first byte to its size, and the last of them reports the size, empties the log, ends
  the copy and goes to the next instruction. The number of calls is the number of blocks. The pages must be present and must not
  hold the tables that translate them.
\<close>

theorem ept_watch_retrievelog_complete:
  assumes "sint (lc_ID lc) = int i" "i < eptWatchListPos ws" "i < length (eptWatchList ws)"
    and "eptWatchList ws ! i = w" "Active w \<noteq> 0" "Log w = Some lg" and "log_ok options lg"
    and "n = unat (log_size lg)" "n < 2 ^ 31" and "log_size lg \<le> resultsize lc" "results lc \<noteq> 0" "copied lc = 0"
    and "17 \<le> map_window env" and "vmread vm_exit_instructionlength s \<noteq> 0"
    and "\<And>m j. (\<And>a. a \<notin> g ` {..<n} \<Longrightarrow> m a = pmem s a) \<Longrightarrow> j < n \<Longrightarrow>
      getPhysicalAddressVM env (s\<lparr>pmem := m\<rparr>) (results lc + of_nat j) = Some (g j)"
  shows "repeat_retrieve env ((n + 65535) div 65536) (lc, s, ws) =
      Some (lc\<lparr>copied := log_size lg, resultsize := log_size lg\<rparr>,
        next_instruction (s\<lparr>pmem := put_bytes g (take n (log_image lg)) (pmem s), rax := 0\<rparr>),
        set_watch i (w\<lparr>CopyInProgress := 0, Log := Some (lg\<lparr>numberOfEntries := 0\<rparr>)\<rparr>) ws)"
proof -
  define q r where "q = (n + 65535) div 65536" and "r = (n + 65535) mod 65536"
  have "n + 65535 = 65536 * q + r" "r < 65536" by (simp_all add: q_def r_def)
  then have m: "n - 0 \<le> 65536 * q" by linarith
  have pos: "0 < n" using log_size_eq(1) [OF assms(7)] assms(8) by simp
  have start: "lc\<lparr>copied := of_nat 0\<rparr> = lc" "copied_state g lg 0 s = s" "copying 0 i w ws = ws"
    using assms(12) by (simp_all add: copied_state_def copying_def)
  show ?thesis
    using retrieve_all [where g = g and k = 0 and m = q, OF assms(1-11,13-15) pos m] unfolding start
    by (simp add: copied_state_def q_def)
qed

text \<open>A log with one entry, copied into pages of a guest without paging.\<close>

definition example_event_log :: event_log where
  "example_event_log = \<lparr>log_ID = 0, maxNumberOfEntries = 1, numberOfEntries = 1, missedEntries = 0, entryType = 0, log_pe = [zero_event 0]\<rparr>"

definition example_logged :: ept_watch where
  "example_logged = \<lparr>watch_PhysicalAddress = 0x1000, watch_Size = 8, watch_Type = 0, watch_Options = 0, LoopUserMode = 0,
     LoopKernelMode = 0, Active = 1, CopyInProgress = 0, Log = Some example_event_log\<rparr>"

definition example_retrieval :: log_copy where
  "example_retrieval = \<lparr>lc_ID = 0, results = 0x5000, resultsize = 0x1000, copied = 0\<rparr>"

definition example_client :: vm_state where
  "example_client = blank_state\<lparr>vmcs := (vmcs blank_state)(vm_exit_instructionlength := 3)\<rparr>"

theorem ept_watch_retrievelog_complete_witness:
  "\<forall>ws. \<exists>lc s ws'. repeat_retrieve (blank_env True) 1
      (example_retrieval, example_client, ws\<lparr>eptWatchList := [example_logged], eptWatchListPos := 1\<rparr>) = Some (lc, s, ws') \<and>
    copied lc = 280 \<and> vmread vm_guest_rip s = 3"
proof
  fix ws :: watch_state
  let ?g = "\<lambda>i. 0x5000 + of_nat i :: u64" and ?ws = "ws\<lparr>eptWatchList := [example_logged], eptWatchListPos := 1\<rparr>"
  have type: "struct_type 0 = 0" by (simp add: struct_type_def)
  have sz: "sizeof_event 0 = 256" by (simp add: sizeof_event_def)
  have lg: "Log example_logged = Some example_event_log" "Active example_logged \<noteq> 0" by (simp_all add: example_logged_def)
  have ok: "log_ok 0 example_event_log"
    using zero_event_ok [of 0] by (simp add: log_ok_def example_event_log_def type sz logged_rips_def)
  have n: "log_size example_event_log = 280" by (simp add: log_size_def example_event_log_def sz)
  have len: "vmread vm_exit_instructionlength example_client = 3" "vmread vm_guest_rip example_client = 0"
    by (simp_all add: example_client_def blank_state_def vmread_def)
  have pages: "getPhysicalAddressVM (blank_env True) (example_client\<lparr>pmem := m\<rparr>) a = Some a" for m a
    by (simp add: getPhysicalAddressVM_def guest_paged_def blank_env_def example_client_def blank_state_def vmread_def)
  have run: "repeat_retrieve (blank_env True) ((280 + 65535) div 65536) (example_retrieval, example_client, ?ws) =
      Some (example_retrieval\<lparr>copied := log_size example_event_log, resultsize := log_size example_event_log\<rparr>,
        next_instruction (example_client\<lparr>pmem := put_bytes ?g (take 280 (log_image example_event_log)) (pmem example_client), rax := 0\<rparr>),
        set_watch 0 (example_logged\<lparr>CopyInProgress := 0, Log := Some (example_event_log\<lparr>numberOfEntries := 0\<rparr>)\<rparr>) ?ws)"
    by (rule ept_watch_retrievelog_complete [where i = 0 and options = 0, OF _ _ _ _ lg(2,1) ok])
      (simp_all add: example_retrieval_def n len pages, simp add: blank_env_def)
  then show "\<exists>lc s ws'. repeat_retrieve (blank_env True) 1 (example_retrieval, example_client, ?ws) = Some (lc, s, ws') \<and>
    copied lc = 280 \<and> vmread vm_guest_rip s = 3"
    using len by (simp add: n next_instruction_def)
qed

end
