(* ===== verification/CStrings.thy ===== *)
theory CStrings
  imports Prelude
begin

text \<open>
  The string functions of \<open>common.c\<close>. A pointer to characters is the list of bytes from there to the
  end of its buffer; the result \<open>None\<close> is an access behind the buffer. A pointer result is the distance
  from the start. Plain characters are signed, lengths stay below \<open>2 ^ 31\<close>. The arguments of a copy
  are different buffers.
\<close>

section \<open>Reading strings\<close>

fun strlen :: "u8 list \<Rightarrow> nat option" where
  "strlen [] = None"
| "strlen (c # s) = (if c = 0 then Some 0 else map_option Suc (strlen s))"

fun strcmp :: "u8 list \<Rightarrow> u8 list \<Rightarrow> int option" where
  "strcmp (a # s) (b # t) =
     (if a = 0 \<and> b = 0 then Some 0 else if b <s a then Some 1 else if a <s b then Some (-1) else strcmp s t)"
| "strcmp _ _ = None"

fun strncmp :: "u8 list \<Rightarrow> u8 list \<Rightarrow> nat \<Rightarrow> int option" where
  "strncmp s t 0 = Some 0"
| "strncmp (a # s) (b # t) (Suc n) =
     (if a = 0 \<and> b = 0 then Some 0 else if b <s a then Some 1 else if a <s b then Some (-1) else strncmp s t n)"
| "strncmp _ _ (Suc n) = None"

fun memcmp :: "u8 list \<Rightarrow> u8 list \<Rightarrow> nat \<Rightarrow> int option" where
  "memcmp s t 0 = Some 0"
| "memcmp (a # s) (b # t) (Suc n) = (if a > b then Some 1 else if a < b then Some (-1) else memcmp s t n)"
| "memcmp _ _ (Suc n) = None"

text \<open>The searches; \<open>Some None\<close> is \<open>NULL\<close>.\<close>

fun memchr :: "u8 list \<Rightarrow> u8 \<Rightarrow> nat \<Rightarrow> nat option option" where
  "memchr s c 0 = Some None"
| "memchr [] c (Suc n) = None"
| "memchr (a # s) c (Suc n) = (if a = c then Some (Some 0) else map_option (map_option Suc) (memchr s c n))"

fun strchr :: "u8 list \<Rightarrow> int \<Rightarrow> nat option option" where
  "strchr [] c = None"
| "strchr (a # s) c =
     (if a = 0 then Some None else if sint a = c then Some (Some 0) else map_option (map_option Suc) (strchr s c))"

fun find_string :: "u8 list \<Rightarrow> u8 list \<Rightarrow> nat \<Rightarrow> nat option option" where
  "find_string [] needle n = None"
| "find_string (c # s) needle n =
     (if c = 0 then Some None
      else do {
        r \<leftarrow> strncmp (c # s) needle n;
        if r = 0 then Some (Some 0) else map_option (map_option Suc) (find_string s needle n)
      })"

definition strstr :: "u8 list \<Rightarrow> u8 list \<Rightarrow> nat option option" where
  "strstr haystack needle = do { n \<leftarrow> strlen needle; find_string haystack needle n }"

text \<open>\<open>strspn\<close> tests the pointer \<open>chars\<close>, which is not \<open>NULL\<close>, and not the characters.\<close>

fun strspn :: "u8 list \<Rightarrow> u8 list \<Rightarrow> nat option" where
  "strspn [] chars = None"
| "strspn (c # s) chars =
     (if c = 0 then Some 0
      else case chars of [] \<Rightarrow> None | d # _ \<Rightarrow> if d = 0 then Some 0 else map_option Suc (strspn s chars))"

fun in_string :: "u8 \<Rightarrow> u8 list \<Rightarrow> bool option" where
  "in_string c [] = None"
| "in_string c (d # ds) = (if d = 0 then Some False else if c = d then Some True else in_string c ds)"

fun strcspn_from :: "int \<Rightarrow> u8 list \<Rightarrow> u8 list \<Rightarrow> int option" where
  "strcspn_from i [] reject = None"
| "strcspn_from i (c # s) reject =
     (if c = 0 then Some (i - 1)
      else do { r \<leftarrow> in_string c reject; if r then Some i else strcspn_from (i + 1) s reject })"

definition strcspn :: "u8 list \<Rightarrow> u8 list \<Rightarrow> u64 option" where
  "strcspn s reject = map_option of_int (strcspn_from 0 s reject)"

fun strpbrk :: "u8 list \<Rightarrow> u8 list \<Rightarrow> nat option option" where
  "strpbrk [] accept = None"
| "strpbrk (c # s) accept =
     (if c = 0 then Some None
      else do {
        r \<leftarrow> in_string c accept;
        if r then Some (Some 0) else map_option (map_option Suc) (strpbrk s accept)
      })"

section \<open>Writing buffers\<close>

fun memset :: "u8 list \<Rightarrow> u8 \<Rightarrow> nat \<Rightarrow> u8 list option" where
  "memset s c 0 = Some s"
| "memset [] c (Suc n) = None"
| "memset (a # s) c (Suc n) = map_option (Cons c) (memset s c n)"

definition zeromemory :: "u8 list \<Rightarrow> nat \<Rightarrow> u8 list option" where
  "zeromemory s n = memset s 0 n"

text \<open>The bytes \<open>xs\<close> written from index \<open>j\<close> on.\<close>

definition put :: "nat \<Rightarrow> u8 list \<Rightarrow> u8 list \<Rightarrow> u8 list option" where
  "put j xs s = (if j + length xs \<le> length s then Some (take j s @ xs @ drop (j + length xs) s) else None)"

definition strcpy :: "u8 list \<Rightarrow> u8 list \<Rightarrow> u8 list option" where
  "strcpy dest src = do { n \<leftarrow> strlen src; put 0 (take n src @ [0]) dest }"

definition strcat :: "u8 list \<Rightarrow> u8 list \<Rightarrow> u8 list option" where
  "strcat dest src = do { j \<leftarrow> strlen dest; n \<leftarrow> strlen src; put j (take n src @ [0]) dest }"

fun at_most :: "nat \<Rightarrow> u8 list \<Rightarrow> u8 list option" where
  "at_most 0 s = Some []"
| "at_most (Suc n) [] = None"
| "at_most (Suc n) (c # s) = (if c = 0 then Some [] else map_option (Cons c) (at_most n s))"

definition strncpy :: "u8 list \<Rightarrow> u8 list \<Rightarrow> nat \<Rightarrow> u8 list option" where
  "strncpy dest src n = do { xs \<leftarrow> at_most n src; put 0 (xs @ replicate (n - length xs) 0) dest }"

definition strncat :: "u8 list \<Rightarrow> u8 list \<Rightarrow> nat \<Rightarrow> u8 list option" where
  "strncat dest src n = do { j \<leftarrow> strlen dest; xs \<leftarrow> at_most n src; put j (xs @ [0]) dest }"

text \<open>
  \<open>newstring\<close> has \<open>wantedsize + 1\<close> characters; those behind its terminator, which nothing reads, are zeros
  here. With a longer string than wanted the number of zeros is negative, and so is the index of the terminator.
\<close>

definition appendzero :: "u8 list \<Rightarrow> nat \<Rightarrow> nat \<Rightarrow> u8 list option" where
  "appendzero string wantedsize maxstringsize = do {
     n \<leftarrow> strlen string;
     if wantedsize \<ge> maxstringsize then Some string
     else if wantedsize < n then None
     else do {
       let z = wantedsize - n;
       newstring \<leftarrow> strcat (replicate z 0x30 @ replicate (n + 1) 0) string;
       string \<leftarrow> strcpy string newstring;
       put (maxstringsize - 1) [0] string
     }
   }"

section \<open>Classes of characters\<close>

definition isalpha :: "int \<Rightarrow> bool" where
  "isalpha c \<longleftrightarrow> c \<ge> 65 \<and> c \<le> 90 \<or> c \<ge> 97 \<and> c \<ge> 122"

definition isdigit :: "int \<Rightarrow> bool" where
  "isdigit c \<longleftrightarrow> c \<ge> 48 \<and> c \<le> 57"

definition isspace :: "int \<Rightarrow> bool" where
  "isspace c \<longleftrightarrow> c = 32"

definition iscntrl :: "int \<Rightarrow> bool" where
  "iscntrl c \<longleftrightarrow> c \<in> {10, 13, 9, 12, 7}"

definition toupper :: "u32 \<Rightarrow> u32" where
  "toupper c = c AND NOT (push_bit 5 1)"

definition tolower :: "u32 \<Rightarrow> u32" where
  "tolower c = c OR push_bit 5 1"

definition isgraph :: "int \<Rightarrow> bool" where
  "isgraph c \<longleftrightarrow> c \<ge> 33 \<and> c \<le> 126"

definition islower :: "int \<Rightarrow> bool" where
  "islower c \<longleftrightarrow> c \<ge> 97 \<and> c \<le> 122"

definition isupper :: "int \<Rightarrow> bool" where
  "isupper c \<longleftrightarrow> c \<ge> 65 \<and> c \<le> 90"

definition isprint :: "int \<Rightarrow> bool" where
  "isprint c \<longleftrightarrow> c \<ge> 32 \<and> c \<le> 126"

definition ispunct :: "int \<Rightarrow> bool" where
  "ispunct c \<longleftrightarrow> isprint c \<and> \<not> isspace c \<and> \<not> isalpha c"

definition isxdigit :: "int \<Rightarrow> bool" where
  "isxdigit c \<longleftrightarrow> c \<ge> 48 \<and> c \<le> 57 \<or> c \<ge> 65 \<and> c \<le> 70 \<or> c \<ge> 97 \<and> c \<le> 102"

definition isalnum :: "int \<Rightarrow> bool" where
  "isalnum c \<longleftrightarrow> isalpha c \<or> isdigit c"

section \<open>Numbers\<close>

text \<open>The digits of a number from the last to the first, at most as many as the buffer has room for.\<close>

fun digits :: "nat \<Rightarrow> 'a::len word \<Rightarrow> nat \<Rightarrow> u8 list" where
  "digits base v 0 = []"
| "digits base v (Suc n) =
     (if v = 0 then []
      else let t = unat (v mod of_nat base)
           in (if t \<le> 9 then 0x30 + of_nat t else 0x61 + of_nat t - 10) # digits base (v div of_nat base) n)"

definition number_string :: "'a::len word \<Rightarrow> int \<Rightarrow> u8 list \<Rightarrow> nat \<Rightarrow> (int \<times> u8 list) option" where
  "number_string v base output maxsize =
     (if base < 2 \<or> base > 36 then Some (-1, output)
      else if v = 0 \<and> maxsize > 1 then map_option (Pair 2) (put 0 [0x30, 0] output)
      else if maxsize = 0 then None
      else
        let tempbuf = digits (nat base) v maxsize; i = length tempbuf
        in do {
          output \<leftarrow> put 0 (rev tempbuf) output;
          map_option (Pair (int i)) (put (if i < maxsize then i else maxsize - 1) [0] output)
        })"

definition lltoa :: "u64 \<Rightarrow> int \<Rightarrow> u8 list \<Rightarrow> nat \<Rightarrow> (int \<times> u8 list) option" where
  "lltoa = number_string"

definition itoa :: "u32 \<Rightarrow> int \<Rightarrow> u8 list \<Rightarrow> nat \<Rightarrow> (int \<times> u8 list) option" where
  "itoa = number_string"

primrec power_c :: "u32 \<Rightarrow> nat \<Rightarrow> u64" where
  "power_c x 0 = 1"
| "power_c x (Suc y) = power_c x y * ucast x"

text \<open>Signs and prefixes: how many characters they take, whether the number is negative, and the base.\<close>

fun number_prefix :: "u8 list \<Rightarrow> nat \<Rightarrow> bool \<Rightarrow> int \<Rightarrow> (nat \<times> bool \<times> int) option" where
  "number_prefix [] start neg base = None"
| "number_prefix (c # s) start neg base =
     (if c = 0x2d then number_prefix s (start + 1) (\<not> neg) base
      else if c = 0x24 then number_prefix s (start + 1) neg 16
      else if c = 0x30
      then (case s of [] \<Rightarrow> None
            | d # s' \<Rightarrow> if d = 0x78 then number_prefix s' (start + 2) neg 16 else Some (start, neg, base))
      else Some (start, neg, base))"

definition digit_value :: "u8 \<Rightarrow> nat option" where
  "digit_value c =
     (if c \<ge> 0x30 \<and> c \<le> 0x39 then Some (unat (c - 0x30))
      else if c \<ge> 0x61 \<and> c \<le> 0x7a then Some (unat (10 + c - 0x61))
      else if c \<ge> 0x41 \<and> c \<le> 0x5a then Some (unat (10 + c - 0x41))
      else None)"

text \<open>The digits from the last to the first, and the index of the first bad one, or 0.\<close>

fun add_digits :: "nat \<Rightarrow> int \<Rightarrow> bool \<Rightarrow> u8 list \<Rightarrow> nat \<Rightarrow> u64 \<Rightarrow> u64 \<times> int" where
  "add_digits start base neg [] j result = (result, 0)"
| "add_digits start base neg (c # cs) j result =
     (case digit_value c of
        None \<Rightarrow> (result, int (start + length cs))
      | Some d \<Rightarrow>
          if int d \<ge> base then (result, int (start + length cs))
          else
            let result = result + of_nat d * power_c (word_of_int base) j;
                result = (if neg then scast (ucast (- result) :: u32) else result)
            in add_digits start base neg cs (j + 1) result)"

text \<open>The second result is \<open>*err\<close>.\<close>

definition atoi2 :: "u8 list \<Rightarrow> int \<Rightarrow> (u64 \<times> int) option" where
  "atoi2 input base =
     (if base < 2 \<or> base > 36 then Some (0, -1)
      else do {
        (start, neg, base) \<leftarrow> number_prefix input 0 False base;
        n \<leftarrow> strlen input;
        Some (add_digits start base neg (rev (drop start (take n input))) 0 0)
      })"

text \<open>The second result is the index \<open>*endptr\<close> points to.\<close>

definition strtoull :: "u8 list \<Rightarrow> int \<Rightarrow> (u64 \<times> int) option" where
  "strtoull nptr base = do {
     (result, err) \<leftarrow> atoi2 nptr base;
     if err = 0 then map_option (\<lambda>n. (result, int n + 1)) (strlen nptr) else Some (result, err)
   }"

end
