(* ===== verification/Printf.thy ===== *)
theory Printf
  imports CStrings
begin

text \<open>
  The formatted output of \<open>common.c\<close>: \<open>vbuildstring\<close>, which \<open>sprintf\<close>, \<open>snprintf\<close> and the debug output use.
  A first pass over a copy of the format sets the characters of each operator to 0 and notes its type; a
  second one writes the result. Variable arguments are a list; one of another type than the
  operator asks for is an error.
\<close>

datatype va_arg = VA_INT u32 | VA_LONG u64 | VA_STRING "u8 list"

record var_entry =
  var_type :: nat
  var_size :: nat
  digitcount :: nat

section \<open>The first pass\<close>

text \<open>
  The characters are \<open>d\<close>, \<open>x\<close>, \<open>8\<close>, \<open>p\<close>, \<open>6\<close>, \<open>2\<close>, \<open>s\<close> and \<open>c\<close>. An operator that is not known keeps the type 255; its size is never
  used.
\<close>

definition operator_type :: "u8 \<Rightarrow> nat option" where
  "operator_type c =
     (if c = 0x64 then Some 0 else if c = 0x78 then Some 1 else if c = 0x38 then Some 3 else if c = 0x70 then Some 4
      else if c = 0x36 then Some 4 else if c = 0x32 then Some 6 else if c = 0x73 then Some 2 else if c = 0x63 then Some 5
      else None)"

definition long_type :: "u8 list \<Rightarrow> nat option" where
  "long_type s =
     (if length s \<ge> 3 \<and> s ! 0 = 0x6c \<and> s ! 1 = 0x6c
      then if s ! 2 = 0x64 then Some 7 else if s ! 2 = 0x78 then Some 8 else None
      else None)"

definition unknown_var :: var_entry where
  "unknown_var = \<lparr>var_type = 255, var_size = 0, digitcount = 0\<rparr>"

text \<open>What follows the percent sign up to its type: how many characters, their digit, and the rest.\<close>

definition precision :: "u8 list \<Rightarrow> nat \<times> nat \<times> u8 list" where
  "precision s = (case s of
     c # s' \<Rightarrow> if c = 0x2e
       then (case s' of d # s'' \<Rightarrow> if isdigit (sint d) then (2, unat (d - 0x30), s'') else (1, 0, 0 # s') | [] \<Rightarrow> (1, 0, 0 # s'))
       else (0, 0, s)
   | [] \<Rightarrow> (0, 0, s))"

definition operator_entry :: "nat \<Rightarrow> nat \<Rightarrow> u8 list \<Rightarrow> var_entry" where
  "operator_entry additional dc s =
     (let v = (case long_type s of Some t \<Rightarrow> unknown_var\<lparr>var_type := t, var_size := 4\<rparr> | None \<Rightarrow> unknown_var);
          v = (case operator_type (s ! 0) of Some t \<Rightarrow> v\<lparr>var_type := t, var_size := 2\<rparr> | None \<Rightarrow> v)
      in v\<lparr>var_size := var_size v + additional, digitcount := dc\<rparr>)"

text \<open>
  The result is the copy of the format, with zeros for the percent sign, the point and digit, and the type.
  Without a character behind them the pass reads and writes behind its copy.
\<close>

function parse_format :: "u8 list \<Rightarrow> nat \<Rightarrow> (u8 list \<times> var_entry list) option" where
  "parse_format [] vlc = Some ([], [])"
| "parse_format (c # s) vlc =
     (if c \<noteq> 0x25 \<or> vlc \<ge> 64 then map_option (\<lambda>(w, vs). (c # w, vs)) (parse_format s vlc)
      else case precision s of (additional, dc, s') \<Rightarrow>
        if s' = [] then None
        else
          let n = (if additional = 2 then 3 else 1)
          in map_option (\<lambda>(w, vs). (replicate n 0 @ 0 # w, operator_entry additional dc s' # vs))
               (parse_format (List.tl s') (vlc + 1)))"
  by pat_completeness auto
termination
  by (relation "measure (length \<circ> fst)") (auto simp: precision_def split: list.splits if_splits)

section \<open>The second pass\<close>

text \<open>
  A copy of the \<open>n\<close> characters at \<open>src\<close>. When they do not fit, the number that is copied instead is
  \<open>size - (strpos + n - size)\<close>, which can be larger than the room.
\<close>

definition copy_text :: "int \<Rightarrow> bool \<Rightarrow> nat \<Rightarrow> u8 list \<Rightarrow> nat \<Rightarrow> u8 list \<Rightarrow> (u8 list \<times> nat) option" where
  "copy_text sz full n src strpos str =
     (let i = (if full then sz - (int strpos + int n - sz) else int n)
      in if i < 0 \<or> nat i > length src then None
         else map_option (\<lambda>str. (str, strpos + nat i)) (put strpos (take (nat i) src) str))"

text \<open>The buffer \<open>temps\<close> with the digits of a number.\<close>

definition number_text :: "var_entry \<Rightarrow> va_arg \<Rightarrow> u8 list \<Rightarrow> u8 list option" where
  "number_text v a temps = (case a of
     VA_INT x \<Rightarrow>
       if var_type v = 0 then map_option snd (itoa x 10 temps 100)
       else if var_type v = 1 then map_option snd (itoa x 16 temps 100)
       else if var_type v = 3 then do { (n, temps) \<leftarrow> itoa x 16 temps 100; appendzero temps 8 100 }
       else if var_type v = 6 then do { (n, temps) \<leftarrow> itoa (ucast (ucast x :: u8)) 16 temps 100; appendzero temps 2 100 }
       else None
   | VA_LONG x \<Rightarrow>
       if var_type v = 7 then map_option snd (lltoa x 10 temps 100)
       else if var_type v = 4 then do { (n, temps) \<leftarrow> lltoa x 16 temps 100; appendzero temps 16 100 }
       else if var_type v = 8 then do {
         (n, temps) \<leftarrow> lltoa x 16 temps 100;
         if digitcount v > 0 then appendzero temps (digitcount v) 100 else Some temps
       }
       else None
   | VA_STRING s \<Rightarrow> None)"

definition print_var :: "int \<Rightarrow> var_entry \<Rightarrow> va_arg \<Rightarrow> u8 list \<times> nat \<times> u8 list \<Rightarrow> (u8 list \<times> nat \<times> u8 list) option" where
  "print_var sz v a = (\<lambda>(str, strpos, temps).
     (case (var_type v = 2, var_type v = 5, a) of
        (True, _, VA_STRING s) \<Rightarrow> do {
          n \<leftarrow> strlen s;
          (str, strpos) \<leftarrow> copy_text sz (int (strpos + n) > sz) n s strpos str;
          Some (str, strpos, temps)
        }
      | (_, True, VA_INT c) \<Rightarrow> map_option (\<lambda>str. (str, strpos + 1, temps)) (put strpos [ucast c] str)
      | _ \<Rightarrow> do {
          temps \<leftarrow> number_text v a temps;
          n \<leftarrow> strlen temps;
          (str, strpos) \<leftarrow> copy_text sz (int (strpos + n) \<ge> sz) n temps strpos str;
          Some (str, strpos, temps)
        }))"

definition end_string :: "int \<Rightarrow> u8 list \<times> nat \<Rightarrow> (int \<times> u8 list) option" where
  "end_string sz = (\<lambda>(str, strpos).
     (let p = (if int strpos \<ge> sz then sz - 1 else int strpos)
      in if p < 0 then None else map_option (Pair p) (put (nat p) [0] str)))"

function print_format :: "int \<Rightarrow> u8 list \<Rightarrow> var_entry list \<Rightarrow> va_arg list \<Rightarrow> u8 list \<times> nat \<times> u8 list \<Rightarrow> (int \<times> u8 list) option" where
  "print_format sz [] vs as (str, strpos, temps) = end_string sz (str, strpos)"
| "print_format sz (c # w) vs as (str, strpos, temps) =
     (if int strpos \<ge> sz then end_string sz (str, strpos)
      else if c = 0
      then (case vs of
          [] \<Rightarrow> Some (0, str)
        | v # vs' \<Rightarrow>
            if var_type v = 255 then Some (0, str)
            else (case as of
                [] \<Rightarrow> None
              | a # as' \<Rightarrow> do {
                  out \<leftarrow> print_var sz v a (str, strpos, temps);
                  print_format sz (drop (var_size v) (c # w)) vs' as' out
                }))
      else do {
        str \<leftarrow> put strpos [c] str;
        if int strpos + 1 \<ge> sz then map_option (Pair sz) (put (nat sz - 1) [0] str)
        else print_format sz w vs as (str, strpos + 1, temps)
      })"
  by pat_completeness auto
termination
  by (relation "measure (\<lambda>(sz, w, vs, as, out). length w + length vs)") auto

text \<open>\<open>temps\<close> is the uninitialised buffer of 100 characters on the stack.\<close>

definition vbuildstring :: "u8 list \<Rightarrow> u8 list \<Rightarrow> int \<Rightarrow> u8 list \<Rightarrow> va_arg list \<Rightarrow> (int \<times> u8 list) option" where
  "vbuildstring temps str sz string as = do {
     l \<leftarrow> strlen string;
     if sz = 0 then Some (0, str)
     else do {
       (w, vs) \<leftarrow> parse_format (take l string) 0;
       print_format sz w vs as (str, 0, temps)
     }
   }"

definition sprintf :: "u8 list \<Rightarrow> u8 list \<Rightarrow> u8 list \<Rightarrow> va_arg list \<Rightarrow> (int \<times> u8 list) option" where
  "sprintf temps str format as = vbuildstring temps str 4096 format as"

definition snprintf :: "u8 list \<Rightarrow> u8 list \<Rightarrow> u64 \<Rightarrow> u8 list \<Rightarrow> va_arg list \<Rightarrow> (int \<times> u8 list) option" where
  "snprintf temps str sz format as = vbuildstring temps str (sint (ucast sz :: u32)) format as"

end
