(* ===== verification/CStringsCorrect.thy ===== *)
theory CStringsCorrect
  imports CStrings
begin

text \<open>
  The string functions on terminated strings: a buffer \<open>xs @ 0 # r\<close> with no zero in \<open>xs\<close> holds the string
  \<open>xs\<close>. Numbers are printed as their digits and read back.
\<close>

section \<open>Terminated strings\<close>

named_theorems string_simps "functions on terminated strings"

lemma strlen_string [string_simps]: "0 \<notin> set xs \<Longrightarrow> strlen (xs @ 0 # r) = Some (length xs)"
  by (induction xs) auto

lemma put_front: "length xs \<le> length s \<Longrightarrow> put 0 xs s = Some (xs @ drop (length xs) s)"
  by (simp add: put_def)

lemma put_append: "put (length xs) ys (xs @ s) = (if length ys \<le> length s then Some (xs @ ys @ drop (length ys) s) else None)"
  by (simp add: put_def)

lemma put_update: "j < length s \<Longrightarrow> put (length xs + j) [c] (xs @ s) = Some (xs @ s[j := c])"
  by (simp add: put_def upd_conv_take_nth_drop)

lemma length_put: "put j xs s = Some t \<Longrightarrow> length t = length s"
  by (auto simp: put_def split: if_splits)

lemma strcpy_string [string_simps]:
  assumes "0 \<notin> set xs" and "length xs < length d"
  shows "strcpy d (xs @ 0 # r) = Some (xs @ 0 # drop (Suc (length xs)) d)"
  using assms by (simp add: strcpy_def strlen_string put_front)

lemma strcat_string [string_simps]:
  assumes "0 \<notin> set xs" "0 \<notin> set ys" and "length ys \<le> length r"
  shows "strcat (xs @ 0 # r) (ys @ 0 # q) = Some (xs @ ys @ 0 # drop (length ys) r)"
  using assms put_append [of xs "ys @ [0]" "0 # r"] by (simp add: strcat_def strlen_string)

text \<open>\<open>appendzero\<close> fills up with zeros in front, and writes in front of its buffer for a string longer than wanted.\<close>

lemma appendzero_string:
  assumes "0 \<notin> set xs" and "length xs \<le> n" "n < m" "m \<le> length xs + 1 + length r"
  shows "\<exists>q. appendzero (xs @ 0 # r) n m = Some (replicate (n - length xs) 0x30 @ xs @ 0 # q) \<and>
    length q = length xs + length r - n"
proof -
  let ?z = "replicate (n - length xs) 0x30 :: u8 list"
  have zx: "0 \<notin> set (?z @ xs)" using assms(1) by auto
  have cat: "strcat (?z @ replicate (length xs + 1) 0) (xs @ 0 # r) = Some (?z @ xs @ [0])"
    using strcat_string [of ?z xs "replicate (length xs) 0" r] assms(1) by auto
  have cpy: "strcpy (xs @ 0 # r) ((?z @ xs) @ [0]) = Some ((?z @ xs) @ 0 # drop (Suc n) (xs @ 0 # r))"
    using strcpy_string [OF zx, of "xs @ 0 # r" "[]"] assms(2-4) by simp
  let ?q = "drop (Suc n) (xs @ 0 # r)"
  have "\<exists>q. put (m - 1) [0] ((?z @ xs) @ 0 # ?q) = Some ((?z @ xs) @ 0 # q) \<and> length q = length ?q"
  proof -
    define k where "k = m - 1 - n"
    then have k: "m - 1 = length (?z @ xs) + k" using assms(2,3) by simp
    have "k < length (0 # ?q)" using k assms(2-4) by simp
    then show ?thesis using put_update [of k "0 # ?q" "?z @ xs" 0] k by (cases k) auto
  qed
  then obtain q where q: "put (m - 1) [0] ((?z @ xs) @ 0 # ?q) = Some ((?z @ xs) @ 0 # q)" "length q = length ?q" by blast
  have "appendzero (xs @ 0 # r) n m = Some ((?z @ xs) @ 0 # q)"
    using assms cat cpy q(1) by (simp add: appendzero_def strlen_string del: append_assoc) simp
  then show ?thesis using q(2) by (intro exI [of _ q]) simp
qed

lemma appendzero_too_long: "0 \<notin> set xs \<Longrightarrow> n < length xs \<Longrightarrow> n < m \<Longrightarrow> appendzero (xs @ 0 # r) n m = None"
  by (simp add: appendzero_def strlen_string)

section \<open>Comparison\<close>

text \<open>Signed bytes that are not apart are equal.\<close>

lemma sint_inject: "sint a = sint b \<longleftrightarrow> a = b"
  using signed_word_eqI by blast

lemma sless_total: "b <s a \<or> a <s b \<or> a = b" for a b :: u8
  using sint_inject [of a b] by (auto simp: word_sless_alt)

lemma strcmp_eq:
  "0 \<notin> set xs \<Longrightarrow> 0 \<notin> set ys \<Longrightarrow> strcmp (xs @ 0 # r) (ys @ 0 # q) = Some 0 \<longleftrightarrow> xs = ys"
proof (induction xs arbitrary: ys)
  case Nil
  then show ?case by (cases ys) auto
next
  case (Cons x xs)
  then show ?case using sless_total [of 0 x] sless_total [of "hd ys" x] by (cases ys) auto
qed

lemma strcmp_swap: "strcmp t s = map_option uminus (strcmp s t)"
  by (induction s t rule: strcmp.induct) (auto simp: word_sless_alt elim!: list.exhaust)

lemma strncmp_prefix:
  assumes "0 \<notin> set ys"
  shows "0 \<notin> set xs \<Longrightarrow> strncmp (xs @ 0 # r) (ys @ 0 # q) (length ys) = Some 0 \<longleftrightarrow> take (length ys) xs = ys"
  using assms
proof (induction ys arbitrary: xs)
  case (Cons y ys)
  then show ?case using sless_total [of 0 y] sless_total [of "hd xs" y] by (cases xs) auto
qed simp

lemma strncmp_defined:
  "0 \<notin> set xs \<Longrightarrow> 0 \<notin> set ys \<Longrightarrow> strncmp (xs @ 0 # r) (ys @ 0 # q) n \<noteq> None"
proof (induction n arbitrary: xs ys)
  case (Suc n)
  show ?case
  proof (cases "xs = [] \<or> ys = []")
    case True
    then show ?thesis
      using Suc.prems sless_total [of 0 "hd xs"] sless_total [of 0 "hd ys"] by (cases xs; cases ys) auto
  next
    case False
    then show ?thesis using Suc by (cases xs; cases ys) auto
  qed
qed simp

lemma find_map_Suc: "find P (map Suc xs) = map_option Suc (find (\<lambda>i. P (Suc i)) xs)"
  by (induction xs) auto

text \<open>\<open>strstr\<close> finds the first occurrence of a needle, except in an empty string.\<close>

lemma strstr_first:
  assumes "0 \<notin> set xs" and "0 \<notin> set ys"
  shows "strstr (xs @ 0 # r) (ys @ 0 # q) =
    Some (find (\<lambda>i. take (length ys) (drop i xs) = ys) [0..<length xs])"
proof -
  have "find_string (xs @ 0 # r) (ys @ 0 # q) (length ys) =
      Some (find (\<lambda>i. take (length ys) (drop i xs) = ys) [0..<length xs])"
    using assms(1)
  proof (induction xs)
    case (Cons x xs)
    obtain c where c: "strncmp ((x # xs) @ 0 # r) (ys @ 0 # q) (length ys) = Some c"
      using strncmp_defined [of "x # xs" ys r q "length ys"] Cons.prems assms(2) by auto
    have c0: "c = 0 \<longleftrightarrow> take (length ys) (x # xs) = ys"
      using strncmp_prefix [OF assms(2), of "x # xs" r q] c Cons.prems by simp
    have shift: "find P [Suc 0..<Suc n] = map_option Suc (find (\<lambda>i. P (Suc i)) [0..<n])" for P n
      unfolding map_Suc_upt [symmetric] by (simp add: find_map_Suc)
    show ?case
      using c c0 Cons by (simp add: upt_conv_Cons shift del: upt_Suc)
  qed simp
  then show ?thesis using assms(2) by (simp add: strstr_def strlen_string)
qed

section \<open>Spans\<close>

text \<open>\<open>strspn\<close> gives the whole length for every set of characters but the empty one; \<open>strcspn\<close> is one less than the
  length when no character is found, which is \<open>2 ^ 64 - 1\<close> for the empty string.\<close>

lemma strspn_string: "0 \<notin> set xs \<Longrightarrow> c \<noteq> 0 \<Longrightarrow> strspn (xs @ 0 # r) (c # cs) = Some (length xs)"
  by (induction xs) auto

lemma in_string: "0 \<notin> set cs \<Longrightarrow> in_string c (cs @ 0 # q) = Some (c \<in> set cs)"
  by (induction cs) auto

lemma strcspn_none:
  assumes "0 \<notin> set xs" and "0 \<notin> set cs" and "set xs \<inter> set cs = {}"
  shows "strcspn (xs @ 0 # r) (cs @ 0 # q) = Some (of_nat (length xs) - 1)"
proof -
  have "strcspn_from i (xs @ 0 # r) (cs @ 0 # q) = Some (i + int (length xs) - 1)" for i
    using assms(1,3) by (induction xs arbitrary: i) (auto simp: in_string assms(2))
  then show ?thesis by (simp add: strcspn_def)
qed

lemma isalpha_letters: "isalpha c \<longleftrightarrow> c \<ge> 65 \<and> c \<le> 90 \<or> c \<ge> 122"
  by (auto simp: isalpha_def)

end
