(* ===== verification/NumbersCorrect.thy ===== *)
theory NumbersCorrect
  imports CStringsCorrect
begin

text \<open>
  Numbers as text: \<open>itoa\<close> and \<open>lltoa\<close> write the digits of a number, and \<open>atoi2\<close> reads them back.
\<close>

section \<open>Digits\<close>

definition digit_char :: "nat \<Rightarrow> u8" where
  "digit_char t = (if t \<le> 9 then 0x30 + of_nat t else 0x61 + of_nat t - 10)"

text \<open>The reference: a number in a base, the first digit first.\<close>

function digit_chars :: "nat \<Rightarrow> nat \<Rightarrow> u8 list" where
  "digit_chars b n = (if n < b \<or> b < 2 then [digit_char n] else digit_chars b (n div b) @ [digit_char (n mod b)])"
  by pat_completeness auto
termination
  by (relation "measure snd") auto

declare digit_chars.simps [simp del]

lemma digit_value_char:
  assumes "t < 36"
  shows "digit_value (digit_char t) = Some t"
proof -
  have "\<forall>t\<in>set [0..<36]. digit_value (digit_char t) = Some t" by code_simp
  then show ?thesis using assms by simp
qed

lemma digit_char_other:
  assumes "t < 36"
  shows "digit_char t \<notin> {0, 0x2d, 0x24} \<and> (digit_char t = 0x30 \<longleftrightarrow> t = 0)"
proof -
  have "\<forall>t\<in>set [0..<36]. digit_char t \<notin> {0, 0x2d, 0x24} \<and> (digit_char t = 0x30 \<longleftrightarrow> t = 0)" by code_simp
  then show ?thesis using assms by simp
qed

lemma digit_chars_neq_Nil [simp]: "digit_chars b n \<noteq> []"
  by (subst digit_chars.simps) simp

lemma zero_not_digit: "2 \<le> b \<Longrightarrow> b \<le> 36 \<Longrightarrow> 0 \<notin> set (digit_chars b n)"
proof (induction b n rule: digit_chars.induct)
  case (1 b n)
  have "n mod b < 36" "n < b \<Longrightarrow> n < 36" using 1(2,3) mod_less_divisor [of b n] by linarith+
  then show ?case using 1 digit_char_other by (subst digit_chars.simps) auto
qed

lemma hd_digit_chars: "2 \<le> b \<Longrightarrow> b \<le> 36 \<Longrightarrow> \<exists>t<36. hd (digit_chars b n) = digit_char t \<and> (t = 0 \<longrightarrow> n = 0)"
proof (induction b n rule: digit_chars.induct)
  case (1 b n)
  show ?case
  proof (cases "n < b")
    case True
    then show ?thesis using 1(2,3) by (intro exI [of _ n]) (simp add: digit_chars.simps [of b n])
  next
    case False
    then have "n div b \<noteq> 0" using 1(2) by (simp add: div_eq_0_iff)
    then show ?thesis using 1 False by (auto simp: digit_chars.simps [of b n] hd_append)
  qed
qed

lemma length_digit_chars: "2 \<le> b \<Longrightarrow> n < b ^ Suc m \<Longrightarrow> length (digit_chars b n) \<le> Suc m"
proof (induction m arbitrary: n)
  case 0
  then show ?case by (simp add: digit_chars.simps [of b n])
next
  case (Suc m)
  have "n div b < b ^ Suc m" using Suc.prems by (simp add: div_less_iff_less_mult mult.commute)
  then show ?case using Suc.IH [of "n div b"] Suc.prems(1) by (subst digit_chars.simps) simp
qed

text \<open>The loop of \<open>itoa\<close> gives the digits in reverse.\<close>

lemma digits_rev:
  fixes v :: "'a::len word"
  assumes b: "2 \<le> b" "b < 2 ^ LENGTH('a)"
  shows "v \<noteq> 0 \<Longrightarrow> length (digit_chars b (unat v)) \<le> m \<Longrightarrow> digits b v m = rev (digit_chars b (unat v))"
proof (induction m arbitrary: v)
  case (Suc m)
  have ub: "unat (of_nat b :: 'a word) = b" using b(2) by (simp add: unat_of_nat take_bit_nat_eq_self)
  have dm: "unat (v mod of_nat b) = unat v mod b" "unat (v div of_nat b) = unat v div b"
    by (simp_all add: unat_mod_distrib unat_div_distrib ub)
  show ?case
  proof (cases "unat v < b")
    case True
    then have "unat (v div of_nat b) = 0" by (simp add: dm)
    then have "v div of_nat b = 0" by (simp only: unat_eq_zero)
    then have "digits b (v div of_nat b) m = []" by (cases m) simp_all
    then show ?thesis using Suc.prems True dm by (simp add: digit_chars.simps [of b "unat v"] digit_char_def Let_def)
  next
    case False
    then have "unat (v div of_nat b) \<noteq> 0" using b(1) by (simp add: dm div_eq_0_iff)
    then have nz: "v div of_nat b \<noteq> 0" by auto
    have "length (digit_chars b (unat (v div of_nat b))) \<le> m"
      using Suc.prems(2) False b(1) by (simp add: digit_chars.simps [of b "unat v"] dm)
    then show ?thesis using Suc.IH [OF nz] Suc.prems(1) False b(1) dm
      by (simp add: digit_chars.simps [of b "unat v"] digit_char_def Let_def)
  qed
qed simp

text \<open>The text of a number and how many characters are counted: two for 0, with its terminator, else the digits.\<close>

lemma number_string_text:
  fixes v :: "'a::len word"
  assumes base: "2 \<le> b" "b \<le> 36" "b < 2 ^ LENGTH('a)" and room: "length (digit_chars b (unat v)) < m" "m \<le> length out"
  shows "number_string v (int b) out m =
    Some (if v = 0 then 2 else int (length (digit_chars b (unat v))),
      digit_chars b (unat v) @ 0 # drop (Suc (length (digit_chars b (unat v)))) out)"
proof (cases "v = 0")
  case True
  have "digit_chars b 0 = [0x30]" using base(1) by (simp add: digit_chars.simps [of b 0] digit_char_def)
  then show ?thesis using True room put_front [of "[0x30, 0]" out] base(1,2) by (auto simp: number_string_def numeral_2_eq_2)
next
  case False
  let ?ds = "digit_chars b (unat v)"
  have ds: "digits b v m = rev ?ds" using digits_rev [OF base(1,3) False] room(1) by simp
  have "put (length ?ds) [0] (?ds @ drop (length ?ds) out) = Some (?ds @ 0 # drop (Suc (length ?ds)) out)"
    using put_append [of ?ds "[0]" "drop (length ?ds) out"] room by simp
  then show ?thesis
    using False base(1,2) room put_front [of ?ds out] by (simp add: number_string_def Let_def ds)
qed

section \<open>Reading\<close>

lemma power_c_of_nat: "b \<le> 36 \<Longrightarrow> power_c (of_nat b) j = of_nat b ^ j"
proof (induction j)
  case (Suc j)
  have "ucast (of_nat b :: u32) = (of_nat b :: u64)" using Suc.prems by (simp add: unsigned_of_nat take_bit_nat_eq_self)
  then show ?case using Suc by simp
qed simp

lemma add_digits_chars:
  "2 \<le> b \<Longrightarrow> b \<le> 36 \<Longrightarrow> add_digits start (int b) False (rev (digit_chars b n)) j r = (r + of_nat n * of_nat b ^ j, 0)"
proof (induction b n arbitrary: j r rule: digit_chars.induct)
  case (1 b n)
  have mod: "n mod b < b" using 1(2) by simp
  show ?case
  proof (cases "n < b")
    case True
    then show ?thesis using 1(2,3) digit_value_char [of n] power_c_of_nat [of b j] by (simp add: digit_chars.simps [of b n])
  next
    case False
    have "(of_nat n :: u64) = of_nat (b * (n div b) + n mod b)" by simp
    then have n: "(of_nat n :: u64) = of_nat b * of_nat (n div b) + of_nat (n mod b)"
      by (simp only: of_nat_add of_nat_mult)
    have rev: "rev (digit_chars b n) = digit_char (n mod b) # rev (digit_chars b (n div b))"
      using False 1(2) by (simp add: digit_chars.simps [of b n])
    have "n mod b < 36" using mod 1(3) by linarith
    then have dv: "digit_value (digit_char (n mod b)) = Some (n mod b)" by (rule digit_value_char)
    have "\<not> (n < b \<or> b < 2)" using False 1(2) by simp
    note IH = 1(1) [OF this 1(2,3)]
    have "add_digits start (int b) False (rev (digit_chars b n)) j r =
        (r + of_nat (n mod b) * of_nat b ^ j + of_nat (n div b) * of_nat b ^ (j + 1), 0)"
      unfolding rev using mod by (simp add: dv power_c_of_nat [OF 1(3)] IH Let_def del: of_nat_mod)
    then show ?thesis unfolding n by (simp add: algebra_simps)
  qed
qed

lemma number_prefix_digits:
  assumes "2 \<le> b" "b \<le> 36"
  shows "number_prefix (digit_chars b n @ 0 # r) 0 False c = Some (0, False, c)"
proof -
  obtain t where t: "t < 36" "hd (digit_chars b n) = digit_char t" "t = 0 \<longrightarrow> n = 0" using hd_digit_chars [OF assms] by blast
  then obtain cs where cs: "digit_chars b n = digit_char t # cs" by (metis digit_chars_neq_Nil list.collapse)
  show ?thesis
  proof (cases "t = 0")
    case True
    then have "cs = []" using cs t(3) assms(1) by (simp add: digit_chars.simps [of b 0])
    then show ?thesis using cs True by (simp add: digit_char_def)
  next
    case False
    then show ?thesis using cs digit_char_other [OF t(1)] by simp
  qed
qed

lemma atoi2_digits:
  assumes "2 \<le> b" "b \<le> 36"
  shows "atoi2 (digit_chars b n @ 0 # r) (int b) = Some (of_nat n, 0)"
  using assms add_digits_chars [OF assms, of 0 n 0 0]
  by (simp add: atoi2_def number_prefix_digits strlen_string zero_not_digit)

section \<open>Properties\<close>

text \<open>
  C24: A number that \<open>lltoa\<close> or \<open>itoa\<close> prints in a base from 2 to 36 into a buffer with room for it is terminated
  and reads back with \<open>atoi2\<close> as the same number, without an error.
\<close>

theorem number_text_roundtrip:
  assumes "2 \<le> b" "b \<le> 36" and "length (digit_chars b (unat v)) < m" "m \<le> length out"
    and "length (digit_chars b (unat w)) < m"
  shows "(\<exists>n text. lltoa v (int b) out m = Some (n, text) \<and> length text = length out \<and> atoi2 text (int b) = Some (v, 0)) \<and>
    (\<exists>n text. itoa w (int b) out m = Some (n, text) \<and> length text = length out \<and> atoi2 text (int b) = Some (ucast w, 0))"
proof -
  have b: "b < 2 ^ 64" "b < 2 ^ 32" using assms(2) by simp_all
  have "length (digit_chars b (unat v) @ 0 # drop (Suc (length (digit_chars b (unat v)))) out) = length out"
    "length (digit_chars b (unat w) @ 0 # drop (Suc (length (digit_chars b (unat w)))) out) = length out"
    using assms by simp_all
  then show ?thesis
    unfolding lltoa_def itoa_def
    using number_string_text [of b v m out] number_string_text [of b w m out] assms b
      atoi2_digits [OF assms(1,2), of "unat v"] atoi2_digits [OF assms(1,2), of "unat w"]
    by simp
qed

theorem number_text_roundtrip_witness:
  "\<exists>n text. itoa 0xbeef 16 (replicate 5 0) 5 = Some (n, text) \<and> length text = 5 \<and> atoi2 text 16 = Some (0xbeef, 0)"
proof -
  have "length (digit_chars 16 0xbeef) = 4" "length (digit_chars 16 0) = 1"
    by (simp_all add: digit_chars.simps)
  then show ?thesis
    using number_text_roundtrip [where b = 16 and v = 0 and w = "0xbeef" and m = 5 and out = "replicate 5 0"] by simp
qed

text \<open>A negative number of two digits is read with a sign for each digit.\<close>

lemma atoi2_negative:
  assumes "x < 10" and "y < 10"
  shows "atoi2 [0x2d, digit_char x, digit_char y, 0] 10 = Some (of_nat y - of_nat (10 * x), 0)"
proof -
  have "\<forall>x\<in>set [0..<10]. \<forall>y\<in>set [0..<10]. atoi2 [0x2d, digit_char x, digit_char y, 0] 10 = Some (of_nat y - of_nat (10 * x), 0)"
    by code_simp
  then show ?thesis using assms by simp
qed

text \<open>A bad character at the start is reported as no error.\<close>

lemma atoi2_bad_start: "digit_value c = None \<Longrightarrow> c \<notin> {0, 0x2d, 0x24} \<Longrightarrow> atoi2 [c, 0] 10 = Some (0, 0)"
  by (auto simp: atoi2_def digit_value_def split: if_splits)

end
