(* ===== verification/PrintfCorrect.thy ===== *)
theory PrintfCorrect
  imports Printf NumbersCorrect
begin

text \<open>
  Formatted output against a list of directives: what \<open>vbuildstring\<close> writes when it fits, and that it writes
  behind its buffer when a text reaches the end of it.
\<close>

section \<open>Directives\<close>

datatype directive = Lit u8 | Dec u32 | Hex u32 | Hex8 u32 | Hex2 u32 | Hex16 u64 | LongDec u64 | LongHex nat u64
  | Str "u8 list" | Chr u32

definition pad :: "nat \<Rightarrow> u8 list \<Rightarrow> u8 list" where
  "pad n xs = replicate (n - length xs) 0x30 @ xs"

primrec format_of :: "directive \<Rightarrow> u8 list" where
  "format_of (Lit c) = [c]"
| "format_of (Dec x) = [0x25, 0x64]"
| "format_of (Hex x) = [0x25, 0x78]"
| "format_of (Hex8 x) = [0x25, 0x38]"
| "format_of (Hex2 x) = [0x25, 0x32]"
| "format_of (Hex16 x) = [0x25, 0x36]"
| "format_of (LongDec x) = [0x25, 0x6c, 0x6c, 0x64]"
| "format_of (LongHex n x) = (if n = 0 then [0x25, 0x6c, 0x6c, 0x78] else [0x25, 0x2e, digit_char n, 0x6c, 0x6c, 0x78])"
| "format_of (Str s) = [0x25, 0x73]"
| "format_of (Chr c) = [0x25, 0x63]"

primrec args_of :: "directive \<Rightarrow> va_arg list" where
  "args_of (Lit c) = []"
| "args_of (Dec x) = [VA_INT x]"
| "args_of (Hex x) = [VA_INT x]"
| "args_of (Hex8 x) = [VA_INT x]"
| "args_of (Hex2 x) = [VA_INT x]"
| "args_of (Hex16 x) = [VA_LONG x]"
| "args_of (LongDec x) = [VA_LONG x]"
| "args_of (LongHex n x) = [VA_LONG x]"
| "args_of (Str s) = [VA_STRING (s @ [0])]"
| "args_of (Chr c) = [VA_INT c]"

primrec text_of :: "directive \<Rightarrow> u8 list" where
  "text_of (Lit c) = [c]"
| "text_of (Dec x) = digit_chars 10 (unat x)"
| "text_of (Hex x) = digit_chars 16 (unat x)"
| "text_of (Hex8 x) = pad 8 (digit_chars 16 (unat x))"
| "text_of (Hex2 x) = pad 2 (digit_chars 16 (unat (ucast x :: u8)))"
| "text_of (Hex16 x) = pad 16 (digit_chars 16 (unat x))"
| "text_of (LongDec x) = digit_chars 10 (unat x)"
| "text_of (LongHex n x) = pad n (digit_chars 16 (unat x))"
| "text_of (Str s) = s"
| "text_of (Chr c) = [ucast c]"

primrec directive_ok :: "directive \<Rightarrow> bool" where
  "directive_ok (Lit c) = (c \<noteq> 0 \<and> c \<noteq> 0x25)"
| "directive_ok (Dec x) = True"
| "directive_ok (Hex x) = True"
| "directive_ok (Hex8 x) = True"
| "directive_ok (Hex2 x) = True"
| "directive_ok (Hex16 x) = True"
| "directive_ok (LongDec x) = True"
| "directive_ok (LongHex n x) = (n \<le> 9 \<and> (n = 0 \<or> length (digit_chars 16 (unat x)) \<le> n))"
| "directive_ok (Str s) = (0 \<notin> set s)"
| "directive_ok (Chr c) = True"

text \<open>What the first pass makes of them.\<close>

definition entry :: "nat \<Rightarrow> nat \<Rightarrow> nat \<Rightarrow> var_entry" where
  "entry t n dc = \<lparr>var_type = t, var_size = n, digitcount = dc\<rparr>"

primrec entries_of :: "directive \<Rightarrow> var_entry list" where
  "entries_of (Lit c) = []"
| "entries_of (Dec x) = [entry 0 2 0]"
| "entries_of (Hex x) = [entry 1 2 0]"
| "entries_of (Hex8 x) = [entry 3 2 0]"
| "entries_of (Hex2 x) = [entry 6 2 0]"
| "entries_of (Hex16 x) = [entry 4 2 0]"
| "entries_of (LongDec x) = [entry 7 4 0]"
| "entries_of (LongHex n x) = [entry 8 (if n = 0 then 4 else 6) n]"
| "entries_of (Str s) = [entry 2 2 0]"
| "entries_of (Chr c) = [entry 5 2 0]"

primrec work_of :: "directive \<Rightarrow> u8 list" where
  "work_of (Lit c) = [c]"
| "work_of (Dec x) = [0, 0]"
| "work_of (Hex x) = [0, 0]"
| "work_of (Hex8 x) = [0, 0]"
| "work_of (Hex2 x) = [0, 0]"
| "work_of (Hex16 x) = [0, 0]"
| "work_of (LongDec x) = [0, 0, 0x6c, 0x64]"
| "work_of (LongHex n x) = (if n = 0 then [0, 0, 0x6c, 0x78] else [0, 0, 0, 0, 0x6c, 0x78])"
| "work_of (Str s) = [0, 0]"
| "work_of (Chr c) = [0, 0]"

section \<open>The first pass\<close>

lemma digit_char_precision:
  assumes "0 < n" "n \<le> 9"
  shows "isdigit (sint (digit_char n)) \<and> unat (digit_char n - 0x30) = n \<and> digit_char n \<noteq> 0x25"
proof -
  have "\<forall>n\<in>set [1..<10]. isdigit (sint (digit_char n)) \<and> unat (digit_char n - 0x30) = n \<and> digit_char n \<noteq> 0x25" by code_simp
  then show ?thesis using assms by auto
qed

lemma parse_directive:
  assumes "directive_ok d" and "length (entries_of d) + vlc \<le> 64"
  shows "parse_format (format_of d @ s) vlc =
    map_option (\<lambda>(w, vs). (work_of d @ w, entries_of d @ vs)) (parse_format s (vlc + length (entries_of d)))"
proof (cases d)
  case (LongHex n x)
  then show ?thesis
    using assms digit_char_precision [of n]
    by (auto simp: precision_def operator_entry_def operator_type_def long_type_def unknown_var_def entry_def
        option.map_comp comp_def split_def numeral_3_eq_3 intro!: option.map_cong0)
next
  case (LongDec x)
  then show ?thesis
    using assms
    by (auto simp: precision_def operator_entry_def operator_type_def long_type_def unknown_var_def entry_def
        option.map_comp comp_def split_def intro!: option.map_cong0)
qed (use assms in \<open>auto simp: precision_def operator_entry_def operator_type_def long_type_def unknown_var_def entry_def\<close>)

lemma parse_directives:
  "list_all directive_ok ds \<Longrightarrow> length (concat (map entries_of ds)) + vlc \<le> 64 \<Longrightarrow>
   parse_format (concat (map format_of ds)) vlc = Some (concat (map work_of ds), concat (map entries_of ds))"
proof (induction ds arbitrary: vlc)
  case (Cons d ds)
  then show ?case using Cons.IH [of "vlc + length (entries_of d)"] parse_directive [of d vlc "concat (map format_of ds)"] by simp
qed simp

section \<open>Numbers\<close>

lemma number_text_room:
  fixes v :: "'a::len word"
  assumes "2 \<le> b" "b \<le> 36" "b < 2 ^ LENGTH('a)" and "length (digit_chars b (unat v)) < 100" "length temps = 100"
  shows "\<exists>n q. number_string v (int b) temps 100 = Some (n, digit_chars b (unat v) @ 0 # q) \<and>
    length (digit_chars b (unat v)) + length q = 99"
  using number_string_text [OF assms(1-4), of temps] assms(4,5)
  by (intro exI [of _ "if v = 0 then 2 else int (length (digit_chars b (unat v)))"]
      exI [of _ "drop (Suc (length (digit_chars b (unat v)))) temps"]) simp

lemma appendzero_pad:
  assumes "0 \<notin> set xs" "length xs \<le> n" "n \<le> 16" "length xs + length q = 99"
  shows "\<exists>q'. appendzero (xs @ 0 # q) n 100 = Some (pad n xs @ 0 # q') \<and> length (pad n xs) + length q' = 99"
proof -
  have "n < 100" "100 \<le> length xs + 1 + length q" using assms(3,4) by simp_all
  then obtain q' where "appendzero (xs @ 0 # q) n 100 = Some (replicate (n - length xs) 0x30 @ xs @ 0 # q')"
    "length q' = length xs + length q - n"
    using appendzero_string [OF assms(1,2), of 100 q] by auto
  then show ?thesis using assms by (intro exI [of _ q']) (simp add: pad_def)
qed

lemma word_digits:
  "length (digit_chars 10 (unat (x :: u32))) \<le> 10" "length (digit_chars 16 (unat x)) \<le> 8"
  "length (digit_chars 16 (unat (ucast x :: u8))) \<le> 2"
  "length (digit_chars 10 (unat (y :: u64))) \<le> 20" "length (digit_chars 16 (unat y)) \<le> 16"
proof -
  have x: "unat x < 2 ^ 32" "unat (ucast x :: u8) < 2 ^ 8" "unat y < 2 ^ 64"
    using unsigned_less [of x, where 'a = nat] unsigned_less [of "ucast x :: u8", where 'a = nat]
      unsigned_less [of y, where 'a = nat] by simp_all
  show "length (digit_chars 10 (unat x)) \<le> 10" using length_digit_chars [of 10 "unat x" 9] x(1) by simp
  show "length (digit_chars 16 (unat x)) \<le> 8" using length_digit_chars [of 16 "unat x" 7] x(1) by simp
  show "length (digit_chars 16 (unat (ucast x :: u8))) \<le> 2" using length_digit_chars [of 16 "unat (ucast x :: u8)" 1] x(2) by simp
  show "length (digit_chars 10 (unat y)) \<le> 20" using length_digit_chars [of 10 "unat y" 19] x(3) by simp
  show "length (digit_chars 16 (unat y)) \<le> 16" using length_digit_chars [of 16 "unat y" 15] x(3) by simp
qed

text \<open>The directives that go through the buffer of numbers.\<close>

primrec is_number :: "directive \<Rightarrow> bool" where
  "is_number (Lit c) = False"
| "is_number (Dec x) = True"
| "is_number (Hex x) = True"
| "is_number (Hex8 x) = True"
| "is_number (Hex2 x) = True"
| "is_number (Hex16 x) = True"
| "is_number (LongDec x) = True"
| "is_number (LongHex n x) = True"
| "is_number (Str s) = False"
| "is_number (Chr c) = False"

lemma zero_not_pad: "0 \<notin> set xs \<Longrightarrow> 0 \<notin> set (pad n xs)"
  by (auto simp: pad_def)

lemma plain_text:
  fixes x :: "'a::len word"
  assumes "b = 10 \<or> b = 16" "length (digit_chars b (unat x)) \<le> 20" "b < 2 ^ LENGTH('a)" "length temps = 100"
  shows "\<exists>n q. number_string x (int b) temps 100 = Some (n, digit_chars b (unat x) @ 0 # q) \<and>
      length (digit_chars b (unat x)) + length q = 99 \<and> 0 \<notin> set (digit_chars b (unat x))"
  using number_text_room [of b x temps] assms zero_not_digit [of b] by auto

lemma padded_text:
  fixes x :: "'a::len word"
  assumes "length (digit_chars 16 (unat x)) \<le> k" "k \<le> 16" "(16 :: nat) < 2 ^ LENGTH('a)" "length temps = 100"
  shows "\<exists>n q q'. number_string x (int 16) temps 100 = Some (n, digit_chars 16 (unat x) @ 0 # q) \<and>
      appendzero (digit_chars 16 (unat x) @ 0 # q) k 100 = Some (pad k (digit_chars 16 (unat x)) @ 0 # q') \<and>
      length (pad k (digit_chars 16 (unat x))) + length q' = 99 \<and> 0 \<notin> set (pad k (digit_chars 16 (unat x)))"
proof -
  have "length (digit_chars 16 (unat x)) \<le> 20" using assms(1,2) by linarith
  then obtain n q where q: "number_string x (int 16) temps 100 = Some (n, digit_chars 16 (unat x) @ 0 # q)"
    "length (digit_chars 16 (unat x)) + length q = 99" "0 \<notin> set (digit_chars 16 (unat x))"
    using plain_text [of 16 x temps] assms(3,4) by blast
  then show ?thesis using appendzero_pad [of "digit_chars 16 (unat x)" k q] assms(1,2) zero_not_pad by blast
qed

lemma number_text_directive:
  assumes ok: "directive_ok d" "is_number d" and temps: "length temps = 100"
    and d: "entries_of d = [v]" "args_of d = [a]"
  shows "\<exists>q. number_text v a temps = Some (text_of d @ 0 # q) \<and> length (text_of d) + length q = 99 \<and> 0 \<notin> set (text_of d)"
proof -
  note plain = plain_text [OF _ _ _ temps] and padded = padded_text [OF _ _ _ temps]
  show ?thesis
  proof (cases d)
    case (Dec x)
    then show ?thesis using plain [of 10 x] d word_digits(1) [of x] by (auto simp: number_text_def entry_def itoa_def)
  next
    case (Hex x)
    then show ?thesis using plain [of 16 x] d word_digits(2) [of x] by (auto simp: number_text_def entry_def itoa_def)
  next
    case (Hex8 x)
    then show ?thesis using padded [of x 8] d word_digits(2) [of x] by (auto simp: number_text_def entry_def itoa_def)
  next
    case (Hex2 x)
    have "unat (ucast (ucast x :: u8) :: u32) = unat (ucast x :: u8)" by (simp add: unsigned_ucast_eq unsigned_take_bit_eq)
    then show ?thesis using Hex2 padded [of "ucast (ucast x :: u8) :: u32" 2] d word_digits(3) [of x]
      by (auto simp: number_text_def entry_def itoa_def)
  next
    case (Hex16 x)
    then show ?thesis using padded [of x 16] d word_digits(5) [of x] by (auto simp: number_text_def entry_def lltoa_def)
  next
    case (LongDec x)
    then show ?thesis using plain [of 10 x] d word_digits(4) [of x] by (auto simp: number_text_def entry_def lltoa_def)
  next
    case (LongHex n x)
    then show ?thesis using padded [of x n] plain [of 16 x] ok d word_digits(5) [of x]
      by (cases "n = 0") (auto simp: number_text_def entry_def lltoa_def pad_def)
  qed (use ok in simp_all)
qed

section \<open>The second pass\<close>

lemma print_number:
  assumes "directive_ok d" "is_number d" "length temps = 100" "entries_of d = [v]" "args_of d = [a]"
    and "length (text_of d) \<le> length r" "int (length pre + length (text_of d)) < sz"
  shows "\<exists>temps'. length temps' = 100 \<and>
    print_var sz v a (pre @ r, length pre, temps) =
      Some ((pre @ text_of d) @ drop (length (text_of d)) r, length pre + length (text_of d), temps')"
proof -
  obtain q where q: "number_text v a temps = Some (text_of d @ 0 # q)" "length (text_of d) + length q = 99" "0 \<notin> set (text_of d)"
    using number_text_directive [OF assms(1-5)] by blast
  have v: "var_type v \<noteq> 2" "var_type v \<noteq> 5" using assms(2,4) by (cases d; auto simp: entry_def)+
  have "print_var sz v a (pre @ r, length pre, temps) =
      Some ((pre @ text_of d) @ drop (length (text_of d)) r, length pre + length (text_of d), text_of d @ 0 # q)"
    using v q assms(6,7) by (simp add: print_var_def strlen_string copy_text_def put_append del: of_nat_add)
  then show ?thesis using q(2) by auto
qed

lemma work_of_entry:
  assumes "entries_of d = [v]"
  shows "\<exists>z. work_of d = 0 # z \<and> length (work_of d) = var_size v \<and> var_type v \<noteq> 255"
  using assms by (cases d) (auto simp: entry_def)

lemma print_directive:
  assumes "directive_ok d" "length temps = 100"
    and "length (text_of d) \<le> length r" "int (length pre + length (text_of d)) < sz"
  shows "\<exists>temps'. length temps' = 100 \<and>
    print_format sz (work_of d @ w) (entries_of d @ vs) (args_of d @ as) (pre @ r, length pre, temps) =
      print_format sz w vs as ((pre @ text_of d) @ drop (length (text_of d)) r, length (pre @ text_of d), temps')"
proof (cases "\<exists>c. d = Lit c")
  case True
  then show ?thesis using assms by (intro exI [of _ temps]) (auto simp: put_append)
next
  case False
  then obtain v a where v: "entries_of d = [v]" "args_of d = [a]" by (cases d) auto
  obtain z where z: "work_of d = 0 # z" "length (work_of d) = var_size v" "var_type v \<noteq> 255" using work_of_entry [OF v(1)] by blast
  have "\<exists>temps'. length temps' = 100 \<and> print_var sz v a (pre @ r, length pre, temps) =
      Some ((pre @ text_of d) @ drop (length (text_of d)) r, length pre + length (text_of d), temps')"
  proof (cases "is_number d")
    case True
    then show ?thesis using print_number assms v by blast
  next
    case other: False
    then consider s where "d = Str s" | c where "d = Chr c" using False by (cases d) auto
    then show ?thesis
    proof cases
      case (1 s)
      then show ?thesis using v assms
        by (intro exI [of _ temps]) (auto simp: print_var_def entry_def strlen_string copy_text_def put_append)
    next
      case (2 c)
      then show ?thesis using v assms
        by (intro exI [of _ temps]) (auto simp: print_var_def entry_def put_append)
    qed
  qed
  then obtain temps' where t: "length temps' = 100" "print_var sz v a (pre @ r, length pre, temps) =
      Some ((pre @ text_of d) @ drop (length (text_of d)) r, length pre + length (text_of d), temps')" by blast
  have sz: "\<not> sz \<le> int (length pre)" using assms(4) by simp
  have "drop (var_size v) (0 # z @ w) = w" using z(1,2) by (metis append_Cons append_eq_conv_conj)
  then show ?thesis using t z sz by (intro exI [of _ temps']) (simp add: v)
qed

lemma print_directives:
  "list_all directive_ok ds \<Longrightarrow> length temps = 100 \<Longrightarrow> length (concat (map text_of ds)) \<le> length r \<Longrightarrow>
   int (length pre + length (concat (map text_of ds))) < sz \<Longrightarrow>
   \<exists>temps'. length temps' = 100 \<and>
     print_format sz (concat (map work_of ds) @ w) (concat (map entries_of ds) @ vs) (concat (map args_of ds) @ as) (pre @ r, length pre, temps) =
     print_format sz w vs as ((pre @ concat (map text_of ds)) @ drop (length (concat (map text_of ds))) r,
       length (pre @ concat (map text_of ds)), temps')"
proof (induction ds arbitrary: pre r temps)
  case (Cons d ds)
  obtain temps1 where 1: "length temps1 = 100"
    "print_format sz (work_of d @ concat (map work_of ds) @ w) (entries_of d @ concat (map entries_of ds) @ vs)
        (args_of d @ concat (map args_of ds) @ as) (pre @ r, length pre, temps) =
      print_format sz (concat (map work_of ds) @ w) (concat (map entries_of ds) @ vs) (concat (map args_of ds) @ as)
        ((pre @ text_of d) @ drop (length (text_of d)) r, length (pre @ text_of d), temps1)"
    using print_directive [of d temps r pre sz "concat (map work_of ds) @ w" "concat (map entries_of ds) @ vs" "concat (map args_of ds) @ as"]
      Cons.prems by auto
  show ?case
    using Cons.IH [of temps1 "drop (length (text_of d)) r" "pre @ text_of d"] Cons.prems 1 by (simp add: add.assoc add.commute)
qed auto

section \<open>Properties\<close>

lemma zero_not_format: "directive_ok d \<Longrightarrow> 0 \<notin> set (format_of d)"
  using digit_char_other by (cases d) auto

lemma zero_not_formats: "list_all directive_ok ds \<Longrightarrow> 0 \<notin> set (concat (map format_of ds))"
  using zero_not_format by (auto simp: list_all_iff)

lemma length_entries: "length (concat (map entries_of ds)) = length (concat (map args_of ds))"
proof -
  have "length (entries_of d) = length (args_of d)" for d by (cases d) simp_all
  then show ?thesis by (induction ds) simp_all
qed

text \<open>A text that goes beyond the end of the buffer, and what is written then.\<close>

lemma copy_text_beyond:
  assumes "k < sz" and "m < sz" and "sz < k + m" and "length xs = k" and "length t = m"
  shows "length str < 2 * sz - m \<Longrightarrow> sz \<le> length str \<Longrightarrow> copy_text (int sz) True m (t @ q) k (xs @ drop k str) = None"
    and "2 * sz - m \<le> length str \<Longrightarrow> 2 * sz \<le> k + 2 * m \<Longrightarrow> copy_text (int sz) True m (t @ q) k (xs @ drop k str) =
      Some (xs @ take (2 * sz - k - m) t @ drop (2 * sz - m) str, 2 * sz - m)"
proof -
  define i where "i = 2 * sz - k - m"
  have i: "int sz - (int k + int m - int sz) = int i" "k + i = 2 * sz - m" using assms(1,2) by (simp_all add: i_def)
  have copy: "copy_text (int sz) True m (t @ q) k (xs @ drop k str) =
      (if i > length (t @ q) then None
       else map_option (\<lambda>str. (str, k + i)) (put k (take i (t @ q)) (xs @ drop k str)))"
    using i(1) by (simp add: copy_text_def)
  show "copy_text (int sz) True m (t @ q) k (xs @ drop k str) = None" if "length str < 2 * sz - m" "sz \<le> length str"
  proof (cases "i > length (t @ q)")
    case False
    then have "length (take i (t @ q)) = i" by simp
    then have "put k (take i (t @ q)) (xs @ drop k str) = None" using that assms(1,4) i(2) unfolding put_def by simp
    then show ?thesis unfolding copy by simp
  qed (simp add: copy)
  show "copy_text (int sz) True m (t @ q) k (xs @ drop k str) =
      Some (xs @ take (2 * sz - k - m) t @ drop (2 * sz - m) str, 2 * sz - m)"
    if "2 * sz - m \<le> length str" "2 * sz \<le> k + 2 * m"
  proof -
    have "i \<le> m" using that(2) by (simp add: i_def)
    then have "copy_text (int sz) True m (t @ q) k (xs @ drop k str) = map_option (\<lambda>str. (str, k + i)) (put (length xs) (take i t) (xs @ drop k str))"
      using assms(4,5) unfolding copy by simp
    also have "\<dots> = Some (xs @ take i t @ drop (k + i) str, k + i)"
      using that(1) i(2) assms(5) \<open>i \<le> m\<close> by (simp add: put_append add.commute)
    finally show ?thesis using i by (simp add: i_def)
  qed
qed

lemma print_var_beyond:
  assumes ok: "directive_ok d" and d: "is_number d \<or> (\<exists>s. d = Str s)" and temps: "length temps = 100"
    and v: "entries_of d = [v]" "args_of d = [a]" and long: "sz < k + length (text_of d)"
  shows "\<exists>q temps'. print_var (int sz) v a (str, k, temps) =
    map_option (\<lambda>(str, strpos). (str, strpos, temps')) (copy_text (int sz) True (length (text_of d)) (text_of d @ 0 # q) k str)"
proof (cases "is_number d")
  case True
  obtain q where q: "number_text v a temps = Some (text_of d @ 0 # q)" "0 \<notin> set (text_of d)"
    using number_text_directive [OF ok True temps v] by blast
  have ty: "var_type v \<noteq> 2" "var_type v \<noteq> 5" using True v(1) by (cases d; auto simp: entry_def)+
  have "int sz \<le> int (k + length (text_of d))" using long by simp
  then show ?thesis using ty q
    by (intro exI [of _ q] exI [of _ "text_of d @ 0 # q"])
      (auto simp: print_var_def strlen_string map_option_case simp del: of_nat_add split: option.splits)
next
  case False
  then obtain s where s: "d = Str s" using d by blast
  have "int sz < int (k + length (text_of d))" using long by simp
  then show ?thesis using s v ok
    by (intro exI [of _ "[]"] exI [of _ temps])
      (auto simp: print_var_def entry_def strlen_string map_option_case simp del: of_nat_add split: option.splits)
qed

lemma print_format_beyond: "sz \<le> int p \<Longrightarrow> print_format sz w vs as (str, p, temps) = end_string sz (str, p)"
  by (cases w) simp_all

text \<open>The first pass and the directives in front of the one that is looked at.\<close>

lemma vbuildstring_directives:
  assumes "list_all directive_ok (ds @ es)" and "length (concat (map args_of (ds @ es))) \<le> 64" and "length temps = 100"
    and "int (length (concat (map text_of ds))) < sz" and "sz \<le> int (length str)"
  shows "\<exists>temps'. length temps' = 100 \<and>
    vbuildstring temps str sz (concat (map format_of (ds @ es)) @ 0 # junk) (concat (map args_of (ds @ es))) =
      print_format sz (concat (map work_of es)) (concat (map entries_of es)) (concat (map args_of es))
        (concat (map text_of ds) @ drop (length (concat (map text_of ds))) str, length (concat (map text_of ds)), temps')"
proof -
  have l: "strlen (concat (map format_of (ds @ es)) @ 0 # junk) = Some (length (concat (map format_of (ds @ es))))"
    by (rule strlen_string [OF zero_not_formats [OF assms(1)]])
  have parse: "parse_format (concat (map format_of (ds @ es))) 0 = Some (concat (map work_of (ds @ es)), concat (map entries_of (ds @ es)))"
    using parse_directives [OF assms(1), of 0] length_entries [of "ds @ es"] assms(2) by simp
  have "vbuildstring temps str sz (concat (map format_of (ds @ es)) @ 0 # junk) (concat (map args_of (ds @ es))) =
      print_format sz (concat (map work_of (ds @ es))) (concat (map entries_of (ds @ es))) (concat (map args_of (ds @ es))) (str, 0, temps)"
    using assms(4) unfolding vbuildstring_def l by (simp add: parse [simplified])
  then show ?thesis
    using print_directives [of ds temps str "[]" sz "concat (map work_of es)" "concat (map entries_of es)" "concat (map args_of es)"]
      assms by simp
qed

text \<open>
  C25: When the whole text with its terminator fits, \<open>vbuildstring\<close> writes the texts of the directives one
  after the other, terminates them, writes nothing else, and returns their length; up to 64 directives with
  arguments are possible.
\<close>

theorem vbuildstring_text:
  assumes "list_all directive_ok ds" and "length (concat (map args_of ds)) \<le> 64" and "length temps = 100"
    and "result = concat (map text_of ds)" and "int (length result) < sz" and "sz \<le> int (length str)"
  shows "vbuildstring temps str sz (concat (map format_of ds) @ 0 # junk) (concat (map args_of ds)) =
    Some (int (length result), result @ 0 # drop (Suc (length result)) str)"
proof -
  obtain temps' where run: "vbuildstring temps str sz (concat (map format_of ds) @ 0 # junk) (concat (map args_of ds)) =
      print_format sz [] [] [] (result @ drop (length result) str, length result, temps')"
    using vbuildstring_directives [of ds "[]" temps sz str junk] assms by auto
  have "put (length result) [0] (result @ drop (length result) str) = Some (result @ 0 # drop (Suc (length result)) str)"
    using put_append [of result "[0]" "drop (length result) str"] assms(5,6) by simp
  then show ?thesis
    using assms(5) run by (simp add: end_string_def)
qed

text \<open>
  C26: When the text of a number or a string directive, itself shorter than the buffer, goes beyond its end, \<open>vbuildstring\<close> does
  not cut it: after \<open>k\<close> characters a text of \<open>m\<close> is written up to position \<open>2 * sz - m\<close>, which is behind \<open>sz\<close>. That
  is a fault when the memory ends before, and else, with a text of that many characters, overwrites what follows the buffer, and
  the terminator goes to the last place of the buffer. (Literal text
  and single characters are cut.)
\<close>

theorem vbuildstring_overflow:
  assumes "list_all directive_ok (ds @ d # es)" and "length (concat (map args_of (ds @ d # es))) \<le> 64" and "length temps = 100"
    and "is_number d \<or> (\<exists>s. d = Str s)"
    and "k = length (concat (map text_of ds))" and "m = length (text_of d)"
    and "k < sz" and "m < sz" and "sz < k + m" and "sz \<le> length str"
    and "result = vbuildstring temps str (int sz) (concat (map format_of (ds @ d # es)) @ 0 # junk) (concat (map args_of (ds @ d # es)))"
  shows "(length str < 2 * sz - m \<longrightarrow> result = None) \<and>
    (2 * sz - m \<le> length str \<and> 2 * sz \<le> k + 2 * m \<longrightarrow>
      result = Some (int sz - 1, (concat (map text_of ds) @ take (2 * sz - k - m) (text_of d) @ drop (2 * sz - m) str)[sz - 1 := 0]))"
proof -
  obtain temps' where t: "length temps' = 100"
    and run: "result = print_format (int sz) (work_of d @ concat (map work_of es)) (entries_of d @ concat (map entries_of es))
        (args_of d @ concat (map args_of es)) (concat (map text_of ds) @ drop k str, k, temps')"
    using vbuildstring_directives [OF assms(1-3), of "int sz" str junk] assms(5,7,10,11) by auto
  obtain v a where v: "entries_of d = [v]" "args_of d = [a]" using assms(4) by (cases d) auto
  obtain z where z: "work_of d = 0 # z" "var_type v \<noteq> 255" using work_of_entry [OF v(1)] by blast
  obtain q temps'' where var: "print_var (int sz) v a (concat (map text_of ds) @ drop k str, k, temps') =
      map_option (\<lambda>(str, strpos). (str, strpos, temps'')) (copy_text (int sz) True m (text_of d @ 0 # q) k (concat (map text_of ds) @ drop k str))"
    using print_var_beyond [OF _ assms(4) t v, of sz k "concat (map text_of ds) @ drop k str"] assms(1,6,9) by auto
  note copy = copy_text_beyond [OF assms(7-9), of "concat (map text_of ds)" "text_of d" str "0 # q", OF assms(5) [symmetric] assms(6) [symmetric]]
  show ?thesis
  proof (intro conjI impI)
    assume "length str < 2 * sz - m"
    then show "result = None" using run z v var copy(1) assms(7,10) by simp
  next
    assume room: "2 * sz - m \<le> length str \<and> 2 * sz \<le> k + 2 * m"
    let ?out = "concat (map text_of ds) @ take (2 * sz - k - m) (text_of d) @ drop (2 * sz - m) str"
    have "result = print_format (int sz) (drop (var_size v) (0 # z @ concat (map work_of es))) (concat (map entries_of es))
        (concat (map args_of es)) (?out, 2 * sz - m, temps'')"
      using run z v var copy(2) room assms(7,10) by simp
    also have "\<dots> = end_string (int sz) (?out, 2 * sz - m)"
      using assms(8) by (intro print_format_beyond) simp
    also have "\<dots> = Some (int sz - 1, ?out[sz - 1 := 0])"
    proof -
      have "length ?out = k + min m (2 * sz - k - m) + (length str - (2 * sz - m))" using assms(5,6) by simp
      also have "\<dots> = length str" using room assms(7-9) by arith
      finally have "length ?out = length str" .
      then have "sz - 1 < length ?out" using assms(7,10) by linarith
      then have "put (sz - 1) [0] ?out = Some (?out[sz - 1 := 0])" by (simp add: put_def upd_conv_take_nth_drop)
      moreover have "int sz \<le> int (2 * sz - m)" "nat (int sz - 1) = sz - 1" using assms(8) by simp_all
      ultimately show ?thesis using assms(7) by (simp add: end_string_def)
    qed
    finally show "result = Some (int sz - 1, ?out[sz - 1 := 0])" .
  qed
qed

text \<open>Two characters and a number of three, in a buffer of four.\<close>

definition example_directives :: "directive list" where
  "example_directives = [Lit 0x78, Lit 0x3d, Dec 123]"

lemma example_formats:
  "concat (map text_of example_directives) = [0x78, 0x3d, 0x31, 0x32, 0x33]"
  "concat (map format_of example_directives) = [0x78, 0x3d, 0x25, 0x64]" "concat (map args_of example_directives) = [VA_INT 123]"
  by (simp_all add: example_directives_def digit_chars.simps digit_char_def)

theorem vbuildstring_text_witness:
  "vbuildstring (replicate 100 0) (replicate 6 0x2a) 6 [0x78, 0x3d, 0x25, 0x64, 0] [VA_INT 123] =
     Some (5, [0x78, 0x3d, 0x31, 0x32, 0x33, 0])"
  using vbuildstring_text [of example_directives "replicate 100 0" _ 6 "replicate 6 0x2a" "[]"]
  by (simp add: example_formats) (simp add: example_directives_def)

theorem vbuildstring_overflow_witness:
  "vbuildstring (replicate 100 0) (replicate 4 0x2a) 4 [0x78, 0x3d, 0x25, 0x64, 0] [VA_INT 123] = None \<and>
   vbuildstring (replicate 100 0) (replicate 6 0x2a) 4 [0x78, 0x3d, 0x25, 0x64, 0] [VA_INT 123] =
     Some (3, [0x78, 0x3d, 0x31, 0, 0x33, 0x2a])"
proof -
  have chars: "text_of (Dec 123) = [0x31, 0x32, 0x33]" by (simp add: digit_chars.simps digit_char_def)
  have ok: "list_all directive_ok ([Lit 0x78, Lit 0x3d] @ Dec 123 # [])" by simp
  have upd: "([a, b, c, d, e, f] :: u8 list)[3 := y] = [a, b, c, y, e, f]" for a b c d e f y by (simp add: numeral_3_eq_3)
  note overflow = vbuildstring_overflow [OF ok, where temps = "replicate 100 0" and k = 2 and m = 3 and sz = 4 and junk = "[]", OF _ _ _ _ _ _ _ _ _ refl]
  show ?thesis
    using overflow [of "replicate 4 0x2a"] overflow [of "replicate 6 0x2a"] chars upd by simp
qed

end
