(* ===== verification/Descriptors.thy ===== *)
theory Descriptors
  imports Prelude
begin

text \<open>
  Segment descriptors and two small functions of \<open>common.c\<close>: descriptors built for 16-bit and 32-bit code,
  counting bits without the instruction for it, and a checksum.
\<close>

section \<open>Descriptors\<close>

record gdt_entry =
  Limit0_15 :: u16
  Base0_23 :: "24 word"
  Type :: "4 word"
  NotSystem :: bool
  DPL :: "2 word"
  P :: bool
  Limit16_19 :: "4 word"
  AVL :: bool
  L :: bool
  B_D :: bool
  G :: bool
  Base24_31 :: u8

definition setGDTENTRYBase :: "gdt_entry \<Rightarrow> u32 \<Rightarrow> gdt_entry" where
  "setGDTENTRYBase e base = e\<lparr>Base0_23 := ucast base, Base24_31 := ucast (drop_bit 24 base)\<rparr>"

definition getGDTENTRYBase :: "gdt_entry \<Rightarrow> u32" where
  "getGDTENTRYBase e = push_bit 24 (ucast (Base24_31 e)) OR ucast (Base0_23 e)"

definition setGDTENTRYLimit :: "gdt_entry \<Rightarrow> u32 \<Rightarrow> gdt_entry" where
  "setGDTENTRYLimit e limit =
     (let (e, limit) = (if limit \<ge> 0x100000 then (e\<lparr>G := True\<rparr>, limit div 4096) else (e\<lparr>G := False\<rparr>, limit))
      in e\<lparr>Limit0_15 := ucast limit, Limit16_19 := ucast (drop_bit 16 limit)\<rparr>)"

text \<open>The descriptors are built in an uninitialised variable, the first argument.\<close>

definition Build16BitDataSegmentDescriptor :: "gdt_entry \<Rightarrow> u32 \<Rightarrow> u32 \<Rightarrow> gdt_entry" where
  "Build16BitDataSegmentDescriptor result baseaddress n =
     (let result = setGDTENTRYLimit (setGDTENTRYBase result baseaddress) (n - 1)
      in result\<lparr>Type := 2, NotSystem := True, DPL := 0, P := True, AVL := False, L := False, B_D := False\<rparr>)"

definition Build16BitCodeSegmentDescriptor :: "gdt_entry \<Rightarrow> u32 \<Rightarrow> u32 \<Rightarrow> gdt_entry" where
  "Build16BitCodeSegmentDescriptor result baseaddress n =
     (Build16BitDataSegmentDescriptor result baseaddress n)\<lparr>Type := 0xa\<rparr>"

definition Build32BitDataSegmentDescriptor :: "gdt_entry \<Rightarrow> u32 \<Rightarrow> u32 \<Rightarrow> gdt_entry" where
  "Build32BitDataSegmentDescriptor result baseaddress n =
     (let result = setGDTENTRYLimit (setGDTENTRYBase result baseaddress) (n - 1)
      in result\<lparr>Type := 2, NotSystem := True, DPL := 0, P := True, AVL := False, L := False, B_D := True\<rparr>)"

definition Build32BitCodeSegmentDescriptor :: "gdt_entry \<Rightarrow> u32 \<Rightarrow> u32 \<Rightarrow> gdt_entry" where
  "Build32BitCodeSegmentDescriptor result baseaddress n =
     (Build32BitDataSegmentDescriptor result baseaddress n)\<lparr>Type := 0xa\<rparr>"

text \<open>The limit the processor makes of a descriptor.\<close>

definition effective_limit :: "gdt_entry \<Rightarrow> u32" where
  "effective_limit e =
     (let limit = push_bit 16 (ucast (Limit16_19 e)) OR ucast (Limit0_15 e)
      in if G e then push_bit 12 limit OR 0xfff else limit)"

section \<open>Bits and bytes\<close>

fun popcnt_loop :: "nat \<Rightarrow> u64 \<Rightarrow> nat \<Rightarrow> nat" where
  "popcnt_loop 0 val result = result"
| "popcnt_loop (Suc n) val result =
     (let result = (if val AND 1 = 1 then result + 1 else result); val = drop_bit 1 val
      in if val = 0 then result else popcnt_loop n val result)"

definition popcnt_nosupport :: "u64 \<Rightarrow> nat" where
  "popcnt_nosupport val = popcnt_loop 64 val 0"

primrec generateCRC_from :: "u32 \<Rightarrow> u8 list \<Rightarrow> u32" where
  "generateCRC_from cval [] = cval"
| "generateCRC_from cval (b # bs) = generateCRC_from (ucast b + cval) bs"

definition generateCRC :: "u8 list \<Rightarrow> u32" where
  "generateCRC bs = generateCRC_from 0 bs"

section \<open>Lemmas\<close>

text \<open>The base is kept in two parts.\<close>

lemma get_set_base: "getGDTENTRYBase (setGDTENTRYBase e base) = base"
  by (rule bit_word_eqI) (auto simp: getGDTENTRYBase_def setGDTENTRYBase_def bit_or_iff bit_push_bit_iff bit_ucast_iff bit_drop_bit_eq not_le)

lemma halves:
  "(x :: u32) < 0x100000 \<Longrightarrow> push_bit 16 (ucast (ucast (drop_bit 16 x) :: 4 word)) OR ucast (ucast x :: u16) = x"
proof (rule bit_word_eqI)
  fix n assume x: "x < 0x100000" and n: "n < LENGTH(32)"
  have "unat (take_bit 20 x) = unat x" using x by (simp add: unsigned_take_bit_eq take_bit_nat_eq_self word_less_nat_alt)
  then have "take_bit 20 x = x" by (simp only: word_unat_eq_iff)
  then have "bit x n \<longrightarrow> n < 20" by (metis bit_take_bit_iff)
  then show "bit (push_bit 16 (ucast (ucast (drop_bit 16 x) :: 4 word)) OR ucast (ucast x :: u16) :: u32) n = bit x n"
    by (auto simp: bit_or_iff bit_push_bit_iff bit_ucast_iff bit_drop_bit_eq not_le)
qed

text \<open>A limit of less than 1 MB is exact, a larger one rounded up to the end of its page.\<close>

lemma effective_limit_set:
  "effective_limit (setGDTENTRYLimit e limit) = (if limit < 0x100000 then limit else limit OR 0xfff)"
proof (cases "limit < 0x100000")
  case True
  then have "\<not> 0x100000 \<le> limit" by simp
  then show ?thesis using True halves [of limit] by (simp add: effective_limit_def setGDTENTRYLimit_def Let_def)
next
  case False
  define l where "l = limit div 4096"
  have l: "l = drop_bit 12 limit" by (simp add: l_def drop_bit_eq_div)
  have less: "l < 0x100000" unfolding l_def
    by (simp add: word_less_nat_alt unat_div_distrib div_less_iff_less_mult unsigned_less [where 'b = 32, simplified])
  have low: "push_bit 12 (drop_bit 12 limit) OR 0xfff = limit OR 0xfff"
  proof -
    have m: "(0xfff :: u32) = mask 12" by (simp add: mask_eq_exp_minus_1)
    show ?thesis unfolding m by (rule bit_word_eqI) (auto simp: bit_or_iff bit_push_bit_iff bit_drop_bit_eq bit_mask_iff)
  qed
  have eff: "effective_limit (setGDTENTRYLimit e limit) =
      push_bit 12 (push_bit 16 (ucast (ucast (drop_bit 16 l) :: 4 word)) OR ucast (ucast l :: u16)) OR 0xfff"
    using False by (simp only: effective_limit_def setGDTENTRYLimit_def Let_def l_def [symmetric] not_less if_True prod.case) simp
  have "effective_limit (setGDTENTRYLimit e limit) = limit OR 0xfff"
    unfolding eff halves [OF less] unfolding l by (rule low)
  then show ?thesis using False by simp
qed

text \<open>Every field is written, so the uninitialised variable does not matter.\<close>

lemma descriptor_initialised:
  "Build16BitDataSegmentDescriptor e b n = Build16BitDataSegmentDescriptor e' b n"
  "Build32BitDataSegmentDescriptor e b n = Build32BitDataSegmentDescriptor e' b n"
  by (cases e; cases e'; simp add: Build16BitDataSegmentDescriptor_def Build32BitDataSegmentDescriptor_def
      setGDTENTRYLimit_def setGDTENTRYBase_def Let_def)+

lemma descriptor_bounds:
  "getGDTENTRYBase (Build32BitCodeSegmentDescriptor e b n) = b"
  "n \<noteq> 0 \<Longrightarrow> n \<le> 0x100000 \<Longrightarrow> effective_limit (Build32BitCodeSegmentDescriptor e b n) = n - 1"
proof -
  have base: "getGDTENTRYBase (setGDTENTRYLimit e l) = getGDTENTRYBase e" for e l
    by (simp add: getGDTENTRYBase_def setGDTENTRYLimit_def Let_def)
  show "getGDTENTRYBase (Build32BitCodeSegmentDescriptor e b n) = b"
    using base [of "setGDTENTRYBase e b" "n - 1"] get_set_base [of e b]
    by (simp add: Build32BitCodeSegmentDescriptor_def Build32BitDataSegmentDescriptor_def getGDTENTRYBase_def Let_def)
  assume n: "n \<noteq> 0" "n \<le> 0x100000"
  then have "n - 1 < 0x100000" by (metis less_le_trans measure_unat word_less_nat_alt)
  then show "effective_limit (Build32BitCodeSegmentDescriptor e b n) = n - 1"
    using effective_limit_set [of "setGDTENTRYBase e b" "n - 1"]
    by (simp add: Build32BitCodeSegmentDescriptor_def Build32BitDataSegmentDescriptor_def effective_limit_def Let_def)
qed

lemma bits_split: "card {i. i < Suc n \<and> bit (v :: u64) i} = (if bit v 0 then 1 else 0) + card {i. i < n \<and> bit (drop_bit 1 v) i}"
proof -
  have "{i. i < Suc n \<and> bit v i} = (if bit v 0 then {0} else {}) \<union> Suc ` {i. i < n \<and> bit (drop_bit 1 v) i}" (is "_ = ?A \<union> ?B")
  proof (intro equalityI subsetI)
    fix i assume "i \<in> {i. i < Suc n \<and> bit v i}"
    then show "i \<in> ?A \<union> ?B" by (cases i) (auto simp: bit_drop_bit_eq)
  qed (auto simp: bit_drop_bit_eq split: if_splits)
  moreover have "card (?A \<union> ?B) = card ?A + card ?B" by (rule card_Un_disjoint) auto
  ultimately show ?thesis by (simp add: card_image)
qed

lemma popcnt_nosupport_card: "popcnt_nosupport v = card {i. bit v i}"
proof -
  have "popcnt_loop n v r = r + card {i. i < n \<and> bit v i}" for n r
  proof (induction n arbitrary: v r)
    case (Suc n)
    have "(v AND 1 = 1) = bit v 0" by (simp add: and_one_eq bit_0 odd_iff_mod_2_eq_one)
    then show ?case using Suc.IH [of "drop_bit 1 v"] bits_split [of n v] by (auto simp: Let_def)
  qed simp
  moreover have "{i. i < 64 \<and> bit v i} = {i. bit v i}" using bit_imp_le_length [of v] by auto
  ultimately show ?thesis by (simp add: popcnt_nosupport_def)
qed

end
