(* ===== verification/Cloak.thy ===== *)
theory Cloak
  imports GuestCopy BrokenThreads Ept CloakIndex
begin

text \<open>
  Cloaked pages (\<open>epthandler.c\<close>, Intel): a page the guest executes from while it reads and writes a copy.
  On a cloaked page the client can set breakpoints that change registers, and one that starts a
  trace. A \<open>CloakedPageData\<close> is the number of its memory block, whose contents are in \<open>cloak_data\<close>
  until it is freed; \<open>CloakIndex\<close> finds it. \<open>Executable\<close> and \<open>Data\<close> are physical addresses of memory, the
  bytes of which are those of the exit state; the global window they are mapped through is not modelled. The number of
  a processor is its place in the list of processors. The locks make every function one step.
\<close>

section \<open>State\<close>

record cloaked_page =
  PhysicalAddressExecutable :: u64
  PhysicalAddressData :: u64
  CloakMode :: int
  eptentry :: "u64 list"

text \<open>
  The changes a breakpoint makes: bit \<open>k\<close> of \<open>cr_Flags\<close> is for register \<open>k\<close> of \<open>newRegs\<close>, in the order \<open>rax\<close>, \<open>rbx\<close>, \<open>rcx\<close>,
  \<open>rdx\<close>, \<open>rsi\<close>, \<open>rdi\<close>, \<open>rbp\<close>, \<open>rsp\<close>, \<open>rip\<close>, \<open>r8\<close> to \<open>r15\<close>; bits 17 to 22 are for the flags, 23 to 28 their values.
\<close>

record changereg_info =
  cr_Flags :: u32
  changeXMM :: u64
  changeFP :: u64
  newRegs :: "u64 list"
  newFP :: "u8 list"
  newXMM :: "u8 list"

record changereg_entry =
  cr_Active :: bool
  cr_cloakdata :: nat
  cr_PhysicalAddress :: u64
  cr_originalbyte :: u8
  changereginfo :: changereg_info

text \<open>A trace with the entries written so far and the bytes its memory has for them.\<close>

record trace =
  triggered :: bool
  triggeredcr3 :: u64
  triggeredfsbase :: u64
  triggeredgsbase :: u64
  trace_count :: u32
  shouldquit :: bool
  finished :: bool
  trace_PhysicalAddress :: u64
  trace_originalbyte :: u8
  trace_cloakdata :: nat
  trace_datatype :: nat
  trace_pe :: "page_event list"
  trace_room :: nat

record cloak_cpu =
  cpu_EPTPML4 :: u64
  cpu_eptUpdated :: bool
  eptCloak_LastOperationWasWrite :: bool
  eptCloak_LastWriteOffset :: u64

record cloak_world =
  cloak_index :: "nat cloak_state"
  cloak_data :: "nat \<Rightarrow> cloaked_page option"
  cloak_cpus :: "cloak_cpu list"
  cloak_ept :: ept_memory
  ChangeRegBPList :: "changereg_entry list"
  TraceOnBP :: "trace option"

record cloak_env =
  cloak_config :: ept_config
  execute_only :: bool
  cloak_vm_env :: vm_env
  cloak_step_env :: step_env
  cloak_MAXPHYADDR :: nat

datatype page_error = IndexError cloak_error | NullData | FreedData | NoTable | StackFault | BeyondTrace | ThreadFault thread_error

type_synonym 'a page_result = "page_error + 'a"

definition cloak_base :: "cloak_env \<Rightarrow> u64 \<Rightarrow> u64" where
  "cloak_base ce a = a AND ept_config.MAXPHYADDRMASKPB (cloak_config ce)"

definition data_of :: "cloak_world \<Rightarrow> nat \<Rightarrow> cloaked_page page_result" where
  "data_of cw h = (case cloak_data cw h of None \<Rightarrow> Inl FreedData | Some c \<Rightarrow> Inr c)"

text \<open>The bytes of memory.\<close>

definition set_byte :: "u64 \<Rightarrow> u8 \<Rightarrow> exit_state \<Rightarrow> exit_state" where
  "set_byte a b x = x\<lparr>vm := (vm x)\<lparr>pmem := (pmem (vm x))(a := b)\<rparr>\<rparr>"

definition copy_page :: "u64 \<Rightarrow> u64 \<Rightarrow> exit_state \<Rightarrow> exit_state" where
  "copy_page dest src x =
     x\<lparr>vm := (vm x)\<lparr>pmem := copy_mem (\<lambda>i. dest + of_nat i) (\<lambda>i. src + of_nat i) 4096 (pmem (vm x))\<rparr>\<rparr>"

definition executable_byte :: "cloaked_page \<Rightarrow> u64 \<Rightarrow> u64" where
  "executable_byte c pa = PhysicalAddressExecutable c + (pa AND 0xfff)"

section \<open>Cloaking a page\<close>

text \<open>The entry of a cloaked page: it can only be executed, or not be accessed at all.\<close>

definition hide_entry :: "cloak_env \<Rightarrow> u64 \<Rightarrow> u64" where
  "hide_entry ce e = unset_bit 1 (unset_bit 0 (if execute_only ce then set_bit 2 e else unset_bit 2 e))"

fun hide_page :: "cloak_env \<Rightarrow> u64 \<Rightarrow> cloak_cpu list \<Rightarrow> ept_memory \<Rightarrow> (cloak_cpu list \<times> u64 list \<times> ept_memory) option" where
  "hide_page ce pa [] s = Some ([], [], s)"
| "hide_page ce pa (c # cs) s = do {
     (ea, s) \<leftarrow> EPTMapPhysicalMemory (cloak_config ce) (cpu_EPTPML4 c) pa True s;
     let s = write_entry ea (hide_entry ce (qwords s ea)) s;
     (cs, es, s) \<leftarrow> hide_page ce pa cs s;
     Some (c\<lparr>cpu_eptUpdated := True\<rparr> # cs, ea # es, s)
   }"

text \<open>\<open>mem\<close> is the block and the physical address of the page that \<open>malloc\<close> gives.\<close>

definition cloak_activate :: "cloak_env \<Rightarrow> (nat \<times> u64) option \<Rightarrow> u64 \<Rightarrow> int \<Rightarrow> exit_state \<times> cloak_world \<Rightarrow>
    (int \<times> exit_state \<times> cloak_world) page_result" where
  "cloak_activate ce mem physicalAddress mode = (\<lambda>(x, cw).
     (let a = cloak_base ce physicalAddress
      in case first_run_check (cloak_MAXPHYADDR ce) (cloak_index cw) of
           Inl e \<Rightarrow> Inl (IndexError e)
         | Inr st \<Rightarrow> (case cloak_lookup st a of
             Inl e \<Rightarrow> Inl (IndexError e)
           | Inr (Some _) \<Rightarrow> Inr (1, x, cw\<lparr>cloak_index := st\<rparr>)
           | Inr None \<Rightarrow> (case mem of
               None \<Rightarrow> Inl NullData
             | Some (h, d) \<Rightarrow> (case hide_page ce a (cloak_cpus cw) (cloak_ept cw) of
                 None \<Rightarrow> Inl NoTable
               | Some (cs, es, s) \<Rightarrow>
                   let c = \<lparr>PhysicalAddressExecutable = a, PhysicalAddressData = d, CloakMode = mode, eptentry = es\<rparr>
                   in case cloak_record st a h of
                        Inl e \<Rightarrow> Inl (IndexError e)
                      | Inr st \<Rightarrow> Inr (0, copy_page d a x,
                          cw\<lparr>cloak_index := st, cloak_data := (cloak_data cw)(h := Some c), cloak_cpus := cs, cloak_ept := s\<rparr>))))))"

section \<open>Breakpoints that change registers\<close>

definition ept_cloak_removechangeregonbp :: "u64 \<Rightarrow> exit_state \<times> cloak_world \<Rightarrow> (int \<times> exit_state \<times> cloak_world) page_result" where
  "ept_cloak_removechangeregonbp pa = (\<lambda>(x, cw).
     fold (\<lambda>i r. case r of Inl e \<Rightarrow> Inl e
       | Inr (result, x, cw) \<Rightarrow>
           let b = ChangeRegBPList cw ! i
           in if cr_Active b \<and> cr_PhysicalAddress b = pa
              then (case data_of cw (cr_cloakdata b) of Inl e \<Rightarrow> Inl e
                | Inr c \<Rightarrow> Inr (0, set_byte (executable_byte c pa) (cr_originalbyte b) x,
                    cw\<lparr>ChangeRegBPList := (ChangeRegBPList cw)[i := b\<lparr>cr_Active := False\<rparr>]\<rparr>))
              else Inr (result, x, cw))
       [0..<length (ChangeRegBPList cw)] (Inr (1, x, cw)))"

text \<open>The first entry that is not active, or a new one; the list grows by \<open>realloc\<close>, which is taken to succeed.\<close>

definition add_changereg :: "changereg_entry \<Rightarrow> changereg_entry list \<Rightarrow> changereg_entry list" where
  "add_changereg e xs =
     (case List.find (\<lambda>j. \<not> cr_Active (xs ! j)) [0..<length xs] of
        Some j \<Rightarrow> xs[j := e]
      | None \<Rightarrow> xs @ [e])"

definition ept_cloak_changeregonbp :: "cloak_env \<Rightarrow> (nat \<times> u64) option \<Rightarrow> u64 \<Rightarrow> changereg_info \<Rightarrow> exit_state \<times> cloak_world \<Rightarrow>
    (int \<times> exit_state \<times> cloak_world) page_result" where
  "ept_cloak_changeregonbp ce mem pa info xw =
     (case ept_cloak_removechangeregonbp pa xw of Inl e \<Rightarrow> Inl e
      | Inr (_, xw) \<Rightarrow> (case cloak_activate ce mem (cloak_base ce pa) 0 xw of Inl e \<Rightarrow> Inl e
        | Inr (_, x, cw) \<Rightarrow> (case cloak_lookup (cloak_index cw) (cloak_base ce pa) of
            Inl e \<Rightarrow> Inl (IndexError e)
          | Inr None \<Rightarrow> Inr (1, x, cw)
          | Inr (Some h) \<Rightarrow> (case data_of cw h of Inl e \<Rightarrow> Inl e
            | Inr c \<Rightarrow>
                let ea = executable_byte c pa;
                    b = \<lparr>cr_Active = True, cr_cloakdata = h, cr_PhysicalAddress = pa,
                         cr_originalbyte = pmem (vm x) ea, changereginfo = info\<rparr>
                in Inr (0, set_byte ea 0xcc x, cw\<lparr>ChangeRegBPList := add_changereg b (ChangeRegBPList cw)\<rparr>)))))"

section \<open>Uncloaking a page\<close>

text \<open>The breakpoints of the page are removed, by their address.\<close>

definition remove_breakpoints :: "nat \<Rightarrow> exit_state \<times> cloak_world \<Rightarrow> (exit_state \<times> cloak_world) page_result" where
  "remove_breakpoints h = (\<lambda>(x, cw).
     fold (\<lambda>i r. case r of Inl e \<Rightarrow> Inl e
       | Inr (x, cw) \<Rightarrow>
           let b = ChangeRegBPList cw ! i
           in if cr_Active b \<and> cr_cloakdata b = h
              then (case ept_cloak_removechangeregonbp (cr_PhysicalAddress b) (x, cw) of Inl e \<Rightarrow> Inl e
                | Inr (_, xw) \<Rightarrow> Inr xw)
              else Inr (x, cw))
       [0..<length (ChangeRegBPList cw)] (Inr (x, cw)))"

definition unhide_page :: "cloaked_page \<Rightarrow> cloak_world \<Rightarrow> cloak_world" where
  "unhide_page c cw =
     cw\<lparr>cloak_ept := fold (\<lambda>n s. write_entry (eptentry c ! n) (full_access (qwords s (eptentry c ! n))) s)
          [0..<length (cloak_cpus cw)] (cloak_ept cw),
        cloak_cpus := map (\<lambda>p. p\<lparr>cpu_eptUpdated := True\<rparr>) (cloak_cpus cw)\<rparr>"

definition cloak_deactivate :: "cloak_env \<Rightarrow> u64 \<Rightarrow> exit_state \<times> cloak_world \<Rightarrow> (int \<times> exit_state \<times> cloak_world) page_result" where
  "cloak_deactivate ce physicalAddress = (\<lambda>(x, cw).
     (let a = cloak_base ce physicalAddress;
          forget = (\<lambda>x cw. case ept_cloak_deactivate (ept_config.MAXPHYADDRMASKPB (cloak_config ce)) a (cloak_index cw) of
            Inl e \<Rightarrow> Inl (IndexError e)
          | Inr (st, r) \<Rightarrow> Inr (r, x, cw\<lparr>cloak_index := st\<rparr>))
      in case cloak_lookup (cloak_index cw) a of
           Inl e \<Rightarrow> Inl (IndexError e)
         | Inr None \<Rightarrow> forget x cw
         | Inr (Some h) \<Rightarrow> (case data_of cw h of Inl e \<Rightarrow> Inl e
           | Inr c \<Rightarrow> (case remove_breakpoints h (x, cw) of Inl e \<Rightarrow> Inl e
             | Inr (x, cw) \<Rightarrow>
                 forget (copy_page (PhysicalAddressExecutable c) (PhysicalAddressData c) x)
                   ((unhide_page c cw)\<lparr>cloak_data := (cloak_data cw)(h := None)\<rparr>)))))"

end
