(* ===== verification/CloakPages.thy ===== *)
theory CloakPages
  imports Cloak WatchPages
begin

text \<open>
  What cloaking does to a page: every processor loses the reads and writes of it, as for a watch of both, the client gets
  a copy of its bytes, and no other page is touched. The walk of the processor is the specification.
\<close>

section \<open>A cloak is a watch of reads and writes\<close>

text \<open>The processors and the configuration as the watches have them.\<close>

definition watch_view :: "cloak_cpu \<Rightarrow> watch_cpu" where
  "watch_view p = \<lparr>EPTPML4 = cpu_EPTPML4 p, eptWatchEntries = \<lambda>_. 0, eptWatchListLength = 0, eptUpdated = False,
     BPAfterStep = False, BPCausedByDBVM = False\<rparr>"

definition watch_view_env :: "cloak_env \<Rightarrow> watch_env" where
  "watch_view_env ce = \<lparr>watch_config = cloak_config ce, has_EPT_ExecuteOnlySupport = execute_only ce,
     watch_vm_env = cloak_vm_env ce, watch_step_env = cloak_step_env ce\<rparr>"

lemma watch_view_simps [simp]:
  "EPTPML4 (watch_view p) = cpu_EPTPML4 p" "watch_config (watch_view_env ce) = cloak_config ce"
  "has_EPT_ExecuteOnlySupport (watch_view_env ce) = execute_only ce" "EPTPML4 \<circ> watch_view = cpu_EPTPML4"
  by (simp_all add: watch_view_def watch_view_env_def fun_eq_iff)

lemma hide_entry_restricts: "hide_entry ce e = restrict_entry (watch_view_env ce) EPTW_READWRITE e"
  by (rule bit_eqI) (auto simp: hide_entry_def bit_restrict_entry bit_simps)

lemma hide_page_watches:
  assumes "map EPTPML4 ws = map cpu_EPTPML4 cs" and "hide_page ce a cs s = Some (cs', es, s')"
  shows "(\<exists>ws'. watch_page (watch_view_env ce) 0 a EPTW_READWRITE ws s = Some (ws', s')) \<and>
    map cpu_EPTPML4 cs' = map cpu_EPTPML4 cs"
  using assms
proof (induction cs arbitrary: ws s cs' es)
  case (Cons c cs)
  obtain v vs where ws: "ws = v # vs" "EPTPML4 v = cpu_EPTPML4 c" "map EPTPML4 vs = map cpu_EPTPML4 cs"
    using Cons.prems(1) by auto
  obtain ea s1 ds fs where step: "EPTMapPhysicalMemory (cloak_config ce) (cpu_EPTPML4 c) a True s = Some (ea, s1)"
    "hide_page ce a cs (write_entry ea (hide_entry ce (qwords s1 ea)) s1) = Some (ds, fs, s')"
    "cs' = c\<lparr>cpu_eptUpdated := True\<rparr> # ds"
    using Cons.prems(2) by (auto simp: Let_def split: Option.bind_splits)
  show ?case using Cons.IH [OF ws(3) step(2)] step ws by (auto simp: hide_entry_restricts)
qed simp

section \<open>The copy for the client\<close>

lemma page_of_add:
  fixes a :: u64
  assumes "take_bit 12 a = 0" and "i < 4096"
  shows "drop_bit 12 (a + of_nat i) = drop_bit 12 a" and "a + of_nat i - a = of_nat i"
proof -
  have page: "drop_bit 12 (push_bit 12 (drop_bit 12 z)) = drop_bit 12 z" for z :: u64
    by (rule bit_eqI) (auto simp: bit_simps dest: bit_imp_le_length)
  show "drop_bit 12 (a + of_nat i) = drop_bit 12 a"
    using page_step(2) [of a i] page [of a] page [of "a + of_nat i"] assms by simp
qed simp

lemma copy_page_bytes:
  assumes a: "take_bit 12 a = 0" and d: "take_bit 12 d = 0" and "a \<noteq> d"
  shows "pmem (vm (copy_page d a x)) b = pmem (vm x) (if b - d < 4096 then a + (b - d) else b)"
proof -
  have "drop_bit 12 a \<noteq> drop_bit 12 d" using assms bits_ident [of 12 a] bits_ident [of 12 d] by auto
  then have apart: "d + of_nat i \<noteq> a + of_nat j" if "i < 4096" "j < 4096" for i j
    using page_of_add(1) [OF d that(1)] page_of_add(1) [OF a that(2)] by metis
  have inj: "inj_on (\<lambda>i. d + of_nat i) {..<4096}" by (rule inj_onI) (auto simp: word_of_nat_eq_iff take_bit_nat_eq_self)
  show ?thesis
  proof (cases "b - d < 4096")
    case True
    define i where "i = unat (b - d)"
    have i: "i < 4096" "b = d + of_nat i" using True by (simp_all add: i_def word_less_nat_alt)
    show ?thesis using copy_mem_copies [OF inj apart i(1)] True i(2) by (simp add: copy_page_def)
  next
    case False
    have "d + of_nat i \<noteq> b" if "i < 4096" for i
    proof
      assume "d + of_nat i = b"
      then have "b - d = of_nat i" by auto
      then show False using False that by (simp add: word_less_nat_alt unsigned_of_nat take_bit_nat_eq_self)
    qed
    then show ?thesis using False copy_mem_other [of 4096 "\<lambda>i. d + of_nat i" b] by (simp add: copy_page_def)
  qed
qed

section \<open>Properties\<close>

text \<open>The accesses a processor has to a cloaked page.\<close>

definition hidden :: "cloak_env \<Rightarrow> (u64 \<times> u64 \<times> u64) option \<Rightarrow> (u64 \<times> u64 \<times> u64) option" where
  "hidden ce t = (if execute_only ce then map_option (\<lambda>(h, _, ty). (h, 4, ty)) t else None)"

definition cloak_cpus_ok :: "cloak_env \<Rightarrow> nat \<Rightarrow> cloak_world \<Rightarrow> bool" where
  "cloak_cpus_ok ce w cw \<longleftrightarrow> config_ok (cloak_config ce) w \<and> ordered (memoryranges (mtrr_ranges (cloak_config ce))) \<and>
     distinct (map cpu_EPTPML4 (cloak_cpus cw)) \<and>
     (\<exists>role. ept_inv (cloak_config ce) (cpu_EPTPML4 ` set (cloak_cpus cw)) role (cloak_ept cw))"

lemma restricted_hidden: "restricted (watch_view_env ce) EPTW_READWRITE t = hidden ce t"
proof -
  have "allowed_access (watch_view_env ce) EPTW_READWRITE = (if execute_only ce then 4 else 0)"
    by (simp add: allowed_access_def restrict_entry_def unset_bit_eq_and_not set_bit_eq_or push_bit_eq_mult)
  then show ?thesis by (cases t) (auto simp: restricted_def hidden_def)
qed

lemma base_physical:
  assumes "config_ok (cloak_config ce) w"
  shows "take_bit w (cloak_base ce pa) = cloak_base ce pa" and "take_bit 12 (cloak_base ce pa) = 0"
  using assms by (auto simp: config_ok_def cloak_base_def bit_simps intro!: bit_eqI)

lemma cloak_activateE:
  assumes "cloak_activate ce (Some (h, d)) pa mode (x, cw) = Inr (0, x', cw')"
  obtains cs es s where "hide_page ce (cloak_base ce pa) (cloak_cpus cw) (cloak_ept cw) = Some (cs, es, s)"
    and "x' = copy_page d (cloak_base ce pa) x" and "cloak_cpus cw' = cs" and "cloak_ept cw' = s"
    and "cloak_data cw' h = Some \<lparr>PhysicalAddressExecutable = cloak_base ce pa, PhysicalAddressData = d, CloakMode = mode, eptentry = es\<rparr>"
  using assms by (auto simp: cloak_activate_def Let_def split: sum.splits option.splits)

text \<open>
  C9: A page that is cloaked cannot be read or written on any processor: it can be executed, with frame and memory type as before (or
  mapped to itself), where the processor has pages that can only be executed, and else not be accessed at all. No
  other translation changes, except that a large page that is split loses its other addresses. The data page has the bytes of the page, and
  no other memory changes.
\<close>

theorem cloak_activate_hides:
  assumes ok: "cloak_cpus_ok ce w cw" and a: "a = cloak_base ce pa" and d: "take_bit 12 d = 0" "a \<noteq> d"
    and res: "cloak_activate ce (Some (h, d)) pa mode (x, cw) = Inr (0, x', cw')"
  shows "cloak_cpus_ok ce w cw' \<and>
    (\<forall>p\<in>set (cloak_cpus cw). \<forall>b<2 ^ 48. translation (cloak_config ce) (cloak_ept cw') (cpu_EPTPML4 p) b =
      (if same_page 1 a b
       then hidden ce (if readable_4K (cloak_config ce) (cloak_ept cw) (cpu_EPTPML4 p) a
         then translation (cloak_config ce) (cloak_ept cw) (cpu_EPTPML4 p) b else Some (b, 7, memory_type (cloak_config ce) b))
       else if \<exists>l. large_page (cloak_config ce) (cloak_ept cw) (cpu_EPTPML4 p) a l \<and> same_page l a b then None
       else translation (cloak_config ce) (cloak_ept cw) (cpu_EPTPML4 p) b)) \<and>
    (\<exists>c. cloak_data cw' h = Some c \<and> PhysicalAddressExecutable c = a \<and> PhysicalAddressData c = d) \<and>
    (\<forall>b. pmem (vm x') b = pmem (vm x) (if b - d < 4096 then a + (b - d) else b))"
proof -
  let ?cfg = "cloak_config ce"
  obtain cs es s where parts: "hide_page ce a (cloak_cpus cw) (cloak_ept cw) = Some (cs, es, s)"
    "x' = copy_page d a x" "cloak_cpus cw' = cs" "cloak_ept cw' = s" "\<exists>c. cloak_data cw' h = Some c \<and> PhysicalAddressExecutable c = a \<and> PhysicalAddressData c = d"
    using cloak_activateE [OF res, folded a] by fastforce
  obtain role where cfg: "config_ok ?cfg w" "ordered (memoryranges (mtrr_ranges ?cfg))" "distinct (map cpu_EPTPML4 (cloak_cpus cw))"
    and inv: "ept_inv ?cfg (cpu_EPTPML4 ` set (cloak_cpus cw)) role (cloak_ept cw)"
    using ok by (auto simp: cloak_cpus_ok_def)
  note base = base_physical [OF cfg(1), of pa, folded a]
  let ?ws = "map watch_view (cloak_cpus cw)"
  have view: "map EPTPML4 ?ws = map cpu_EPTPML4 (cloak_cpus cw)" by simp
  obtain ws' where page: "watch_page (watch_view_env ce) 0 a EPTW_READWRITE ?ws (cloak_ept cw) = Some (ws', s)"
    and cs: "map cpu_EPTPML4 cs = map cpu_EPTPML4 (cloak_cpus cw)"
    using hide_page_watches [OF view parts(1)] by blast
  have roots: "EPTPML4 ` set ?ws = cpu_EPTPML4 ` set (cloak_cpus cw)" by (simp add: image_image)
  note pages = watch_page_translations [where we = "watch_view_env ce", unfolded watch_view_simps, OF cfg(1,2) base(1) inv _ _ page]
  have after: "(\<exists>role'. ept_inv ?cfg (cpu_EPTPML4 ` set (cloak_cpus cw)) role' s) \<and>
      (\<forall>c\<in>set ?ws. cpu_watched (watch_view_env ce) EPTW_READWRITE ?cfg a (EPTPML4 c) (cloak_ept cw) s)"
    using pages cfg(3) view roots by simp
  have "cpu_EPTPML4 ` set cs = cpu_EPTPML4 ` set (cloak_cpus cw)" using cs by (metis list.set_map)
  then have ok': "cloak_cpus_ok ce w cw'" using after cfg cs by (simp add: cloak_cpus_ok_def parts(3,4))
  have "cpu_watched (watch_view_env ce) EPTW_READWRITE ?cfg a (cpu_EPTPML4 p) (cloak_ept cw) (cloak_ept cw')"
    if "p \<in> set (cloak_cpus cw)" for p
    using after that by (auto simp: parts(4))
  then show ?thesis
    using ok' parts(5) copy_page_bytes [OF base(2) d]
    by (simp add: cpu_watched_def watched_translation_def restricted_hidden parts(2))
qed

text \<open>One processor with no page cloaked, and the copy at \<open>0x9000\<close>.\<close>

definition example_uncloaked :: cloak_world where
  "example_uncloaked = \<lparr>cloak_index = \<lparr>CloakedPagesList = None, CloakedPagesMap = None, cloak_mem = 0\<rparr>, cloak_data = \<lambda>_. None,
     cloak_cpus = [\<lparr>cpu_EPTPML4 = 0x100000, cpu_eptUpdated = False, eptCloak_LastOperationWasWrite = False, eptCloak_LastWriteOffset = 0\<rparr>],
     cloak_ept = example_ept, ChangeRegBPList = [], TraceOnBP = None\<rparr>"

definition example_hiding :: cloak_env where
  "example_hiding = \<lparr>cloak_config = example_config, execute_only = True, cloak_vm_env = blank_env True,
     cloak_step_env = \<lparr>IA32_VMX_PROCBASED_CTLS = 0x0800000000000000, IA32_VMX_TRUE_PROCBASED_CTLS = 0, default1canbe0 = True\<rparr>,
     cloak_MAXPHYADDR = 36\<rparr>"

lemma example_activates:
  "\<exists>x' cw'. cloak_activate example_hiding (Some (7, 0x9000)) 0x678 0 (x, example_uncloaked) = Inr (0, x', cw')"
proof -
  have base: "cloak_base example_hiding 0x678 = 0" by (simp add: cloak_base_def example_hiding_def example_config_def)
  have first: "first_run_check n (cloak_index example_uncloaked) =
      Inr \<lparr>CloakedPagesList = Some addresslist_create, CloakedPagesMap = None, cloak_mem = 0\<rparr>" for n
    by (simp add: first_run_check_def example_uncloaked_def addresslist_create_def al_size_def MAXCLOAKLISTBEFORETRANFERTOMAP_def)
  obtain l where "addresslist_add addresslist_create 0 (7 :: nat) = Inr l"
    by (simp add: addresslist_add_def addresslist_create_def al_size_def addresslist_findclosestIndex_def entry_bytes_def Let_def)
  moreover obtain cs es s where "hide_page example_hiding 0 (cloak_cpus example_uncloaked) (cloak_ept example_uncloaked) = Some (cs, es, s)"
    using example_map_page [of 0] by (simp add: example_uncloaked_def example_hiding_def Let_def)
  ultimately show ?thesis
    by (simp add: cloak_activate_def base first cloak_lookup_def cloak_record_def al_empty_find Let_def)
qed

theorem cloak_activate_hides_witness:
  "\<forall>x. \<exists>x' cw'. cloak_activate example_hiding (Some (7, 0x9000)) 0x678 0 (x, example_uncloaked) = Inr (0, x', cw') \<and>
     translation example_config (cloak_ept cw') 0x100000 0xabc = Some (0xabc, 4, 6) \<and> pmem (vm x') 0x9abc = pmem (vm x) 0xabc"
proof
  fix x
  obtain x' cw' where res: "cloak_activate example_hiding (Some (7, 0x9000)) 0x678 0 (x, example_uncloaked) = Inr (0, x', cw')"
    using example_activates by blast
  have base: "0 = cloak_base example_hiding 0x678" by (simp add: cloak_base_def example_hiding_def example_config_def)
  have ok: "cloak_cpus_ok example_hiding 36 example_uncloaked"
    using example_cpus_ok by (auto simp: cloak_cpus_ok_def cpus_ok_def example_hiding_def example_uncloaked_def example_env_def
        example_watches_def example_cpu_def)
  have cpu: "cloak_config example_hiding = example_config" "execute_only example_hiding"
    "cloak_ept example_uncloaked = example_ept"
    "map cpu_EPTPML4 (cloak_cpus example_uncloaked) = [0x100000]"
    by (simp_all add: example_hiding_def example_uncloaked_def)
  obtain p where p: "p \<in> set (cloak_cpus example_uncloaked)" "cpu_EPTPML4 p = 0x100000" using cpu(4) by auto
  have page: "same_page 1 0 (0xabc :: u64)" by (simp add: level_shift_def)
  have "\<not> readable_4K example_config example_ept 0x100000 0"
    by (simp add: readable_4K_def example_ept_def walk_entry)
  moreover have "memory_type example_config 0xabc = 6" by (simp add: memory_type_def example_config_def type_at_def)
  ultimately have hid: "hidden example_hiding (if readable_4K example_config example_ept 0x100000 0
      then translation example_config example_ept 0x100000 0xabc else Some (0xabc, 7, memory_type example_config 0xabc)) = Some (0xabc, 4, 6)"
    by (simp add: hidden_def cpu)
  have al: "take_bit 12 0x9000 = (0 :: u64)" "(0 :: u64) \<noteq> 0x9000" by simp_all
  note hides = cloak_activate_hides [OF ok base al res]
  have "translation example_config (cloak_ept cw') 0x100000 0xabc = Some (0xabc, 4, 6)"
    using hides [THEN conjunct2, THEN conjunct1, rule_format, OF p(1), of "0xabc"] page
    unfolding p(2) cpu(1,3) by (simp add: hid del: if_split)
  moreover have "pmem (vm x') 0x9abc = pmem (vm x) 0xabc"
    using hides [THEN conjunct2, THEN conjunct2, THEN conjunct2, rule_format, of "0x9abc"] by simp
  ultimately show "\<exists>x' cw'. cloak_activate example_hiding (Some (7, 0x9000)) 0x678 0 (x, example_uncloaked) = Inr (0, x', cw') \<and>
     translation example_config (cloak_ept cw') 0x100000 0xabc = Some (0xabc, 4, 6) \<and> pmem (vm x') 0x9abc = pmem (vm x) 0xabc"
    using res by blast
qed

end
