(* ===== verification/CloakEvents.thy ===== *)
theory CloakEvents
  imports Cloak
begin

text \<open>
  What happens at a cloaked page (\<open>epthandler.c\<close>, Intel): accesses to it, breakpoints in it, and the trace that
  one of them starts.
\<close>

section \<open>Accesses\<close>

text \<open>
  Is this the load of a \<open>jmp [rip]\<close> with its target behind it, which was written into the page: then the
  access has to see the page that is executed. The page of the access is compared at the offset of \<open>rip\<close>.
\<close>

definition page_bytes :: "exit_state \<Rightarrow> u64 \<Rightarrow> nat \<Rightarrow> nat \<Rightarrow> u8 list" where
  "page_bytes x a offset n = map (\<lambda>i. pmem (vm x) (a + of_nat (offset + i))) [0..<n]"

definition is_megajmp :: "cloaked_page \<Rightarrow> u64 \<Rightarrow> exit_state \<Rightarrow> bool" where
  "is_megajmp c AddressVA x =
     (let RIP = vmread vm_guest_rip (vm x); offset = unat (RIP AND 0xfff); n = min 14 (0x1000 - offset);
          new = page_bytes x (PhysicalAddressExecutable c) offset n;
          original = page_bytes x (PhysicalAddressData c) offset n
      in AddressVA - RIP = 6 \<and> new ! 0 = 0xff \<and> new \<noteq> original \<and>
         take 6 new = take n (take 6 [0xff, 0x25, 0, 0, 0, 0]))"

definition page_seen :: "cloaked_page \<Rightarrow> u64 \<Rightarrow> exit_state \<Rightarrow> u64" where
  "page_seen c AddressVA x =
     (if bit (vmread vm_exit_qualification (vm x)) 2 \<or> is_megajmp c AddressVA x
      then PhysicalAddressExecutable c else PhysicalAddressData c)"

definition ept_handleCloakEvent :: "cloak_env \<Rightarrow> nat \<Rightarrow> u64 \<Rightarrow> u64 \<Rightarrow> exit_state \<times> cloak_world \<Rightarrow> (bool \<times> exit_state \<times> cloak_world) page_result" where
  "ept_handleCloakEvent ce cpu Address AddressVA = (\<lambda>(x, cw).
     (if CloakedPagesList (cloak_index cw) = None \<and> CloakedPagesMap (cloak_index cw) = None then Inr (False, x, cw)
      else case cloak_lookup (cloak_index cw) (cloak_base ce Address) of
        Inl e \<Rightarrow> Inl (IndexError e)
      | Inr None \<Rightarrow> Inr (False, x, cw)
      | Inr (Some h) \<Rightarrow> (case data_of cw h of Inl e \<Rightarrow> Inl e
        | Inr c \<Rightarrow>
            let evi = vmread vm_exit_qualification (vm x);
                s = write_entry (eptentry c ! cpu) (full_access (page_seen c AddressVA x)) (cloak_ept cw);
                p = (cloak_cpus cw ! cpu)\<lparr>eptCloak_LastOperationWasWrite := bit evi 1, eptCloak_LastWriteOffset := Address AND 0xfff\<rparr>;
                x = vmx_addSingleSteppingReason (SSR_HANDLECLOAK h) (snd (vmx_enableSingleStepMode (cloak_step_env ce) x))
            in Inr (True, x, cw\<lparr>cloak_ept := s, cloak_cpus := (cloak_cpus cw)[cpu := p]\<rparr>))))"

definition ept_handleCloakEventAfterStep :: "cloak_env \<Rightarrow> nat \<Rightarrow> nat \<Rightarrow> exit_state \<times> cloak_world \<Rightarrow> (exit_state \<times> cloak_world) page_result" where
  "ept_handleCloakEventAfterStep ce cpu h = (\<lambda>(x, cw).
     (case data_of cw h of Inl e \<Rightarrow> Inl e
      | Inr c \<Rightarrow> Inr (x, cw\<lparr>cloak_ept := write_entry (eptentry c ! cpu)
          (hide_entry ce (PhysicalAddressExecutable c)) (cloak_ept cw)\<rparr>)))"

section \<open>The client's view of the executed page\<close>

text \<open>The second result is the address of a page fault.\<close>

definition ept_cloak_readOriginal :: "cloak_env \<Rightarrow> u64 \<Rightarrow> u64 \<Rightarrow> exit_state \<times> cloak_world \<Rightarrow>
    (u64 option \<times> exit_state \<times> cloak_world) page_result" where
  "ept_cloak_readOriginal ce physicalAddress destination = (\<lambda>(x, cw).
     (let done = (\<lambda>r x. Inr (None, x\<lparr>vm := next_instruction ((vm x)\<lparr>rax := r\<rparr>)\<rparr>, cw))
      in case mapVMmemory (cloak_vm_env ce) (vm x) destination 4096 of
           Inl (error, fault) \<Rightarrow>
             if error = 2 then (let (s, cr2) = raisePagefault fault (vm x) in Inr (Some cr2, x\<lparr>vm := s\<rparr>, cw)) else Inl NullData
         | Inr dest \<Rightarrow> (case cloak_lookup (cloak_index cw) (cloak_base ce physicalAddress) of
             Inl e \<Rightarrow> Inl (IndexError e)
           | Inr None \<Rightarrow> done 1 x
           | Inr (Some h) \<Rightarrow> (case data_of cw h of Inl e \<Rightarrow> Inl e
             | Inr c \<Rightarrow> done 0 (x\<lparr>vm := (vm x)\<lparr>pmem :=
                 copy_mem dest (\<lambda>i. PhysicalAddressExecutable c + of_nat i) 4096 (pmem (vm x))\<rparr>\<rparr>)))))"

definition ept_cloak_writeOriginal :: "cloak_env \<Rightarrow> u64 \<Rightarrow> u64 \<Rightarrow> exit_state \<times> cloak_world \<Rightarrow>
    (u64 option \<times> exit_state \<times> cloak_world) page_result" where
  "ept_cloak_writeOriginal ce physicalAddress source = (\<lambda>(x, cw).
     (let done = (\<lambda>r x. Inr (None, x\<lparr>vm := next_instruction ((vm x)\<lparr>rax := r\<rparr>)\<rparr>, cw))
      in case mapVMmemory (cloak_vm_env ce) (vm x) source 4096 of
           Inl (error, fault) \<Rightarrow>
             if error = 2 then (let (s, cr2) = raisePagefault fault (vm x) in Inr (Some cr2, x\<lparr>vm := s\<rparr>, cw)) else Inl NullData
         | Inr src \<Rightarrow> (case cloak_lookup (cloak_index cw) (cloak_base ce physicalAddress) of
             Inl e \<Rightarrow> Inl (IndexError e)
           | Inr None \<Rightarrow> done 1 x
           | Inr (Some h) \<Rightarrow> (case data_of cw h of Inl e \<Rightarrow> Inl e
             | Inr c \<Rightarrow> done 0 (x\<lparr>vm := (vm x)\<lparr>pmem :=
                 copy_mem (\<lambda>i. PhysicalAddressExecutable c + of_nat i) src 4096 (pmem (vm x))\<rparr>\<rparr>)))))"

section \<open>Changing registers\<close>

definition change_bit :: "changereg_info \<Rightarrow> nat \<Rightarrow> nat \<Rightarrow> nat \<Rightarrow> u64 \<Rightarrow> u64" where
  "change_bit info chg new b flags =
     (if bit (cr_Flags info) chg then if bit (cr_Flags info) new then set_bit b flags else unset_bit b flags else flags)"

definition change_flags :: "changereg_info \<Rightarrow> u64 \<Rightarrow> u64" where
  "change_flags info flags =
     change_bit info 22 28 11 (change_bit info 21 27 7 (change_bit info 20 26 6
       (change_bit info 19 25 4 (change_bit info 18 24 2 (change_bit info 17 23 0 flags)))))"

text \<open>Only 15 of the 16 registers are looked at; each bit of a nibble is for four bytes. The \<open>MM\<close> registers are copied to themselves.\<close>

definition copy_dword :: "nat \<Rightarrow> u8 list \<Rightarrow> nat \<Rightarrow> u8 list \<Rightarrow> u8 list" where
  "copy_dword d src s dest = take d dest @ take 4 (drop s src) @ drop (d + 4) dest"

definition change_xmm :: "changereg_info \<Rightarrow> fxsave64 \<Rightarrow> fxsave64" where
  "change_xmm info fx =
     fold (\<lambda>r. fold (\<lambda>p fx. if bit (changeXMM info) (4 * r + p) then copy_dword (160 + 16 * r + 4 * p) (newXMM info) (16 * r + 4 * p) fx else fx)
         [0..<4]) [0..<15] fx"

definition change_registers :: "changereg_info \<Rightarrow> exit_state \<Rightarrow> exit_state" where
  "change_registers info x =
     (let new = (\<lambda>k old. if bit (cr_Flags info) k then newRegs info ! k else old); s = vm x;
          s = s\<lparr>rax := new 0 (rax s), rbx := new 1 (rbx s), rcx := new 2 (rcx s), rdx := new 3 (rdx s),
                rsi := new 4 (rsi s), rdi := new 5 (rdi s), rbp := new 6 (rbp s)\<rparr>;
          s = (if bit (cr_Flags info) 7 then vmwrite vm_guest_rsp (newRegs info ! 7) s else s);
          s = (if bit (cr_Flags info) 8 then vmwrite vm_guest_rip (newRegs info ! 8) s else s);
          x = x\<lparr>vm := s, r8 := new 9 (r8 x), r9 := new 10 (r9 x), r10 := new 11 (r10 x), r11 := new 12 (r11 x),
                r12 := new 13 (r12 x), r13 := new 14 (r13 x), r14 := new 15 (r14 x), r15 := new 16 (r15 x),
                fxsave := change_xmm info (fxsave x)\<rparr>
      in vm_set vm_guest_rflags (change_flags info (vmread vm_guest_rflags (vm x))) x)"

section \<open>Breakpoints\<close>

text \<open>One more entry of the trace, if its memory has room for it.\<close>

definition record_trace :: "vm_env \<Rightarrow> exit_state \<Rightarrow> trace \<Rightarrow> trace page_result" where
  "record_trace env x t =
     (case recordState env (trace_datatype t) x of
        None \<Rightarrow> Inl StackFault
      | Some e \<Rightarrow>
          if sizeof_event (trace_datatype t) * (length (trace_pe t) + 1) > trace_room t then Inl BeyondTrace
          else Inr (t\<lparr>trace_pe := trace_pe t @ [e], trace_count := trace_count t - 1\<rparr>))"

definition trigger_trace :: "cloak_env \<Rightarrow> trace \<Rightarrow> exit_state \<times> cloak_world \<Rightarrow> (exit_state \<times> cloak_world) page_result" where
  "trigger_trace ce t = (\<lambda>(x, cw).
     (case data_of cw (trace_cloakdata t) of Inl e \<Rightarrow> Inl e
      | Inr c \<Rightarrow>
          let x = vm_set vm_guest_rflags (set_bit 8 (vmread vm_guest_rflags (vm x))) x;
              x = set_byte (executable_byte c (trace_PhysicalAddress t)) (trace_originalbyte t) x
          in case record_trace (cloak_vm_env ce) x t of Inl e \<Rightarrow> Inl e
             | Inr t \<Rightarrow> Inr (x, cw\<lparr>TraceOnBP := Some (t\<lparr>triggered := True, triggeredcr3 := vmread vm_guest_cr3 (vm x),
                 triggeredgsbase := vmread vm_guest_gs_base (vm x), triggeredfsbase := vmread vm_guest_fs_base (vm x)\<rparr>)\<rparr>)))"

text \<open>The breakpoint \<open>i\<close> that is hit, with \<open>rip\<close> at the exit.\<close>

definition hit_changereg :: "cloak_env \<Rightarrow> nat \<Rightarrow> u64 \<Rightarrow> exit_state \<times> cloak_world \<Rightarrow> (exit_state \<times> cloak_world) page_result" where
  "hit_changereg ce i oldRIP = (\<lambda>(x, cw).
     (let b = ChangeRegBPList cw ! i; info = changereginfo b; x = change_registers info x
      in if \<not> bit (cr_Flags info) 8 \<or> newRegs info ! 8 = oldRIP
         then (case data_of cw (cr_cloakdata b) of Inl e \<Rightarrow> Inl e
           | Inr c \<Rightarrow>
               let x = set_byte (executable_byte c (cr_PhysicalAddress b)) (cr_originalbyte b) x;
                   x = vmx_addSingleSteppingReason (SSR_HANDLESOFTWAREBREAKPOINT i) (snd (vmx_enableSingleStepMode (cloak_step_env ce) x))
               in Inr (vm_set vm_guest_interruptability_state 2 x, cw))
         else Inr (x, cw)))"

text \<open>The first active entry with the address; entries that are not active any more make the instruction run again.\<close>

definition changereg_breakpoint :: "cloak_env \<Rightarrow> u64 \<Rightarrow> exit_state \<times> cloak_world \<Rightarrow> (bool \<times> exit_state \<times> cloak_world) page_result" where
  "changereg_breakpoint ce PA = (\<lambda>(x, cw).
     (let xs = ChangeRegBPList cw
      in case List.find (\<lambda>i. cr_PhysicalAddress (xs ! i) = PA \<and> cr_Active (xs ! i)) [0..<length xs] of
           Some i \<Rightarrow> (case hit_changereg ce i (vmread vm_guest_rip (vm x)) (x, cw) of Inl e \<Rightarrow> Inl e | Inr r \<Rightarrow> Inr (True, r))
         | None \<Rightarrow> Inr (\<exists>b\<in>set xs. cr_PhysicalAddress b = PA, x, cw)))"

definition ept_handleSoftwareBreakpoint :: "cloak_env \<Rightarrow> exit_state \<times> thread_list \<times> cloak_world \<Rightarrow>
    (bool \<times> exit_state \<times> thread_list \<times> cloak_world) page_result" where
  "ept_handleSoftwareBreakpoint ce = (\<lambda>(x, ts, cw).
     (case getPhysicalAddressVM (cloak_vm_env ce) (vm x) (vmread vm_guest_rip (vm x)) of
        None \<Rightarrow> Inr (False, x, ts, cw)
      | Some PA \<Rightarrow>
          let (result, x, ts) = handle_thread_breakpoint (cloak_step_env ce) (x, ts)
          in if result then Inr (True, x, ts, cw)
             else if \<exists>t. TraceOnBP cw = Some t \<and> trace_PhysicalAddress t = PA
             then
               let t = the (TraceOnBP cw)
               in if triggered t then Inr (True, x, ts, cw)
                  else (case trigger_trace ce t (x, cw) of Inl e \<Rightarrow> Inl e | Inr (x, cw) \<Rightarrow> Inr (True, x, ts, cw))
             else (case changereg_breakpoint ce PA (x, cw) of Inl e \<Rightarrow> Inl e
               | Inr (result, x, cw) \<Rightarrow> Inr (result, x, ts, cw))))"

definition ept_handleSoftwareBreakpointAfterStep :: "cloak_env \<Rightarrow> nat \<Rightarrow> exit_state \<times> cloak_world \<Rightarrow> (exit_state \<times> cloak_world) page_result" where
  "ept_handleSoftwareBreakpointAfterStep ce ID = (\<lambda>(x, cw).
     (let b = ChangeRegBPList cw ! ID; PA = cr_PhysicalAddress b
      in if cr_Active b
         then (case data_of cw (cr_cloakdata b) of Inl e \<Rightarrow> Inl e
           | Inr c \<Rightarrow> Inr (set_byte (PhysicalAddressExecutable c + (PA - cloak_base ce PA)) 0xcc x, cw))
         else Inr (x, cw)))"

section \<open>The trace\<close>

definition restore_traced :: "trace \<Rightarrow> exit_state \<times> cloak_world \<Rightarrow> (exit_state \<times> cloak_world) page_result" where
  "restore_traced t = (\<lambda>(x, cw). (case data_of cw (trace_cloakdata t) of Inl e \<Rightarrow> Inl e
     | Inr c \<Rightarrow> Inr (set_byte (executable_byte c (trace_PhysicalAddress t)) (trace_originalbyte t) x, cw)))"

text \<open>The status, the number of entries, and what it will be at the end.\<close>

definition ept_cloak_traceonbp_getstatus :: "cloak_world \<Rightarrow> nat \<times> u32 \<times> u32" where
  "ept_cloak_traceonbp_getstatus cw =
     (case TraceOnBP cw of None \<Rightarrow> (0, 0, 0)
      | Some t \<Rightarrow>
          let n = of_nat (length (trace_pe t))
          in (if triggered t then if finished t then 3 else 2 else 1, n, trace_count t + n))"

definition ept_cloak_traceonbp_stoptrace :: "exit_state \<times> cloak_world \<Rightarrow> (nat \<times> exit_state \<times> cloak_world) page_result" where
  "ept_cloak_traceonbp_stoptrace = (\<lambda>(x, cw).
     (case TraceOnBP cw of None \<Rightarrow> Inr (0, x, cw)
      | Some t \<Rightarrow>
          let cw = cw\<lparr>TraceOnBP := Some (t\<lparr>shouldquit := True\<rparr>)\<rparr>; result = (if finished t then 3 else if triggered t then 2 else 1)
          in if triggered t then Inr (result, x, cw)
             else (case restore_traced t (x, cw) of Inl e \<Rightarrow> Inl e | Inr xw \<Rightarrow> Inr (result, xw))))"

definition ept_cloak_traceonbp_remove :: "bool \<Rightarrow> exit_state \<times> cloak_world \<Rightarrow> (nat \<times> exit_state \<times> cloak_world) page_result" where
  "ept_cloak_traceonbp_remove forcequit = (\<lambda>(x, cw).
     (case TraceOnBP cw of None \<Rightarrow> Inr (0, x, cw)
      | Some t \<Rightarrow>
          if \<not> triggered t
          then (case restore_traced t (x, cw) of Inl e \<Rightarrow> Inl e | Inr (x, cw) \<Rightarrow> Inr (1, x, cw\<lparr>TraceOnBP := None\<rparr>))
          else if \<not> finished t \<and> \<not> forcequit then Inr (2, x, cw\<lparr>TraceOnBP := Some (t\<lparr>shouldquit := True\<rparr>)\<rparr>)
          else Inr (1, x, cw\<lparr>TraceOnBP := None\<rparr>)))"

text \<open>The kind of entries: bit 1 of the flags is compared with 1.\<close>

definition trace_type :: "u32 \<Rightarrow> nat" where
  "trace_type flags =
     (let logfpu = flags AND 1; logstack = flags AND 2
      in if logfpu = 0 \<and> logstack = 0 then 0 else if logfpu = 1 \<and> logstack = 0 then 1
         else if logfpu = 0 \<and> logstack = 1 then 2 else 3)"

text \<open>\<open>sizeof (TraceOnBPEntry)\<close> is 80, and the entries start at its end.\<close>

definition trace_bytes :: "nat \<Rightarrow> u32 \<Rightarrow> nat" where
  "trace_bytes t tracecount = unat (160 + of_nat (sizeof_event t) * tracecount :: u32)"

definition ept_cloak_traceonbp :: "cloak_env \<Rightarrow> (nat \<times> u64) option \<Rightarrow> bool \<Rightarrow> u64 \<Rightarrow> u32 \<Rightarrow> u32 \<Rightarrow> exit_state \<times> cloak_world \<Rightarrow>
    (nat \<times> exit_state \<times> cloak_world) page_result" where
  "ept_cloak_traceonbp ce mem tracemem pa flags tracecount xw =
     (case ept_cloak_traceonbp_remove False xw of Inl e \<Rightarrow> Inl e
      | Inr (r, xw) \<Rightarrow>
          if r = 2 then Inr (2, xw)
          else (case cloak_activate ce mem (cloak_base ce pa) 0 xw of Inl e \<Rightarrow> Inl e
            | Inr (_, x, cw) \<Rightarrow> (case cloak_lookup (cloak_index cw) (cloak_base ce pa) of
                Inl e \<Rightarrow> Inl (IndexError e)
              | Inr None \<Rightarrow> Inr (1, x, cw)
              | Inr (Some h) \<Rightarrow> (case data_of cw h of Inl e \<Rightarrow> Inl e
                | Inr c \<Rightarrow>
                    if \<not> tracemem then Inr (3, x, cw)
                    else if trace_bytes (trace_type flags) tracecount < 80 then Inl BeyondTrace
                    else
                      let ea = executable_byte c pa;
                          t = \<lparr>triggered = False, triggeredcr3 = 0, triggeredfsbase = 0, triggeredgsbase = 0,
                               trace_count = tracecount, shouldquit = False, finished = False, trace_PhysicalAddress = pa,
                               trace_originalbyte = pmem (vm x) ea, trace_cloakdata = h, trace_datatype = trace_type flags,
                               trace_pe = [], trace_room = trace_bytes (trace_type flags) tracecount - 80\<rparr>
                      in Inr (0, set_byte ea 0xcc x, cw\<lparr>TraceOnBP := Some t\<rparr>)))))"

text \<open>The step of the traced thread, which \<open>cr3\<close> and the two bases tell from others.\<close>

definition is_traced :: "trace \<Rightarrow> exit_state \<Rightarrow> bool" where
  "is_traced t x \<longleftrightarrow> triggered t \<and> bit (vmread vm_exit_qualification (vm x)) 14 \<and> triggeredcr3 t = vmread vm_guest_cr3 (vm x) \<and>
     triggeredfsbase t = vmread vm_guest_fs_base (vm x) \<and> triggeredgsbase t = vmread vm_guest_gs_base (vm x)"

definition ept_handleHardwareBreakpoint :: "cloak_env \<Rightarrow> exit_state \<times> cloak_world \<Rightarrow> (bool \<times> exit_state \<times> cloak_world) page_result" where
  "ept_handleHardwareBreakpoint ce = (\<lambda>(x, cw).
     (case TraceOnBP cw of None \<Rightarrow> Inr (False, x, cw)
      | Some t \<Rightarrow>
          if \<not> is_traced t x then Inr (False, x, cw)
          else (case record_trace (cloak_vm_env ce) x t of Inl e \<Rightarrow> Inl e
            | Inr t \<Rightarrow>
                let t = (if sint (trace_count t) \<le> 0 then t\<lparr>shouldquit := True\<rparr> else t);
                    flags = set_bit 16 (vmread vm_guest_rflags (vm x));
                    (flags, t) = (if shouldquit t then (unset_bit 8 flags, t\<lparr>finished := True\<rparr>) else (set_bit 8 flags, t));
                    x = vm_set vm_guest_rflags flags x
                in Inr (True, x\<lparr>dr6 := unset_bit 14 (dr6 x)\<rparr>, cw\<lparr>TraceOnBP := Some t\<rparr>))))"

end
