(* ===== verification/CloakBreakpoints.thy ===== *)
theory CloakBreakpoints
  imports CloakEvents ThreadsCorrect EptMap
begin

text \<open>
  Breakpoints in cloaked pages: the page the client cloaked shows through them, whatever is set and removed, and
  a step over one puts it back. A trace and a breakpoint at one address do not know of each other.
\<close>

section \<open>Frames\<close>

lemma set_byte_simps [simp]:
  "pmem (vm (set_byte a b x)) = (pmem (vm x))(a := b)" "vmread f (vm (set_byte a b x)) = vmread f (vm x)"
  "fxsave (set_byte a b x) = fxsave x" "step_Reasons (set_byte a b x) = step_Reasons x" "dr6 (set_byte a b x) = dr6 x"
  "vmcs (vm (set_byte a b x)) = vmcs (vm x)"
  by (simp_all add: set_byte_def vmread_def)

lemma set_byte_same [simp]: "set_byte a b (set_byte a c x) = set_byte a b x"
  by (simp add: set_byte_def)

lemma pmem_vm_set [simp]: "pmem (vm (vm_set f v x)) = pmem (vm x)"
  by (simp add: vmwrite_def)

lemma pmem_vmwrite [simp]: "pmem (vmwrite f v s) = pmem s"
  by (simp add: vmwrite_def)

lemma enable_frame [simp]:
  "pmem (vm (snd (vmx_enableSingleStepMode se x))) = pmem (vm x)"
  "step_Reasons (snd (vmx_enableSingleStepMode se x)) = step_Reasons x"
  by (auto simp: vmx_enableSingleStepMode_def vmx_enableProcBasedFeature_def Let_def)

lemma add_reason_frame [simp]:
  "vm (vmx_addSingleSteppingReason r x) = vm x" "step_Reasons (vmx_addSingleSteppingReason r x) = step_Reasons x @ [r]"
  by (simp_all add: vmx_addSingleSteppingReason_def)

lemma change_registers_frame [simp]:
  "pmem (vm (change_registers info x)) = pmem (vm x)" "step_Reasons (change_registers info x) = step_Reasons x"
  by (simp_all add: change_registers_def Let_def vm_set_def)

section \<open>The page behind the breakpoints\<close>

definition active_at :: "u64 \<Rightarrow> changereg_entry \<Rightarrow> bool" where
  "active_at pa b \<longleftrightarrow> cr_Active b \<and> cr_PhysicalAddress b = pa"

definition original_byte :: "exit_state \<Rightarrow> cloak_world \<Rightarrow> u64 \<Rightarrow> u8" where
  "original_byte x cw a = (case List.find (active_at a) (ChangeRegBPList cw) of
     Some b \<Rightarrow> cr_originalbyte b | None \<Rightarrow> pmem (vm x) a)"

text \<open>One active entry for an address, its page is there, and its byte is an \<open>int3\<close>.\<close>

definition breakpoint_ok :: "exit_state \<Rightarrow> cloak_world \<Rightarrow> changereg_entry \<Rightarrow> bool" where
  "breakpoint_ok x cw b \<longleftrightarrow> pmem (vm x) (cr_PhysicalAddress b) = 0xcc \<and>
     (\<exists>c. cloak_data cw (cr_cloakdata b) = Some c \<and> executable_byte c (cr_PhysicalAddress b) = cr_PhysicalAddress b)"

definition unique_breakpoints :: "changereg_entry list \<Rightarrow> bool" where
  "unique_breakpoints xs \<longleftrightarrow>
     (\<forall>i<length xs. \<forall>j<length xs. cr_Active (xs ! i) \<and> active_at (cr_PhysicalAddress (xs ! i)) (xs ! j) \<longrightarrow> i = j)"

definition breakpoints_ok :: "exit_state \<Rightarrow> cloak_world \<Rightarrow> bool" where
  "breakpoints_ok x cw \<longleftrightarrow> unique_breakpoints (ChangeRegBPList cw) \<and>
     (\<forall>b\<in>set (ChangeRegBPList cw). cr_Active b \<longrightarrow> breakpoint_ok x cw b)"

lemma find_unique:
  assumes "unique_breakpoints xs" and "i < length xs" and "active_at pa (xs ! i)"
  shows "List.find (active_at pa) xs = Some (xs ! i)"
proof -
  have "\<not> active_at pa (xs ! j)" if "j < i" for j
    using assms that unfolding unique_breakpoints_def active_at_def by (metis nat_less_le order.strict_trans)
  then show ?thesis using assms(2,3) by (auto simp: find_Some_iff)
qed

lemma find_update_other: "\<not> P (xs ! i) \<Longrightarrow> \<not> P b \<Longrightarrow> List.find P (xs[i := b]) = List.find P xs"
proof (induction xs arbitrary: i)
  case (Cons x xs)
  then show ?case by (cases i) auto
qed simp

lemma find_none_nth: "List.find P xs = None \<longleftrightarrow> (\<forall>i<length xs. \<not> P (xs ! i))"
  by (auto simp: List.find_None_iff in_set_conv_nth)

text \<open>Removing looks at all entries and changes the one that is active at the address.\<close>

definition remove_step :: "u64 \<Rightarrow> nat \<Rightarrow> (int \<times> exit_state \<times> cloak_world) page_result \<Rightarrow> (int \<times> exit_state \<times> cloak_world) page_result" where
  "remove_step pa i r = (case r of Inl e \<Rightarrow> Inl e
     | Inr (result, x, cw) \<Rightarrow>
         let b = ChangeRegBPList cw ! i
         in if cr_Active b \<and> cr_PhysicalAddress b = pa
            then (case data_of cw (cr_cloakdata b) of Inl e \<Rightarrow> Inl e
              | Inr c \<Rightarrow> Inr (0, set_byte (executable_byte c pa) (cr_originalbyte b) x,
                  cw\<lparr>ChangeRegBPList := (ChangeRegBPList cw)[i := b\<lparr>cr_Active := False\<rparr>]\<rparr>))
            else Inr (result, x, cw))"

lemma remove_skip:
  "(\<And>j. j \<in> set js \<Longrightarrow> \<not> active_at pa (ChangeRegBPList cw ! j)) \<Longrightarrow>
   fold (remove_step pa) js (Inr (r, x, cw)) = Inr (r, x, cw)"
  by (induction js) (auto simp: remove_step_def active_at_def Let_def)

lemma remove_none:
  assumes "\<And>j. j < length (ChangeRegBPList cw) \<Longrightarrow> \<not> active_at pa (ChangeRegBPList cw ! j)"
  shows "ept_cloak_removechangeregonbp pa (x, cw) = Inr (1, x, cw)"
  using remove_skip [of "[0..<length (ChangeRegBPList cw)]" pa cw 1 x] assms
  unfolding ept_cloak_removechangeregonbp_def remove_step_def by simp

lemma remove_one:
  assumes ok: "unique_breakpoints (ChangeRegBPList cw)" and i: "i < length (ChangeRegBPList cw)" "active_at pa (ChangeRegBPList cw ! i)"
    and c: "cloak_data cw (cr_cloakdata (ChangeRegBPList cw ! i)) = Some c"
  shows "ept_cloak_removechangeregonbp pa (x, cw) =
    Inr (0, set_byte (executable_byte c pa) (cr_originalbyte (ChangeRegBPList cw ! i)) x,
      cw\<lparr>ChangeRegBPList := (ChangeRegBPList cw)[i := (ChangeRegBPList cw ! i)\<lparr>cr_Active := False\<rparr>]\<rparr>)"
proof -
  let ?xs = "ChangeRegBPList cw" and ?n = "length (ChangeRegBPList cw)"
  let ?cw = "cw\<lparr>ChangeRegBPList := ?xs[i := (?xs ! i)\<lparr>cr_Active := False\<rparr>]\<rparr>"
  have other: "\<not> active_at pa (?xs ! j)" if "j < ?n" "j \<noteq> i" for j
    using ok i that unfolding unique_breakpoints_def active_at_def by metis
  have upt: "[0..<?n] = [0..<i] @ i # [Suc i..<?n]" using i(1) using upt_add_eq_append [of 0 i "?n - i"] by (simp add: upt_conv_Cons)
  have first: "fold (remove_step pa) [0..<i] (Inr (1, x, cw)) = Inr (1, x, cw)"
    using other i(1) by (intro remove_skip) simp
  have hit: "remove_step pa i (Inr (1, x, cw)) = Inr (0, set_byte (executable_byte c pa) (cr_originalbyte (?xs ! i)) x, ?cw)"
    using i(2) c by (simp add: remove_step_def active_at_def data_of_def Let_def)
  have "\<not> active_at pa (ChangeRegBPList ?cw ! j)" if "j \<in> set [Suc i..<?n]" for j
    using other [of j] that by simp
  then have rest: "fold (remove_step pa) [Suc i..<?n] (Inr (r, y, ?cw)) = Inr (r, y, ?cw)" for r y
    by (rule remove_skip)
  have "ept_cloak_removechangeregonbp pa (x, cw) = fold (remove_step pa) [0..<?n] (Inr (1, x, cw))"
    unfolding ept_cloak_removechangeregonbp_def remove_step_def by simp
  then show ?thesis unfolding upt by (simp add: first hit rest)
qed

lemma unique_deactivate: "unique_breakpoints xs \<Longrightarrow> unique_breakpoints (xs[i := b\<lparr>cr_Active := False\<rparr>])"
  unfolding unique_breakpoints_def active_at_def by (cases "i < length xs") (auto simp: nth_list_update split: if_splits)

text \<open>Removing keeps the page behind the breakpoints and leaves none at the address.\<close>

lemma remove_keeps_page:
  assumes ok: "breakpoints_ok x cw"
  obtains r x' xs where "ept_cloak_removechangeregonbp pa (x, cw) = Inr (r, x', cw\<lparr>ChangeRegBPList := xs\<rparr>)"
    "breakpoints_ok x' (cw\<lparr>ChangeRegBPList := xs\<rparr>)" "original_byte x' (cw\<lparr>ChangeRegBPList := xs\<rparr>) = original_byte x cw"
    "List.find (active_at pa) xs = None" "length xs = length (ChangeRegBPList cw)"
proof (cases "\<exists>i<length (ChangeRegBPList cw). active_at pa (ChangeRegBPList cw ! i)")
  case False
  then have "ept_cloak_removechangeregonbp pa (x, cw) = Inr (1, x, cw)" by (intro remove_none) blast
  moreover have "List.find (active_at pa) (ChangeRegBPList cw) = None" using False by (auto simp: find_none_nth)
  ultimately show thesis using that [of 1 x "ChangeRegBPList cw"] ok by simp
next
  case True
  let ?xs = "ChangeRegBPList cw"
  obtain i where i: "i < length ?xs" "active_at pa (?xs ! i)" using True by blast
  have uniq: "unique_breakpoints ?xs" and good: "\<forall>b\<in>set ?xs. cr_Active b \<longrightarrow> breakpoint_ok x cw b" using ok by (auto simp: breakpoints_ok_def)
  have at: "cr_Active (?xs ! i)" "cr_PhysicalAddress (?xs ! i) = pa" using i(2) by (auto simp: active_at_def)
  then have "breakpoint_ok x cw (?xs ! i)" using good i(1) by simp
  then obtain c where c: "cloak_data cw (cr_cloakdata (?xs ! i)) = Some c" "executable_byte c pa = pa"
    using at by (auto simp: breakpoint_ok_def)
  let ?ys = "?xs[i := (?xs ! i)\<lparr>cr_Active := False\<rparr>]" and ?x = "set_byte pa (cr_originalbyte (?xs ! i)) x"
  let ?cw = "cw\<lparr>ChangeRegBPList := ?ys\<rparr>"
  have res: "ept_cloak_removechangeregonbp pa (x, cw) = Inr (0, ?x, ?cw)" using remove_one [OF uniq i c(1)] c(2) by simp
  have gone: "\<not> active_at pa (?ys ! j)" if "j < length ?ys" for j
    using uniq i that by (cases "j = i") (auto simp: unique_breakpoints_def active_at_def)
  then have none: "List.find (active_at pa) ?ys = None" by (auto simp: find_none_nth)
  have "breakpoint_ok ?x ?cw b" if b: "b \<in> set ?ys" "cr_Active b" for b
  proof -
    obtain j where j: "j < length ?ys" "?ys ! j = b" using b(1) unfolding in_set_conv_nth by blast
    then have "j \<noteq> i" using b(2) by auto
    then have "b \<in> set ?xs" using j by auto
    then show ?thesis using good b(2) gone [OF j(1)] j(2) by (auto simp: breakpoint_ok_def active_at_def)
  qed
  then have bps: "breakpoints_ok ?x ?cw" using unique_deactivate [OF uniq] by (simp add: breakpoints_ok_def)
  have "original_byte ?x ?cw a = original_byte x cw a" for a
  proof (cases "a = pa")
    case True
    then show ?thesis using none find_unique [OF uniq i] by (simp add: original_byte_def)
  next
    case False
    then have "List.find (active_at a) ?ys = List.find (active_at a) ?xs" using at by (intro find_update_other) (auto simp: active_at_def)
    then show ?thesis using False by (simp add: original_byte_def split: option.splits)
  qed
  then have "original_byte ?x ?cw = original_byte x cw" by (rule ext)
  then show thesis using that [OF res bps _ none] by simp
qed

text \<open>A new entry takes the place of one that is not active, or goes to the end.\<close>

lemma add_changereg_cases:
  obtains (reuse) i where "i < length xs" "\<not> cr_Active (xs ! i)" "add_changereg e xs = xs[i := e]"
  | (append) "\<forall>b\<in>set xs. cr_Active b" "add_changereg e xs = xs @ [e]"
proof (cases "List.find (\<lambda>j. \<not> cr_Active (xs ! j)) [0..<length xs]")
  case None
  then have "\<forall>j<length xs. cr_Active (xs ! j)" by (simp add: find_none_nth)
  then have "\<forall>b\<in>set xs. cr_Active b" by (metis in_set_conv_nth)
  then show ?thesis using append None by (simp add: add_changereg_def)
next
  case (Some i)
  then have "i < length xs" "\<not> cr_Active (xs ! i)" by (auto simp: List.find_Some_iff)
  then show ?thesis using reuse [of i] Some by (simp add: add_changereg_def)
qed

lemma add_keeps_others:
  assumes "a \<noteq> cr_PhysicalAddress e"
  shows "List.find (active_at a) (add_changereg e xs) = List.find (active_at a) xs"
proof (cases rule: add_changereg_cases [of xs e])
  case (reuse i)
  then show ?thesis using assms find_update_other [of "active_at a" xs i e] by (simp add: active_at_def)
next
  case append
  have "\<not> active_at a e" using assms by (simp add: active_at_def)
  then have "List.find (active_at a) (ys @ [e]) = List.find (active_at a) ys" for ys by (induction ys) auto
  then show ?thesis using append by simp
qed

lemma add_unique:
  assumes "unique_breakpoints xs" and "List.find (active_at (cr_PhysicalAddress e)) xs = None" and "cr_Active e"
  shows "unique_breakpoints (add_changereg e xs) \<and> List.find (active_at (cr_PhysicalAddress e)) (add_changereg e xs) = Some e"
proof -
  have none: "\<not> active_at (cr_PhysicalAddress e) (xs ! j)" if "j < length xs" for j
    using assms(2) that by (auto simp: find_none_nth)
  have uniq: "unique_breakpoints (add_changereg e xs)"
  proof (cases rule: add_changereg_cases [of xs e])
    case (reuse i)
    then show ?thesis using assms none unfolding unique_breakpoints_def active_at_def
      by (auto simp: nth_list_update split: if_splits) metis
  next
    case append
    then show ?thesis using assms none unfolding unique_breakpoints_def active_at_def
      by (auto simp: nth_append less_Suc_eq) metis
  qed
  obtain i where "i < length (add_changereg e xs)" "add_changereg e xs ! i = e"
  proof (cases rule: add_changereg_cases [of xs e])
    case (reuse i)
    then show thesis using that [of i] by simp
  next
    case append
    then show thesis using that [of "length xs"] by simp
  qed
  then show ?thesis using uniq find_unique [OF uniq, of i "cr_PhysicalAddress e"] assms(3) by (simp add: active_at_def)
qed

section \<open>Histories of breakpoints\<close>

definition already_cloaked :: "cloak_env \<Rightarrow> cloak_world \<Rightarrow> u64 \<Rightarrow> bool" where
  "already_cloaked ce cw pa \<longleftrightarrow>
     first_run_check (cloak_MAXPHYADDR ce) (cloak_index cw) = Inr (cloak_index cw) \<and>
     (\<exists>h c. cloak_lookup (cloak_index cw) (cloak_base ce pa) = Inr (Some h) \<and> cloak_data cw h = Some c \<and> executable_byte c pa = pa)"

lemma cloak_base_idem [simp]: "cloak_base ce (cloak_base ce pa) = cloak_base ce pa"
  by (simp add: cloak_base_def and.assoc)

lemma activate_cloaked:
  "already_cloaked ce cw pa \<Longrightarrow> cloak_activate ce mem (cloak_base ce pa) mode (x, cw) = Inr (1, x, cw)"
  by (auto simp: already_cloaked_def cloak_activate_def Let_def)

lemma already_cloaked_cong:
  "cloak_index cw' = cloak_index cw \<Longrightarrow> cloak_data cw' = cloak_data cw \<Longrightarrow> already_cloaked ce cw' pa = already_cloaked ce cw pa"
  by (simp add: already_cloaked_def)

lemma set_keeps_page:
  assumes ok: "breakpoints_ok x cw" and cloaked: "already_cloaked ce cw pa"
  obtains x' xs where "ept_cloak_changeregonbp ce mem pa info (x, cw) = Inr (0, x', cw\<lparr>ChangeRegBPList := xs\<rparr>)"
    "breakpoints_ok x' (cw\<lparr>ChangeRegBPList := xs\<rparr>)" "original_byte x' (cw\<lparr>ChangeRegBPList := xs\<rparr>) = original_byte x cw"
proof -
  obtain h c where c: "cloak_lookup (cloak_index cw) (cloak_base ce pa) = Inr (Some h)" "cloak_data cw h = Some c" "executable_byte c pa = pa"
    using cloaked by (auto simp: already_cloaked_def)
  obtain r x1 xs where rm: "ept_cloak_removechangeregonbp pa (x, cw) = Inr (r, x1, cw\<lparr>ChangeRegBPList := xs\<rparr>)"
    "breakpoints_ok x1 (cw\<lparr>ChangeRegBPList := xs\<rparr>)" "original_byte x1 (cw\<lparr>ChangeRegBPList := xs\<rparr>) = original_byte x cw"
    "List.find (active_at pa) xs = None"
    using remove_keeps_page [OF ok] by metis
  let ?cw1 = "cw\<lparr>ChangeRegBPList := xs\<rparr>"
  define b where "b = \<lparr>cr_Active = True, cr_cloakdata = h, cr_PhysicalAddress = pa, cr_originalbyte = pmem (vm x1) pa, changereginfo = info\<rparr>"
  let ?x = "set_byte pa 0xcc x1" and ?ys = "add_changereg b xs"
  let ?cw = "cw\<lparr>ChangeRegBPList := ?ys\<rparr>"
  have "already_cloaked ce ?cw1 pa" using cloaked already_cloaked_cong [of ?cw1 cw] by simp
  then have res: "ept_cloak_changeregonbp ce mem pa info (x, cw) = Inr (0, ?x, ?cw)"
    using rm(1) c activate_cloaked [of ce ?cw1 pa mem 0 x1] by (simp add: ept_cloak_changeregonbp_def data_of_def b_def Let_def)
  have uniq: "unique_breakpoints ?ys" "List.find (active_at pa) ?ys = Some b"
    using add_unique [of xs b] rm(2,4) by (simp_all add: breakpoints_ok_def b_def)
  have "breakpoint_ok ?x ?cw e" if e: "e \<in> set ?ys" "cr_Active e" for e
  proof (cases "e = b")
    case True
    then show ?thesis using c by (simp add: breakpoint_ok_def b_def)
  next
    case False
    have "e \<in> set xs" using e(1) False
      by (cases rule: add_changereg_cases [of xs b]) (auto dest: set_update_subset_insert [THEN subsetD])
    then have "breakpoint_ok x1 ?cw1 e" using rm(2) e(2) by (simp add: breakpoints_ok_def)
    then show ?thesis by (auto simp: breakpoint_ok_def)
  qed
  then have bps: "breakpoints_ok ?x ?cw" using uniq(1) by (simp add: breakpoints_ok_def)
  have "original_byte ?x ?cw a = original_byte x1 ?cw1 a" for a
  proof (cases "a = pa")
    case True
    then show ?thesis using uniq(2) rm(4) by (simp add: original_byte_def b_def)
  next
    case False
    then show ?thesis using add_keeps_others [of a b xs] by (simp add: original_byte_def b_def split: option.splits)
  qed
  then have "original_byte ?x ?cw = original_byte x cw" unfolding rm(3) [symmetric] by (rule ext)
  then show thesis using that [OF res bps] by simp
qed

datatype breakpoint_op = Set_breakpoint u64 changereg_info | Remove_breakpoint u64

primrec op_address :: "breakpoint_op \<Rightarrow> u64" where
  "op_address (Set_breakpoint pa info) = pa"
| "op_address (Remove_breakpoint pa) = pa"

fun breakpoint_run :: "cloak_env \<Rightarrow> breakpoint_op list \<Rightarrow> exit_state \<times> cloak_world \<Rightarrow> (exit_state \<times> cloak_world) page_result" where
  "breakpoint_run ce [] xw = Inr xw"
| "breakpoint_run ce (Set_breakpoint pa info # ops) xw =
     (case ept_cloak_changeregonbp ce None pa info xw of Inl e \<Rightarrow> Inl e | Inr (r, xw) \<Rightarrow> breakpoint_run ce ops xw)"
| "breakpoint_run ce (Remove_breakpoint pa # ops) xw =
     (case ept_cloak_removechangeregonbp pa xw of Inl e \<Rightarrow> Inl e | Inr (r, xw) \<Rightarrow> breakpoint_run ce ops xw)"

lemma op_keeps_page:
  assumes ok: "breakpoints_ok x cw" and cloaked: "already_cloaked ce cw (op_address p)"
  obtains x1 xs where "breakpoint_run ce (p # ops) (x, cw) = breakpoint_run ce ops (x1, cw\<lparr>ChangeRegBPList := xs\<rparr>)"
    "breakpoints_ok x1 (cw\<lparr>ChangeRegBPList := xs\<rparr>)" "original_byte x1 (cw\<lparr>ChangeRegBPList := xs\<rparr>) = original_byte x cw"
proof (cases p)
  case (Set_breakpoint pa info)
  then have "already_cloaked ce cw pa" using cloaked by simp
  from set_keeps_page [OF ok this, of None info]
  obtain x' xs where "ept_cloak_changeregonbp ce None pa info (x, cw) = Inr (0, x', cw\<lparr>ChangeRegBPList := xs\<rparr>)"
    "breakpoints_ok x' (cw\<lparr>ChangeRegBPList := xs\<rparr>)" "original_byte x' (cw\<lparr>ChangeRegBPList := xs\<rparr>) = original_byte x cw"
    by metis
  then show thesis using that [of x' xs] Set_breakpoint by simp
next
  case (Remove_breakpoint pa)
  from remove_keeps_page [OF ok, of pa]
  obtain r x' xs where "ept_cloak_removechangeregonbp pa (x, cw) = Inr (r, x', cw\<lparr>ChangeRegBPList := xs\<rparr>)"
    "breakpoints_ok x' (cw\<lparr>ChangeRegBPList := xs\<rparr>)" "original_byte x' (cw\<lparr>ChangeRegBPList := xs\<rparr>) = original_byte x cw"
    by metis
  then show thesis using that [of x' xs] Remove_breakpoint by simp
qed

lemma run_keeps_page:
  "breakpoints_ok x cw \<Longrightarrow> \<forall>p\<in>set ops. already_cloaked ce cw (op_address p) \<Longrightarrow>
   \<exists>x' xs. breakpoint_run ce ops (x, cw) = Inr (x', cw\<lparr>ChangeRegBPList := xs\<rparr>) \<and>
     breakpoints_ok x' (cw\<lparr>ChangeRegBPList := xs\<rparr>) \<and> original_byte x' (cw\<lparr>ChangeRegBPList := xs\<rparr>) = original_byte x cw"
proof (induction ops arbitrary: x cw)
  case Nil
  then show ?case by (intro exI [of _ x] exI [of _ "ChangeRegBPList cw"]) simp
next
  case (Cons p ops)
  obtain x1 xs where one: "breakpoint_run ce (p # ops) (x, cw) = breakpoint_run ce ops (x1, cw\<lparr>ChangeRegBPList := xs\<rparr>)"
    "breakpoints_ok x1 (cw\<lparr>ChangeRegBPList := xs\<rparr>)" "original_byte x1 (cw\<lparr>ChangeRegBPList := xs\<rparr>) = original_byte x cw"
    using op_keeps_page [OF Cons.prems(1), of ce p ops] Cons.prems(2) by simp metis
  have "\<forall>p\<in>set ops. already_cloaked ce (cw\<lparr>ChangeRegBPList := xs\<rparr>) (op_address p)"
    using Cons.prems(2) already_cloaked_cong [of "cw\<lparr>ChangeRegBPList := xs\<rparr>" cw] by simp
  then show ?case using Cons.IH [OF one(2)] one by auto
qed

lemma page_with_breakpoints:
  assumes "breakpoints_ok x cw"
  shows "pmem (vm x) a = (if \<exists>b\<in>set (ChangeRegBPList cw). active_at a b then 0xcc else original_byte x cw a)"
proof (cases "List.find (active_at a) (ChangeRegBPList cw)")
  case None
  then have "\<not> (\<exists>b\<in>set (ChangeRegBPList cw). active_at a b)" unfolding find_none_nth by (metis in_set_conv_nth)
  then show ?thesis using None by (simp add: original_byte_def)
next
  case (Some b)
  then have b: "b \<in> set (ChangeRegBPList cw)" "active_at a b" by (auto simp: List.find_Some_iff)
  then have "pmem (vm x) a = 0xcc" using assms by (auto simp: breakpoints_ok_def breakpoint_ok_def active_at_def)
  then show ?thesis using b by auto
qed

text \<open>The breakpoint that is hit is the one that is active at the address.\<close>

lemma changereg_found:
  assumes "unique_breakpoints (ChangeRegBPList cw)" and "i < length (ChangeRegBPList cw)" and "active_at PA (ChangeRegBPList cw ! i)"
  shows "changereg_breakpoint ce PA (x, cw) =
    (case hit_changereg ce i (vmread vm_guest_rip (vm x)) (x, cw) of Inl e \<Rightarrow> Inl e | Inr r \<Rightarrow> Inr (True, r))"
proof -
  have "\<not> active_at PA (ChangeRegBPList cw ! j)" if "j < i" for j
    using assms that unfolding unique_breakpoints_def active_at_def by (metis nat_less_le order.strict_trans)
  then have "List.find (\<lambda>i. cr_PhysicalAddress (ChangeRegBPList cw ! i) = PA \<and> cr_Active (ChangeRegBPList cw ! i))
      [0..<length (ChangeRegBPList cw)] = Some i"
    using assms(2,3) by (auto simp: List.find_Some_iff active_at_def intro!: exI [of _ i])
  then show ?thesis by (simp add: changereg_breakpoint_def)
qed

lemma registers_set_byte [simp]: "registers (set_byte a b x) = registers x"
  by (simp add: registers_def set_byte_def Let_def)

lemma change_registers_rip:
  "\<not> bit (cr_Flags info) 8 \<Longrightarrow> vmread vm_guest_rip (vm (change_registers info x)) = vmread vm_guest_rip (vm x)"
  by (simp add: change_registers_def Let_def)

lemma rip_single_step [simp]:
  "vmread vm_guest_rip (vm (snd (vmx_enableSingleStepMode se x))) = vmread vm_guest_rip (vm x)"
  by (simp add: vmx_enableSingleStepMode_def vmx_enableProcBasedFeature_def Let_def)

section \<open>Example\<close>

text \<open>One processor, one cloaked page at \<open>0x5000\<close>, and a breakpoint at \<open>0x5004\<close> that sets \<open>rax\<close> and the zero flag.\<close>

definition example_info :: changereg_info where
  "example_info = \<lparr>cr_Flags = 0x4100001, changeXMM = 0, changeFP = 0, newRegs = replicate 17 7, newFP = [], newXMM = []\<rparr>"

definition example_breakpoint :: changereg_entry where
  "example_breakpoint = \<lparr>cr_Active = True, cr_cloakdata = 0, cr_PhysicalAddress = 0x5004, cr_originalbyte = 0x90, changereginfo = example_info\<rparr>"

definition example_page :: cloaked_page where
  "example_page = \<lparr>PhysicalAddressExecutable = 0x5000, PhysicalAddressData = 0x9000, CloakMode = 0, eptentry = [0x103028]\<rparr>"

definition example_cloaks :: cloak_world where
  "example_cloaks = \<lparr>
     cloak_index = \<lparr>CloakedPagesList = Some \<lparr>al_entries = [\<lparr>address = 0x5000, entry_data = 0\<rparr>], al_capacity = 32, al_bytes = 512\<rparr>,
       CloakedPagesMap = None, cloak_mem = 0\<rparr>,
     cloak_data = (\<lambda>_. None)(0 := Some example_page),
     cloak_cpus = [\<lparr>cpu_EPTPML4 = 0x100000, cpu_eptUpdated = False, eptCloak_LastOperationWasWrite = False, eptCloak_LastWriteOffset = 0\<rparr>],
     cloak_ept = example_ept, ChangeRegBPList = [example_breakpoint], TraceOnBP = None\<rparr>"

definition example_cloak_env :: cloak_env where
  "example_cloak_env = \<lparr>cloak_config = example_config, execute_only = True, cloak_vm_env = blank_env True,
     cloak_step_env = example_step, cloak_MAXPHYADDR = 36\<rparr>"

definition example_patched :: exit_state where
  "example_patched = set_byte 0x5004 0xcc example_exit"

lemma example_lookup:
  "cloak_lookup (cloak_index example_cloaks) 0x5000 = Inr (Some 0)"
  "first_run_check n (cloak_index example_cloaks) = Inr (cloak_index example_cloaks)"
  by (simp_all add: example_cloaks_def cloak_lookup_def first_run_check_def addresslist_find_def al_size_def search_loop.simps Let_def
      MAXCLOAKLISTBEFORETRANFERTOMAP_def)

lemma example_world:
  "ChangeRegBPList example_cloaks = [example_breakpoint]" "cloak_data example_cloaks 0 = Some example_page" "TraceOnBP example_cloaks = None"
  by (simp_all add: example_cloaks_def)

lemma example_cloaked: "pa AND 0xFFFFFF000 = 0x5000 \<Longrightarrow> 0x5000 + (pa AND 0xfff) = pa \<Longrightarrow> already_cloaked example_cloak_env example_cloaks pa"
  by (auto simp: already_cloaked_def example_lookup cloak_base_def example_cloak_env_def example_config_def executable_byte_def
      example_world example_page_def)

lemma example_breakpoints_ok: "breakpoints_ok example_patched example_cloaks"
  by (simp add: breakpoints_ok_def unique_breakpoints_def breakpoint_ok_def example_cloaks_def example_breakpoint_def example_patched_def
      executable_byte_def example_page_def)

section \<open>Properties\<close>

text \<open>
  C10: Whatever breakpoints are set and removed in cloaked pages, in any order and more than once at an address, the
  page behind them stays as it was: each byte is \<open>int3\<close> where a breakpoint is active, and else the byte it was
  at the start, so that nothing is left when all are removed.
\<close>

theorem breakpoints_keep_page:
  assumes "breakpoints_ok x cw" and "\<forall>p\<in>set ops. already_cloaked ce cw (op_address p)"
  shows "\<exists>x' cw'. breakpoint_run ce ops (x, cw) = Inr (x', cw') \<and> breakpoints_ok x' cw' \<and>
    (\<forall>a. pmem (vm x') a = (if \<exists>b\<in>set (ChangeRegBPList cw'). active_at a b then 0xcc else original_byte x cw a))"
proof -
  obtain x' xs where r: "breakpoint_run ce ops (x, cw) = Inr (x', cw\<lparr>ChangeRegBPList := xs\<rparr>)"
    "breakpoints_ok x' (cw\<lparr>ChangeRegBPList := xs\<rparr>)" "original_byte x' (cw\<lparr>ChangeRegBPList := xs\<rparr>) = original_byte x cw"
    using run_keeps_page [OF assms] by blast
  show ?thesis
    using r(1,2) page_with_breakpoints [OF r(2)] unfolding r(3)
    by (intro exI [of _ x'] exI [of _ "cw\<lparr>ChangeRegBPList := xs\<rparr>"]) simp
qed

theorem breakpoints_keep_page_witness:
  "\<exists>x' cw'. breakpoint_run example_cloak_env [Set_breakpoint 0x5008 example_info, Remove_breakpoint 0x5004, Set_breakpoint 0x5008 example_info]
      (example_patched, example_cloaks) = Inr (x', cw') \<and> breakpoints_ok x' cw' \<and>
    (\<forall>a. pmem (vm x') a = (if \<exists>b\<in>set (ChangeRegBPList cw'). active_at a b then 0xcc
      else if a = 0x5004 then 0x90 else pmem (vm example_exit) a))"
proof -
  have orig: "original_byte example_patched example_cloaks = (\<lambda>a. if a = 0x5004 then 0x90 else pmem (vm example_exit) a)"
    by (rule ext) (simp add: original_byte_def example_cloaks_def example_breakpoint_def active_at_def example_patched_def)
  have "\<forall>p\<in>set [Set_breakpoint 0x5008 example_info, Remove_breakpoint 0x5004, Set_breakpoint 0x5008 example_info].
      already_cloaked example_cloak_env example_cloaks (op_address p)"
    by (simp add: example_cloaked)
  from breakpoints_keep_page [OF example_breakpoints_ok this] show ?thesis unfolding orig .
qed

text \<open>
  C20: A breakpoint that does not change \<open>rip\<close> changes the other registers and takes the original byte back into the page, and the
  processor is in single-step mode at the same instruction, with the breakpoint as the reason; after that step the breakpoint is back,
  and the memory as before.
\<close>

theorem breakpoint_step_roundtrip:
  assumes "breakpoints_ok x cw" and "i < length (ChangeRegBPList cw)" and "active_at PA (ChangeRegBPList cw ! i)"
    and "\<not> bit (cr_Flags (changereginfo (ChangeRegBPList cw ! i))) 8"
    and "cloak_data cw (cr_cloakdata (ChangeRegBPList cw ! i)) = Some c" and "PhysicalAddressExecutable c = cloak_base ce PA"
    and "getPhysicalAddressVM (cloak_vm_env ce) (vm x) (vmread vm_guest_rip (vm x)) = Some PA"
    and "\<not> fst (handle_thread_breakpoint (cloak_step_env ce) (x, ts))" and "\<forall>t. TraceOnBP cw = Some t \<longrightarrow> trace_PhysicalAddress t \<noteq> PA"
  shows "\<exists>x1. ept_handleSoftwareBreakpoint ce (x, ts, cw) = Inr (True, x1, ts, cw) \<and>
    registers x1 = registers (change_registers (changereginfo (ChangeRegBPList cw ! i)) x) \<and>
    vmread vm_guest_rip (vm x1) = vmread vm_guest_rip (vm x) \<and> pmem (vm x1) = (pmem (vm x))(PA := original_byte x cw PA) \<and>
    stepping (cloak_step_env ce) x1 \<and> step_Reasons x1 = step_Reasons x @ [SSR_HANDLESOFTWAREBREAKPOINT i] \<and>
    (pmem (vm x2) = pmem (vm x1) \<longrightarrow>
      (\<exists>x3. ept_handleSoftwareBreakpointAfterStep ce i (x2, cw) = Inr (x3, cw) \<and> pmem (vm x3) = pmem (vm x)))"
proof -
  let ?xs = "ChangeRegBPList cw"
  have uniq: "unique_breakpoints ?xs" and ok: "breakpoint_ok x cw (?xs ! i)"
    using assms(1-3) by (auto simp: breakpoints_ok_def active_at_def)
  have at: "cr_Active (?xs ! i)" "cr_PhysicalAddress (?xs ! i) = PA" using assms(3) by (simp_all add: active_at_def)
  have byte: "executable_byte c PA = PA" "pmem (vm x) PA = 0xcc" using ok assms(5) at by (auto simp: breakpoint_ok_def)
  have orig: "original_byte x cw PA = cr_originalbyte (?xs ! i)"
    using find_unique [OF uniq assms(2,3)] by (simp add: original_byte_def)
  define x1 where "x1 = vm_set vm_guest_interruptability_state 2 (vmx_addSingleSteppingReason (SSR_HANDLESOFTWAREBREAKPOINT i)
    (snd (vmx_enableSingleStepMode (cloak_step_env ce) (set_byte PA (cr_originalbyte (?xs ! i)) (change_registers (changereginfo (?xs ! i)) x)))))"
  have "changereg_breakpoint ce PA (x, cw) = Inr (True, x1, cw)"
    using changereg_found [OF uniq assms(2,3)] assms(4,5) at byte by (simp add: hit_changereg_def Let_def data_of_def x1_def)
  moreover have "handle_thread_breakpoint (cloak_step_env ce) (x, ts) = (False, x, ts)"
    using assms(8) by (auto simp: handle_thread_breakpoint_def split: if_splits option.splits)
  moreover have "\<not> (\<exists>t. TraceOnBP cw = Some t \<and> trace_PhysicalAddress t = PA)" using assms(9) by blast
  ultimately have hit: "ept_handleSoftwareBreakpoint ce (x, ts, cw) = Inr (True, x1, ts, cw)"
    using assms(7) by (auto simp: ept_handleSoftwareBreakpoint_def)
  have regs: "registers x1 = registers (change_registers (changereginfo (?xs ! i)) x)" by (simp add: x1_def)
  have rip: "vmread vm_guest_rip (vm x1) = vmread vm_guest_rip (vm x)"
    using change_registers_rip [OF assms(4), of x] by (simp add: x1_def)
  show ?thesis
    using hit regs rip assms(6) at byte orig
    by (auto simp: x1_def stepping_enabled data_of_def assms(5) ept_handleSoftwareBreakpointAfterStep_def Let_def fun_upd_idem)
qed

text \<open>The processor is at the breakpoint of the example, and no thread is stopped.\<close>

definition example_hit :: exit_state where
  "example_hit = vm_set vm_guest_rip 0x5004 example_patched"

theorem breakpoint_step_roundtrip_witness:
  "\<exists>x1. ept_handleSoftwareBreakpoint example_cloak_env (example_hit, no_threads, example_cloaks) = Inr (True, x1, no_threads, example_cloaks) \<and>
     vmread vm_guest_rip (vm x1) = 0x5004 \<and> pmem (vm x1) 0x5004 = 0x90 \<and> step_Method x1 = 1 \<and>
     (\<exists>x3. ept_handleSoftwareBreakpointAfterStep example_cloak_env 0 (x1, example_cloaks) = Inr (x3, example_cloaks) \<and>
        pmem (vm x3) = pmem (vm example_hit))"
proof -
  note l = example_world
  have ok: "breakpoints_ok example_hit example_cloaks"
    using example_breakpoints_ok by (simp add: breakpoints_ok_def breakpoint_ok_def example_hit_def)
  have b: "active_at 0x5004 example_breakpoint" "\<not> bit (cr_Flags (changereginfo example_breakpoint)) 8" "cr_cloakdata example_breakpoint = 0"
    "PhysicalAddressExecutable example_page = cloak_base example_cloak_env 0x5004"
    by (simp_all add: active_at_def example_breakpoint_def example_info_def example_page_def cloak_base_def example_cloak_env_def
        example_config_def bit_iff_odd)
  have orig: "original_byte example_hit example_cloaks 0x5004 = 0x90"
    by (simp add: original_byte_def l b(1)) (simp add: example_breakpoint_def)
  have rip: "vmread vm_guest_rip (vm example_hit) = 0x5004" by (simp add: example_hit_def)
  have "vmread vm_guest_cr0 (vm example_exit) = 0" by (simp add: example_exit_def blank_state_def vmread_def)
  then have cr0: "vmread vm_guest_cr0 (vm example_hit) = 0" by (simp add: example_hit_def example_patched_def)
  have at: "getPhysicalAddressVM (cloak_vm_env example_cloak_env) (vm example_hit) (vmread vm_guest_rip (vm example_hit)) = Some 0x5004"
    unfolding rip
    using cr0 by (simp add: getPhysicalAddressVM_def guest_paged_def example_cloak_env_def blank_env_def)
  have none: "\<not> fst (handle_thread_breakpoint (cloak_step_env example_cloak_env) (example_hit, no_threads))"
    by (simp add: handle_thread_breakpoint_def)
  have step: "\<exists>x1. ept_handleSoftwareBreakpoint example_cloak_env (example_hit, no_threads, example_cloaks) =
        Inr (True, x1, no_threads, example_cloaks) \<and>
      registers x1 = registers (change_registers (changereginfo example_breakpoint) example_hit) \<and>
      vmread vm_guest_rip (vm x1) = 0x5004 \<and> pmem (vm x1) = (pmem (vm example_hit))(0x5004 := 0x90) \<and>
      stepping (cloak_step_env example_cloak_env) x1 \<and> step_Reasons x1 = step_Reasons example_hit @ [SSR_HANDLESOFTWAREBREAKPOINT 0] \<and>
      (pmem (vm x2) = pmem (vm x1) \<longrightarrow>
        (\<exists>x3. ept_handleSoftwareBreakpointAfterStep example_cloak_env 0 (x2, example_cloaks) = Inr (x3, example_cloaks) \<and>
          pmem (vm x3) = pmem (vm example_hit)))" for x2
    using breakpoint_step_roundtrip [OF ok _ _ _ _ _ at none, of 0 example_page x2] l b orig rip by simp
  obtain x1 where x1: "ept_handleSoftwareBreakpoint example_cloak_env (example_hit, no_threads, example_cloaks) =
      Inr (True, x1, no_threads, example_cloaks)" using step by blast
  have "stepping (cloak_step_env example_cloak_env) x1" using step [of x1] x1 by auto
  then have "step_Method x1 = 1"
    by (simp add: stepping_def example_cloak_env_def example_step_def bit_iff_odd_drop_bit [of "0x8000000"])
  then show ?thesis using step [of x1] x1 by auto
qed

text \<open>
  C21: A trace that is started at an address with a breakpoint takes the \<open>int3\<close> for the original byte. When the breakpoint is
  removed first and the trace after it, the \<open>int3\<close> stays in the page, and nothing handles it any more.
\<close>

theorem trace_leaves_breakpoint:
  assumes "breakpoints_ok x cw" and "i < length (ChangeRegBPList cw)" and "active_at pa (ChangeRegBPList cw ! i)"
    and "already_cloaked ce cw pa" and "TraceOnBP cw = None"
    and "ept_cloak_traceonbp ce mem True pa flags n (x, cw) = Inr (0, x1, cw1)"
    and "ept_cloak_removechangeregonbp pa (x1, cw1) = Inr (r2, x2, cw2)"
    and "ept_cloak_traceonbp_remove False (x2, cw2) = Inr (r3, x3, cw3)"
  shows "pmem (vm x3) pa = 0xcc \<and> TraceOnBP cw3 = None \<and> (\<forall>b\<in>set (ChangeRegBPList cw3). \<not> active_at pa b)"
proof -
  let ?xs = "ChangeRegBPList cw"
  have uniq: "unique_breakpoints ?xs" and ok: "breakpoint_ok x cw (?xs ! i)"
    using assms(1-3) by (auto simp: breakpoints_ok_def active_at_def)
  have at: "cr_PhysicalAddress (?xs ! i) = pa" using assms(3) by (simp add: active_at_def)
  obtain d where d: "cloak_data cw (cr_cloakdata (?xs ! i)) = Some d" "executable_byte d pa = pa" "pmem (vm x) pa = 0xcc"
    using ok at by (auto simp: breakpoint_ok_def)
  obtain h c where c: "cloak_lookup (cloak_index cw) (cloak_base ce pa) = Inr (Some h)" "cloak_data cw h = Some c" "executable_byte c pa = pa"
    using assms(4) by (auto simp: already_cloaked_def)
  have "ept_cloak_traceonbp_remove False (x, cw) = Inr (0, x, cw)" using assms(5) by (simp add: ept_cloak_traceonbp_remove_def)
  then obtain t where t: "cw1 = cw\<lparr>TraceOnBP := Some t\<rparr>" "x1 = set_byte pa 0xcc x"
    "\<not> triggered t" "trace_cloakdata t = h" "trace_PhysicalAddress t = pa" "trace_originalbyte t = 0xcc"
    using assms(6) c d(3) activate_cloaked [OF assms(4), of mem 0 x]
    by (auto simp: ept_cloak_traceonbp_def data_of_def Let_def split: if_splits)
  have "x2 = set_byte pa (cr_originalbyte (?xs ! i)) x1" "cw2 = cw1\<lparr>ChangeRegBPList := ?xs[i := (?xs ! i)\<lparr>cr_Active := False\<rparr>]\<rparr>"
    using remove_one [of cw1 i pa d x1] uniq assms(2,3,7) d(1,2) t(1) by auto
  then have end_: "x3 = set_byte pa 0xcc x2" "cw3 = cw2\<lparr>TraceOnBP := None\<rparr>" "ChangeRegBPList cw2 = ?xs[i := (?xs ! i)\<lparr>cr_Active := False\<rparr>]"
    using assms(8) t c by (auto simp: ept_cloak_traceonbp_remove_def restore_traced_def data_of_def)
  have "\<not> active_at pa (?xs[i := (?xs ! i)\<lparr>cr_Active := False\<rparr>] ! j)" if "j < length ?xs" for j
    using uniq assms(2,3) that by (cases "j = i") (auto simp: unique_breakpoints_def active_at_def)
  then show ?thesis using end_ by (auto simp: in_set_conv_nth)
qed

theorem trace_leaves_breakpoint_witness:
  "\<exists>x1 cw1 r2 x2 cw2 r3 x3 cw3.
     ept_cloak_traceonbp example_cloak_env None True 0x5004 0 3 (example_patched, example_cloaks) = Inr (0, x1, cw1) \<and>
     ept_cloak_removechangeregonbp 0x5004 (x1, cw1) = Inr (r2, x2, cw2) \<and>
     ept_cloak_traceonbp_remove False (x2, cw2) = Inr (r3, x3, cw3) \<and> pmem (vm x3) 0x5004 = 0xcc"
proof -
  note l = example_world
  have b: "active_at 0x5004 example_breakpoint" "cr_cloakdata example_breakpoint = 0" "executable_byte example_page 0x5004 = 0x5004"
    by (simp_all add: active_at_def example_breakpoint_def example_page_def executable_byte_def)
  have base: "cloak_base example_cloak_env 0x5004 = 0x5000" by (simp add: cloak_base_def example_cloak_env_def example_config_def)
  have cloaked: "already_cloaked example_cloak_env example_cloaks 0x5004" by (simp add: example_cloaked)
  have look: "cloak_lookup (cloak_index example_cloaks) 0x5000 = Inr (Some 0)"
    by (rule example_lookup)
  obtain x1 cw1 t where 1: "ept_cloak_traceonbp example_cloak_env None True 0x5004 0 3 (example_patched, example_cloaks) = Inr (0, x1, cw1)"
    "cw1 = example_cloaks\<lparr>TraceOnBP := Some t\<rparr>" "\<not> triggered t" "trace_cloakdata t = 0"
    using activate_cloaked [OF cloaked, of None 0 example_patched] l base look
    by (simp add: ept_cloak_traceonbp_def ept_cloak_traceonbp_remove_def data_of_def Let_def trace_type_def trace_bytes_def sizeof_event_def)
  have "unique_breakpoints (ChangeRegBPList cw1)" by (simp add: 1(2) l unique_breakpoints_def)
  then obtain r2 x2 cw2 where 2: "ept_cloak_removechangeregonbp 0x5004 (x1, cw1) = Inr (r2, x2, cw2)"
    "TraceOnBP cw2 = Some t" "cloak_data cw2 0 = Some example_page"
    using remove_one [of cw1 0 "0x5004" example_page x1] 1(2) l b by simp
  obtain r3 x3 cw3 where 3: "ept_cloak_traceonbp_remove False (x2, cw2) = Inr (r3, x3, cw3)"
    using 1(3,4) 2(2,3) by (simp add: ept_cloak_traceonbp_remove_def restore_traced_def data_of_def)
  have "pmem (vm x3) 0x5004 = 0xcc"
    using trace_leaves_breakpoint [OF example_breakpoints_ok _ _ cloaked l(3) 1(1) 2(1) 3, of 0] l b(1) by simp
  then show ?thesis using 1(1) 2(1) 3 by blast
qed

end
