(* ===== verification/CloakTrace.thy ===== *)
theory CloakTrace
  imports CloakBreakpoints
begin

text \<open>
  The trace that a breakpoint in a cloaked page starts: what it records, when it stops, and that it does not
  refuse the step its log has no room for.
\<close>

section \<open>Recording\<close>

text \<open>A running trace of \<open>n\<close> entries with \<open>k\<close> of them written; the end is noticed by the second entry at the earliest.\<close>

definition tracing :: "nat \<Rightarrow> nat \<Rightarrow> trace \<Rightarrow> bool" where
  "tracing n k t \<longleftrightarrow> triggered t \<and> length (trace_pe t) = k \<and> trace_count t = of_nat n - of_nat k \<and>
     trace_room t = 80 + sizeof_event (trace_datatype t) * n \<and> shouldquit t = (2 \<le> k \<and> k = n) \<and> finished t = (2 \<le> k \<and> k = n)"

lemma sizeof_event_large: "256 \<le> sizeof_event t"
  by (simp add: sizeof_event_def)

lemma record_trace_room:
  assumes "recordState env (trace_datatype t) x = Some e" and "trace_room t = 80 + sizeof_event (trace_datatype t) * n"
  shows "record_trace env x t = (if length (trace_pe t) < n then Inr (t\<lparr>trace_pe := trace_pe t @ [e], trace_count := trace_count t - 1\<rparr>)
    else Inl BeyondTrace)"
proof (cases "length (trace_pe t) < n")
  case True
  then have "sizeof_event (trace_datatype t) * (length (trace_pe t) + 1) \<le> sizeof_event (trace_datatype t) * n"
    by (intro mult_le_mono2) simp
  then have "\<not> trace_room t < sizeof_event (trace_datatype t) * (length (trace_pe t) + 1)" unfolding assms(2) by linarith
  then show ?thesis using True assms(1) by (simp add: record_trace_def)
next
  case False
  then have "sizeof_event (trace_datatype t) * n \<le> sizeof_event (trace_datatype t) * length (trace_pe t)"
    by (intro mult_le_mono2) simp
  then have "trace_room t < sizeof_event (trace_datatype t) * (length (trace_pe t) + 1)"
    unfolding assms(2) add_mult_distrib2 using sizeof_event_large [of "trace_datatype t"] by linarith
  then show ?thesis using False assms(1) by (simp add: record_trace_def)
qed

lemma count_left:
  fixes c :: u32
  assumes "c = of_nat n - of_nat k" and "k \<le> n" and "n < 2 ^ 31"
  shows "sint c \<le> 0 \<longleftrightarrow> k = n"
proof -
  define m where "m = n - k"
  have m: "m < 2 ^ 31" "c = word_of_int (int m)" "m = 0 \<longleftrightarrow> k = n" using assms by (auto simp: m_def of_nat_diff)
  have "sint (word_of_int (int m) :: u32) = signed_take_bit 31 (int m)" by (simp only: sint_sbintrunc') simp
  also have "\<dots> = int m" using m(1) by (intro signed_take_bit_int_eq_self) auto
  finally show ?thesis using m by simp
qed

text \<open>The trap flag: the next instruction of the thread is a step of the trace.\<close>

definition trap_flag :: "exit_state \<Rightarrow> bool" where
  "trap_flag x \<longleftrightarrow> bit (vmread vm_guest_rflags (vm x)) 8"

text \<open>One step of the traced thread, which is the last one exactly when it takes the trap flag away.\<close>

lemma trace_step:
  assumes t: "TraceOnBP cw = Some t" and traced: "is_traced t x" and ok: "tracing n k t" and k: "0 < k" "k < n" "n < 2 ^ 31"
    and rec: "recordState (cloak_vm_env ce) (trace_datatype t) x = Some e"
  obtains x' t' where "ept_handleHardwareBreakpoint ce (x, cw) = Inr (True, x', cw\<lparr>TraceOnBP := Some t'\<rparr>)"
    "tracing n (Suc k) t'" "trace_pe t' = trace_pe t @ [e]" "trace_datatype t' = trace_datatype t" "is_traced t' = is_traced t"
    "trap_flag x' \<longleftrightarrow> Suc k \<noteq> n"
proof -
  define t1 where "t1 = t\<lparr>trace_pe := trace_pe t @ [e], trace_count := trace_count t - 1\<rparr>"
  have r: "record_trace (cloak_vm_env ce) x t = Inr t1"
    using record_trace_room [OF rec, of n] ok k by (simp add: tracing_def t1_def)
  have count: "trace_count t1 = of_nat n - of_nat (Suc k)" using ok by (simp add: tracing_def t1_def)
  then have left: "sint (trace_count t1) \<le> 0 \<longleftrightarrow> Suc k = n" using count_left [OF count] k by simp
  define t2 where "t2 = (if Suc k = n then t1\<lparr>shouldquit := True, finished := True\<rparr> else t1)"
  have quit: "\<not> shouldquit t1" using ok k by (simp add: tracing_def t1_def)
  have step: "\<exists>x'. ept_handleHardwareBreakpoint ce (x, cw) = Inr (True, x', cw\<lparr>TraceOnBP := Some t2\<rparr>) \<and> (trap_flag x' \<longleftrightarrow> Suc k \<noteq> n)"
    using t traced r left quit by (simp add: ept_handleHardwareBreakpoint_def Let_def t2_def trap_flag_def bit_simps)
  have "tracing n (Suc k) t2" using ok k count by (auto simp: tracing_def t1_def t2_def)
  moreover have "trace_pe t2 = trace_pe t @ [e]" "trace_datatype t2 = trace_datatype t" "is_traced t2 = is_traced t"
    by (simp_all add: t1_def t2_def is_traced_def fun_eq_iff)
  ultimately show thesis using step that by blast
qed

lemma trace_step_beyond:
  assumes "TraceOnBP cw = Some t" and "is_traced t x" and "tracing n n t"
    and "recordState (cloak_vm_env ce) (trace_datatype t) x \<noteq> None"
  shows "ept_handleHardwareBreakpoint ce (x, cw) = Inl BeyondTrace"
proof -
  obtain e where e: "recordState (cloak_vm_env ce) (trace_datatype t) x = Some e" using assms(4) by blast
  show ?thesis using record_trace_room [OF e, of n] assms(1-3) by (simp add: ept_handleHardwareBreakpoint_def tracing_def)
qed

section \<open>Histories of steps\<close>

text \<open>The single steps of the traced thread, each from the state of its exit to the one the thread goes on with.\<close>

fun trace_steps :: "cloak_env \<Rightarrow> exit_state list \<Rightarrow> cloak_world \<Rightarrow> (exit_state list \<times> cloak_world) page_result" where
  "trace_steps ce [] cw = Inr ([], cw)"
| "trace_steps ce (x # xs) cw =
     (case ept_handleHardwareBreakpoint ce (x, cw) of Inl e \<Rightarrow> Inl e
      | Inr (_, x, cw) \<Rightarrow> map_sum id (apfst ((#) x)) (trace_steps ce xs cw))"

definition steps_of :: "cloak_env \<Rightarrow> trace \<Rightarrow> exit_state list \<Rightarrow> bool" where
  "steps_of ce t xs \<longleftrightarrow> (\<forall>y\<in>set xs. is_traced t y \<and> recordState (cloak_vm_env ce) (trace_datatype t) y \<noteq> None)"

lemma trace_steps_within:
  assumes "steps_of ce t xs" and "TraceOnBP cw = Some t" and "tracing n k t" and "0 < k" and "k + length xs \<le> n" and "n < 2 ^ 31"
  shows "\<exists>ys cw' t'. trace_steps ce xs cw = Inr (ys, cw') \<and> TraceOnBP cw' = Some t' \<and> tracing n (k + length xs) t' \<and>
    map trap_flag ys = map (\<lambda>i. i \<noteq> n) [Suc k..<Suc (k + length xs)] \<and>
    map Some (trace_pe t') = map Some (trace_pe t) @ map (recordState (cloak_vm_env ce) (trace_datatype t)) xs \<and>
    trace_datatype t' = trace_datatype t \<and> is_traced t' = is_traced t"
  using assms
proof (induction xs arbitrary: cw t k)
  case (Cons x xs)
  obtain e where e: "recordState (cloak_vm_env ce) (trace_datatype t) x = Some e" and traced: "is_traced t x"
    using Cons.prems(1) by (auto simp: steps_of_def)
  obtain x' t1 where one: "ept_handleHardwareBreakpoint ce (x, cw) = Inr (True, x', cw\<lparr>TraceOnBP := Some t1\<rparr>)"
    "tracing n (Suc k) t1" "trace_pe t1 = trace_pe t @ [e]" "trace_datatype t1 = trace_datatype t" "is_traced t1 = is_traced t" "trap_flag x' \<longleftrightarrow> Suc k \<noteq> n"
    using trace_step [OF Cons.prems(2) traced Cons.prems(3,4) _ Cons.prems(6) e] Cons.prems(5) by auto
  have "steps_of ce t1 xs" using Cons.prems(1) one(4,5) by (simp add: steps_of_def)
  then obtain ys cw' t' where rest: "trace_steps ce xs (cw\<lparr>TraceOnBP := Some t1\<rparr>) = Inr (ys, cw')" "TraceOnBP cw' = Some t'"
    "tracing n (Suc k + length xs) t'" "map trap_flag ys = map (\<lambda>i. i \<noteq> n) [Suc (Suc k)..<Suc (Suc k + length xs)]"
    "map Some (trace_pe t') = map Some (trace_pe t1) @ map (recordState (cloak_vm_env ce) (trace_datatype t1)) xs"
    "trace_datatype t' = trace_datatype t1" "is_traced t' = is_traced t1"
    using Cons.IH [of t1 "cw\<lparr>TraceOnBP := Some t1\<rparr>" "Suc k"] one(2) Cons.prems(5,6) by auto
  have "map trap_flag (x' # ys) = map (\<lambda>i. i \<noteq> n) [Suc k..<Suc (k + length (x # xs))]"
    using rest(4) one(6) upt_conv_Cons [of "Suc k" "Suc (k + length (x # xs))"] by simp
  then show ?case using rest one e
    by (intro exI [of _ "x' # ys"] exI [of _ cw'] exI [of _ t']) simp
qed simp

lemma trace_steps_append:
  "trace_steps ce (xs @ ys) cw =
    (case trace_steps ce xs cw of Inl e \<Rightarrow> Inl e | Inr (zs, cw) \<Rightarrow> map_sum id (apfst ((@) zs)) (trace_steps ce ys cw))"
proof (induction xs arbitrary: cw)
  case Nil
  show ?case by (cases "trace_steps ce ys cw") auto
next
  case (Cons x xs)
  have shift: "(@) (z # zs) = (\<lambda>us. z # zs @ us)" for z and zs :: "exit_state list" by (rule ext) simp
  show ?case
    by (cases "ept_handleHardwareBreakpoint ce (x, cw)")
      (auto simp: shift id_def Cons.IH sum.map_comp map_prod.compositionality apfst_def o_def split: sum.splits prod.splits)
qed

lemma trace_steps_beyond:
  assumes xs: "steps_of ce t xs" and "TraceOnBP cw = Some t" and "tracing n k t" and "0 < k" "k \<le> n" "n < 2 ^ 31"
    and long: "n < k + length xs"
  shows "trace_steps ce xs cw = Inl BeyondTrace"
proof -
  define m where "m = n - k"
  have m: "m < length xs" "k + m = n" using assms(5) long by (simp_all add: m_def)
  obtain y ys where split: "xs = take m xs @ y # ys" using m(1) id_take_nth_drop by blast
  have "steps_of ce t (take m xs @ y # ys)" using xs split by simp
  then have parts: "steps_of ce t (take m xs)" "is_traced t y" "recordState (cloak_vm_env ce) (trace_datatype t) y \<noteq> None"
    by (simp_all add: steps_of_def)
  obtain zs cw' t' where first: "trace_steps ce (take m xs) cw = Inr (zs, cw')" "TraceOnBP cw' = Some t'" "tracing n n t'"
    "trace_datatype t' = trace_datatype t" "is_traced t' = is_traced t"
    using trace_steps_within [OF parts(1) assms(2-4)] assms(6) m by auto
  have "ept_handleHardwareBreakpoint ce (y, cw') = Inl BeyondTrace"
    using trace_step_beyond [OF first(2) _ first(3)] parts first(4,5) by simp
  then have "trace_steps ce (take m xs @ y # ys) cw = Inl BeyondTrace" by (simp add: trace_steps_append first(1))
  then show ?thesis using split by simp
qed

section \<open>The start\<close>

lemma traceonbp_start:
  assumes res: "ept_cloak_traceonbp ce mem True pa flags (of_nat n) xw = Inr (0, x1, cw1)" and t: "TraceOnBP cw1 = Some t"
    and n: "160 + sizeof_event (trace_type flags) * n < 2 ^ 31"
  shows "trace_count t = of_nat n \<and> trace_datatype t = trace_type flags \<and> trace_pe t = [] \<and> \<not> shouldquit t \<and> \<not> finished t \<and>
    trace_room t = 80 + sizeof_event (trace_type flags) * n"
proof -
  have "(160 + of_nat (sizeof_event (trace_type flags)) * of_nat n :: u32) = of_nat (160 + sizeof_event (trace_type flags) * n)"
    by simp
  then have bytes: "trace_bytes (trace_type flags) (of_nat n) = 160 + sizeof_event (trace_type flags) * n"
    unfolding trace_bytes_def using n by (simp only: unsigned_of_nat) (simp add: take_bit_nat_eq_self)
  show ?thesis
    using res t unfolding ept_cloak_traceonbp_def Let_def
    by (auto simp: bytes split: sum.splits option.splits if_splits)
qed

lemma trigger_start:
  assumes res: "trigger_trace ce t (x, cw) = Inr (x2, cw2)" and t2: "TraceOnBP cw2 = Some t2"
    and t: "trace_count t = of_nat n" "trace_pe t = []" "\<not> shouldquit t" "\<not> finished t"
      "trace_room t = 80 + sizeof_event (trace_datatype t) * n" and n: "0 < n"
  shows "tracing n 1 t2 \<and> trap_flag x2 \<and> trace_datatype t2 = trace_datatype t \<and>
    map Some (trace_pe t2) = [recordState (cloak_vm_env ce) (trace_datatype t) x2]"
proof -
  obtain c where c: "data_of cw (trace_cloakdata t) = Inr c" using res by (auto simp: trigger_trace_def split: sum.splits)
  let ?x = "set_byte (executable_byte c (trace_PhysicalAddress t)) (trace_originalbyte t)
    (vm_set vm_guest_rflags (set_bit 8 (vmread vm_guest_rflags (vm x))) x)"
  obtain e where e: "recordState (cloak_vm_env ce) (trace_datatype t) ?x = Some e"
    using res c by (auto simp: trigger_trace_def record_trace_def Let_def split: option.splits)
  have "record_trace (cloak_vm_env ce) ?x t = Inr (t\<lparr>trace_pe := [e], trace_count := trace_count t - 1\<rparr>)"
    using record_trace_room [OF e t(5)] t(2) n by simp
  then have "x2 = ?x" "cw2 = cw\<lparr>TraceOnBP := Some (t\<lparr>trace_pe := [e], trace_count := trace_count t - 1, triggered := True,
      triggeredcr3 := vmread vm_guest_cr3 (vm ?x), triggeredgsbase := vmread vm_guest_gs_base (vm ?x),
      triggeredfsbase := vmread vm_guest_fs_base (vm ?x)\<rparr>)\<rparr>"
    using res c by (auto simp: trigger_trace_def Let_def)
  then show ?thesis using t2 t e by (auto simp: tracing_def trap_flag_def bit_simps)
qed

section \<open>Properties\<close>

text \<open>
  C11: A trace of \<open>n\<close> entries records the state at the breakpoint and at every single step of its thread, in order, and
  the client sees their number and whether it has ended. The thread runs on with the trap flag, so that its next instruction
  is a step as well, after every entry but the last of at least two: with that one the trace has ended and the flag is off. A
  further step, which a trace that has ended does not refuse and a trace of one entry even asks for, is written behind the log.
\<close>

theorem trace_log_room:
  assumes start: "ept_cloak_traceonbp ce mem True pa flags (of_nat n) (x0, cw0) = Inr (0, x1, cw1)" and "TraceOnBP cw1 = Some t1"
    and n: "0 < n" "160 + sizeof_event (trace_type flags) * n < 2 ^ 31"
    and trigger: "trigger_trace ce t1 (x, cw1) = Inr (x2, cw2)" and "TraceOnBP cw2 = Some t2"
    and steps: "\<forall>y\<in>set xs. is_traced t2 y \<and> recordState (cloak_vm_env ce) (trace_type flags) y \<noteq> None"
  shows "if length xs < n
    then \<exists>ys cw3 t3. trace_steps ce xs cw2 = Inr (ys, cw3) \<and> TraceOnBP cw3 = Some t3 \<and>
      map Some (trace_pe t3) = map (recordState (cloak_vm_env ce) (trace_type flags)) (x2 # xs) \<and>
      map trap_flag (x2 # ys) = map (\<lambda>i. i \<noteq> n \<or> n = 1) [1..<length xs + 2] \<and>
      ept_cloak_traceonbp_getstatus cw3 = (if 2 \<le> n \<and> length xs + 1 = n then 3 else 2, of_nat (length xs + 1), of_nat n)
    else trace_steps ce xs cw2 = Inl BeyondTrace"
proof -
  note s = traceonbp_start [OF start assms(2) n(2)]
  have t2: "tracing n 1 t2" "trap_flag x2" "trace_datatype t2 = trace_type flags"
    "map Some (trace_pe t2) = [recordState (cloak_vm_env ce) (trace_type flags) x2]"
    using trigger_start [OF trigger assms(6), of n] s n(1) by simp_all
  have st: "steps_of ce t2 xs" using steps t2(3) by (simp add: steps_of_def)
  have "n \<le> sizeof_event (trace_type flags) * n" using sizeof_event_large [of "trace_type flags"] by simp
  then have small: "n < 2 ^ 31" using n(2) by linarith
  show ?thesis
  proof (cases "length xs < n")
    case True
    then obtain ys cw3 t3 where r: "trace_steps ce xs cw2 = Inr (ys, cw3)" "TraceOnBP cw3 = Some t3" "tracing n (Suc (length xs)) t3"
      "map Some (trace_pe t3) = map (recordState (cloak_vm_env ce) (trace_type flags)) (x2 # xs)"
      "map trap_flag ys = map (\<lambda>i. i \<noteq> n) [2..<length xs + 2]"
      using trace_steps_within [OF st assms(6) t2(1)] small t2(3,4) by (auto simp: numeral_2_eq_2)
    have "map trap_flag ys = map (\<lambda>i. i \<noteq> n \<or> n = 1) [2..<length xs + 2]"
      using r(5) True by (cases "n = 1") auto
    then have "map trap_flag (x2 # ys) = map (\<lambda>i. i \<noteq> n \<or> n = 1) [1..<length xs + 2]"
      using t2(2) upt_conv_Cons [of 1 "length xs + 2"] by (auto simp: numeral_2_eq_2)
    moreover
    have "ept_cloak_traceonbp_getstatus cw3 = (if 2 \<le> n \<and> length xs + 1 = n then 3 else 2, of_nat (length xs + 1), of_nat n)"
      using r(2,3) by (auto simp: ept_cloak_traceonbp_getstatus_def tracing_def)
    ultimately show ?thesis using True r by auto
  next
    case False
    then show ?thesis using trace_steps_beyond [OF st assms(6) t2(1) _ _ small] n(1) by simp
  qed
qed

text \<open>A trace of two entries at \<open>0x5008\<close>, and a step after it.\<close>

definition example_traced :: exit_state where
  "example_traced = vm_set vm_exit_qualification 0x4000 example_exit"

theorem trace_log_room_witness:
  "\<exists>x1 cw1 t1 x2 cw2. ept_cloak_traceonbp example_cloak_env None True 0x5008 0 2 (example_patched, example_cloaks) = Inr (0, x1, cw1) \<and>
     TraceOnBP cw1 = Some t1 \<and> trigger_trace example_cloak_env t1 (example_exit, cw1) = Inr (x2, cw2) \<and>
     trap_flag x2 \<and> (\<exists>y cw3. trace_steps example_cloak_env [example_traced] cw2 = Inr ([y], cw3) \<and> \<not> trap_flag y \<and> ept_cloak_traceonbp_getstatus cw3 = (3, 2, 2)) \<and>
     trace_steps example_cloak_env [example_traced, example_traced] cw2 = Inl BeyondTrace"
proof -
  have base: "cloak_base example_cloak_env 0x5008 = 0x5000" by (simp add: cloak_base_def example_cloak_env_def example_config_def)
  have cloaked: "already_cloaked example_cloak_env example_cloaks 0x5008" by (simp add: example_cloaked)
  obtain x1 cw1 t1 where 1: "ept_cloak_traceonbp example_cloak_env None True 0x5008 0 (of_nat 2) (example_patched, example_cloaks) = Inr (0, x1, cw1)"
    "TraceOnBP cw1 = Some t1" "trace_cloakdata t1 = 0" "cloak_data cw1 0 = Some example_page"
    "trace_pe t1 = []" "trace_datatype t1 = 0" "trace_room t1 = 592"
    using activate_cloaked [OF cloaked, of None 0 example_patched] example_world base example_lookup
    by (simp add: ept_cloak_traceonbp_def ept_cloak_traceonbp_remove_def data_of_def Let_def trace_type_def trace_bytes_def sizeof_event_def)
  obtain x2 cw2 t2 where 2: "trigger_trace example_cloak_env t1 (example_exit, cw1) = Inr (x2, cw2)" "TraceOnBP cw2 = Some t2"
    "triggered t2" "triggeredcr3 t2 = 0" "triggeredfsbase t2 = 0" "triggeredgsbase t2 = 0"
    using 1 by (simp add: trigger_trace_def data_of_def record_trace_def recordState_def sizeof_event_def Let_def)
       (simp add: example_exit_def blank_state_def vmread_def vmwrite_def)
  have traced: "is_traced t2 example_traced"
    by (simp add: is_traced_def 2 example_traced_def)
      (simp add: example_exit_def blank_state_def vmread_def vmwrite_def field_bits_def bit_iff_odd)
  have ty: "trace_type 0 = 0" "160 + sizeof_event 0 * 2 < 2 ^ 31" by (simp_all add: trace_type_def sizeof_event_def)
  have rec: "recordState env 0 y \<noteq> None" for env y by (simp add: recordState_def)
  note room = trace_log_room [OF 1(1,2) _ _ 2(1,2), unfolded ty(1)]
  have "trap_flag x2 \<and> (\<exists>y cw3. trace_steps example_cloak_env [example_traced] cw2 = Inr ([y], cw3) \<and> \<not> trap_flag y \<and>
      ept_cloak_traceonbp_getstatus cw3 = (3, 2, 2))"
    using room [of "[example_traced]"] ty(2) traced rec by (auto simp: upt_conv_Cons)
  moreover have "trace_steps example_cloak_env [example_traced, example_traced] cw2 = Inl BeyondTrace"
    using room [of "[example_traced, example_traced]"] ty(2) traced rec by simp
  ultimately show ?thesis using 1(1,2) 2(1) by auto
qed

end
