(* ===== verification/Spec2Isabelle.thy ===== *)
theory Spec2Isabelle
  imports CloakIndex RealModeOperands MtrrRegisters HeapCorrect MapSlots LocksCorrect ThreadsCorrect WatchEvents RetrieveCorrect
    PrintfCorrect Descriptors CloakPages CloakBreakpoints CloakTrace
begin

text \<open>
  Verification of the core of DBVM, the hypervisor of Cheat Engine (\<open>src/dbvm/vmm\<close>).

  DBVM runs below a guest operating system. A VM exit enters a handler that works on the
  state of one virtual processor (the VMCS, the registers that the processor does not keep
  there, a few members of \<open>tcpuinfo\<close>) and on guest memory, which it finds by walking the
  guest's page tables. On processors without unrestricted guest support it emulates real mode
  instruction by instruction. The memory-cloaking feature keeps an index from physical pages to
  cloak data, first as a sorted list, later as a radix tree. The EPT code asks a list of memory
  types, built once from the MTRRs, whether a large page may map a region. All of it allocates
  from the memory manager, whose bitmap of 64-byte blocks and list of sizes live in the
  memory it manages, and sees physical memory through a window of 1024 page-table entries per
  processor.

  Theories, in the order of their dependence:

  \<^item> \<open>Prelude\<close>: machine words, masks as bit fields, shifts of array elements, the
    collections \<open>array_simps\<close> and \<open>mask_simps\<close>.
  \<^item> \<open>PageIndex\<close>: the interface of a page index as a locale (invariant, lookup, insert, remove)
    with the lemmas on inserting many entries; \<open>AddrList\<close> and \<open>PhysMap\<close> interpret it.
  \<^item> \<open>AddrList\<close> (\<open>list.c\<close>): the sorted list, its two binary searches, its buffer in bytes.
  \<^item> \<open>PhysMap\<close> (\<open>maps.c\<close>): the radix tree with 512 entries per level.
  \<^item> \<open>CloakIndex\<close> (\<open>epthandler.c\<close>: \<open>ept_cloak_activate\<close>, \<open>ept_cloak_deactivate\<close>, \<open>ept_reset\<close>): the index of
    cloaked pages over the two, with the refinement to a partial map from pages to data.
  \<^item> \<open>Vmcs\<close>: the state of a virtual processor. A VMCS field is a word cut to the width its
    encoding gives; memory is a function from physical addresses to bytes; a C pointer into
    mapped pages is the function from byte offsets to physical addresses.
  \<^item> \<open>GuestPaging\<close> (\<open>vmpaging.c\<close>, \<open>vmmhelper.c\<close>): mode tests, the four page walks, reads and
    mappings of guest memory, the choice of the paging base.
  \<^item> \<open>ControlRegs\<close> (\<open>vmeventhandler.c\<close>): \<open>setVM_CR0\<close>, \<open>setVM_CR3\<close>, \<open>setVM_CR4\<close>, split at the steps of
    the C functions, each with frame lemmas in \<open>frame_simps\<close>.
  \<^item> \<open>RealMode\<close> (\<open>realmodeemu.c\<close>): operand decoding, one definition per opcode handler, the
    dispatcher, interrupts and the emulation loop.
  \<^item> \<open>RealModeCorrect\<close> and \<open>RealModeOperands\<close>: the properties of the emulation.
  \<^item> \<open>Mtrr\<close> (\<open>epthandler.c\<close>: \<open>initMemTypeRanges\<close>, \<open>sanitizeMemoryRegions\<close>, \<open>getMTRRMapInfo\<close>): the
    ranges read from the fixed and variable MTRRs, their sanitization and the lookup.
    \<open>MtrrCorrect\<close>: the sanitization ends for up to seven ranges, its result is sorted and disjoint and keeps the strongest
    type of each address, and the lookup agrees with it. \<open>MtrrRegisters\<close>: the fixed MTRRs divide the
    first megabyte without gap, a variable MTRR gives the addresses the processor compares with
    its base and mask.
  \<^item> \<open>RegionAllocator\<close>: the contract of an allocator of memory regions as a locale, with the lemmas
    on a list of regions its client owns.
  \<^item> \<open>Alloc\<close> (\<open>mm.c\<close>): the bitmap allocator \<open>malloc2\<close>, \<open>free2\<close>, \<open>realloc2\<close>, and \<open>malloc\<close>, \<open>free\<close>, \<open>realloc\<close>,
    which keep sizes in a sorted list that is itself allocated by \<open>malloc2\<close>. \<open>AllocCorrect\<close>: the
    bitmap search is a first-fit search for blocks of at most 55 units, \<open>free2\<close> gives back exactly
    the region, larger requests can get memory in use; it interprets the contract. \<open>HeapCorrect\<close>:
    over the contract, every run of \<open>malloc\<close> and \<open>free\<close> (\<open>heap_run\<close>) keeps the listed blocks and the
    list itself allocated and apart.
  \<^item> \<open>MapSlots\<close> (\<open>mm.c\<close>: \<open>mapPhysicalMemory\<close>, \<open>unmapPhysicalMemory\<close>): the mapping window of a processor;
    unmapping what was mapped restores the set of mapped entries.
  \<^item> \<open>Locks\<close> (\<open>common.c\<close>, \<open>commona.asm\<close>): the spin lock, the critical section (\<open>csEnter\<close>, \<open>csLeave\<close>) and
    the lock for many readers or one writer, as interleaved steps of the processors.
    \<open>LocksCorrect\<close>: mutual exclusion and what it depends on, and the reader count that is lost.
  \<^item> \<open>Ept\<close> (\<open>epthandler.c\<close>: \<open>EPTMapPhysicalMemory\<close>): the extended page tables in physical memory,
    allocated by \<open>malloc2\<close> and typed by \<open>getMTRRMapInfo\<close>, and the walk of the processor.
    \<open>EptCorrect\<close>: every table has one role (root, level, part of the address space) and every
    step of the function keeps that and all other walks. \<open>EptMap\<close>: in terms of translations, the function
    maps a page to itself and changes nothing else, and what it does to a large page in the way.
  \<^item> \<open>PageEvents\<close> (\<open>eptstructs.h\<close>, \<open>epthandler.c\<close>: \<open>fillPageEventBasic\<close>, \<open>saveStack\<close>, \<open>recordState\<close>): the
    state of a processor at an exit and what is recorded of it. \<open>SingleStep\<close> (\<open>vmxsetup.c\<close>,
    \<open>vmeventhandler.c\<close>: \<open>handleSingleStep\<close>): running one instruction for a list of reasons.
  \<^item> \<open>BrokenThreads\<close> (\<open>epthandler.c\<close>): threads of the guest kept in a loop, with the requests of the
    client and the handlers of their breakpoint and step. \<open>ThreadsCorrect\<close>: a stopped thread gets
    its registers back, but not its flags, and how many threads the list has room for.
  \<^item> \<open>Watch\<close> (\<open>epthandler.c\<close>: \<open>ept_watch_activate\<close>, \<open>ept_watch_deactivate\<close>, \<open>ept_handleWatchEvent\<close>,
    \<open>ept_handleWatchEventAfterStep\<close>): watches of physical pages over the extended page tables.
    \<open>WatchPages\<close>: the translations before and after a watch is started. \<open>WatchLogs\<close>: a log keeps its
    kind and its bounds over every event that is written. \<open>WatchEvents\<close>: over the states that
    starting, ending and triggering watches can reach, the logs are well typed; what an event and the step after
    it do to the page; and the watches that ending, growing and choosing lose.
  \<^item> \<open>GuestCopy\<close> (\<open>vmcall.c\<close>: \<open>vmcall_readPhysicalMemory\<close>, \<open>vmcall_writePhysicalMemory\<close>): copies between guest and
    physical memory as a repeated instruction, with the exceptions they raise. \<open>CopyCorrect\<close>: one locale for both
    directions; what a call does up to a missing page, and that the calls together are one copy.
  \<^item> \<open>WatchRetrieve\<close> (\<open>epthandler.c\<close>: \<open>ept_watch_retrievelog\<close>): the log as bytes and the repeated call that copies it
    to the client. \<open>RetrieveCorrect\<close>: the calls together copy the log once and empty it.
  \<^item> \<open>Cloak\<close> (\<open>epthandler.c\<close>: \<open>ept_cloak_activate\<close>, \<open>ept_cloak_deactivate\<close>, \<open>ept_cloak_changeregonbp\<close>,
    \<open>ept_cloak_removechangeregonbp\<close>): pages the guest executes from while it reads and writes a copy, over the index
    and the extended page tables, and breakpoints in them. \<open>CloakEvents\<close> (\<open>epthandler.c\<close>: \<open>ept_handleCloakEvent\<close>,
    \<open>ept_handleSoftwareBreakpoint\<close>, \<open>ept_handleHardwareBreakpoint\<close>, the \<open>ept_cloak_traceonbp\<close> functions): accesses, breakpoints that
    change registers, and the trace that a breakpoint starts. \<open>CloakPages\<close>: the translations before and after a page is
    cloaked, as those of a watch of reads and writes. \<open>CloakBreakpoints\<close>: the page behind the breakpoints stays the same over
    every history of them, and over a step. \<open>CloakTrace\<close>: the entries of a trace, and the step its log has no room for.
  \<^item> \<open>CStrings\<close> (\<open>common.c\<close>): the string functions over buffers, classes of characters, numbers as text.
    \<open>CStringsCorrect\<close>: copies, comparisons and searches on terminated strings, and which of them do not do
    what C asks for. \<open>NumbersCorrect\<close>: \<open>itoa\<close> and \<open>lltoa\<close> against the digits of a number, and \<open>atoi2\<close> as their inverse.
  \<^item> \<open>Printf\<close> (\<open>common.c\<close>: \<open>vbuildstring\<close>, \<open>sprintf\<close>, \<open>snprintf\<close>): formatted output in two passes. \<open>PrintfCorrect\<close>: its
    result against a list of directives when it fits, and the overflow of the buffer when it does not.
  \<^item> \<open>Descriptors\<close> (\<open>common.c\<close>): segment descriptors with the limit the processor sees, bit counts.

  Conventions. A handler is a function from the state to the state and the C result; \<open>None\<close> is
  a fault or a deliberate endless loop of the hypervisor itself. 64-bit C integers are \<open>u64\<close>;
  array indexes and sizes are \<open>nat\<close> where the code keeps them small, and wrap-around is written
  out where it matters, and a shift by the full width, undefined in C, is what the processor
  makes of it (a shift by 0). Loops are structural recursion or \<open>function\<close> with a measure; the
  emulation loop, which may run for ever, is a \<open>partial_function\<close>; the loops of the sanitization are
  \<open>partial_function\<close>s too. These are proved to end for up to seven ranges; with more they end or run
  into the endless loop that \<open>epthandler.c\<close> enters on purpose for more than 100 ranges, which is a value of its own,
  \<open>LoopsForever\<close>, and no result. No fuel is used. What the environment answers
  (allocation failures, pending interrupts, MSRs, the host page tables) is an argument or part
  of the state.

  Extended page tables are words of physical memory, read and written through their physical
  addresses; where the heap of the hypervisor lies in it is the argument \<open>VirtualToPhysical\<close>. The
  steps of the locks are the accesses to shared memory, one at a time in any order.

  Not modelled: the AMD branches, TLB and EPT invalidation, the calls of the locks in the
  sequential handlers and debug output, the set-up of the memory manager
  (\<open>InitializeMM\<close>, the pages added to it later, the page tables of the mapping windows and
  the window shared by all processors), its contiguous allocations, the VM exit dispatcher, VMX setup and nested VMX, devices, the vmcall
  interface apart from the two copies of physical memory, the vendored Lua, TCC and disassembler, and everything outside \<open>dbvm\<close> (the Windows
  program, its driver and its server).
\<close>

end
